(* ===== verification/Prelude.thy ===== *)
theory Prelude
  imports
    Complex_Main
    "HOL-Library.AList"
    "HOL-Library.Char_ord"
    "HOL-Library.List_Lexorder"
    "HOL-Library.Product_Lexorder"
begin

text \<open>
  Shared vocabulary of the development: the Python values the runtime passes around
  (decoded JSON and ``Any'' fields), the part of the Python standard library that the modelled
  code uses on them (truth values, \<open>str\<close>, \<open>int\<close>, \<open>dict.get\<close>, string methods), error
  sums, and the generic list and dictionary lemmas that the component theories share.

  Conventions. A Python \<open>str\<close> is a HOL \<open>string\<close> (a list of characters, read as code points
  below 256; case mapping and \<open>isalnum\<close> are those of ASCII). A Python \<open>int\<close> is an \<open>int\<close>.
  A finite Python \<open>float\<close> is the rational it denotes, with exact arithmetic; NaN and the
  infinities are not represented. A \<open>dict\<close> with string keys is an association list in
  insertion order. A raised exception is an \<open>Inl\<close>.
\<close>

section \<open>Rule collections\<close>

named_theorems py_simps "evaluation of the Python primitives"
named_theorems dict_simps "lookup and update of dictionaries"
named_theorems res_simps "error results"

section \<open>Python values\<close>

datatype (discs_sels) pyval =
    PNone
  | PBool (bool_of: bool)
  | PInt (int_of: int)
  | PFloat (float_of: rat)
  | PStr (str_of: string)
  | PList (list_of: "pyval list")
  | PDict (dict_of: "(string \<times> pyval) list")

type_synonym pydict = "(string \<times> pyval) list"

datatype pyexn = PyTypeError | PyValueError | PyKeyError | PyIndexError | PyRuntimeError | PyOtherError string

fun truthy :: "pyval \<Rightarrow> bool" where
  "truthy PNone = False"
| "truthy (PBool b) = b"
| "truthy (PInt i) = (i \<noteq> 0)"
| "truthy (PFloat q) = (q \<noteq> 0)"
| "truthy (PStr s) = (s \<noteq> [])"
| "truthy (PList xs) = (xs \<noteq> [])"
| "truthy (PDict d) = (d \<noteq> [])"

definition py_or :: "pyval \<Rightarrow> pyval \<Rightarrow> pyval" where
  "py_or v w = (if truthy v then v else w)"

definition str_or :: "string \<Rightarrow> string \<Rightarrow> string" where
  "str_or s t = (if s \<noteq> [] then s else t)"

definition py_is_true :: "pyval \<Rightarrow> bool" where
  "py_is_true v \<longleftrightarrow> v = PBool True"

definition py_is_false :: "pyval \<Rightarrow> bool" where
  "py_is_false v \<longleftrightarrow> v = PBool False"

section \<open>Dictionaries\<close>

definition dget :: "pydict \<Rightarrow> string \<Rightarrow> pyval" where
  "dget d k = (case map_of d k of None \<Rightarrow> PNone | Some v \<Rightarrow> v)"

definition dget_or :: "pydict \<Rightarrow> string \<Rightarrow> pyval \<Rightarrow> pyval" where
  "dget_or d k w = (case map_of d k of None \<Rightarrow> w | Some v \<Rightarrow> v)"

definition dhas :: "pydict \<Rightarrow> string \<Rightarrow> bool" where
  "dhas d k \<longleftrightarrow> k \<in> set (map fst d)"

definition dkeys :: "('k \<times> 'v) list \<Rightarrow> 'k set" where
  "dkeys d = set (map fst d)"

text \<open>\<open>d[k] = v\<close>: in place when the key exists, else appended.\<close>

abbreviation dset :: "'k \<Rightarrow> 'v \<Rightarrow> ('k \<times> 'v) list \<Rightarrow> ('k \<times> 'v) list" where
  "dset \<equiv> AList.update"

definition dupdate :: "('k \<times> 'v) list \<Rightarrow> ('k \<times> 'v) list \<Rightarrow> ('k \<times> 'v) list" where
  "dupdate d e = fold (\<lambda>(k, v) acc. dset k v acc) e d"

abbreviation ddel :: "'k \<Rightarrow> ('k \<times> 'v) list \<Rightarrow> ('k \<times> 'v) list" where
  "ddel \<equiv> AList.delete"

definition coerce_dict :: "pyval \<Rightarrow> pydict" where
  "coerce_dict v = (case v of PDict d \<Rightarrow> d | _ \<Rightarrow> [])"

lemma map_of_dset [simp, dict_simps]: "map_of (dset k v d) = (map_of d)(k \<mapsto> v)"
  by (simp add: update_conv')

lemma dget_dset [dict_simps]: "dget (dset k v d) k' = (if k' = k then v else dget d k')"
  by (simp add: dget_def)

lemma dkeys_dset [simp, dict_simps]: "dkeys (dset k v d) = insert k (dkeys d)"
  by (simp add: dkeys_def dom_update dom_map_of_conv_image_fst [symmetric])

lemma dkeys_dom: "dkeys d = dom (map_of d)"
  by (simp add: dkeys_def dom_map_of_conv_image_fst)

lemma map_of_fst_Some: "k \<in> fst ` set d \<longleftrightarrow> (\<exists>v. map_of d k = Some v)"
  by (metis domD domIff dom_map_of_conv_image_fst option.distinct(1))

lemma set_dset: "set (dset k v d) \<subseteq> insert (k, v) (set d)"
  by (induction d) auto

lemma distinct_dset: "distinct (map fst d) \<Longrightarrow> distinct (map fst (dset k v d))"
  by (rule distinct_update)

lemma map_of_fold_dset:
  "map_of (fold (\<lambda>x d. dset (f x) (g x) d) xs d) = fold (\<lambda>x m. m(f x \<mapsto> g x)) xs (map_of d)"
  by (induction xs arbitrary: d) auto

lemma distinct_fold_dset:
  "distinct (map fst d) \<Longrightarrow> distinct (map fst (fold (\<lambda>x d. dset (f x) (g x) d) xs d))"
  by (induction xs arbitrary: d) (auto intro: distinct_dset)

lemma dkeys_fold_dset: "dkeys (fold (\<lambda>x d. dset (f x) (g x) d) xs d) = dkeys d \<union> f ` set xs"
  by (induction xs arbitrary: d) auto

lemma coerce_dict_PDict [simp]: "coerce_dict (PDict d) = d"
  by (simp add: coerce_dict_def)

lemma map_of_map_values: "map_of (map (\<lambda>(k, v). (k, f k v)) d) x = map_option (f x) (map_of d x)"
  by (induction d) auto

lemma map_of_fold_values:
  "distinct (map fst d) \<Longrightarrow> map_of (fold (\<lambda>(k, v). dset k (f k v)) d m) x =
     (case map_of d x of Some v \<Rightarrow> Some (f x v) | None \<Rightarrow> map_of m x)"
proof (induction d arbitrary: m)
  case (Cons p d)
  obtain k v where p: "p = (k, v)" by force
  have "k \<notin> dom (map_of d)" using Cons.prems by (simp add: p dom_map_of_conv_image_fst)
  then have "map_of d k = None" by (simp add: domIff)
  then show ?case using Cons by (simp add: p split: option.split)
qed simp

lemma dkeys_fold_values: "dkeys (fold (\<lambda>(k, v). dset k (f k v)) d m) = dkeys m \<union> dkeys d"
proof (induction d arbitrary: m)
  case (Cons p d)
  obtain k v where p: "p = (k, v)" by force
  have "dkeys (p # d) = insert k (dkeys d)" by (simp add: p dkeys_def)
  with Cons show ?case by (simp add: p)
qed (simp add: dkeys_def)

lemma distinct_fold_values: "distinct (map fst m) \<Longrightarrow> distinct (map fst (fold (\<lambda>(k, v). dset k (f k v)) d m))"
  by (induction d arbitrary: m) (auto intro: distinct_dset)

lemma dset_new: "k \<notin> fst ` set d \<Longrightarrow> dset k v d = d @ [(k, v)]"
  by (induction d) auto

lemma fold_dset_pairs:
  "distinct (map fst d @ map fst ps) \<Longrightarrow> fold (\<lambda>(k, v). dset k v) ps d = d @ ps"
proof (induction ps arbitrary: d)
  case (Cons p ps)
  obtain k v where p: "p = (k, v)" by force
  have "dset k v d = d @ [(k, v)]" using Cons.prems by (intro dset_new) (auto simp: p)
  then show ?case using Cons.IH [of "d @ [(k, v)]"] Cons.prems by (simp add: p)
qed simp

lemma dset_present:
  "distinct (map fst d) \<Longrightarrow> k \<in> fst ` set d \<Longrightarrow> dset k v d = map (\<lambda>(k', w). (k', if k' = k then v else w)) d"
proof (induction d)
  case (Cons p d)
  have "k \<notin> fst ` set d \<Longrightarrow> map (\<lambda>(k', w). (k', if k' = k then v else w)) d = d"
    by (rule map_idI) force
  then show ?case using Cons by (cases p) auto
qed simp

text \<open>Overwriting every value of a table that has all the keys keeps the order of its keys.\<close>

lemma fold_dset_present:
  assumes "distinct (map fst m)" "distinct (map fst d)" "fst ` set d \<subseteq> fst ` set m"
  shows "fold (\<lambda>(k, v). dset k (f k v)) d m = map (\<lambda>(k, w). (k, case map_of d k of Some v \<Rightarrow> f k v | None \<Rightarrow> w)) m"
  using assms
proof (induction d arbitrary: m)
  case Nil
  show ?case by (simp add: case_prod_unfold)
next
  case (Cons p d)
  obtain k v where p: "p = (k, v)" by force
  let ?m = "map (\<lambda>(k', w). (k', if k' = k then f k v else w)) m"
  have keys: "map fst ?m = map fst m" by (simp add: case_prod_unfold)
  have "set (map fst ?m) = set (map fst m)" by (simp only: keys)
  then have sub: "fst ` set d \<subseteq> fst ` set ?m" using Cons.prems(3) by (simp only: set_map) (simp add: p)
  have "map_of d k = None" using Cons.prems(2) by (simp add: p map_of_eq_None_iff)
  then have eq: "map (\<lambda>(k, w). (k, case map_of d k of Some v \<Rightarrow> f k v | None \<Rightarrow> w)) ?m =
      map (\<lambda>(k, w). (k, case map_of (p # d) k of Some v \<Rightarrow> f k v | None \<Rightarrow> w)) m"
    by (auto simp: p)
  have d: "distinct (map fst ?m)" unfolding keys by (rule Cons.prems(1))
  have "dset k (f k v) m = ?m" using Cons.prems(1,3) by (intro dset_present) (auto simp: p)
  then have "fold (\<lambda>(k, v). dset k (f k v)) (p # d) m = fold (\<lambda>(k, v). dset k (f k v)) d ?m" by (simp add: p)
  also have "\<dots> = map (\<lambda>(k, w). (k, case map_of d k of Some v \<Rightarrow> f k v | None \<Rightarrow> w)) ?m"
    by (rule Cons.IH [OF d _ sub]) (use Cons.prems(2) in \<open>simp add: p\<close>)
  finally show ?case unfolding eq .
qed

lemma ddel_filter: "ddel k d = filter (\<lambda>p. fst p \<noteq> k) d"
  by (induction d) auto

lemma dkeys_ddel [simp]: "dkeys (ddel k d) = dkeys d - {k}"
  by (auto simp: dkeys_def ddel_filter)

lemma distinct_ddel: "distinct (map fst d) \<Longrightarrow> distinct (map fst (ddel k d))"
  by (simp add: ddel_filter distinct_map_filter)

lemma size_map_of: "map_of d k = Some v \<Longrightarrow> size v < size (PDict d)"
proof (induction d)
  case Nil
  then show ?case by simp
next
  case (Cons p d)
  then show ?case by (cases p) (auto split: if_splits)
qed

section \<open>Strings\<close>

definition is_digit :: "char \<Rightarrow> bool" where
  "is_digit c \<longleftrightarrow> 48 \<le> (of_char c :: nat) \<and> (of_char c :: nat) \<le> 57"

definition is_upper :: "char \<Rightarrow> bool" where
  "is_upper c \<longleftrightarrow> 65 \<le> (of_char c :: nat) \<and> (of_char c :: nat) \<le> 90"

definition is_lower :: "char \<Rightarrow> bool" where
  "is_lower c \<longleftrightarrow> 97 \<le> (of_char c :: nat) \<and> (of_char c :: nat) \<le> 122"

definition is_alpha :: "char \<Rightarrow> bool" where
  "is_alpha c \<longleftrightarrow> is_upper c \<or> is_lower c"

definition is_alnum :: "char \<Rightarrow> bool" where
  "is_alnum c \<longleftrightarrow> is_alpha c \<or> is_digit c"

text \<open>The ASCII characters \<open>str.strip\<close> removes.\<close>

definition is_space :: "char \<Rightarrow> bool" where
  "is_space c \<longleftrightarrow> (let n = (of_char c :: nat) in (9 \<le> n \<and> n \<le> 13) \<or> (28 \<le> n \<and> n \<le> 32))"

definition strip :: "string \<Rightarrow> string" where
  "strip s = rev (dropWhile is_space (rev (dropWhile is_space s)))"

definition lower_char :: "char \<Rightarrow> char" where
  "lower_char c = (if is_upper c then char_of ((of_char c :: nat) + 32) else c)"

definition upper_char :: "char \<Rightarrow> char" where
  "upper_char c = (if is_lower c then char_of ((of_char c :: nat) - 32) else c)"

definition lower :: "string \<Rightarrow> string" where
  "lower s = map lower_char s"

definition upper :: "string \<Rightarrow> string" where
  "upper s = map upper_char s"

definition replace_char :: "char \<Rightarrow> char \<Rightarrow> string \<Rightarrow> string" where
  "replace_char a b s = map (\<lambda>c. if c = a then b else c) s"

fun starts_with :: "string \<Rightarrow> string \<Rightarrow> bool" where
  "starts_with [] s = True"
| "starts_with (c # p) [] = False"
| "starts_with (c # p) (x # s) = (c = x \<and> starts_with p s)"

text \<open>\<open>p in s\<close> on strings.\<close>

fun infix_of :: "string \<Rightarrow> string \<Rightarrow> bool" where
  "infix_of p [] = (p = [])"
| "infix_of p (x # s) = (starts_with p (x # s) \<or> infix_of p s)"

fun join_with :: "string \<Rightarrow> string list \<Rightarrow> string" where
  "join_with sep [] = []"
| "join_with sep [s] = s"
| "join_with sep (s # t # ss) = s @ sep @ join_with sep (t # ss)"

text \<open>Decimal printing and \<open>int(...)\<close> parsing of numerals.\<close>

fun nat_digits :: "nat \<Rightarrow> string" where
  "nat_digits n = (if n < 10 then [char_of (48 + n)] else nat_digits (n div 10) @ [char_of (48 + n mod 10)])"

declare nat_digits.simps [simp del]

definition int_str :: "int \<Rightarrow> string" where
  "int_str i = (if i < 0 then ''-'' @ nat_digits (nat (- i)) else nat_digits (nat i))"

fun digits_value :: "nat \<Rightarrow> string \<Rightarrow> nat" where
  "digits_value acc [] = acc"
| "digits_value acc (c # s) = digits_value (acc * 10 + ((of_char c :: nat) - 48)) s"

text \<open>A run of digits; single underscores may stand between digits.\<close>

fun digit_run :: "string \<Rightarrow> string option" where
  "digit_run [] = None"
| "digit_run [c] = (if is_digit c then Some [c] else None)"
| "digit_run (c # d # s) =
     (if \<not> is_digit c then None
      else if d = CHR ''_'' then map_option ((#) c) (digit_run s)
      else map_option ((#) c) (digit_run (d # s)))"

definition int_of_string :: "string \<Rightarrow> int option" where
  "int_of_string s =
     (case strip s of
        [] \<Rightarrow> None
      | c # r \<Rightarrow>
          if c = CHR ''-'' then map_option (\<lambda>ds. - int (digits_value 0 ds)) (digit_run r)
          else if c = CHR ''+'' then map_option (\<lambda>ds. int (digits_value 0 ds)) (digit_run r)
          else map_option (\<lambda>ds. int (digits_value 0 ds)) (digit_run (c # r)))"

text \<open>Truncation of a float towards zero, as \<open>int(x)\<close> does.\<close>

definition rat_trunc :: "rat \<Rightarrow> int" where
  "rat_trunc q = (if q < 0 then - \<lfloor>- q\<rfloor> else \<lfloor>q\<rfloor>)"

definition py_int :: "pyval \<Rightarrow> pyexn + int" where
  "py_int v =
     (case v of
        PBool b \<Rightarrow> Inr (if b then 1 else 0)
      | PInt i \<Rightarrow> Inr i
      | PFloat q \<Rightarrow> Inr (rat_trunc q)
      | PStr s \<Rightarrow> (case int_of_string s of None \<Rightarrow> Inl PyValueError | Some i \<Rightarrow> Inr i)
      | _ \<Rightarrow> Inl PyTypeError)"

text \<open>
  \<open>dict(v)\<close>: a copy of an object, or an object built from a list of pairs with text keys (a pair is a
  two-item list or a two-character string). Items of other shapes count as a TypeError.
\<close>

fun dict_of_pairs :: "pyval list \<Rightarrow> pydict \<Rightarrow> pyexn + pydict" where
  "dict_of_pairs [] acc = Inr acc"
| "dict_of_pairs (PList [PStr k, v] # xs) acc = dict_of_pairs xs (dset k v acc)"
| "dict_of_pairs (PStr [a, b] # xs) acc = dict_of_pairs xs (dset [a] (PStr [b]) acc)"
| "dict_of_pairs (x # xs) acc = Inl (if is_PStr x then PyValueError else PyTypeError)"

definition py_dict :: "pyval \<Rightarrow> pyexn + pydict" where
  "py_dict v =
     (case v of
        PDict d \<Rightarrow> Inr d
      | PList xs \<Rightarrow> dict_of_pairs xs []
      | PStr s \<Rightarrow> (if s = [] then Inr [] else Inl PyValueError)
      | _ \<Rightarrow> Inl PyTypeError)"

lemma py_dict_PDict [simp]: "py_dict (PDict d) = Inr d"
  by (simp add: py_dict_def)

text \<open>\<open>float(v)\<close>: decimal literals with an optional fraction and exponent.\<close>

definition split_at_char :: "char \<Rightarrow> string \<Rightarrow> string \<times> string option" where
  "split_at_char c s =
     (takeWhile (\<lambda>x. x \<noteq> c) s, (case dropWhile (\<lambda>x. x \<noteq> c) s of [] \<Rightarrow> None | _ # r \<Rightarrow> Some r))"

definition opt_digits :: "string \<Rightarrow> string option" where
  "opt_digits s = (if s = [] then Some [] else digit_run s)"

definition mantissa_of_string :: "string \<Rightarrow> rat option" where
  "mantissa_of_string s =
     (case split_at_char (CHR ''.'') s of
        (a, None) \<Rightarrow> map_option (\<lambda>ds. of_nat (digits_value 0 ds)) (digit_run a)
      | (a, Some b) \<Rightarrow>
          (case (opt_digits a, opt_digits b) of
             (Some da, Some db) \<Rightarrow>
               (if da = [] \<and> db = [] then None
                else Some (of_nat (digits_value 0 (da @ db)) / 10 ^ length db))
           | _ \<Rightarrow> None))"

definition unsigned_float :: "string \<Rightarrow> rat option" where
  "unsigned_float s =
     (case split_at_char (CHR ''e'') (lower s) of
        (m, None) \<Rightarrow> mantissa_of_string m
      | (m, Some x) \<Rightarrow>
          (case (mantissa_of_string m, x) of
             (Some q, c # r) \<Rightarrow>
               (if c = CHR ''-'' then map_option (\<lambda>ds. q / 10 ^ digits_value 0 ds) (digit_run r)
                else map_option (\<lambda>ds. q * 10 ^ digits_value 0 ds) (digit_run (if c = CHR ''+'' then r else c # r)))
           | _ \<Rightarrow> None))"

definition float_of_string :: "string \<Rightarrow> rat option" where
  "float_of_string s =
     (case strip s of
        [] \<Rightarrow> None
      | c # r \<Rightarrow>
          if c = CHR ''-'' then map_option uminus (unsigned_float r)
          else unsigned_float (if c = CHR ''+'' then r else c # r))"

definition py_float :: "pyval \<Rightarrow> pyexn + rat" where
  "py_float v =
     (case v of
        PBool b \<Rightarrow> Inr (if b then 1 else 0)
      | PInt i \<Rightarrow> Inr (of_int i)
      | PFloat q \<Rightarrow> Inr q
      | PStr s \<Rightarrow> (case float_of_string s of None \<Rightarrow> Inl PyValueError | Some q \<Rightarrow> Inr q)
      | _ \<Rightarrow> Inl PyTypeError)"

text \<open>
  \<open>str(v)\<close>. A float is printed by its decimal expansion, at most 17 digits after the point:
  this is Python's \<open>repr\<close> for the decimal fractions in its non-exponent range.
\<close>

fun frac_digits :: "nat \<Rightarrow> rat \<Rightarrow> string" where
  "frac_digits 0 q = []"
| "frac_digits (Suc n) q =
     (if q = 0 then [] else char_of (nat (48 + \<lfloor>10 * q\<rfloor>)) # frac_digits n (10 * q - of_int \<lfloor>10 * q\<rfloor>))"

definition float_str :: "rat \<Rightarrow> string" where
  "float_str q =
     (let a = \<bar>q\<bar>; fr = frac_digits 17 (a - of_int \<lfloor>a\<rfloor>)
      in (if q < 0 then ''-'' else []) @ int_str \<lfloor>a\<rfloor> @ ''.'' @ (if fr = [] then ''0'' else fr))"

fun repr_chars :: "char \<Rightarrow> string \<Rightarrow> string" where
  "repr_chars q [] = []"
| "repr_chars q (c # s) =
     (if c = q \<or> of_char c = (92 :: nat) then [char_of (92 :: nat), c]
      else if of_char c = (10 :: nat) then [char_of (92 :: nat), CHR ''n'']
      else if of_char c = (13 :: nat) then [char_of (92 :: nat), CHR ''r'']
      else if of_char c = (9 :: nat) then [char_of (92 :: nat), CHR ''t'']
      else [c]) @ repr_chars q s"

definition str_repr :: "string \<Rightarrow> string" where
  "str_repr s =
     (let q = (if char_of (39 :: nat) \<in> set s \<and> CHR 0x22 \<notin> set s then CHR 0x22 else char_of (39 :: nat))
      in q # repr_chars q s @ [q])"

fun py_repr :: "pyval \<Rightarrow> string" where
  "py_repr PNone = ''None''"
| "py_repr (PBool b) = (if b then ''True'' else ''False'')"
| "py_repr (PInt i) = int_str i"
| "py_repr (PFloat q) = float_str q"
| "py_repr (PStr s) = str_repr s"
| "py_repr (PList xs) = ''['' @ join_with '', '' (map py_repr xs) @ '']''"
| "py_repr (PDict d) =
     ''{'' @ join_with '', '' (map (\<lambda>(k, r). str_repr k @ '': '' @ r) (map (map_prod id py_repr) d)) @ ''}''"

definition py_str :: "pyval \<Rightarrow> string" where
  "py_str v = (case v of PStr s \<Rightarrow> s | _ \<Rightarrow> py_repr v)"

lemma py_str_PStr [simp, py_simps]: "py_str (PStr s) = s"
  by (simp add: py_str_def)

text \<open>\<open>str(v or default)\<close>, the coercion the decoders use for every text field.\<close>

definition str_field :: "pyval \<Rightarrow> string \<Rightarrow> string" where
  "str_field v t = py_str (py_or v (PStr t))"

lemma str_field_PStr [simp, py_simps]: "str_field (PStr s) t = (if s = [] then t else s)"
  by (simp add: str_field_def py_or_def)

lemma str_field_PNone [simp, py_simps]: "str_field PNone t = t"
  by (simp add: str_field_def py_or_def)

text \<open>
  \<open>coerce_str_list\<close> of core/serialization.py: None gives no items, a string one item (when it is
  not empty), a list the non-empty texts of its items, anything else its own text.
\<close>

definition coerce_str_list :: "pyval \<Rightarrow> string list" where
  "coerce_str_list v =
     (case v of
        PNone \<Rightarrow> []
      | PStr s \<Rightarrow> (if s \<noteq> [] then [s] else [])
      | PList xs \<Rightarrow> filter (\<lambda>s. s \<noteq> []) (map py_str xs)
      | _ \<Rightarrow> [py_str v])"

lemma coerce_str_list_strings [simp]:
  "coerce_str_list (PList (map PStr ss)) = filter (\<lambda>s. s \<noteq> []) ss"
  by (simp add: coerce_str_list_def comp_def)

section \<open>Error results\<close>

text \<open>The items of \<open>for item in v\<close>: those of a list, the characters of a text, the keys of an object.\<close>

definition iter_items :: "pyval \<Rightarrow> pyexn + pyval list" where
  "iter_items v =
     (case v of
        PList xs \<Rightarrow> Inr xs
      | PStr s \<Rightarrow> Inr (map (\<lambda>c. PStr [c]) s)
      | PDict d \<Rightarrow> Inr (map (\<lambda>(k, _). PStr k) d)
      | _ \<Rightarrow> Inl PyTypeError)"

lemma iter_items_PList [simp]: "iter_items (PList xs) = Inr xs"
  by (simp add: iter_items_def)

definition sbind :: "'e + 'a \<Rightarrow> ('a \<Rightarrow> 'e + 'b) \<Rightarrow> 'e + 'b" where
  "sbind r f = (case r of Inl e \<Rightarrow> Inl e | Inr x \<Rightarrow> f x)"

definition guard :: "bool \<Rightarrow> 'e \<Rightarrow> 'e + unit" where
  "guard ok e = (if ok then Inr () else Inl e)"

lemma sbind_simps [simp, res_simps]:
  "sbind (Inl e) f = Inl e"
  "sbind (Inr x) f = f x"
  by (simp_all add: sbind_def)

lemma sbind_Inr_iff [res_simps]: "sbind r f = Inr y \<longleftrightarrow> (\<exists>x. r = Inr x \<and> f x = Inr y)"
  by (cases r) simp_all

lemma sbind_Inl_iff [res_simps]:
  "sbind r f = Inl e \<longleftrightarrow> r = Inl e \<or> (\<exists>x. r = Inr x \<and> f x = Inl e)"
  by (cases r) auto

lemma guard_Inr_iff [simp, res_simps]: "guard ok e = Inr u \<longleftrightarrow> ok"
  by (simp add: guard_def)

lemma guard_Inl_iff [simp, res_simps]: "guard ok e = Inl e' \<longleftrightarrow> \<not> ok \<and> e' = e"
  by (auto simp: guard_def)

fun list_all_ok :: "('a \<Rightarrow> 'e + 'b) \<Rightarrow> 'a list \<Rightarrow> 'e + 'b list" where
  "list_all_ok f [] = Inr []"
| "list_all_ok f (x # xs) = sbind (f x) (\<lambda>y. sbind (list_all_ok f xs) (\<lambda>ys. Inr (y # ys)))"

lemma list_all_ok_Inr:
  "list_all_ok f xs = Inr ys \<longleftrightarrow> list_all2 (\<lambda>x y. f x = Inr y) xs ys"
proof (induction xs arbitrary: ys)
  case Nil
  then show ?case by auto
next
  case (Cons x xs)
  then show ?case by (cases ys) (auto simp: res_simps)
qed

section \<open>Lines\<close>

definition codept :: "char \<Rightarrow> nat" where "codept c = of_char c"

text \<open>\<open>str.splitlines\<close> on code points below 256: carriage return, line feed and their pair, 11, 12, 28 to 30, 133.\<close>

definition line_break :: "char \<Rightarrow> bool" where
  "line_break c \<longleftrightarrow> codept c \<in> {10, 11, 12, 13, 28, 29, 30, 133}"

fun splitlines_from :: "string \<Rightarrow> string \<Rightarrow> string list" where
  "splitlines_from acc [] = (if acc = [] then [] else [acc])"
| "splitlines_from acc (c # s) =
     (if codept c = 13 then
        (case s of
           d # s' \<Rightarrow> (if codept d = 10 then acc # splitlines_from [] s' else acc # splitlines_from [] s)
         | [] \<Rightarrow> [acc])
      else if line_break c then acc # splitlines_from [] s
      else splitlines_from (acc @ [c]) s)"

definition splitlines :: "string \<Rightarrow> string list" where
  "splitlines s = splitlines_from [] s"

definition newline :: char where "newline = char_of (10 :: nat)"

lemma codept_char_of: "n < 256 \<Longrightarrow> codept (char_of n) = n"
  by (simp add: codept_def of_char_of)

lemma codept_newline [simp]: "codept newline = 10"
  by (simp add: newline_def codept_char_of)

text \<open>Text that \<open>splitlines\<close> keeps whole.\<close>

definition whole :: "string \<Rightarrow> bool" where
  "whole s \<longleftrightarrow> (\<forall>c \<in> set s. \<not> line_break c)"

lemma codept_13: "codept c = 13 \<Longrightarrow> line_break c"
  by (simp add: line_break_def)

lemma splitlines_whole: "whole a \<Longrightarrow> splitlines_from acc (a @ newline # t) = (acc @ a) # splitlines_from [] t"
proof (induction a arbitrary: acc)
  case Nil
  show ?case by (simp add: line_break_def)
next
  case (Cons c a)
  then have "\<not> line_break c" "codept c \<noteq> 13" "whole a" using codept_13 by (auto simp: whole_def)
  with Cons.IH show ?case by simp
qed

section \<open>Lists\<close>

text \<open>\<open>list(dict.fromkeys(xs))\<close>: the first occurrence of each item, in order.\<close>

fun dedupe_from :: "'a list \<Rightarrow> 'a list \<Rightarrow> 'a list" where
  "dedupe_from seen [] = []"
| "dedupe_from seen (x # xs) =
     (if x \<in> set seen then dedupe_from seen xs else x # dedupe_from (x # seen) xs)"

definition dedupe :: "'a list \<Rightarrow> 'a list" where
  "dedupe xs = dedupe_from [] xs"

lemma set_dedupe_from: "set (dedupe_from seen xs) = set xs - set seen"
  by (induction xs arbitrary: seen) auto

lemma distinct_dedupe_from: "distinct (dedupe_from seen xs)"
  by (induction xs arbitrary: seen) (auto simp: set_dedupe_from)

lemma set_dedupe [simp]: "set (dedupe xs) = set xs"
  by (simp add: dedupe_def set_dedupe_from)

lemma distinct_dedupe [simp]: "distinct (dedupe xs)"
  by (simp add: dedupe_def distinct_dedupe_from)

text \<open>The last \<open>n\<close> items, \<open>xs[-n:]\<close> for positive \<open>n\<close>.\<close>

definition last_n :: "nat \<Rightarrow> 'a list \<Rightarrow> 'a list" where
  "last_n n xs = drop (length xs - n) xs"

lemma length_last_n [simp]: "length (last_n n xs) = min n (length xs)"
  by (simp add: last_n_def)

lemma last_n_snoc: "0 < n \<Longrightarrow> last_n n (xs @ [x]) = last_n (n - 1) xs @ [x]"
  by (cases n) (auto simp: last_n_def Suc_diff_le)

lemma dropWhile_sorted_filter:
  assumes "sorted ts" and "\<And>x y. x \<le> y \<Longrightarrow> P y \<Longrightarrow> P x"
  shows "dropWhile P ts = filter (\<lambda>t. \<not> P t) ts"
  using assms(1)
proof (induction ts)
  case Nil
  then show ?case by simp
next
  case (Cons t ts)
  show ?case
  proof (cases "P t")
    case True
    then show ?thesis using Cons by simp
  next
    case False
    then have "\<And>x. x \<in> set ts \<Longrightarrow> \<not> P x"
      using Cons.prems assms(2) by auto
    then show ?thesis using False by (auto simp: filter_id_conv [symmetric])
  qed
qed

end
