(* ===== verification/Transitions.thy ===== *)
theory Transitions
  imports Prelude
begin

text \<open>
  The contract of a guarded state machine: a check that either refuses a transition or lets the
  state become the requested one, with terminal states that no transition leaves. The step states of
  the durable store and the candidate fates are its two instances.
\<close>

fun run_checks :: "('s \<Rightarrow> 's \<Rightarrow> 'e + 's) \<Rightarrow> 's \<Rightarrow> 's list \<Rightarrow> 'e + 's" where
  "run_checks check s [] = Inr s"
| "run_checks check s (t # ts) = sbind (check s t) (\<lambda>u. run_checks check u ts)"

locale guarded_machine =
  fixes check :: "'s \<Rightarrow> 's \<Rightarrow> 'e + 's"
    and known :: "'s \<Rightarrow> bool"
    and terminal :: "'s \<Rightarrow> bool"
  assumes check_known: "check s t = Inr u \<Longrightarrow> known u"
    and check_self: "known s \<Longrightarrow> check s s = Inr s"
    and terminal_stuck: "terminal s \<Longrightarrow> check s t = Inr u \<Longrightarrow> u = s"
begin

lemma terminal_absorbing: "terminal s \<Longrightarrow> run_checks check s ts = Inr u \<Longrightarrow> u = s"
  by (induction ts arbitrary: s) (auto simp: sbind_Inr_iff dest: terminal_stuck)

lemma run_known: "known s \<Longrightarrow> run_checks check s ts = Inr u \<Longrightarrow> known u"
  by (induction ts arbitrary: s) (auto simp: sbind_Inr_iff dest: check_known)

lemma run_append:
  "run_checks check s (ts @ us) = sbind (run_checks check s ts) (\<lambda>u. run_checks check u us)"
proof (induction ts arbitrary: s)
  case (Cons t ts)
  then show ?case by (cases "check s t") simp_all
qed simp

lemma terminal_refuses: "terminal s \<Longrightarrow> t \<noteq> s \<Longrightarrow> (\<And>u. check s t = Inr u \<Longrightarrow> u = t) \<Longrightarrow> \<exists>e. check s t = Inl e"
  by (metis sum.exhaust terminal_stuck)

end

end
