(* ===== verification/Genome.thy ===== *)
theory Genome
  imports Prelude
begin

text \<open>
  candidates/genome.py: candidate fates, the candidate genome with its construction-time
  normalization, its decoding from JSON, and the population.
\<close>

section \<open>Fates\<close>

definition ALL_FATES :: "string list" where
  "ALL_FATES = [''Active'', ''Elite'', ''Incubating'', ''Dormant'', ''Auxiliary'', ''Culled'', ''Failed'']"

text \<open>\<open>CandidateFate.normalize\<close>; the default of the keyword argument is \<open>Some\<close> text or absent.\<close>

definition normalize_fate :: "pyval \<Rightarrow> string option \<Rightarrow> string" where
  "normalize_fate v dflt =
     (let raw = strip (str_field v [])
      in if raw \<in> set ALL_FATES then raw
         else case dflt of Some t \<Rightarrow> t | None \<Rightarrow> ''Active'')"

lemma strip_fate [simp]: "f \<in> set ALL_FATES \<Longrightarrow> strip f = f"
  by (auto simp: ALL_FATES_def strip_def is_space_def Let_def)

lemma fate_nonempty: "f \<in> set ALL_FATES \<Longrightarrow> f \<noteq> []"
  by (auto simp: ALL_FATES_def)

lemma normalize_fate_id [simp]: "f \<in> set ALL_FATES \<Longrightarrow> normalize_fate (PStr f) d = f"
  by (simp add: normalize_fate_def fate_nonempty)

lemma normalize_fate_cases:
  "normalize_fate v d \<in> set ALL_FATES \<or> (case d of Some t \<Rightarrow> normalize_fate v d = t | None \<Rightarrow> False)"
  by (auto simp: normalize_fate_def Let_def ALL_FATES_def split: option.splits)

lemma normalize_fate_total [simp]: "normalize_fate v None \<in> set ALL_FATES"
  using normalize_fate_cases [of v None] by simp

section \<open>The genome\<close>

record candidate =
  cg_id :: string
  cg_parent_ids :: "string list"
  cg_generation :: int
  cg_lineage :: "string list"
  cg_artifact :: pyval
  cg_artifact_type :: string
  cg_concise_claim :: string
  cg_core_mechanism :: string
  cg_assumptions :: "string list"
  cg_missing_parts :: "string list"
  cg_uncertainty_notes :: "string list"
  cg_edge_knowledge_seeds :: "string list"
  cg_inherited_genes :: "string list"
  cg_mutation_history :: "string list"
  cg_tool_results :: "pydict list"
  cg_verification_trace :: "pydict list"
  cg_formal_artifacts :: "pydict list"
  cg_proof_obligations :: "pydict list"
  cg_obligation_delta :: pydict
  cg_evidence_refs :: "pydict list"
  cg_source_bindings :: "pydict list"
  cg_evidence_delta :: pydict
  cg_verification_result :: pydict
  cg_novelty_descriptors :: "string list"
  cg_niche_memberships :: "string list"
  cg_failure_lessons :: "string list"
  cg_current_fate :: string
  cg_multihead_scores :: "(string \<times> rat) list"
  cg_contract_hash :: string
  cg_created_at :: string
  cg_metadata :: pydict

definition nonempty_strs :: "string list \<Rightarrow> string list" where
  "nonempty_strs ss = filter (\<lambda>s. s \<noteq> []) ss"

definition clamp01 :: "rat \<Rightarrow> rat" where
  "clamp01 q = max 0 (min 1 q)"

text \<open>
  \<open>__post_init__\<close>: text lists lose their empty items, the lineage is non-empty and names the
  candidate itself, the fate is a known one, the scores are bounded.
\<close>

definition candidate_init :: "candidate \<Rightarrow> candidate" where
  "candidate_init c =
     (let parents = nonempty_strs (cg_parent_ids c);
          lin = (if cg_lineage c = [] then parents @ [cg_id c]
                 else let l = nonempty_strs (cg_lineage c)
                      in if cg_id c \<in> set l then l else l @ [cg_id c])
      in c\<lparr> cg_parent_ids := parents,
            cg_lineage := lin,
            cg_assumptions := nonempty_strs (cg_assumptions c),
            cg_missing_parts := nonempty_strs (cg_missing_parts c),
            cg_uncertainty_notes := nonempty_strs (cg_uncertainty_notes c),
            cg_edge_knowledge_seeds := nonempty_strs (cg_edge_knowledge_seeds c),
            cg_inherited_genes := nonempty_strs (cg_inherited_genes c),
            cg_mutation_history := nonempty_strs (cg_mutation_history c),
            cg_novelty_descriptors := nonempty_strs (cg_novelty_descriptors c),
            cg_niche_memberships := nonempty_strs (cg_niche_memberships c),
            cg_failure_lessons := nonempty_strs (cg_failure_lessons c),
            cg_current_fate := normalize_fate (PStr (cg_current_fate c)) None,
            cg_multihead_scores := map (\<lambda>(k, q). (k, clamp01 q)) (cg_multihead_scores c) \<rparr>)"

text \<open>\<open>_coerce_scores\<close>: the entries whose value is a number, clamped to the unit interval.\<close>

definition coerce_scores :: "pyval \<Rightarrow> (string \<times> rat) list" where
  "coerce_scores v =
     List.map_filter (\<lambda>(k, raw). case py_float raw of Inr q \<Rightarrow> Some (k, clamp01 q) | Inl _ \<Rightarrow> None) (coerce_dict v)"

text \<open>\<open>[dict(item) for item in data.get(key, []) if isinstance(item, dict)]\<close>\<close>

definition dict_items :: "pyval \<Rightarrow> pydict list" where
  "dict_items v = (case v of PList xs \<Rightarrow> map dict_of (filter is_PDict xs) | _ \<Rightarrow> [])"

definition dict_items_of :: "pydict \<Rightarrow> string \<Rightarrow> pyexn + pydict list" where
  "dict_items_of data k =
     (case dget_or data k (PList []) of
        PList xs \<Rightarrow> Inr (dict_items (PList xs))
      | PStr _ \<Rightarrow> Inr []
      | PDict _ \<Rightarrow> Inr []
      | _ \<Rightarrow> Inl PyTypeError)"

text \<open>\<open>CandidateGenome.from_dict\<close>; \<open>new_id\<close> and \<open>now\<close> are the uuid and the clock.\<close>

definition candidate_from_dict :: "string \<Rightarrow> string \<Rightarrow> pydict \<Rightarrow> pyexn + candidate" where
  "candidate_from_dict new_id now data =
     sbind (py_int (py_or (dget data ''generation'') (PInt 0))) (\<lambda>gen.
     sbind (dict_items_of data ''tool_results'') (\<lambda>tools.
     sbind (dict_items_of data ''verification_trace'') (\<lambda>trace.
     sbind (dict_items_of data ''formal_artifacts'') (\<lambda>formals.
     sbind (dict_items_of data ''proof_obligations'') (\<lambda>obls.
     sbind (dict_items_of data ''evidence_refs'') (\<lambda>refs.
     sbind (dict_items_of data ''source_bindings'') (\<lambda>binds.
     Inr (candidate_init
       \<lparr> cg_id = str_field (dget data ''id'') new_id,
         cg_parent_ids = coerce_str_list (dget data ''parent_ids''),
         cg_generation = gen,
         cg_lineage = coerce_str_list (dget data ''lineage''),
         cg_artifact = dget_or data ''artifact'' (PStr []),
         cg_artifact_type = str_field (dget data ''artifact_type'') ''answer'',
         cg_concise_claim = str_field (dget data ''concise_claim'') [],
         cg_core_mechanism = str_field (dget data ''core_mechanism'') [],
         cg_assumptions = coerce_str_list (dget data ''assumptions''),
         cg_missing_parts = coerce_str_list (dget data ''missing_parts''),
         cg_uncertainty_notes = coerce_str_list (dget data ''uncertainty_notes''),
         cg_edge_knowledge_seeds = coerce_str_list (dget data ''edge_knowledge_seeds''),
         cg_inherited_genes = coerce_str_list (dget data ''inherited_genes''),
         cg_mutation_history = coerce_str_list (dget data ''mutation_history''),
         cg_tool_results = tools,
         cg_verification_trace = trace,
         cg_formal_artifacts = formals,
         cg_proof_obligations = obls,
         cg_obligation_delta = coerce_dict (dget data ''obligation_delta''),
         cg_evidence_refs = refs,
         cg_source_bindings = binds,
         cg_evidence_delta = coerce_dict (dget data ''evidence_delta''),
         cg_verification_result =
           (if coerce_dict (dget data ''preliminary_result'') \<noteq> []
            then coerce_dict (dget data ''preliminary_result'')
            else coerce_dict (dget data ''verification_result'')),
         cg_novelty_descriptors = coerce_str_list (dget data ''novelty_descriptors''),
         cg_niche_memberships = coerce_str_list (dget data ''niche_memberships''),
         cg_failure_lessons = coerce_str_list (dget data ''failure_lessons''),
         cg_current_fate = normalize_fate (dget data ''current_fate'') None,
         cg_multihead_scores = coerce_scores (dget data ''multihead_scores''),
         cg_contract_hash = str_field (dget data ''contract_hash'') [],
         cg_created_at = str_field (dget data ''created_at'') now,
         cg_metadata = coerce_dict (dget data ''metadata'') \<rparr>))))))))"

definition strs_val :: "string list \<Rightarrow> pyval" where
  "strs_val ss = PList (map PStr ss)"

definition dicts_val :: "pydict list \<Rightarrow> pyval" where
  "dicts_val ds = PList (map PDict ds)"

text \<open>\<open>to_dict\<close>, the dataclass fields in order.\<close>

definition candidate_to_dict :: "candidate \<Rightarrow> pydict" where
  "candidate_to_dict c =
     [(''id'', PStr (cg_id c)), (''parent_ids'', strs_val (cg_parent_ids c)),
      (''generation'', PInt (cg_generation c)), (''lineage'', strs_val (cg_lineage c)),
      (''artifact'', cg_artifact c), (''artifact_type'', PStr (cg_artifact_type c)),
      (''concise_claim'', PStr (cg_concise_claim c)), (''core_mechanism'', PStr (cg_core_mechanism c)),
      (''assumptions'', strs_val (cg_assumptions c)), (''missing_parts'', strs_val (cg_missing_parts c)),
      (''uncertainty_notes'', strs_val (cg_uncertainty_notes c)),
      (''edge_knowledge_seeds'', strs_val (cg_edge_knowledge_seeds c)),
      (''inherited_genes'', strs_val (cg_inherited_genes c)),
      (''mutation_history'', strs_val (cg_mutation_history c)),
      (''tool_results'', dicts_val (cg_tool_results c)),
      (''verification_trace'', dicts_val (cg_verification_trace c)),
      (''formal_artifacts'', dicts_val (cg_formal_artifacts c)),
      (''proof_obligations'', dicts_val (cg_proof_obligations c)),
      (''obligation_delta'', PDict (cg_obligation_delta c)),
      (''evidence_refs'', dicts_val (cg_evidence_refs c)),
      (''source_bindings'', dicts_val (cg_source_bindings c)),
      (''evidence_delta'', PDict (cg_evidence_delta c)),
      (''verification_result'', PDict (cg_verification_result c)),
      (''novelty_descriptors'', strs_val (cg_novelty_descriptors c)),
      (''niche_memberships'', strs_val (cg_niche_memberships c)),
      (''failure_lessons'', strs_val (cg_failure_lessons c)),
      (''current_fate'', PStr (cg_current_fate c)),
      (''multihead_scores'', PDict (map (\<lambda>(k, q). (k, PFloat q)) (cg_multihead_scores c))),
      (''contract_hash'', PStr (cg_contract_hash c)), (''created_at'', PStr (cg_created_at c)),
      (''metadata'', PDict (cg_metadata c))]"

section \<open>Mutators\<close>

definition mark_fate :: "candidate \<Rightarrow> pyval \<Rightarrow> pyexn + candidate" where
  "mark_fate c fate =
     (let normalized = normalize_fate fate (Some [])
      in if normalized \<notin> set ALL_FATES then Inl PyValueError
         else Inr (c\<lparr>cg_current_fate := normalized\<rparr>))"

text \<open>Feedback is an object with \<open>to_dict\<close> or an object (\<open>PDict\<close>), or any other value.\<close>

definition add_tool_feedback :: "candidate \<Rightarrow> pyval \<Rightarrow> candidate" where
  "add_tool_feedback c fb =
     c\<lparr>cg_tool_results := cg_tool_results c @
        [case fb of PDict d \<Rightarrow> d
         | v \<Rightarrow> [(''tool_id'', PStr ''unknown''), (''status'', PStr ''unknown''),
                (''raw_output_ref'', PStr (py_str v))]]\<rparr>"

definition add_verification_feedback :: "candidate \<Rightarrow> pyval \<Rightarrow> candidate" where
  "add_verification_feedback c fb =
     c\<lparr>cg_verification_trace := cg_verification_trace c @
        [case fb of PDict d \<Rightarrow> d
         | v \<Rightarrow> [(''status'', PStr ''unknown''), (''raw_output_ref'', PStr (py_str v))]]\<rparr>"

definition extract_inheritable_gene_summary :: "candidate \<Rightarrow> string" where
  "extract_inheritable_gene_summary c =
     join_with ''; '' (nonempty_strs
       (str_or (cg_core_mechanism c) (cg_concise_claim c) # cg_edge_knowledge_seeds c @ cg_failure_lessons c))"

definition genome_hash :: "(pyval \<Rightarrow> string) \<Rightarrow> candidate \<Rightarrow> string" where
  "genome_hash stable_hash c = stable_hash (PDict (ddel ''created_at'' (candidate_to_dict c)))"

section \<open>Population\<close>

definition population_active :: "candidate list \<Rightarrow> candidate list" where
  "population_active cs = filter (\<lambda>c. normalize_fate (PStr (cg_current_fate c)) None = ''Active'') cs"

definition population_by_id :: "candidate list \<Rightarrow> (string \<times> candidate) list" where
  "population_by_id cs = fold (\<lambda>c d. dset (cg_id c) c d) cs []"

definition population_integrate :: "candidate list \<Rightarrow> candidate list \<Rightarrow> candidate list" where
  "population_integrate cs offspring =
     map snd (fold (\<lambda>c d. dset (cg_id c) c d) offspring (population_by_id cs))"

section \<open>Producer-safe payloads\<close>

definition preliminary_status :: "pyval \<Rightarrow> string" where
  "preliminary_status v =
     (let text = lower (strip (str_field v []))
      in if text \<in> set [''verified'', ''pass'', ''passed'', ''success'', ''ok'', ''preliminary_pass'']
         then ''preliminary_passed''
         else if text \<in> set [''fail'', ''failed'', ''error'', ''preliminary_fail''] then ''preliminary_failed''
         else if text \<in> set [''not_run'', ''preliminary_passed'', ''preliminary_failed'', ''inconclusive''] then text
         else str_field v ''inconclusive'')"

definition OPAQUE_KEYS :: "string list" where
  "OPAQUE_KEYS = [''artifact'', ''answer'', ''content'', ''old_text'', ''new_text'', ''raw_output'',
                  ''raw_response'', ''formal_artifacts'']"

text \<open>The rewriting of one entry: the key it is stored under, its value, and whether that value is
  a preliminary root.\<close>

definition safe_value :: "string \<Rightarrow> pyval \<Rightarrow> pyval" where
  "safe_value key v =
     (if key \<in> set [''verification_result'', ''verified_result''] then v
      else if key = ''verification_status'' then PStr (preliminary_status v)
      else if key = ''validation_status'' then PStr (preliminary_status v)
      else if key = ''objective_solved'' then PBool False
      else if key = ''solved'' \<and> is_PBool v then PBool False
      else if key = ''completion_status'' \<and> lower (strip (str_field v [])) = ''solved'' then PStr ''completed''
      else if key = ''stop_reason'' \<and> lower (strip (str_field v [])) \<in> set [''solved'', ''objective_solved'']
      then PStr ''candidate_ready_for_external_review''
      else v)"

definition safe_entry :: "bool \<Rightarrow> string \<Rightarrow> pyval \<Rightarrow> string \<times> pyval \<times> bool" where
  "safe_entry proot key v =
     (let child = (key \<in> set [''verification_result'', ''verified_result'']) in
      (if child then ''preliminary_result''
       else if key = ''verification_status'' then ''validation_status'' else key,
       if proot \<and> key = ''status'' then PStr (preliminary_status (safe_value key v)) else safe_value key v,
       child))"

lemma size_safe_value: "size (safe_value key v) \<le> size v"
  by (simp add: safe_value_def)

definition safe_status :: "pydict \<Rightarrow> pydict" where
  "safe_status out =
     (if dhas out ''validation_status'' then out
      else let status = str_field (dget out ''status'') []
           in dset ''validation_status'' (PStr
                (if status \<in> set [''not_run'', ''preliminary_passed'', ''preliminary_failed'', ''inconclusive''] then status
                 else if py_is_true (dget out ''passed'') then ''preliminary_passed''
                 else if py_is_false (dget out ''passed'') then ''preliminary_failed''
                 else ''inconclusive'')) out)"

lemma size_safe_entry: "safe_entry proot key v = (t, v', ch) \<Longrightarrow> size v' \<le> size v"
  using size_safe_value [of key v]
  by (cases "proot \<and> key = ''status''") (auto simp: safe_entry_def Let_def)

lemma size_list_pair_snd: "(k, v) \<in> set d \<Longrightarrow> size v < size (PDict d)"
  by (induction d) auto

function (sequential) producer_safe :: "bool \<Rightarrow> pyval \<Rightarrow> pyval"
  and producer_safe_entries :: "bool \<Rightarrow> pydict \<Rightarrow> pydict \<Rightarrow> pydict"
  and producer_safe_list :: "pyval list \<Rightarrow> pyval list" where
  "producer_safe proot (PList xs) = PList (producer_safe_list xs)"
| "producer_safe proot (PDict d) =
     (let out = producer_safe_entries proot d [] in PDict (if proot then safe_status out else out))"
| "producer_safe proot v = v"
| "producer_safe_entries proot [] out = out"
| "producer_safe_entries proot ((key, v) # d) out =
     producer_safe_entries proot d
       (if key \<in> set OPAQUE_KEYS then dset key v out
        else case safe_entry proot key v of (t, v', ch) \<Rightarrow> dset t (producer_safe ch v') out)"
| "producer_safe_list [] = []"
| "producer_safe_list (x # xs) = producer_safe False x # producer_safe_list xs"
  by pat_completeness auto
termination
  by (relation "measure (\<lambda>x. case x of Inl (_, v) \<Rightarrow> 2 * size v + 1
        | Inr (Inl (_, d, _)) \<Rightarrow> 2 * size (PDict d)
        | Inr (Inr xs) \<Rightarrow> 2 * size (PList xs))")
     (auto dest!: sym [of _ "safe_entry _ _ _", THEN size_safe_entry] size_safe_entry)


section \<open>Properties of the genome\<close>

definition candidate_ok :: "candidate \<Rightarrow> bool" where
  "candidate_ok c \<longleftrightarrow>
     cg_id c \<in> set (cg_lineage c) \<and> cg_current_fate c \<in> set ALL_FATES \<and>
     (\<forall>(k, q) \<in> set (cg_multihead_scores c). 0 \<le> q \<and> q \<le> 1) \<and>
     (\<forall>l \<in> {cg_parent_ids c, cg_assumptions c, cg_missing_parts c, cg_uncertainty_notes c,
            cg_edge_knowledge_seeds c, cg_inherited_genes c, cg_mutation_history c,
            cg_novelty_descriptors c, cg_niche_memberships c, cg_failure_lessons c}. [] \<notin> set l)"

lemma nonempty_strs_no_empty [simp]: "[] \<notin> set (nonempty_strs ss)"
  by (simp add: nonempty_strs_def)

lemma nonempty_strs_id [simp]: "[] \<notin> set ss \<Longrightarrow> nonempty_strs ss = ss"
  by (auto simp: nonempty_strs_def filter_id_conv)

lemma clamp01_bounds [simp]: "0 \<le> clamp01 q" "clamp01 q \<le> 1"
  by (simp_all add: clamp01_def)

lemma clamp01_id [simp]: "0 \<le> q \<Longrightarrow> q \<le> 1 \<Longrightarrow> clamp01 q = q"
  by (simp add: clamp01_def)

lemma candidate_init_ok: "candidate_ok (candidate_init c)"
  by (auto simp: candidate_ok_def candidate_init_def Let_def)

lemma candidate_from_dict_ok: "candidate_from_dict nid now data = Inr c \<Longrightarrow> candidate_ok c"
  by (auto simp: candidate_from_dict_def sbind_Inr_iff candidate_init_ok)

lemma candidate_init_id:
  assumes "candidate_ok c" and "[] \<notin> set (cg_lineage c)"
  shows "candidate_init c = c"
proof -
  have "map (\<lambda>(k, q). (k, clamp01 q)) (cg_multihead_scores c) = cg_multihead_scores c"
    using assms(1) by (intro map_idI) (auto simp: candidate_ok_def)
  with assms show ?thesis
    by (auto simp: candidate_ok_def candidate_init_def Let_def)
qed

lemma coerce_strs_val [simp]: "coerce_str_list (strs_val ss) = nonempty_strs ss"
  by (simp add: strs_val_def nonempty_strs_def)

lemma filter_is_PDict [simp]: "filter is_PDict (map PDict ds) = map PDict ds"
  by (simp add: filter_id_conv)

lemma dict_items_of_dicts [simp]: "dget_or d k (PList []) = dicts_val ds \<Longrightarrow> dict_items_of d k = Inr ds"
  by (simp add: dict_items_of_def dict_items_def dicts_val_def comp_def)

lemma coerce_scores_floats:
  "coerce_scores (PDict (map (\<lambda>(k, q). (k, PFloat q)) qs)) = map (\<lambda>(k, q). (k, clamp01 q)) qs"
  by (induction qs) (auto simp: coerce_scores_def py_float_def List.map_filter_simps)

text \<open>Encoding and decoding a well-formed genome gives it back.\<close>

lemma candidate_dict_roundtrip:
  assumes "candidate_ok c" "[] \<notin> set (cg_lineage c)"
    and "cg_id c \<noteq> []" "cg_artifact_type c \<noteq> []" "cg_created_at c \<noteq> []"
  shows "candidate_from_dict nid now (candidate_to_dict c) = Inr c"
proof -
  have gen: "py_int (py_or (PInt i) (PInt 0)) = Inr i" for i
    by (simp add: py_or_def py_int_def)
  have sc: "map (\<lambda>(k, q). (k, clamp01 q)) (cg_multihead_scores c) = cg_multihead_scores c"
    using assms(1) by (intro map_idI) (auto simp: candidate_ok_def)
  have fate: "cg_current_fate c \<in> set ALL_FATES"
    using assms(1) by (simp add: candidate_ok_def)
  have lists: "nonempty_strs l = l" if "l \<in> {cg_parent_ids c, cg_lineage c, cg_assumptions c, cg_missing_parts c,
      cg_uncertainty_notes c, cg_edge_knowledge_seeds c, cg_inherited_genes c, cg_mutation_history c,
      cg_novelty_descriptors c, cg_niche_memberships c, cg_failure_lessons c}" for l
    using that assms(1,2) by (auto simp: candidate_ok_def)
  have items: "dict_items_of (candidate_to_dict c) ''tool_results'' = Inr (cg_tool_results c)"
    "dict_items_of (candidate_to_dict c) ''verification_trace'' = Inr (cg_verification_trace c)"
    "dict_items_of (candidate_to_dict c) ''formal_artifacts'' = Inr (cg_formal_artifacts c)"
    "dict_items_of (candidate_to_dict c) ''proof_obligations'' = Inr (cg_proof_obligations c)"
    "dict_items_of (candidate_to_dict c) ''evidence_refs'' = Inr (cg_evidence_refs c)"
    "dict_items_of (candidate_to_dict c) ''source_bindings'' = Inr (cg_source_bindings c)"
    by (intro dict_items_of_dicts, simp add: candidate_to_dict_def dget_or_def)+
  have "candidate_from_dict nid now (candidate_to_dict c) = Inr (candidate_init c)"
    unfolding candidate_from_dict_def items
    by (simp add: candidate_to_dict_def dget_def dget_or_def gen sc fate lists coerce_scores_floats
        assms(3-5) coerce_dict_def) (cases c; simp)
  with candidate_init_id assms(1,2) show ?thesis by simp
qed

lemma mark_fate_ok: "candidate_ok c \<Longrightarrow> mark_fate c f = Inr c' \<Longrightarrow> candidate_ok c'"
  by (auto simp: mark_fate_def Let_def candidate_ok_def split: if_splits)

text \<open>Integration keeps one candidate per id, the latest one.\<close>

lemma population_integrate_ids:
  "distinct (map cg_id (population_integrate cs os)) \<and>
   cg_id ` set (population_integrate cs os) = cg_id ` set cs \<union> cg_id ` set os"
proof -
  let ?m = "\<lambda>xs d. fold (\<lambda>c d. dset (cg_id c) c d) xs d"
  have keyed: "\<forall>(k, c) \<in> set (?m xs d). cg_id c = k" if "\<forall>(k, c) \<in> set d. cg_id c = k" for xs d
    using that
  proof (induction xs arbitrary: d)
    case (Cons x xs)
    show ?case
      using Cons.IH [of "dset (cg_id x) x d"] Cons.prems set_dset [of "cg_id x" x d] by fastforce
  qed simp
  let ?d = "?m os (?m cs [])"
  have ids: "map cg_id (map snd ?d) = map fst ?d"
    using keyed [OF keyed [of "[]" cs], of os] by (auto intro!: map_cong simp: comp_def)
  have "distinct (map fst ?d)"
    by (intro distinct_fold_dset) simp
  moreover have "set (map fst ?d) = cg_id ` set cs \<union> cg_id ` set os"
    using dkeys_fold_dset [of cg_id id os "?m cs []"] dkeys_fold_dset [of cg_id id cs "[]"]
    by (simp add: dkeys_def)
  ultimately show ?thesis
    unfolding population_integrate_def population_by_id_def
    by (metis (no_types, lifting) ids list.set_map)
qed


section \<open>Producer-safe payloads make no claim of success\<close>

text \<open>
  A value without claims: outside the opaque text fields, no legacy verification key, no
  \<open>objective_solved\<close> other than False, no true \<open>solved\<close>, and no completion status or stop reason that
  says solved.
\<close>

function (sequential) claim_free :: "pyval \<Rightarrow> bool"
  and claim_free_entries :: "pydict \<Rightarrow> bool"
  and claim_free_list :: "pyval list \<Rightarrow> bool" where
  "claim_free (PList xs) = claim_free_list xs"
| "claim_free (PDict d) = claim_free_entries d"
| "claim_free v = True"
| "claim_free_entries [] = True"
| "claim_free_entries ((k, v) # d) =
     ((k \<in> set OPAQUE_KEYS \<or>
       k \<notin> set [''verification_result'', ''verified_result'', ''verification_status''] \<and>
       (k = ''objective_solved'' \<longrightarrow> v = PBool False) \<and> (k = ''solved'' \<longrightarrow> v \<noteq> PBool True) \<and>
       (k = ''completion_status'' \<longrightarrow> v \<noteq> PStr ''solved'') \<and>
       (k = ''stop_reason'' \<longrightarrow> v \<noteq> PStr ''solved'' \<and> v \<noteq> PStr ''objective_solved'') \<and> claim_free v)
      \<and> claim_free_entries d)"
| "claim_free_list [] = True"
| "claim_free_list (x # xs) = (claim_free x \<and> claim_free_list xs)"
  by pat_completeness auto
termination
  by (relation "measure (\<lambda>x. case x of Inl v \<Rightarrow> 2 * size v + 1
        | Inr (Inl d) \<Rightarrow> 2 * size (PDict d) | Inr (Inr xs) \<Rightarrow> 2 * size (PList xs))") auto

definition entry_free :: "string \<times> pyval \<Rightarrow> bool" where
  "entry_free p \<longleftrightarrow> claim_free_entries [p]"

lemma claim_free_entries_iff: "claim_free_entries d \<longleftrightarrow> (\<forall>p \<in> set d. entry_free p)"
  by (induction d) (auto simp: entry_free_def)

lemma claim_free_dset: "claim_free_entries d \<Longrightarrow> entry_free (k, v) \<Longrightarrow> claim_free_entries (dset k v d)"
  unfolding claim_free_entries_iff using set_dset [of k v d] by blast

lemma claim_free_safe_status: "claim_free_entries out \<Longrightarrow> claim_free_entries (safe_status out)"
  by (simp add: safe_status_def Let_def claim_free_dset entry_free_def)

lemma lower_solved: "lower (strip ''solved'') = ''solved''" "lower (strip ''objective_solved'') = ''objective_solved''"
  by (code_simp, code_simp)

lemma safe_entry_free:
  assumes "safe_entry proot key v = (t, v', ch)" "key \<notin> set OPAQUE_KEYS"
    and "claim_free (producer_safe ch v')"
  shows "entry_free (t, producer_safe ch v')"
proof -
  have t: "t \<notin> set [''verification_result'', ''verified_result'', ''verification_status'']"
    using assms(1) by (auto simp: safe_entry_def Let_def split: if_splits)
  have key: "t = ''objective_solved'' \<Longrightarrow> key = ''objective_solved''" "t = ''solved'' \<Longrightarrow> key = ''solved''"
      "t = ''completion_status'' \<Longrightarrow> key = ''completion_status''" "t = ''stop_reason'' \<Longrightarrow> key = ''stop_reason''"
    using assms(1) by (auto simp: safe_entry_def Let_def split: if_splits)
  have "t = ''objective_solved'' \<Longrightarrow> v' = PBool False"
    using assms(1) key by (simp add: safe_entry_def safe_value_def Let_def)
  moreover have "producer_safe ch v' \<noteq> PBool True" if "t = ''solved''"
    using assms(1) key(2) [OF that] by (cases v) (auto simp: safe_entry_def safe_value_def Let_def)
  moreover have "producer_safe ch v' \<noteq> PStr ''solved''" if "t = ''completion_status''"
    using assms(1) key(3) [OF that] lower_solved by (cases v) (auto simp: safe_entry_def safe_value_def Let_def split: if_splits)
  moreover have "producer_safe ch v' \<noteq> PStr ''solved'' \<and> producer_safe ch v' \<noteq> PStr ''objective_solved''" if "t = ''stop_reason''"
    using assms(1) key(4) [OF that] lower_solved by (cases v) (auto simp: safe_entry_def safe_value_def Let_def split: if_splits)
  ultimately show ?thesis
    using t assms(3) by (auto simp: entry_free_def)
qed

lemma producer_safe_free:
  "claim_free (producer_safe b v)"
  "claim_free_entries out \<Longrightarrow> claim_free_entries (producer_safe_entries b d out)"
  "claim_free_list (producer_safe_list xs)"
proof (induction b v and b d out and xs rule: producer_safe_producer_safe_entries_producer_safe_list.induct)
  case (2 b d)
  then show ?case by (cases b) (simp_all add: Let_def claim_free_safe_status)
next
  case (5 b key v d out)
  obtain t v' ch where e: "safe_entry b key v = (t, v', ch)"
    by (cases "safe_entry b key v") auto
  let ?new = "if key \<in> set OPAQUE_KEYS then dset key v out else dset t (producer_safe ch v') out"
  have "claim_free_entries ?new"
  proof (cases "key \<in> set OPAQUE_KEYS")
    case True
    with 5(3) show ?thesis by (simp add: claim_free_dset entry_free_def)
  next
    case False
    with 5(1) e have "claim_free (producer_safe ch v')" by simp
    with False e 5(3) show ?thesis by (simp add: claim_free_dset safe_entry_free)
  qed
  with 5(2) e show ?case by (simp split: if_splits)
qed simp_all


text \<open>A minimal active candidate, for the concrete instances of the properties.\<close>

definition sample_candidate :: "string \<Rightarrow> pydict \<Rightarrow> candidate" where
  "sample_candidate cid md =
     \<lparr> cg_id = cid, cg_parent_ids = [], cg_generation = 0, cg_lineage = [cid], cg_artifact = PStr ''x'',
       cg_artifact_type = ''answer'', cg_concise_claim = [], cg_core_mechanism = [], cg_assumptions = [],
       cg_missing_parts = [], cg_uncertainty_notes = [], cg_edge_knowledge_seeds = [], cg_inherited_genes = [],
       cg_mutation_history = [], cg_tool_results = [], cg_verification_trace = [],
       cg_formal_artifacts = [], cg_proof_obligations = [], cg_obligation_delta = [], cg_evidence_refs = [],
       cg_source_bindings = [], cg_evidence_delta = [], cg_verification_result = [], cg_novelty_descriptors = [],
       cg_niche_memberships = [], cg_failure_lessons = [], cg_current_fate = ''Active'', cg_multihead_scores = [],
       cg_contract_hash = [], cg_created_at = ''now'', cg_metadata = md \<rparr>"

end
