(* ===== verification/Fates.thy ===== *)
theory Fates
  imports Genome Transitions
begin

text \<open>
  candidates/fate_machine.py and nexus/fate_semantics.py: the checked fate transitions with their
  bounded history, and the canonical semantics of each fate.
\<close>

section \<open>The fate machine\<close>

definition VALID_TRANSITIONS :: "(string \<times> string list) list" where
  "VALID_TRANSITIONS =
     [(''Active'', [''Elite'', ''Incubating'', ''Dormant'', ''Auxiliary'', ''Culled'', ''Failed'']),
      (''Elite'', [''Active'', ''Culled'']),
      (''Incubating'', [''Active'', ''Dormant'', ''Culled'', ''Failed'']),
      (''Dormant'', [''Active'', ''Culled'']),
      (''Auxiliary'', [''Active'', ''Culled'']),
      (''Culled'', []),
      (''Failed'', [''Dormant''])]"

definition allowed_fates :: "string \<Rightarrow> string list" where
  "allowed_fates f = (case map_of VALID_TRANSITIONS f of None \<Rightarrow> [] | Some ts \<Rightarrow> ts)"

record fate_transition =
  ft_previous :: string
  ft_target :: string
  ft_reason :: string

definition fate_transition_to_dict :: "fate_transition \<Rightarrow> pydict" where
  "fate_transition_to_dict ft =
     [(''previous'', PStr (ft_previous ft)), (''target'', PStr (ft_target ft))] @
     (if ft_reason ft \<noteq> [] then [(''reason'', PStr (ft_reason ft))] else [])"

datatype fate_error = UnknownFate pyval | IllegalTransition string string "string list"

definition validate_fate_transition :: "pyval \<Rightarrow> pyval \<Rightarrow> fate_error + fate_transition" where
  "validate_fate_transition current target =
     (let previous = normalize_fate current None;
          next_fate = normalize_fate target (Some [])
      in if next_fate \<notin> set ALL_FATES then Inl (UnknownFate target)
         else if previous = next_fate then Inr \<lparr>ft_previous = previous, ft_target = next_fate, ft_reason = []\<rparr>
         else if next_fate \<notin> set (allowed_fates previous)
         then Inl (IllegalTransition previous next_fate (sort (allowed_fates previous)))
         else Inr \<lparr>ft_previous = previous, ft_target = next_fate, ft_reason = []\<rparr>)"

text \<open>
  \<open>transition_candidate_fate\<close>. \<open>mark_fate\<close> gets the validated target, so its own check
  (a ValueError) does not fire: \<open>transition_mark_fate\<close> below.
\<close>

definition transition_candidate_fate :: "candidate \<Rightarrow> pyval \<Rightarrow> string \<Rightarrow> fate_error + candidate" where
  "transition_candidate_fate c target reason =
     sbind (validate_fate_transition (PStr (cg_current_fate c)) target) (\<lambda>tr.
       case mark_fate c (PStr (ft_target tr)) of
         Inl e \<Rightarrow> Inl (UnknownFate (PStr (ft_target tr)))
       | Inr c1 \<Rightarrow>
           (let metadata = cg_metadata c1;
                history = (case dget metadata ''fate_transition_history'' of PList h \<Rightarrow> h | _ \<Rightarrow> []);
                rec = PDict (fate_transition_to_dict (tr\<lparr>ft_reason := reason\<rparr>));
                m1 = dset ''fate_transition_history'' (PList (last_n 20 (history @ [rec]))) metadata;
                m2 = (if reason \<noteq> [] then dset ''state_transition_reason'' (PStr reason) m1 else m1)
            in Inr (c1\<lparr>cg_metadata := m2\<rparr>)))"

section \<open>Fate semantics\<close>

record fate_semantics =
  fs_fate :: string
  fs_role :: string
  fs_may_be_parent :: bool
  fs_may_reactivate :: bool
  fs_terminal :: bool
  fs_final_answer_candidate :: bool
  fs_notes :: string

definition FATE_SEMANTICS :: "(string \<times> fate_semantics) list" where
  "FATE_SEMANTICS =
     (let sem = (\<lambda>f r p re t fin notes.
            (f, \<lparr>fs_fate = f, fs_role = r, fs_may_be_parent = p, fs_may_reactivate = re,
                 fs_terminal = t, fs_final_answer_candidate = fin, fs_notes = notes\<rparr>))
      in [sem ''Active'' ''live_search_candidate'' True False False True
            ''A live candidate that can rank, reproduce, and mature toward final selection.'',
          sem ''Incubating'' ''bounded_repair_lane'' True False False False
            ''Promising but incomplete material kept alive for explicit repair obligations; not final until repaired and reverified.'',
          sem ''Dormant'' ''parked_reactivation_pool'' False True False False
            ''Parked material. It is not a winner or parent by default, but can be reactivated through a named repair/reactivation path.'',
          sem ''Elite'' ''current_best_material'' True False False True
            ''Current answer material; project verification remains advisory and user-owned after the run.'',
          sem ''Auxiliary'' ''supporting_scaffold'' False True False False
            ''Useful tool/scaffold material that supports search but is not a main answer by default.'',
          sem ''Culled'' ''removed_nonterminal_lesson'' False False True False
            ''Removed from live search; lessons may remain in archives but the candidate itself is not reactivated.'',
          sem ''Failed'' ''terminal_or_repair_seed_material'' False False True False
            ''Failed candidate. Only a separate repair-seed extraction may create new Incubating material; the failed candidate is not a live parent.''])"

text \<open>A missing key would be a KeyError; the normalized fate is always a key.\<close>

definition fate_semantics_of :: "pyval \<Rightarrow> pyexn + fate_semantics" where
  "fate_semantics_of fate =
     (case map_of FATE_SEMANTICS (normalize_fate fate None) of None \<Rightarrow> Inl PyKeyError | Some s \<Rightarrow> Inr s)"

section \<open>Properties\<close>

text \<open>The machine on bare fates, as the guarded machine of the contract.\<close>

definition fate_check :: "string \<Rightarrow> string \<Rightarrow> fate_error + string" where
  "fate_check f g = sbind (validate_fate_transition (PStr f) (PStr g)) (\<lambda>tr. Inr (ft_target tr))"

lemma fate_check_Inr:
  "fate_check f g = Inr u \<longleftrightarrow>
     u = normalize_fate (PStr g) (Some []) \<and> u \<in> set ALL_FATES \<and>
     (u = normalize_fate (PStr f) None \<or> u \<in> set (allowed_fates (normalize_fate (PStr f) None)))"
  by (auto simp: fate_check_def validate_fate_transition_def Let_def sbind_Inr_iff split: if_splits)

lemma allowed_culled: "allowed_fates ''Culled'' = []"
  by (simp add: allowed_fates_def VALID_TRANSITIONS_def)

lemma culled_fate [simp]: "normalize_fate (PStr ''Culled'') d = ''Culled''"
  by (rule normalize_fate_id) (simp add: ALL_FATES_def)

interpretation fate_machine: guarded_machine fate_check "\<lambda>f. f \<in> set ALL_FATES" "\<lambda>f. f = ''Culled''"
  by unfold_locales (auto simp: fate_check_Inr allowed_culled)

lemma allowed_subset: "set (allowed_fates f) \<subseteq> set ALL_FATES"
  by (auto simp: allowed_fates_def VALID_TRANSITIONS_def ALL_FATES_def split: if_splits)

lemma transition_mark_fate:
  "validate_fate_transition cur target = Inr tr \<Longrightarrow> mark_fate c (PStr (ft_target tr)) = Inr (c\<lparr>cg_current_fate := ft_target tr\<rparr>)"
  by (auto simp: validate_fate_transition_def mark_fate_def Let_def split: if_splits)

lemma transition_candidate_fate_Inr:
  assumes "transition_candidate_fate c target reason = Inr c'"
  shows "fate_check (cg_current_fate c) (cg_current_fate c') = Inr (cg_current_fate c') \<and>
    cg_current_fate c' \<in> set ALL_FATES \<and>
    (\<exists>h. dget (cg_metadata c') ''fate_transition_history'' = PList h \<and> h \<noteq> [] \<and> length h \<le> 20 \<and>
      last h = PDict (fate_transition_to_dict
        \<lparr>ft_previous = normalize_fate (PStr (cg_current_fate c)) None,
         ft_target = cg_current_fate c', ft_reason = reason\<rparr>))"
proof -
  obtain tr where tr: "validate_fate_transition (PStr (cg_current_fate c)) target = Inr tr"
    using assms by (auto simp: transition_candidate_fate_def sbind_Inr_iff)
  note mk = transition_mark_fate [OF tr, of c]
  have fields: "ft_previous tr = normalize_fate (PStr (cg_current_fate c)) None" "ft_target tr \<in> set ALL_FATES"
      "ft_target tr = ft_previous tr \<or> ft_target tr \<in> set (allowed_fates (ft_previous tr))"
    using tr by (auto simp: validate_fate_transition_def Let_def split: if_splits)
  show ?thesis
    using assms fields unfolding transition_candidate_fate_def tr
    by (auto simp: mk Let_def dget_dset last_n_snoc fate_check_Inr fate_transition_to_dict_def)
qed

lemma semantics_total: "\<exists>s. fate_semantics_of fate = Inr s \<and> fs_fate s = normalize_fate fate None"
proof -
  have "\<forall>f \<in> set ALL_FATES. \<exists>s. map_of FATE_SEMANTICS f = Some s \<and> fs_fate s = f"
    by (simp add: ALL_FATES_def FATE_SEMANTICS_def Let_def)
  from bspec [OF this normalize_fate_total [of fate]] show ?thesis
    by (auto simp: fate_semantics_of_def)
qed

text \<open>A run of requested transitions, each with its reason, as the callers make them one after the other.\<close>

fun fate_run :: "candidate \<Rightarrow> (pyval \<times> string) list \<Rightarrow> fate_error + candidate" where
  "fate_run c [] = Inr c"
| "fate_run c ((target, reason) # reqs) = sbind (transition_candidate_fate c target reason) (\<lambda>c'. fate_run c' reqs)"

fun chained :: "string \<Rightarrow> fate_transition list \<Rightarrow> bool" where
  "chained f [] = True"
| "chained f (tr # trs) \<longleftrightarrow> ft_previous tr = f \<and> (ft_target tr = f \<or> ft_target tr \<in> set (allowed_fates f)) \<and> chained (ft_target tr) trs"

definition fate_history :: "candidate \<Rightarrow> pyval list" where
  "fate_history c = (case dget (cg_metadata c) ''fate_transition_history'' of PList h \<Rightarrow> h | _ \<Rightarrow> [])"

lemma fate_run_append: "fate_run c (xs @ ys) = sbind (fate_run c xs) (\<lambda>c'. fate_run c' ys)"
proof (induction xs arbitrary: c)
  case (Cons x xs)
  then show ?case by (cases x; cases "transition_candidate_fate c (fst x) (snd x)") simp_all
qed simp

lemma last_n_last_n: "last_n n (last_n n xs @ ys) = last_n n (xs @ ys)"
  by (cases "n \<le> length xs") (simp_all add: last_n_def add.commute)

lemma transition_step:
  assumes "transition_candidate_fate c target reason = Inr c'" "cg_current_fate c \<in> set ALL_FATES"
  shows "chained (cg_current_fate c) [\<lparr>ft_previous = cg_current_fate c, ft_target = cg_current_fate c', ft_reason = reason\<rparr>] \<and>
    cg_current_fate c' \<in> set ALL_FATES \<and> cg_current_fate c' = normalize_fate target (Some []) \<and>
    fate_history c' = last_n 20 (fate_history c @ [PDict (fate_transition_to_dict
        \<lparr>ft_previous = cg_current_fate c, ft_target = cg_current_fate c', ft_reason = reason\<rparr>)])"
proof -
  obtain tr where tr: "validate_fate_transition (PStr (cg_current_fate c)) target = Inr tr"
    using assms by (auto simp: transition_candidate_fate_def sbind_Inr_iff)
  note mk = transition_mark_fate [OF tr, of c]
  have fields: "ft_previous tr = cg_current_fate c" "ft_target tr \<in> set ALL_FATES" "ft_target tr = normalize_fate target (Some [])"
      "ft_target tr = ft_previous tr \<or> ft_target tr \<in> set (allowed_fates (ft_previous tr))"
    using tr assms(2) by (auto simp: validate_fate_transition_def Let_def split: if_splits)
  have set: "cg_current_fate c' = ft_target tr" "fate_history c' = last_n 20 (fate_history c @
      [PDict (fate_transition_to_dict (tr\<lparr>ft_reason := reason\<rparr>))])"
    using assms(1) unfolding transition_candidate_fate_def tr by (auto simp: mk Let_def dget_dset fate_history_def)
  have "tr\<lparr>ft_reason := reason\<rparr> = \<lparr>ft_previous = cg_current_fate c, ft_target = cg_current_fate c', ft_reason = reason\<rparr>"
    using fields(1) set(1) by (cases tr) simp
  with set(2) fields set(1) show ?thesis by auto
qed

lemma chained_snoc: "chained f (trs @ [tr]) \<longleftrightarrow> chained f trs \<and> chained (last (f # map ft_target trs)) [tr]"
  by (induction f trs rule: chained.induct) auto

lemma culled_final: "chained f trs \<Longrightarrow> ''Culled'' \<in> set (f # map ft_target trs) \<Longrightarrow> last (f # map ft_target trs) = ''Culled''"
proof (induction trs arbitrary: f)
  case (Cons tr trs)
  from Cons.prems(1) have "f = ''Culled'' \<Longrightarrow> ft_target tr = ''Culled''"
    by (simp add: allowed_culled)
  with Cons.prems(2) have "''Culled'' \<in> set (ft_target tr # map ft_target trs)"
    by auto
  with Cons.IH Cons.prems(1) show ?case by simp
qed simp

lemma fate_run_trace:
  assumes "cg_current_fate c \<in> set ALL_FATES" "length (fate_history c) \<le> 20" "fate_run c reqs = Inr c'"
  shows "\<exists>trs. map ft_reason trs = map snd reqs \<and> map ft_target trs = map (\<lambda>(t, _). normalize_fate t (Some [])) reqs \<and>
    chained (cg_current_fate c) trs \<and> cg_current_fate c' = last (cg_current_fate c # map ft_target trs) \<and>
    cg_current_fate c' \<in> set ALL_FATES \<and>
    fate_history c' = last_n 20 (fate_history c @ map (\<lambda>tr. PDict (fate_transition_to_dict tr)) trs)"
  using assms(3)
proof (induction reqs arbitrary: c' rule: rev_induct)
  case Nil
  then show ?case using assms by (auto simp: last_n_def)
next
  case (snoc req reqs)
  obtain t r where req: "req = (t, r)" by (cases req)
  from snoc.prems obtain c1 where c1: "fate_run c reqs = Inr c1" "transition_candidate_fate c1 t r = Inr c'"
    by (auto simp: fate_run_append req sbind_Inr_iff)
  from snoc.IH [OF c1(1)] obtain trs where trs: "map ft_reason trs = map snd reqs"
      "map ft_target trs = map (\<lambda>(t, _). normalize_fate t (Some [])) reqs"
      "chained (cg_current_fate c) trs" "cg_current_fate c1 = last (cg_current_fate c # map ft_target trs)"
      "cg_current_fate c1 \<in> set ALL_FATES"
      "fate_history c1 = last_n 20 (fate_history c @ map (\<lambda>tr. PDict (fate_transition_to_dict tr)) trs)"
    by blast
  let ?tr = "\<lparr>ft_previous = cg_current_fate c1, ft_target = cg_current_fate c', ft_reason = r\<rparr>"
  note st = transition_step [OF c1(2) trs(5)]
  have h: "fate_history c' = last_n 20 (fate_history c @ map (\<lambda>tr. PDict (fate_transition_to_dict tr)) (trs @ [?tr]))"
    using st trs(6) by (simp add: last_n_last_n)
  have ch: "chained (cg_current_fate c) (trs @ [?tr])"
    unfolding chained_snoc trs(4) [symmetric] using st trs(3) by blast
  show ?case
    by (intro exI [of _ "trs @ [?tr]"] conjI h ch) (use st trs(1,2) in \<open>auto simp: req\<close>)
qed

text \<open>
  The fate history is an honest audit trail. After any sequence of accepted transitions the history holds the
  last 20 of them in order, each with the reason it was requested for, each starting where the one before it ended
  and each allowed by the transition table; the fate is where the last one ended, and once a candidate has
  been culled it stays culled.
\<close>

theorem fate_history_sound:
  assumes "cg_current_fate c \<in> set ALL_FATES" "length (fate_history c) \<le> 20" "fate_run c reqs = Inr c'"
  shows "\<exists>trs. map ft_reason trs = map snd reqs \<and> map ft_target trs = map (\<lambda>(t, _). normalize_fate t (Some [])) reqs \<and>
    chained (cg_current_fate c) trs \<and> cg_current_fate c' = last (cg_current_fate c # map ft_target trs) \<and>
    fate_history c' = last_n 20 (fate_history c @ map (\<lambda>tr. PDict (fate_transition_to_dict tr)) trs) \<and>
    (''Culled'' \<in> set (cg_current_fate c # map ft_target trs) \<longrightarrow> cg_current_fate c' = ''Culled'')"
  using fate_run_trace [OF assms] culled_final by metis

definition demo_requests :: "(pyval \<times> string) list" where
  "demo_requests = [(PStr ''Elite'', ''best''), (PStr ''Active'', []), (PStr ''Culled'', ''worse'')]"

theorem fate_history_sound_witness:
  "\<exists>c'. fate_run (sample_candidate ''c1'' []) demo_requests = Inr c' \<and> cg_current_fate c' = ''Culled'' \<and>
     length (fate_history c') = 3"
proof -
  let ?c = "sample_candidate ''c1'' []"
  have demo_run: "case fate_run ?c demo_requests of Inl e \<Rightarrow> False | Inr c' \<Rightarrow> cg_current_fate c' = ''Culled''"
    by code_simp
  then obtain c' where c': "fate_run ?c demo_requests = Inr c'" "cg_current_fate c' = ''Culled''"
    by (auto split: sum.splits)
  have start: "cg_current_fate ?c \<in> set ALL_FATES" "length (fate_history ?c) \<le> 20" "fate_history ?c = []"
    by (code_simp, code_simp, code_simp)
  obtain trs where "map ft_reason trs = map snd demo_requests"
    "fate_history c' = last_n 20 (fate_history ?c @ map (\<lambda>tr. PDict (fate_transition_to_dict tr)) trs)"
    using fate_history_sound [OF start(1,2) c'(1)] by blast
  moreover from this(1) have "length trs = 3"
    by (metis length_map demo_requests_def list.size(3) length_Cons numeral_3_eq_3)
  ultimately show ?thesis
    using c' start(3) by auto
qed

end
