(* ===== verification/StepState.thy ===== *)
theory StepState
  imports Transitions
begin

text \<open>
  durable/step_state.py: the states of a durable step, the transition table, the status record with its
  checked transition, and its JSON form. \<open>now\<close> is the reading of \<open>utc_now\<close>.
\<close>

definition ALL_STEP_STATES :: "string list" where
  "ALL_STEP_STATES =
     [''created'', ''ready'', ''inflight'', ''committed'', ''retryable_failed'', ''terminal_failed'',
      ''cancelled'', ''resumed'']"

definition TERMINAL_STATES :: "string list" where
  "TERMINAL_STATES = [''committed'', ''terminal_failed'', ''cancelled'']"

definition RETRYABLE_STATES :: "string list" where
  "RETRYABLE_STATES = [''created'', ''ready'', ''retryable_failed'', ''resumed'']"

definition ALLOWED_TRANSITIONS :: "(string \<times> string list) list" where
  "ALLOWED_TRANSITIONS =
     [(''created'', [''ready'', ''inflight'', ''cancelled'', ''terminal_failed'']),
      (''ready'', [''inflight'', ''cancelled'', ''terminal_failed'']),
      (''inflight'', [''committed'', ''retryable_failed'', ''terminal_failed'', ''cancelled'']),
      (''retryable_failed'', [''ready'', ''inflight'', ''resumed'', ''terminal_failed'', ''cancelled'']),
      (''resumed'', [''ready'', ''inflight'', ''terminal_failed'', ''cancelled'']),
      (''committed'', []),
      (''terminal_failed'', []),
      (''cancelled'', [])]"

definition allowed_steps :: "string \<Rightarrow> string list" where
  "allowed_steps s = (case map_of ALLOWED_TRANSITIONS s of None \<Rightarrow> [] | Some ts \<Rightarrow> ts)"

text \<open>The three ValueErrors of the checks.\<close>

datatype step_error = InvalidState string | LeavesTerminal string string | InvalidTransition string string

definition validate_state :: "string \<Rightarrow> step_error + string" where
  "validate_state s = (if s \<notin> set ALL_STEP_STATES then Inl (InvalidState s) else Inr s)"

definition validate_transition :: "string \<Rightarrow> string \<Rightarrow> step_error + unit" where
  "validate_transition old new =
     sbind (validate_state old) (\<lambda>_. sbind (validate_state new) (\<lambda>_.
       if old = new then Inr ()
       else if old \<in> set TERMINAL_STATES then Inl (LeavesTerminal old new)
       else if new \<notin> set (allowed_steps old) then Inl (InvalidTransition old new)
       else Inr ()))"

record step_status =
  ss_run_id :: string
  ss_round_id :: string
  ss_step_id :: string
  ss_step_name :: string
  ss_state :: string
  ss_attempt :: int
  ss_input_hash :: string
  ss_output_hash :: string
  ss_created_at :: string
  ss_updated_at :: string
  ss_reason :: string
  ss_error :: pydict
  ss_metadata :: pydict

definition new_status :: "string \<Rightarrow> string \<Rightarrow> string \<Rightarrow> string \<Rightarrow> string \<Rightarrow> string \<Rightarrow> pydict \<Rightarrow> step_status" where
  "new_status now run rnd sid name ih md =
     \<lparr> ss_run_id = run, ss_round_id = rnd, ss_step_id = sid, ss_step_name = name, ss_state = ''created'',
       ss_attempt = 0, ss_input_hash = ih, ss_output_hash = [], ss_created_at = now, ss_updated_at = now,
       ss_reason = [], ss_error = [], ss_metadata = md \<rparr>"

definition transition ::
  "string \<Rightarrow> step_status \<Rightarrow> string \<Rightarrow> string \<Rightarrow> pydict option \<Rightarrow> pydict \<Rightarrow> step_error + step_status" where
  "transition now st new_state reason err md =
     sbind (validate_transition (ss_state st) new_state) (\<lambda>_.
       Inr (st\<lparr> ss_state := new_state,
                ss_reason := str_or reason (ss_reason st),
                ss_error := (case err of None \<Rightarrow> ss_error st | Some e \<Rightarrow> e),
                ss_metadata := (if md \<noteq> [] then dupdate (ss_metadata st) md else ss_metadata st),
                ss_updated_at := now \<rparr>))"

definition status_terminal :: "step_status \<Rightarrow> bool" where
  "status_terminal st \<longleftrightarrow> ss_state st \<in> set TERMINAL_STATES"

definition status_to_dict :: "step_status \<Rightarrow> pydict" where
  "status_to_dict st =
     [(''run_id'', PStr (ss_run_id st)), (''round_id'', PStr (ss_round_id st)),
      (''step_id'', PStr (ss_step_id st)), (''step_name'', PStr (ss_step_name st)),
      (''state'', PStr (ss_state st)), (''attempt'', PInt (ss_attempt st)),
      (''input_hash'', PStr (ss_input_hash st)), (''output_hash'', PStr (ss_output_hash st)),
      (''created_at'', PStr (ss_created_at st)), (''updated_at'', PStr (ss_updated_at st)),
      (''reason'', PStr (ss_reason st)), (''error'', PDict (ss_error st)), (''metadata'', PDict (ss_metadata st))]"

definition status_from_dict :: "string \<Rightarrow> pydict \<Rightarrow> pyexn + step_status" where
  "status_from_dict now data =
     sbind (py_int (py_or (dget data ''attempt'') (PInt 0))) (\<lambda>attempt.
     sbind (py_dict (py_or (dget data ''error'') (PDict []))) (\<lambda>err.
     sbind (py_dict (py_or (dget data ''metadata'') (PDict []))) (\<lambda>md.
       Inr \<lparr> ss_run_id = str_field (dget data ''run_id'') ''run'',
             ss_round_id = str_field (dget data ''round_id'') ''round'',
             ss_step_id = str_field (dget data ''step_id'') ''step'',
             ss_step_name = str_field (py_or (dget data ''step_name'') (dget data ''step_id'')) ''step'',
             ss_state = str_field (dget data ''state'') ''created'',
             ss_attempt = attempt,
             ss_input_hash = str_field (dget data ''input_hash'') [],
             ss_output_hash = str_field (dget data ''output_hash'') [],
             ss_created_at = str_field (dget data ''created_at'') now,
             ss_updated_at = str_field (dget data ''updated_at'') now,
             ss_reason = str_field (dget data ''reason'') [],
             ss_error = err,
             ss_metadata = md \<rparr>)))"

section \<open>Properties\<close>

lemma terminal_subset: "set TERMINAL_STATES \<subseteq> set ALL_STEP_STATES"
  by (simp add: TERMINAL_STATES_def ALL_STEP_STATES_def)

lemma allowed_steps_subset: "set (allowed_steps s) \<subseteq> set ALL_STEP_STATES"
  by (auto simp: allowed_steps_def ALLOWED_TRANSITIONS_def ALL_STEP_STATES_def split: if_splits)

lemma validate_state_Inr [simp]: "validate_state s = Inr u \<longleftrightarrow> s \<in> set ALL_STEP_STATES \<and> u = s"
  by (auto simp: validate_state_def)

lemma validate_transition_Inr:
  "validate_transition old new = Inr u \<longleftrightarrow>
     old \<in> set ALL_STEP_STATES \<and>
     (new = old \<or> old \<notin> set TERMINAL_STATES \<and> new \<in> set (allowed_steps old))"
  using allowed_steps_subset [of old] by (auto simp: validate_transition_def sbind_Inr_iff split: if_splits)

definition step_check :: "string \<Rightarrow> string \<Rightarrow> step_error + string" where
  "step_check old new = sbind (validate_transition old new) (\<lambda>_. Inr new)"

lemma step_check_Inr:
  "step_check old new = Inr u \<longleftrightarrow> u = new \<and> old \<in> set ALL_STEP_STATES \<and>
     (new = old \<or> old \<notin> set TERMINAL_STATES \<and> new \<in> set (allowed_steps old))"
  by (auto simp: step_check_def sbind_Inr_iff validate_transition_Inr)

interpretation step_machine:
  guarded_machine step_check "\<lambda>s. s \<in> set ALL_STEP_STATES" "\<lambda>s. s \<in> set TERMINAL_STATES"
  using allowed_steps_subset by unfold_locales (auto simp: step_check_Inr)

lemma transition_Inr:
  "transition now st new r e md = Inr st' \<longleftrightarrow>
     step_check (ss_state st) new = Inr new \<and>
     st' = st\<lparr> ss_state := new, ss_reason := str_or r (ss_reason st),
               ss_error := (case e of None \<Rightarrow> ss_error st | Some x \<Rightarrow> x),
               ss_metadata := (if md \<noteq> [] then dupdate (ss_metadata st) md else ss_metadata st),
               ss_updated_at := now \<rparr>"
  by (auto simp: transition_def step_check_def sbind_Inr_iff)

text \<open>A status whose text fields survive the decoder's defaults.\<close>

definition status_ok :: "step_status \<Rightarrow> bool" where
  "status_ok st \<longleftrightarrow>
     ss_run_id st \<noteq> [] \<and> ss_round_id st \<noteq> [] \<and> ss_step_id st \<noteq> [] \<and> ss_step_name st \<noteq> [] \<and>
     ss_state st \<in> set ALL_STEP_STATES \<and> ss_created_at st \<noteq> [] \<and> ss_updated_at st \<noteq> []"

lemma state_nonempty: "s \<in> set ALL_STEP_STATES \<Longrightarrow> s \<noteq> []"
  by (auto simp: ALL_STEP_STATES_def)

lemma status_dict_roundtrip: "status_ok st \<Longrightarrow> status_from_dict now (status_to_dict st) = Inr st"
  by (cases st) (auto simp: status_ok_def status_from_dict_def status_to_dict_def dget_def py_or_def
      py_int_def str_field_def state_nonempty)

lemma transition_ok:
  "status_ok st \<Longrightarrow> now \<noteq> [] \<Longrightarrow> transition now st new r e md = Inr st' \<Longrightarrow> status_ok st'"
  using allowed_steps_subset [of "ss_state st"] by (auto simp: transition_Inr status_ok_def step_check_Inr)

end
