(* ===== verification/CheckpointStore.thy ===== *)
theory CheckpointStore
  imports StepState
begin

text \<open>
  durable/checkpoint_store.py: the directory of each step with its three JSON files, the atomic writes
  and the reads that accept a JSON object only. The directory tree is a finite map from a step directory
  (round component, step component) to its files. A file that does not decode is \<open>Corrupt\<close>; an
  atomic write publishes a decodable object or raises before touching the target, so a write is a plain
  update. \<open>stable_hash\<close> (SHA-256 of canonical JSON) is the argument \<open>hash\<close>.
\<close>

section \<open>The interface of a file cell\<close>

text \<open>
  One file per directory: what is read back after a write, and that other directories keep theirs.
  \<open>puts\<close> is a sequence of writes.
\<close>

fun puts :: "('k \<Rightarrow> 'v \<Rightarrow> 'st \<Rightarrow> 'st) \<Rightarrow> ('k \<times> 'v) list \<Rightarrow> 'st \<Rightarrow> 'st" where
  "puts put [] st = st"
| "puts put ((k, v) # kvs) st = puts put kvs (put k v st)"

locale file_cell =
  fixes get :: "'st \<Rightarrow> 'k \<Rightarrow> 'v option"
    and put :: "'k \<Rightarrow> 'v \<Rightarrow> 'st \<Rightarrow> 'st"
  assumes get_put: "get (put k v st) k' = (if k' = k then Some v else get st k')"
begin

lemma get_put_same [simp]: "get (put k v st) k = Some v"
  by (simp add: get_put)

lemma get_puts_other: "k \<notin> fst ` set kvs \<Longrightarrow> get (puts put kvs st) k = get st k"
  by (induction kvs arbitrary: st) (auto simp: get_put)

lemma get_puts_Some: "k \<in> fst ` set kvs \<Longrightarrow> \<exists>v. (k, v) \<in> set kvs \<and> get (puts put kvs st) k = Some v"
proof (induction kvs arbitrary: st)
  case (Cons kv kvs)
  show ?case
  proof (cases "k \<in> fst ` set kvs")
    case True
    with Cons.IH show ?thesis by (cases kv) auto
  next
    case False
    with Cons.prems show ?thesis by (cases kv) (auto simp: get_puts_other)
  qed
qed simp

end

section \<open>Store\<close>

datatype jfile = Corrupt | Json pyval

record step_files =
  sf_input :: "jfile option"
  sf_status :: "jfile option"
  sf_output :: "jfile option"

type_synonym step_key = "string \<times> string"
type_synonym store = "(step_key \<times> step_files) list"

definition files_at :: "store \<Rightarrow> step_key \<Rightarrow> step_files" where
  "files_at st k =
     (case map_of st k of None \<Rightarrow> \<lparr>sf_input = None, sf_status = None, sf_output = None\<rparr> | Some f \<Rightarrow> f)"

definition put_input :: "step_key \<Rightarrow> jfile \<Rightarrow> store \<Rightarrow> store" where
  "put_input k v st = dset k ((files_at st k)\<lparr>sf_input := Some v\<rparr>) st"

definition put_status :: "step_key \<Rightarrow> jfile \<Rightarrow> store \<Rightarrow> store" where
  "put_status k v st = dset k ((files_at st k)\<lparr>sf_status := Some v\<rparr>) st"

definition put_output :: "step_key \<Rightarrow> jfile \<Rightarrow> store \<Rightarrow> store" where
  "put_output k v st = dset k ((files_at st k)\<lparr>sf_output := Some v\<rparr>) st"

lemma files_at_dset [simp]: "files_at (dset k f st) k' = (if k' = k then f else files_at st k')"
  by (simp add: files_at_def)

interpretation input_cell: file_cell "\<lambda>st k. sf_input (files_at st k)" put_input
  by unfold_locales (simp add: put_input_def)

interpretation status_cell: file_cell "\<lambda>st k. sf_status (files_at st k)" put_status
  by unfold_locales (simp add: put_status_def)

interpretation output_cell: file_cell "\<lambda>st k. sf_output (files_at st k)" put_output
  by unfold_locales (simp add: put_output_def)

lemma cells_independent [simp]:
  "sf_input (files_at (put_status k v st) k') = sf_input (files_at st k')"
  "sf_input (files_at (put_output k v st) k') = sf_input (files_at st k')"
  "sf_status (files_at (put_input k v st) k') = sf_status (files_at st k')"
  "sf_status (files_at (put_output k v st) k') = sf_status (files_at st k')"
  "sf_output (files_at (put_input k v st) k') = sf_output (files_at st k')"
  "sf_output (files_at (put_status k v st) k') = sf_output (files_at st k')"
  by (simp_all add: put_input_def put_status_def put_output_def)

text \<open>\<open>_safe_component\<close>: other characters become an underscore, at most 80 are kept.\<close>

definition safe_component :: "string \<Rightarrow> string" where
  "safe_component v =
     str_or (take 80 (map (\<lambda>c. if is_alnum c \<or> c = CHR ''-'' \<or> c = CHR ''_'' then c else CHR ''_'')
        (strip (str_or v ''x'')))) ''x''"

definition step_dir :: "string \<Rightarrow> string \<Rightarrow> string \<Rightarrow> step_key" where
  "step_dir round_id step_id step_name =
     (safe_component round_id,
      safe_component step_id @ ''_'' @ safe_component (str_or step_name step_id))"

definition status_key :: "step_status \<Rightarrow> step_key" where
  "status_key s = step_dir (ss_round_id s) (ss_step_id s) (ss_step_name s)"

definition read_json :: "jfile option \<Rightarrow> pydict option" where
  "read_json f = (case f of Some (Json (PDict d)) \<Rightarrow> Some d | _ \<Rightarrow> None)"

section \<open>Operations\<close>

definition write_status :: "step_status \<Rightarrow> store \<Rightarrow> store" where
  "write_status s st = put_status (status_key s) (Json (PDict (status_to_dict s))) st"

definition read_status :: "string \<Rightarrow> store \<Rightarrow> string \<Rightarrow> string \<Rightarrow> string \<Rightarrow> pyexn + step_status option" where
  "read_status now st rnd sid name =
     (case read_json (sf_status (files_at st (step_dir rnd sid name))) of
        Some d \<Rightarrow> (if d \<noteq> [] then sbind (status_from_dict now d) (\<lambda>s. Inr (Some s)) else Inr None)
      | None \<Rightarrow> Inr None)"

definition read_input :: "store \<Rightarrow> string \<Rightarrow> string \<Rightarrow> string \<Rightarrow> pydict option" where
  "read_input st rnd sid name = read_json (sf_input (files_at st (step_dir rnd sid name)))"

definition read_output :: "store \<Rightarrow> string \<Rightarrow> string \<Rightarrow> string \<Rightarrow> pydict option" where
  "read_output st rnd sid name = read_json (sf_output (files_at st (step_dir rnd sid name)))"

definition write_input ::
  "(pyval \<Rightarrow> string) \<Rightarrow> string \<Rightarrow> string \<Rightarrow> string \<Rightarrow> string \<Rightarrow> string \<Rightarrow> pydict \<Rightarrow> store
   \<Rightarrow> pyexn + step_status \<times> store" where
  "write_input hash now run rnd sid name input st =
     (let st1 = put_input (step_dir rnd sid name) (Json (PDict input)) st in
      sbind (read_status now st1 rnd sid name) (\<lambda>found.
        let s0 = (case found of Some s \<Rightarrow> s | None \<Rightarrow> new_status now run rnd sid name (hash (PDict input)) []);
            s1 = (if ss_input_hash s0 = [] then s0\<lparr>ss_input_hash := hash (PDict input)\<rparr> else s0);
            s2 = s1\<lparr>ss_updated_at := now\<rparr>
        in Inr (s2, write_status s2 st1)))"

definition write_inflight_status ::
  "string \<Rightarrow> step_status \<Rightarrow> store \<Rightarrow> step_error + step_status \<times> store" where
  "write_inflight_status now s st =
     sbind (transition now (s\<lparr>ss_attempt := ss_attempt s + 1\<rparr>) ''inflight'' ''step_started'' None []) (\<lambda>s1.
       Inr (s1, write_status s1 st))"

text \<open>\<open>commit_output\<close> writes the output file before the transition is checked.\<close>

definition commit_output ::
  "(pyval \<Rightarrow> string) \<Rightarrow> string \<Rightarrow> step_status \<Rightarrow> pydict \<Rightarrow> store \<Rightarrow> (step_error + step_status) \<times> store" where
  "commit_output hash now s output st =
     (let st1 = put_output (status_key s) (Json (PDict output)) st in
      case transition now (s\<lparr>ss_output_hash := hash (PDict output)\<rparr>) ''committed''
             ''output_validated_and_atomically_committed'' None [] of
        Inl e \<Rightarrow> (Inl e, st1)
      | Inr s1 \<Rightarrow> (Inr s1, write_status s1 st1))"

definition mark_failed ::
  "string \<Rightarrow> step_status \<Rightarrow> bool \<Rightarrow> string \<Rightarrow> string \<Rightarrow> store \<Rightarrow> step_error + step_status \<times> store" where
  "mark_failed now s retryable etype msg st =
     sbind (transition now s (if retryable then ''retryable_failed'' else ''terminal_failed'') msg
              (Some [(''type'', PStr etype), (''message'', PStr msg)]) []) (\<lambda>s1.
       Inr (s1, write_status s1 st))"

text \<open>\<open>sorted(root.glob(...))\<close>: the directories in path order.\<close>

definition status_files :: "store \<Rightarrow> jfile option list" where
  "status_files st = map (\<lambda>k. sf_status (files_at st k)) (sort (remdups (map fst st)))"

fun load_statuses :: "string \<Rightarrow> jfile option list \<Rightarrow> pyexn + step_status list" where
  "load_statuses now [] = Inr []"
| "load_statuses now (f # fs) =
     (case read_json f of
        Some d \<Rightarrow>
          (if d \<noteq> [] then sbind (status_from_dict now d) (\<lambda>s. sbind (load_statuses now fs) (\<lambda>ss. Inr (s # ss)))
           else load_statuses now fs)
      | None \<Rightarrow> load_statuses now fs)"

definition iter_statuses :: "string \<Rightarrow> store \<Rightarrow> pyexn + step_status list" where
  "iter_statuses now st = load_statuses now (status_files st)"

section \<open>Properties\<close>

lemma safe_component_chars:
  "c \<in> set (safe_component v) \<Longrightarrow> is_alnum c \<or> c = CHR ''-'' \<or> c = CHR ''_''"
  by (auto simp: safe_component_def str_or_def is_alnum_def is_alpha_def is_lower_def
      dest!: in_set_takeD split: if_splits)

lemma safe_component_length: "0 < length (safe_component v) \<and> length (safe_component v) \<le> 80"
  by (auto simp: safe_component_def str_or_def)

text \<open>
  The store holds well-formed statuses only, each in the directory its own ids name: what every
  operation of the store keeps.
\<close>

definition status_file_ok :: "step_key \<Rightarrow> jfile option \<Rightarrow> bool" where
  "status_file_ok k f \<longleftrightarrow>
     f = None \<or> (\<exists>s. f = Some (Json (PDict (status_to_dict s))) \<and> status_ok s \<and> status_key s = k)"

definition store_ok :: "store \<Rightarrow> bool" where
  "store_ok st \<longleftrightarrow> (\<forall>k. status_file_ok k (sf_status (files_at st k)))"

definition status_at :: "store \<Rightarrow> step_key \<Rightarrow> step_status option" where
  "status_at st k =
     (case read_json (sf_status (files_at st k)) of
        Some d \<Rightarrow> (if d = [] then None else case status_from_dict [] d of Inr s \<Rightarrow> Some s | Inl _ \<Rightarrow> None)
      | None \<Rightarrow> None)"

lemma status_to_dict_nonempty [simp]: "status_to_dict s \<noteq> []"
  by (simp add: status_to_dict_def)

lemma read_json_Json [simp]: "read_json (Some (Json (PDict d))) = Some d" "read_json None = None"
  by (simp_all add: read_json_def)

lemma status_file_read:
  "status_file_ok k f \<Longrightarrow>
     (case read_json f of Some d \<Rightarrow> (if d \<noteq> [] then sbind (status_from_dict now d) (\<lambda>s. Inr (Some s)) else Inr None)
      | None \<Rightarrow> Inr None) =
     Inr (case read_json f of
        Some d \<Rightarrow> (if d = [] then None else case status_from_dict [] d of Inr s \<Rightarrow> Some s | Inl _ \<Rightarrow> None)
      | None \<Rightarrow> None)"
  by (auto simp: status_file_ok_def status_dict_roundtrip)

lemma read_status_at: "store_ok st \<Longrightarrow> read_status now st rnd sid name = Inr (status_at st (step_dir rnd sid name))"
  unfolding read_status_def status_at_def store_ok_def by (rule status_file_read) (erule spec)

lemma status_at_ok: "store_ok st \<Longrightarrow> status_at st k = Some s \<Longrightarrow> status_ok s \<and> status_key s = k"
  unfolding store_ok_def status_file_ok_def status_at_def
  by (drule spec [of _ k]) (auto simp: status_dict_roundtrip)

lemma status_at_write: "status_ok s \<Longrightarrow> status_at (write_status s st) k = (if k = status_key s then Some s else status_at st k)"
  by (simp add: status_at_def write_status_def status_cell.get_put status_dict_roundtrip)

lemma status_at_put [simp]:
  "status_at (put_input k v st) k' = status_at st k'" "status_at (put_output k v st) k' = status_at st k'"
  by (simp_all add: status_at_def)

lemma store_ok_put [simp]:
  "store_ok (put_input k v st) = store_ok st" "store_ok (put_output k v st) = store_ok st"
  by (simp_all add: store_ok_def)

lemma store_ok_write: "store_ok st \<Longrightarrow> status_ok s \<Longrightarrow> store_ok (write_status s st)"
  by (auto simp: store_ok_def write_status_def status_cell.get_put status_file_ok_def)

lemma store_ok_empty: "store_ok []"
  by (simp add: store_ok_def status_file_ok_def files_at_def)

lemma output_write_status [simp]: "sf_output (files_at (write_status s st) k) = sf_output (files_at st k)"
  by (simp add: write_status_def)

lemma input_write_status [simp]: "sf_input (files_at (write_status s st) k) = sf_input (files_at st k)"
  by (simp add: write_status_def)

end
