(* ===== verification/StepRunner.thy ===== *)
theory StepRunner
  imports CheckpointStore
begin

text \<open>
  durable/step_runner.py: the idempotent runner of one durable step. The step body \<open>fn\<close> acts on a
  world of any type, so that running it or not is visible; \<open>retry\<close> says which exception classes are
  instances of \<open>retry_exceptions\<close>. Every return and every raise carries the runner as it stands then.
\<close>

datatype fn_outcome = FnReturns pyval | FnRaises string string

datatype run_exn = DecodeError pyexn | StepError step_error | FnError string string

record durable_event =
  de_type :: string
  de_run_id :: string
  de_round_id :: string
  de_step_id :: string
  de_payload :: pydict

record 'w runner =
  rn_store :: store
  rn_log :: "durable_event list option"
  rn_world :: 'w

definition log_event :: "string \<Rightarrow> step_status \<Rightarrow> pydict \<Rightarrow> 'w runner \<Rightarrow> 'w runner" where
  "log_event etype s payload R =
     (case rn_log R of
        None \<Rightarrow> R
      | Some evs \<Rightarrow> R\<lparr>rn_log := Some (evs @
          [\<lparr>de_type = etype, de_run_id = ss_run_id s, de_round_id = ss_round_id s, de_step_id = ss_step_id s,
            de_payload = dupdate [(''state'', PStr (ss_state s))] payload\<rparr>])\<rparr>)"

definition committed_hit :: "string \<Rightarrow> step_status option \<Rightarrow> pydict option \<Rightarrow> pydict option" where
  "committed_hit h found output =
     (case (found, output) of
        (Some s, Some out) \<Rightarrow> (if ss_state s = ''committed'' \<and> ss_input_hash s = h then Some out else None)
      | _ \<Rightarrow> None)"

text \<open>
  The status a run starts from: a committed step with another input is reset without touching its input
  file, every other step has its input checkpointed and its hash refreshed.
\<close>

definition prepare_status ::
  "(pyval \<Rightarrow> string) \<Rightarrow> string \<Rightarrow> string \<Rightarrow> string \<Rightarrow> string \<Rightarrow> string \<Rightarrow> pydict \<Rightarrow> step_status option \<Rightarrow> store
   \<Rightarrow> pyexn + step_status \<times> store" where
  "prepare_status hash now run rnd sid name input found st =
     (let h = hash (PDict input) in
      case found of
        Some s \<Rightarrow>
          (if ss_state s = ''committed'' \<and> ss_input_hash s \<noteq> h then
             (let s0 = new_status now run rnd sid name h [(''previous_input_hash'', PStr (ss_input_hash s))]
              in Inr (s0, write_status s0 st))
           else
             sbind (write_input hash now run rnd sid name input st) (\<lambda>(s0, st0).
               let s1 = s0\<lparr>ss_input_hash := h\<rparr> in Inr (s1, write_status s1 st0)))
      | None \<Rightarrow>
             sbind (write_input hash now run rnd sid name input st) (\<lambda>(s0, st0).
               let s1 = s0\<lparr>ss_input_hash := h\<rparr> in Inr (s1, write_status s1 st0)))"

definition to_ready :: "string \<Rightarrow> step_status \<Rightarrow> store \<Rightarrow> step_error + step_status \<times> store" where
  "to_ready now s st =
     (if ss_state s \<in> set [''retryable_failed'', ''resumed''] then
        sbind (transition now s ''ready'' ''retrying_retryable_or_resumed_step'' None []) (\<lambda>s1.
          Inr (s1, write_status s1 st))
      else if ss_state s = ''created'' then
        sbind (transition now s ''ready'' ''input_checkpointed'' None []) (\<lambda>s1. Inr (s1, write_status s1 st))
      else Inr (s, st))"

definition fail_step ::
  "(string \<Rightarrow> bool) \<Rightarrow> string \<Rightarrow> step_status \<Rightarrow> string \<Rightarrow> string \<Rightarrow> 'w runner \<Rightarrow> (run_exn + pydict) \<times> 'w runner" where
  "fail_step retry now s cls msg R =
     (case mark_failed now s (retry cls) cls msg (rn_store R) of
        Inl e \<Rightarrow> (Inl (StepError e), R)
      | Inr (s1, st1) \<Rightarrow>
          (Inl (FnError cls msg),
           log_event (if retry cls then ''step_retryable_failed'' else ''step_terminal_failed'') s1
             [(''error'', PStr msg)] (R\<lparr>rn_store := st1\<rparr>)))"

definition finish_step ::
  "(pyval \<Rightarrow> string) \<Rightarrow> (string \<Rightarrow> bool) \<Rightarrow> string \<Rightarrow> step_status \<Rightarrow> fn_outcome \<Rightarrow> 'w runner
   \<Rightarrow> (run_exn + pydict) \<times> 'w runner" where
  "finish_step hash retry now s r R =
     (case r of
        FnReturns (PDict out) \<Rightarrow>
          (case commit_output hash now s out (rn_store R) of
             (Inl e, st1) \<Rightarrow> (Inl (StepError e), R\<lparr>rn_store := st1\<rparr>)
           | (Inr s1, st1) \<Rightarrow>
               (Inr out, log_event ''step_committed'' s1 [(''output_hash'', PStr (ss_output_hash s1))]
                  (R\<lparr>rn_store := st1\<rparr>)))
      | FnReturns _ \<Rightarrow>
          fail_step retry now s ''TypeError'' ''durable step output must be a JSON object/dict'' R
      | FnRaises cls msg \<Rightarrow> fail_step retry now s cls msg R)"

definition run_step ::
  "(pyval \<Rightarrow> string) \<Rightarrow> (string \<Rightarrow> bool) \<Rightarrow> string \<Rightarrow> string \<Rightarrow> ('w \<Rightarrow> fn_outcome \<times> 'w)
   \<Rightarrow> string \<Rightarrow> string \<Rightarrow> string \<Rightarrow> pydict \<Rightarrow> 'w runner \<Rightarrow> (run_exn + pydict) \<times> 'w runner" where
  "run_step hash retry now run fn rnd sid name input R =
     (case read_status now (rn_store R) rnd sid name of
        Inl e \<Rightarrow> (Inl (DecodeError e), R)
      | Inr found \<Rightarrow>
          (case committed_hit (hash (PDict input)) found (read_output (rn_store R) rnd sid name) of
             Some out \<Rightarrow>
               (Inr out, log_event ''step_resumed_committed'' (the found)
                  [(''input_hash'', PStr (hash (PDict input)))] R)
           | None \<Rightarrow>
               (case prepare_status hash now run rnd sid name input found (rn_store R) of
                  Inl e \<Rightarrow> (Inl (DecodeError e), R)
                | Inr (s0, st0) \<Rightarrow>
                    (case to_ready now s0 st0 of
                       Inl e \<Rightarrow> (Inl (StepError e), R\<lparr>rn_store := st0\<rparr>)
                     | Inr (s1, st1) \<Rightarrow>
                         (case write_inflight_status now s1 st1 of
                            Inl e \<Rightarrow> (Inl (StepError e), R\<lparr>rn_store := st1\<rparr>)
                          | Inr (s2, st2) \<Rightarrow>
                              (let R2 = log_event ''step_started'' s2 [(''attempt'', PInt (ss_attempt s2))]
                                          (R\<lparr>rn_store := st2\<rparr>);
                                   (r, w) = fn (rn_world R2)
                               in finish_step hash retry now s2 r (R2\<lparr>rn_world := w\<rparr>)))))))"

section \<open>Lemmas\<close>

lemma log_event_simps [simp]:
  "rn_store (log_event t s p R) = rn_store R" "rn_world (log_event t s p R) = rn_world R"
  by (simp_all add: log_event_def split: option.split)

lemma status_key_upd [simp]:
  "status_key (s\<lparr>ss_state := a\<rparr>) = status_key s" "status_key (s\<lparr>ss_reason := b\<rparr>) = status_key s"
  "status_key (s\<lparr>ss_error := c\<rparr>) = status_key s" "status_key (s\<lparr>ss_metadata := d\<rparr>) = status_key s"
  "status_key (s\<lparr>ss_updated_at := e\<rparr>) = status_key s" "status_key (s\<lparr>ss_attempt := f\<rparr>) = status_key s"
  "status_key (s\<lparr>ss_input_hash := g\<rparr>) = status_key s" "status_key (s\<lparr>ss_output_hash := h\<rparr>) = status_key s"
  by (simp_all add: status_key_def)

lemma status_ok_upd [simp]:
  "status_ok (s\<lparr>ss_attempt := f\<rparr>) = status_ok s" "status_ok (s\<lparr>ss_input_hash := g\<rparr>) = status_ok s"
  "status_ok (s\<lparr>ss_output_hash := h\<rparr>) = status_ok s"
  by (simp_all add: status_ok_def)

lemma transition_keeps:
  "transition now s new r e md = Inr s' \<Longrightarrow>
     status_key s' = status_key s \<and> ss_input_hash s' = ss_input_hash s \<and>
     ss_output_hash s' = ss_output_hash s \<and> ss_state s' = new \<and> ss_attempt s' = ss_attempt s"
  by (auto simp: transition_Inr)

text \<open>What the preparation leaves: a status of this step with the current input hash, on disk.\<close>

definition started :: "step_key \<Rightarrow> string \<Rightarrow> store \<Rightarrow> step_status \<Rightarrow> store \<Rightarrow> bool" where
  "started k h st0 s st \<longleftrightarrow>
     status_ok s \<and> status_key s = k \<and> ss_input_hash s = h \<and> store_ok st \<and> status_at st k = Some s \<and>
     (\<forall>k'. k' \<noteq> k \<longrightarrow> status_at st k' = status_at st0 k') \<and>
     (\<forall>k'. sf_output (files_at st k') = sf_output (files_at st0 k'))"

lemma new_status_ok:
  "\<lbrakk>now \<noteq> []; run \<noteq> []; rnd \<noteq> []; sid \<noteq> []; name \<noteq> []\<rbrakk> \<Longrightarrow>
     status_ok (new_status now run rnd sid name h md) \<and>
     status_key (new_status now run rnd sid name h md) = step_dir rnd sid name"
  by (simp add: status_ok_def new_status_def ALL_STEP_STATES_def status_key_def)

lemma write_input_Inr:
  assumes "store_ok st" "now \<noteq> []" "run \<noteq> []" "rnd \<noteq> []" "sid \<noteq> []" "name \<noteq> []"
  obtains s st' where "write_input hash now run rnd sid name input st = Inr (s, st')"
    "status_ok s" "status_key s = step_dir rnd sid name" "store_ok st'"
    "st' = write_status s (put_input (step_dir rnd sid name) (Json (PDict input)) st)"
    "ss_state s = (case status_at st (step_dir rnd sid name) of None \<Rightarrow> ''created'' | Some s0 \<Rightarrow> ss_state s0)"
proof -
  let ?k = "step_dir rnd sid name"
  let ?st1 = "put_input ?k (Json (PDict input)) st"
  define s0 where "s0 = (case status_at st ?k of Some s \<Rightarrow> s | None \<Rightarrow> new_status now run rnd sid name (hash (PDict input)) [])"
  define s where "s = (if ss_input_hash s0 = [] then s0\<lparr>ss_input_hash := hash (PDict input)\<rparr> else s0)\<lparr>ss_updated_at := now\<rparr>"
  have s0: "status_ok s0 \<and> status_key s0 = ?k"
    using assms by (auto simp: s0_def new_status_ok status_at_ok split: option.split)
  then have s: "status_ok s" "status_key s = ?k" "ss_state s = ss_state s0"
    using assms(2) by (auto simp: s_def status_ok_def status_key_def)
  have w: "write_input hash now run rnd sid name input st = Inr (s, write_status s ?st1)"
    using assms(1) by (simp add: write_input_def Let_def read_status_at s_def s0_def)
  have "ss_state s0 = (case status_at st ?k of None \<Rightarrow> ''created'' | Some s0 \<Rightarrow> ss_state s0)"
    by (simp add: s0_def new_status_def split: option.split)
  with that [OF w s(1,2)] s store_ok_write assms(1) show thesis by simp
qed

lemma prepare_started:
  assumes "store_ok st" "now \<noteq> []" "run \<noteq> []" "rnd \<noteq> []" "sid \<noteq> []" "name \<noteq> []"
    and found: "found = status_at st (step_dir rnd sid name)"
  obtains s st' where "prepare_status hash now run rnd sid name input found st = Inr (s, st')"
    "started (step_dir rnd sid name) (hash (PDict input)) st s st'"
    "ss_state s = (case found of None \<Rightarrow> ''created''
       | Some s0 \<Rightarrow> if ss_state s0 = ''committed'' \<and> ss_input_hash s0 \<noteq> hash (PDict input) then ''created'' else ss_state s0)"
proof -
  let ?k = "step_dir rnd sid name" and ?h = "hash (PDict input)"
  show thesis
  proof (cases "\<exists>s0. found = Some s0 \<and> ss_state s0 = ''committed'' \<and> ss_input_hash s0 \<noteq> ?h")
    case True
    then obtain s0 where s0: "found = Some s0" "ss_state s0 = ''committed''" "ss_input_hash s0 \<noteq> ?h" by blast
    let ?s = "new_status now run rnd sid name ?h [(''previous_input_hash'', PStr (ss_input_hash s0))]"
    have ok: "status_ok ?s" "status_key ?s = ?k" using new_status_ok assms(2-6) by auto
    have "started ?k ?h st ?s (write_status ?s st)"
      using ok assms(1) by (auto simp: started_def store_ok_write status_at_write) (simp add: new_status_def)
    moreover have "ss_state ?s = ''created''" by (simp add: new_status_def)
    ultimately show thesis using s0 that by (simp add: prepare_status_def Let_def)
  next
    case False
    obtain s st' where w: "write_input hash now run rnd sid name input st = Inr (s, st')"
      "status_ok s" "status_key s = ?k" "store_ok st'" "st' = write_status s (put_input ?k (Json (PDict input)) st)"
      "ss_state s = (case status_at st ?k of None \<Rightarrow> ''created'' | Some s0 \<Rightarrow> ss_state s0)"
      by (rule write_input_Inr [OF assms(1-6)])
    let ?s = "s\<lparr>ss_input_hash := ?h\<rparr>"
    have "started ?k ?h st ?s (write_status ?s st')"
      using w by (auto simp: started_def store_ok_write status_at_write)
    moreover have "prepare_status hash now run rnd sid name input found st = Inr (?s, write_status ?s st')"
      using False w(1) by (auto simp: prepare_status_def Let_def split: option.split)
    moreover have "ss_state ?s = (case found of None \<Rightarrow> ''created''
       | Some s0 \<Rightarrow> if ss_state s0 = ''committed'' \<and> ss_input_hash s0 \<noteq> ?h then ''created'' else ss_state s0)"
      using False w(6) found by (auto split: option.split)
    ultimately show thesis using that by blast
  qed
qed

lemma started_step:
  assumes "started k h st0 s st" "transition now (s\<lparr>ss_attempt := n\<rparr>) new r e md = Inr s'" "now \<noteq> []"
  shows "started k h st0 s' (write_status s' st)"
proof -
  have "status_ok (s\<lparr>ss_attempt := n\<rparr>)" using assms(1) by (simp add: started_def)
  note ok = transition_ok [OF this assms(3,2)] and keep = transition_keeps [OF assms(2)]
  show ?thesis using assms(1) ok keep by (auto simp: started_def store_ok_write status_at_write)
qed

lemma to_ready_started:
  assumes "started k h st0 s st" "now \<noteq> []"
  obtains s' st' where "to_ready now s st = Inr (s', st')" "started k h st0 s' st'"
    "ss_state s' = (if ss_state s \<in> set [''created'', ''retryable_failed'', ''resumed''] then ''ready'' else ss_state s)"
proof (cases "ss_state s \<in> set [''created'', ''retryable_failed'', ''resumed'']")
  case True
  let ?r = "if ss_state s = ''created'' then ''input_checkpointed'' else ''retrying_retryable_or_resumed_step''"
  have "step_check (ss_state s) ''ready'' = Inr ''ready''"
    using True by (auto simp: step_check_Inr ALL_STEP_STATES_def TERMINAL_STATES_def allowed_steps_def ALLOWED_TRANSITIONS_def)
  then obtain s' where s': "transition now s ''ready'' ?r None [] = Inr s'" by (simp add: transition_Inr)
  have "started k h st0 s' (write_status s' st)"
    using started_step [of k h st0 s st now "ss_attempt s"] assms s' by simp
  moreover have "to_ready now s st = Inr (s', write_status s' st)"
    using True s' by (auto simp: to_ready_def)
  ultimately show thesis using that True transition_keeps [OF s'] by auto
next
  case False
  then have "to_ready now s st = Inr (s, st)" by (simp add: to_ready_def)
  with that assms(1) False show thesis by simp
qed

text \<open>Which statuses a run may start the body from, when there is no committed output to return.\<close>

definition runnable :: "string \<Rightarrow> step_status option \<Rightarrow> bool" where
  "runnable h found \<longleftrightarrow>
     (case found of None \<Rightarrow> True
      | Some s \<Rightarrow> (if ss_state s = ''committed'' then ss_input_hash s \<noteq> h
                  else ss_state s \<notin> set [''terminal_failed'', ''cancelled'']))"

lemma step_check_start:
  "step_check s ''inflight'' = Inr ''inflight'' \<longleftrightarrow>
     s \<in> set [''created'', ''ready'', ''inflight'', ''retryable_failed'', ''resumed'']"
  by (auto simp: step_check_Inr ALL_STEP_STATES_def TERMINAL_STATES_def allowed_steps_def ALLOWED_TRANSITIONS_def)

lemma ready_state:
  assumes "s \<in> set ALL_STEP_STATES"
  shows "(if s \<in> set [''created'', ''retryable_failed'', ''resumed''] then ''ready'' else s) \<in> set [''ready'', ''inflight'']
     \<longleftrightarrow> s \<noteq> ''committed'' \<and> s \<notin> set [''terminal_failed'', ''cancelled'']"
  using assms unfolding ALL_STEP_STATES_def list.set insert_iff empty_iff by (elim disjE) simp_all

lemma sum_not_Inr:
  assumes "\<And>u. x \<noteq> Inr u"
  shows "\<exists>e. x = Inl e"
  using assms by (metis sum.exhaust)

definition step_ids :: "string \<Rightarrow> string \<Rightarrow> string \<Rightarrow> string \<Rightarrow> string \<Rightarrow> bool" where
  "step_ids now run rnd sid name \<longleftrightarrow> now \<noteq> [] \<and> run \<noteq> [] \<and> rnd \<noteq> [] \<and> sid \<noteq> [] \<and> name \<noteq> []"

lemma step_idsD:
  assumes "step_ids now run rnd sid name"
  shows "now \<noteq> []" "run \<noteq> []" "rnd \<noteq> []" "sid \<noteq> []" "name \<noteq> []"
  using assms by (simp_all add: step_ids_def)

lemma ready_step:
  fixes hash :: "pyval \<Rightarrow> string" and rnd sid name :: string and input :: pydict
  defines "k \<equiv> step_dir rnd sid name" and "h \<equiv> hash (PDict input)"
  assumes ok: "store_ok st" and ids0: "step_ids now run rnd sid name"
  obtains s1 st1 s0 st0 where
    "prepare_status hash now run rnd sid name input (status_at st k) st = Inr (s0, st0)"
    "to_ready now s0 st0 = Inr (s1, st1)" "started k h st s1 st1"
    "ss_state s1 \<in> set [''ready'', ''inflight''] \<longleftrightarrow> runnable h (status_at st k)"
    "ss_state s1 \<notin> set [''created'', ''retryable_failed'', ''resumed'']"
    "runnable h (status_at st k) \<or> map_option ss_state (status_at st k) = Some (ss_state s1)"
proof -
  note ids = step_idsD [OF ids0]
  obtain s0 st0 where p: "prepare_status hash now run rnd sid name input (status_at st k) st = Inr (s0, st0)"
    "started k h st s0 st0"
    "ss_state s0 = (case status_at st k of None \<Rightarrow> ''created''
       | Some s0 \<Rightarrow> if ss_state s0 = ''committed'' \<and> ss_input_hash s0 \<noteq> h then ''created'' else ss_state s0)"
    by (rule prepare_started [OF ok ids refl, of hash input, folded k_def h_def])
  obtain s1 st1 where r: "to_ready now s0 st0 = Inr (s1, st1)" "started k h st s1 st1"
    "ss_state s1 = (if ss_state s0 \<in> set [''created'', ''retryable_failed'', ''resumed''] then ''ready'' else ss_state s0)"
    by (rule to_ready_started [OF p(2) ids(1)])
  have mem: "\<And>s. status_at st k = Some s \<Longrightarrow> ss_state s \<in> set ALL_STEP_STATES"
    using status_at_ok [OF ok] by (auto simp: status_ok_def)
  have "ss_state s1 \<in> set [''ready'', ''inflight''] \<longleftrightarrow> runnable h (status_at st k)"
  proof (cases "status_at st k")
    case None
    then show ?thesis using p(3) r(3) by (simp add: runnable_def)
  next
    case (Some s)
    show ?thesis
    proof (cases "ss_state s = ''committed''")
      case True
      then show ?thesis using p(3) r(3) Some by (simp add: runnable_def)
    next
      case False
      then have e: "ss_state s1 =
          (if ss_state s \<in> set [''created'', ''retryable_failed'', ''resumed''] then ''ready'' else ss_state s)"
        using p(3) r(3) Some by simp
      show ?thesis unfolding e ready_state [OF mem [OF Some]] using False Some by (simp add: runnable_def)
    qed
  qed
  moreover have "ss_state s1 \<notin> set [''created'', ''retryable_failed'', ''resumed'']"
    using r(3) by (auto split: if_splits)
  moreover have "map_option ss_state (status_at st k) = Some (ss_state s1)" if "\<not> runnable h (status_at st k)"
  proof (cases "status_at st k")
    case (Some s)
    with that have "ss_state s \<in> set [''committed'', ''terminal_failed'', ''cancelled'']" "ss_state s0 = ss_state s"
      using p(3) by (auto simp: runnable_def split: if_splits)
    then show ?thesis using r(3) Some by auto
  qed (use that in \<open>simp add: runnable_def\<close>)
  ultimately show thesis using that p(1) r(1,2) by blast
qed

lemma inflight_step:
  fixes hash :: "pyval \<Rightarrow> string" and rnd sid name :: string and input :: pydict
  defines "k \<equiv> step_dir rnd sid name" and "h \<equiv> hash (PDict input)"
  assumes ok: "store_ok st" and ids0: "step_ids now run rnd sid name"
    and runnable: "runnable h (status_at st k)"
  obtains s0 st0 s1 st1 s2 st2 where
    "prepare_status hash now run rnd sid name input (status_at st k) st = Inr (s0, st0)"
    "to_ready now s0 st0 = Inr (s1, st1)" "write_inflight_status now s1 st1 = Inr (s2, st2)"
    "started k h st s2 st2" "ss_state s2 = ''inflight''"
proof -
  obtain s1 st1 s0 st0 where r:
    "prepare_status hash now run rnd sid name input (status_at st k) st = Inr (s0, st0)"
    "to_ready now s0 st0 = Inr (s1, st1)" "started k h st s1 st1"
    "ss_state s1 \<in> set [''ready'', ''inflight''] \<longleftrightarrow> runnable h (status_at st k)"
    unfolding k_def h_def by (rule ready_step [where hash = hash and input = input, OF ok ids0])
  note ids = step_idsD [OF ids0]
  have "step_check (ss_state (s1\<lparr>ss_attempt := ss_attempt s1 + 1\<rparr>)) ''inflight'' = Inr ''inflight''"
    using r(4) runnable by (auto simp: step_check_start)
  then obtain s2 where s2:
    "transition now (s1\<lparr>ss_attempt := ss_attempt s1 + 1\<rparr>) ''inflight'' ''step_started'' None [] = Inr s2"
    by (simp add: transition_Inr)
  then have "write_inflight_status now s1 st1 = Inr (s2, write_status s2 st1)"
    by (simp add: write_inflight_status_def)
  then show thesis
    using that r(1,2) started_step [OF r(3) s2 ids(1)] transition_keeps [OF s2] by blast
qed

lemma run_step_runs:
  fixes hash :: "pyval \<Rightarrow> string" and rnd sid name :: string and input :: pydict
  defines "k \<equiv> step_dir rnd sid name" and "h \<equiv> hash (PDict input)"
  assumes ok: "store_ok (rn_store R)" and ids: "step_ids now run rnd sid name"
    and runnable: "runnable h (status_at (rn_store R) k)"
  obtains s st' log where "started k h (rn_store R) s st'" "ss_state s = ''inflight''"
    "run_step hash retry now run fn rnd sid name input R =
       finish_step hash retry now s (fst (fn (rn_world R)))
         (R\<lparr>rn_store := st', rn_log := log, rn_world := snd (fn (rn_world R))\<rparr>)"
proof -
  obtain s0 st0 s1 st1 s2 st2 where r:
    "prepare_status hash now run rnd sid name input (status_at (rn_store R) k) (rn_store R) = Inr (s0, st0)"
    "to_ready now s0 st0 = Inr (s1, st1)" "write_inflight_status now s1 st1 = Inr (s2, st2)"
    "started k h (rn_store R) s2 st2" "ss_state s2 = ''inflight''"
    unfolding k_def h_def by (rule inflight_step [where hash = hash and input = input, OF ok ids runnable [unfolded k_def h_def]])
  let ?R2 = "log_event ''step_started'' s2 [(''attempt'', PInt (ss_attempt s2))] (R\<lparr>rn_store := st2\<rparr>)"
  have hit: "committed_hit h (status_at (rn_store R) k) out = None" for out
    using runnable by (auto simp: committed_hit_def runnable_def split: option.splits)
  have "run_step hash retry now run fn rnd sid name input R =
       finish_step hash retry now s2 (fst (fn (rn_world R))) (?R2\<lparr>rn_world := snd (fn (rn_world R))\<rparr>)"
    using r hit ok
    by (simp add: run_step_def read_status_at k_def [symmetric] h_def [symmetric] split_beta)
  moreover have "?R2\<lparr>rn_world := w\<rparr> = R\<lparr>rn_store := st2, rn_log := rn_log ?R2, rn_world := w\<rparr>" for w
    by (simp add: log_event_def split: option.split)
  ultimately show thesis using that [OF r(4,5)] by simp
qed

lemma run_step_refuses:
  fixes hash :: "pyval \<Rightarrow> string" and rnd sid name :: string and input :: pydict
  defines "k \<equiv> step_dir rnd sid name" and "h \<equiv> hash (PDict input)"
  assumes ok: "store_ok (rn_store R)" and ids: "step_ids now run rnd sid name"
    and stuck: "\<not> runnable h (status_at (rn_store R) k)"
    and miss: "committed_hit h (status_at (rn_store R) k) (read_output (rn_store R) rnd sid name) = None"
  shows "\<exists>e st' s. run_step hash retry now run fn rnd sid name input R = (Inl (StepError e), R\<lparr>rn_store := st'\<rparr>) \<and>
    started k h (rn_store R) s st' \<and> map_option ss_state (status_at (rn_store R) k) = Some (ss_state s)"
proof -
  obtain s1 st1 s0 st0 where r:
    "prepare_status hash now run rnd sid name input (status_at (rn_store R) k) (rn_store R) = Inr (s0, st0)"
    "to_ready now s0 st0 = Inr (s1, st1)" "started k h (rn_store R) s1 st1"
    "ss_state s1 \<in> set [''ready'', ''inflight''] \<longleftrightarrow> runnable h (status_at (rn_store R) k)"
    "ss_state s1 \<notin> set [''created'', ''retryable_failed'', ''resumed'']"
    "runnable h (status_at (rn_store R) k) \<or> map_option ss_state (status_at (rn_store R) k) = Some (ss_state s1)"
    unfolding k_def h_def by (rule ready_step [where hash = hash and input = input, OF ok ids])
  have "step_check (ss_state s1) ''inflight'' \<noteq> Inr ''inflight''"
    using r(4,5) stuck by (auto simp: step_check_start)
  then have "\<exists>e. write_inflight_status now s1 st1 = Inl e"
    by (intro sum_not_Inr) (auto simp: write_inflight_status_def sbind_Inr_iff transition_Inr)
  then obtain e where "write_inflight_status now s1 st1 = Inl e" ..
  then show ?thesis
    using r(1-3,6) stuck miss ok
    by (auto simp: run_step_def read_status_at k_def [symmetric] h_def [symmetric])
qed

section \<open>Outcome of the body\<close>

definition ended :: "step_key \<Rightarrow> string \<Rightarrow> store \<Rightarrow> string \<Rightarrow> step_status \<Rightarrow> store \<Rightarrow> bool" where
  "ended k h st0 state s st \<longleftrightarrow>
     store_ok st \<and> status_at st k = Some s \<and> ss_state s = state \<and> ss_input_hash s = h \<and>
     (\<forall>k'. k' \<noteq> k \<longrightarrow> status_at st k' = status_at st0 k' \<and> sf_output (files_at st k') = sf_output (files_at st0 k'))"

lemma started_ended: "started k h st0 s st \<Longrightarrow> ended k h st0 (ss_state s) s st"
  by (simp add: started_def ended_def)

lemma inflight_ends:
  assumes "t \<in> set [''committed'', ''retryable_failed'', ''terminal_failed'']" "ss_state s = ''inflight''"
  obtains s' where "transition now s t r e md = Inr s'"
  using assms that
  by (auto simp: transition_Inr step_check_Inr ALL_STEP_STATES_def TERMINAL_STATES_def allowed_steps_def
      ALLOWED_TRANSITIONS_def)

lemma finish_commits:
  assumes "started k h st0 s (rn_store R)" "ss_state s = ''inflight''" "now \<noteq> []"
  obtains s' st' log where
    "finish_step hash retry now s (FnReturns (PDict out)) R = (Inr out, R\<lparr>rn_store := st', rn_log := log\<rparr>)"
    "ended k h st0 ''committed'' s' st'" "sf_output (files_at st' k) = Some (Json (PDict out))"
    "ss_output_hash s' = hash (PDict out)" "ss_attempt s' = ss_attempt s"
proof -
  let ?s = "s\<lparr>ss_output_hash := hash (PDict out)\<rparr>" and ?st = "put_output k (Json (PDict out)) (rn_store R)"
  let ?r = "''output_validated_and_atomically_committed''"
  have "ss_state ?s = ''inflight''" using assms(2) by simp
  then obtain s' where s': "transition now ?s ''committed'' ?r None [] = Inr s'"
    by (rule inflight_ends [of "''committed''" ?s now ?r None "[]", rotated]) simp_all
  have s: "status_ok s" "status_key s = k" "store_ok (rn_store R)" "ss_input_hash s = h"
    using assms(1) by (auto simp: started_def)
  have ok': "status_ok s'" using transition_ok [OF _ assms(3) s'] s(1) by simp
  note keep = transition_keeps [OF s']
  have "ended k h st0 ''committed'' s' (write_status s' ?st)"
    using assms(1) ok' keep by (auto simp: started_def ended_def store_ok_write status_at_write output_cell.get_put)
  moreover have "finish_step hash retry now s (FnReturns (PDict out)) R =
      (Inr out, R\<lparr>rn_store := write_status s' ?st,
         rn_log := rn_log (log_event ''step_committed'' s' [(''output_hash'', PStr (ss_output_hash s'))] R)\<rparr>)"
    using s' s by (simp add: finish_step_def commit_output_def Let_def log_event_def split: option.split)
  moreover have "sf_output (files_at (write_status s' ?st) k) = Some (Json (PDict out))" by simp
  ultimately show thesis using that keep by simp
qed

lemma fail_fails:
  assumes "started k h st0 s (rn_store R)" "ss_state s = ''inflight''" "now \<noteq> []"
  obtains s' st' log where
    "fail_step retry now s cls msg R = (Inl (FnError cls msg), R\<lparr>rn_store := st', rn_log := log\<rparr>)"
    "ended k h st0 (if retry cls then ''retryable_failed'' else ''terminal_failed'') s' st'"
    "sf_output (files_at st' k) = sf_output (files_at st0 k)"
    "ss_error s' = [(''type'', PStr cls), (''message'', PStr msg)]" "ss_attempt s' = ss_attempt s"
proof -
  let ?t = "if retry cls then ''retryable_failed'' else ''terminal_failed''"
  obtain s' where s': "transition now s ?t msg (Some [(''type'', PStr cls), (''message'', PStr msg)]) [] = Inr s'"
    by (rule inflight_ends [of ?t s, OF _ assms(2)]) simp_all
  have e: "started k h st0 s' (write_status s' (rn_store R))"
    using started_step [of k h st0 s "rn_store R" now "ss_attempt s"] assms(1,3) s' by simp
  note keep = transition_keeps [OF s']
  have "fail_step retry now s cls msg R =
      (Inl (FnError cls msg), R\<lparr>rn_store := write_status s' (rn_store R),
         rn_log := rn_log (log_event (if retry cls then ''step_retryable_failed'' else ''step_terminal_failed'') s'
             [(''error'', PStr msg)] R)\<rparr>)"
    using s' by (simp add: fail_step_def mark_failed_def log_event_def split: option.split)
  moreover have "ended k h st0 ?t s' (write_status s' (rn_store R))"
    using started_ended [OF e] keep by simp
  moreover have "sf_output (files_at (write_status s' (rn_store R)) k) = sf_output (files_at st0 k)"
    using e unfolding started_def by blast
  moreover have "ss_error s' = [(''type'', PStr cls), (''message'', PStr msg)]"
    using s' by (simp add: transition_Inr)
  ultimately show thesis using that keep by blast
qed

text \<open>What the body's outcome means: an output to commit, or the class and message of a failure.\<close>

definition fn_result :: "fn_outcome \<Rightarrow> (string \<times> string) + pydict" where
  "fn_result r =
     (case r of FnReturns (PDict out) \<Rightarrow> Inr out
      | FnReturns _ \<Rightarrow> Inl (''TypeError'', ''durable step output must be a JSON object/dict'')
      | FnRaises cls msg \<Rightarrow> Inl (cls, msg))"

lemma finish_step_result:
  "finish_step hash retry now s r R =
     (case fn_result r of
        Inr out \<Rightarrow> finish_step hash retry now s (FnReturns (PDict out)) R
      | Inl (cls, msg) \<Rightarrow> fail_step retry now s cls msg R)"
  by (simp add: finish_step_def fn_result_def split: fn_outcome.split pyval.split)

text \<open>A run that returns: either the committed output of before, or the body's output, now committed.\<close>

lemma run_step_returns:
  assumes ok: "store_ok (rn_store R)" and ids: "step_ids now run rnd sid name"
    and run: "run_step hash retry now run fn rnd sid name input R = (Inr out, R')"
  obtains s where "status_at (rn_store R') (step_dir rnd sid name) = Some s" "ss_state s = ''committed''"
    "ss_input_hash s = hash (PDict input)" "read_output (rn_store R') rnd sid name = Some out" "store_ok (rn_store R')"
proof -
  let ?st = "rn_store R"
  define k h where kh: "k = step_dir rnd sid name" "h = hash (PDict input)"
  show thesis
  proof (cases "committed_hit h (status_at ?st k) (read_output ?st rnd sid name)")
    case (Some out')
    then show thesis
      using run that ok
      by (auto simp: run_step_def read_status_at kh committed_hit_def split: option.splits if_splits)
  next
    case None
    show thesis
    proof (cases "runnable h (status_at ?st k)")
      case False
      then show thesis using run_step_refuses [where hash = hash and input = input, OF ok ids False [unfolded kh] None [unfolded kh],
        of retry fn] run by auto
    next
      case True
      obtain s st' log where r: "started k h ?st s st'" "ss_state s = ''inflight''"
        "run_step hash retry now run fn rnd sid name input R =
           finish_step hash retry now s (fst (fn (rn_world R)))
             (R\<lparr>rn_store := st', rn_log := log, rn_world := snd (fn (rn_world R))\<rparr>)"
        by (rule run_step_runs [where hash = hash and input = input, OF ok ids True [unfolded kh], folded kh])
      let ?R = "R\<lparr>rn_store := st', rn_log := log, rn_world := snd (fn (rn_world R))\<rparr>"
      have st: "started k h ?st s (rn_store ?R)" using r(1) by simp
      show thesis
      proof (cases "fn_result (fst (fn (rn_world R)))")
        case (Inl cm)
        then obtain cls msg where cm: "cm = (cls, msg)" by force
        show thesis
          by (rule fail_fails [OF st r(2) step_idsD(1) [OF ids], of retry cls msg])
            (use Inl cm r(3) run in \<open>simp add: finish_step_result [of _ _ _ _ "fst (fn (rn_world R))"]\<close>)
      next
        case (Inr o')
        show thesis
          by (rule finish_commits [OF st r(2) step_idsD(1) [OF ids], of hash retry o'])
            (use Inr r(3) run that in \<open>auto simp: finish_step_result [of _ _ _ _ "fst (fn (rn_world R))"]
               ended_def kh read_output_def\<close>)
      qed
    qed
  qed
qed

text \<open>The input file is written by the preparation only.\<close>

lemma input_kept:
  "to_ready now s st = Inr (s1, st1) \<Longrightarrow> sf_input (files_at st1 k) = sf_input (files_at st k)"
  "write_inflight_status now s st = Inr (s1, st1) \<Longrightarrow> sf_input (files_at st1 k) = sf_input (files_at st k)"
  "finish_step hash retry now s r R = (res, R') \<Longrightarrow>
     sf_input (files_at (rn_store R') k) = sf_input (files_at (rn_store R) k)"
  by (auto simp: to_ready_def write_inflight_status_def finish_step_def fail_step_def mark_failed_def
      commit_output_def Let_def sbind_Inr_iff split: if_splits fn_outcome.splits pyval.splits sum.splits)

section \<open>Properties of the runner\<close>


text \<open>
  A step that is not finished runs its body exactly once and records what came of it. A dict is
  returned and is the committed output on disk; any other outcome reaches the caller as the exception
  with its class and message in the status, retryable exactly when the class is one of the retry
  exceptions. Every other step keeps its status and its output, and the store stays well-formed.
\<close>

theorem run_step_outcome:
  assumes "store_ok (rn_store R)" "step_ids now run rnd sid name"
    and "runnable (hash (PDict input)) (status_at (rn_store R) (step_dir rnd sid name))"
    and "run_step hash retry now run fn rnd sid name input R = (res, R')"
  shows "rn_world R' = snd (fn (rn_world R)) \<and>
         (case fn_result (fst (fn (rn_world R))) of
           Inr out \<Rightarrow> res = Inr out \<and> read_output (rn_store R') rnd sid name = Some out \<and>
             (\<exists>s. ended (step_dir rnd sid name) (hash (PDict input)) (rn_store R) ''committed'' s (rn_store R') \<and>
                  ss_output_hash s = hash (PDict out))
         | Inl (cls, msg) \<Rightarrow> res = Inl (FnError cls msg) \<and>
             read_output (rn_store R') rnd sid name = read_output (rn_store R) rnd sid name \<and>
             (\<exists>s. ended (step_dir rnd sid name) (hash (PDict input)) (rn_store R)
                    (if retry cls then ''retryable_failed'' else ''terminal_failed'') s (rn_store R') \<and>
                  ss_error s = [(''type'', PStr cls), (''message'', PStr msg)]))"
proof -
  let ?k = "step_dir rnd sid name" and ?h = "hash (PDict input)" and ?w = "fn (rn_world R)"
  obtain s st' log where r: "started ?k ?h (rn_store R) s st'" "ss_state s = ''inflight''"
    "run_step hash retry now run fn rnd sid name input R =
       finish_step hash retry now s (fst ?w) (R\<lparr>rn_store := st', rn_log := log, rn_world := snd ?w\<rparr>)"
    by (rule run_step_runs [where hash = hash and input = input, OF assms(1-3)])
  let ?R = "R\<lparr>rn_store := st', rn_log := log, rn_world := snd ?w\<rparr>"
  have st: "started ?k ?h (rn_store R) s (rn_store ?R)" using r(1) by simp
  note fin = finish_step_result [of hash retry now s "fst ?w" ?R] and now = step_idsD(1) [OF assms(2)]
  show ?thesis
  proof (cases "fn_result (fst ?w)")
    case (Inl cm)
    obtain cls msg where cm: "cm = (cls, msg)" by force
    show ?thesis
      by (rule fail_fails [OF st r(2) now, of retry cls msg])
        (use assms(4) r(3) fin Inl cm in \<open>auto simp: read_output_def\<close>)
  next
    case (Inr out)
    show ?thesis
      by (rule finish_commits [OF st r(2) now, of hash retry out])
        (use assms(4) r(3) fin Inr in \<open>auto simp: read_output_def\<close>)
  qed
qed

text \<open>
  A finished step is never run again. When it failed terminally, was cancelled, or is committed for
  this input but its output file is gone, the call is refused with the state machine's error: the body
  does not run, no event is logged, and the status on disk stays in its terminal state.
\<close>

theorem run_step_terminal:
  assumes "store_ok (rn_store R)" "step_ids now run rnd sid name"
    and "status_at (rn_store R) (step_dir rnd sid name) = Some s"
    and "ss_state s = ''terminal_failed'' \<or> ss_state s = ''cancelled'' \<or>
         ss_state s = ''committed'' \<and> ss_input_hash s = hash (PDict input) \<and> read_output (rn_store R) rnd sid name = None"
  shows "\<exists>e st'. run_step hash retry now run fn rnd sid name input R = (Inl (StepError e), R\<lparr>rn_store := st'\<rparr>) \<and>
           store_ok st' \<and> map_option ss_state (status_at st' (step_dir rnd sid name)) = Some (ss_state s)"
proof -
  have stuck: "\<not> runnable (hash (PDict input)) (status_at (rn_store R) (step_dir rnd sid name))"
    using assms(3,4) by (auto simp: runnable_def)
  have miss: "committed_hit (hash (PDict input)) (status_at (rn_store R) (step_dir rnd sid name))
      (read_output (rn_store R) rnd sid name) = None"
    using assms(3,4) by (auto simp: committed_hit_def split: option.split)
  obtain e st' s' where r: "run_step hash retry now run fn rnd sid name input R = (Inl (StepError e), R\<lparr>rn_store := st'\<rparr>)"
    "started (step_dir rnd sid name) (hash (PDict input)) (rn_store R) s' st'"
    "map_option ss_state (status_at (rn_store R) (step_dir rnd sid name)) = Some (ss_state s')"
    using run_step_refuses [where hash = hash and input = input, OF assms(1,2) stuck miss] by blast
  then have "store_ok st'" "status_at st' (step_dir rnd sid name) = Some s'" "ss_state s' = ss_state s"
    using assms(3) by (simp_all add: started_def)
  with r(1) show ?thesis by (intro exI [of _ e] exI [of _ st']) simp
qed

text \<open>
  Re-running a committed step with a new input commits the new input's hash and output, but the
  input file still holds the old input: \<open>write_input\<close> is not called on that path.
\<close>

theorem run_step_stale_input:
  assumes "store_ok (rn_store R)" "step_ids now run rnd sid name"
    and "status_at (rn_store R) (step_dir rnd sid name) = Some s"
    and "ss_state s = ''committed''" "ss_input_hash s \<noteq> hash (PDict input)"
    and "run_step hash retry now run fn rnd sid name input R = (Inr out, R')"
  shows "read_input (rn_store R') rnd sid name = read_input (rn_store R) rnd sid name \<and>
         map_option ss_input_hash (status_at (rn_store R') (step_dir rnd sid name)) = Some (hash (PDict input))"
proof
  show "map_option ss_input_hash (status_at (rn_store R') (step_dir rnd sid name)) = Some (hash (PDict input))"
    by (rule run_step_returns [OF assms(1,2,6)]) simp
  have found: "read_status now (rn_store R) rnd sid name = Inr (Some s)"
    using assms(1,3) by (simp add: read_status_at)
  show "read_input (rn_store R') rnd sid name = read_input (rn_store R) rnd sid name"
    using assms(4-6) found
    by (auto simp: run_step_def committed_hit_def prepare_status_def Let_def read_input_def input_kept split_beta
        dest: input_kept split: option.splits sum.splits prod.splits)
qed

section \<open>Witnesses\<close>

text \<open>A body that counts its runs, on a store that starts empty.\<close>

definition demo_runner :: "nat runner" where
  "demo_runner = \<lparr>rn_store = [], rn_log = Some [], rn_world = 0\<rparr>"

definition demo_fn :: "nat \<Rightarrow> fn_outcome \<times> nat" where
  "demo_fn w = (FnReturns (PDict [(''runs'', PInt (int w))]), w + 1)"

definition demo_hash :: "pyval \<Rightarrow> string" where
  "demo_hash v = (if v = PDict [(''i'', PInt 1)] then ''h1'' else ''h2'')"

definition demo_run :: "int \<Rightarrow> nat runner \<Rightarrow> (run_exn + pydict) \<times> nat runner" where
  "demo_run i R = run_step demo_hash (\<lambda>c. c = ''RuntimeError'') ''now'' ''run'' demo_fn ''r1'' ''s1'' ''seed''
     [(''i'', PInt i)] R"

definition demo_at :: "string \<Rightarrow> string \<Rightarrow> step_status" where
  "demo_at state h = (new_status ''now'' ''run'' ''r1'' ''s1'' ''seed'' h [])\<lparr>ss_state := state\<rparr>"

definition demo_from :: "string \<Rightarrow> string \<Rightarrow> nat runner" where
  "demo_from state h = demo_runner\<lparr>rn_store := write_status (demo_at state h) []\<rparr>"

lemma demo_ids: "step_ids ''now'' ''run'' ''r1'' ''s1'' ''seed''"
  by (simp add: step_ids_def)

lemma demo_at_ok: "state \<in> set ALL_STEP_STATES \<Longrightarrow> status_ok (demo_at state h)"
  by (simp add: demo_at_def new_status_def status_ok_def)

lemma demo_from_ok:
  assumes "state \<in> set ALL_STEP_STATES"
  shows "store_ok (rn_store (demo_from state h))"
    "status_at (rn_store (demo_from state h)) (step_dir ''r1'' ''s1'' ''seed'') = Some (demo_at state h)"
  using demo_at_ok [OF assms]
  by (simp_all add: demo_from_def store_ok_write store_ok_empty status_at_write)
    (simp add: demo_at_def new_status_def status_key_def)


theorem run_step_outcome_witness: "rn_world (snd (demo_run 1 demo_runner)) = 1"
proof -
  have "runnable (demo_hash (PDict [(''i'', PInt 1)])) (status_at (rn_store demo_runner) (step_dir ''r1'' ''s1'' ''seed''))"
    by (simp add: demo_runner_def runnable_def status_at_def files_at_def)
  from run_step_outcome [where hash = demo_hash and input = "[(''i'', PInt 1)]" and R = demo_runner and fn = demo_fn,
      OF _ demo_ids this]
  show ?thesis
    by (cases "demo_run 1 demo_runner") (simp add: demo_run_def demo_runner_def store_ok_empty demo_fn_def)
qed

theorem run_step_terminal_witness: "rn_world (snd (demo_run 1 (demo_from ''terminal_failed'' ''h1''))) = 0"
proof -
  have t: "''terminal_failed'' \<in> set ALL_STEP_STATES" by (simp add: ALL_STEP_STATES_def)
  have "ss_state (demo_at ''terminal_failed'' ''h1'') = ''terminal_failed''" by (simp add: demo_at_def)
  with run_step_terminal [where hash = demo_hash and input = "[(''i'', PInt 1)]" and fn = demo_fn,
      OF demo_from_ok(1) [OF t] demo_ids demo_from_ok(2) [OF t], of "''h1''" "\<lambda>c. c = ''RuntimeError''"]
  obtain e st' where "demo_run 1 (demo_from ''terminal_failed'' ''h1'') =
      (Inl (StepError e), demo_from ''terminal_failed'' ''h1''\<lparr>rn_store := st'\<rparr>)"
    unfolding demo_run_def by blast
  then show ?thesis by (simp add: demo_from_def demo_runner_def)
qed

theorem run_step_stale_input_witness:
  "\<exists>out R'. demo_run 1 (demo_from ''committed'' ''h2'') = (Inr out, R') \<and>
     read_input (rn_store R') ''r1'' ''s1'' ''seed'' = None"
proof -
  have t: "''committed'' \<in> set ALL_STEP_STATES" by (simp add: ALL_STEP_STATES_def)
  have d: "fst (demo_run 1 (demo_from ''committed'' ''h2'')) = Inr [(''runs'', PInt 0)]" by code_simp
  then obtain R' where R': "demo_run 1 (demo_from ''committed'' ''h2'') = (Inr [(''runs'', PInt 0)], R')"
    by (cases "demo_run 1 (demo_from ''committed'' ''h2'')") simp
  have "ss_state (demo_at ''committed'' ''h2'') = ''committed''" "ss_input_hash (demo_at ''committed'' ''h2'') = ''h2''"
    by (simp_all add: demo_at_def new_status_def)
  with run_step_stale_input [where hash = demo_hash and input = "[(''i'', PInt 1)]" and fn = demo_fn,
      OF demo_from_ok(1) [OF t] demo_ids demo_from_ok(2) [OF t], of "''h2''"] R'
  have "read_input (rn_store R') ''r1'' ''s1'' ''seed'' =
      read_input (rn_store (demo_from ''committed'' ''h2'')) ''r1'' ''s1'' ''seed''"
    unfolding demo_run_def by (simp add: demo_hash_def)
  also have "\<dots> = None" by (simp add: demo_from_def demo_runner_def read_input_def) (simp add: files_at_def)
  finally show ?thesis using R' by blast
qed

end
