(* ===== verification/ResumePlanner.thy ===== *)
theory ResumePlanner
  imports StepRunner
begin

text \<open>
  durable/resume_planner.py and durable/reaper.py: what a resumed run does with every recorded step, and
  the repair of steps that were left in flight. \<open>epoch\<close> is the reading of an ISO timestamp as
  seconds (\<open>datetime.fromisoformat\<close>, a naive time read as UTC; no value when it does not parse); \<open>t\<close>
  is the wall clock at the moment the plan is made, \<open>now\<close> its text.
\<close>

record resume_action =
  ra_action :: string
  ra_round_id :: string
  ra_step_id :: string
  ra_step_name :: string
  ra_reason :: string
  ra_status :: string

record resume_plan =
  rp_status :: string
  rp_actions :: "resume_action list"
  rp_committed :: nat
  rp_retryable :: nat
  rp_terminal_failed :: nat
  rp_inflight_stale :: nat

definition resume_action_to_dict :: "resume_action \<Rightarrow> pydict" where
  "resume_action_to_dict a =
     [(''action'', PStr (ra_action a)), (''round_id'', PStr (ra_round_id a)), (''step_id'', PStr (ra_step_id a)),
      (''step_name'', PStr (ra_step_name a)), (''reason'', PStr (ra_reason a)), (''status'', PStr (ra_status a))]"

definition resume_plan_to_dict :: "resume_plan \<Rightarrow> pydict" where
  "resume_plan_to_dict p =
     [(''status'', PStr (rp_status p)),
      (''actions'', PList (map (\<lambda>a. PDict (resume_action_to_dict a)) (rp_actions p))),
      (''committed_steps'', PInt (int (rp_committed p))), (''retryable_steps'', PInt (int (rp_retryable p))),
      (''terminal_failed_steps'', PInt (int (rp_terminal_failed p))),
      (''inflight_stale_steps'', PInt (int (rp_inflight_stale p))),
      (''no_committed_rerun_policy'', PBool True)]"

definition mk_action :: "string \<Rightarrow> step_status \<Rightarrow> string \<Rightarrow> resume_action" where
  "mk_action action s reason =
     \<lparr>ra_action = action, ra_round_id = ss_round_id s, ra_step_id = ss_step_id s, ra_step_name = ss_step_name s,
      ra_reason = reason, ra_status = ss_state s\<rparr>"

text \<open>\<open>__init__\<close>: the timeout is at least one second.\<close>

definition inflight_timeout :: "rat \<Rightarrow> rat" where
  "inflight_timeout seconds = max 1 seconds"

definition is_stale :: "(string \<Rightarrow> rat option) \<Rightarrow> rat \<Rightarrow> rat \<Rightarrow> step_status \<Rightarrow> bool" where
  "is_stale epoch timeout t s =
     (case epoch (ss_updated_at s) of None \<Rightarrow> True | Some u \<Rightarrow> t - u > timeout)"

text \<open>One turn of the loop: the action of a status and the counter it raises.\<close>

definition plan_step :: "(step_status \<Rightarrow> bool) \<Rightarrow> resume_plan \<Rightarrow> step_status \<Rightarrow> resume_plan" where
  "plan_step stale p s =
     (let add = (\<lambda>a r. rp_actions p @ [mk_action a s r]) in
      if ss_state s = ''committed'' then
        p\<lparr>rp_committed := rp_committed p + 1, rp_actions := add ''skip'' ''committed_step_will_not_rerun''\<rparr>
      else if ss_state s = ''retryable_failed'' then
        p\<lparr>rp_retryable := rp_retryable p + 1, rp_actions := add ''retry'' ''retryable_failed_step_can_resume''\<rparr>
      else if ss_state s = ''inflight'' then
        (if stale s then
           p\<lparr>rp_inflight_stale := rp_inflight_stale p + 1,
             rp_actions := add ''mark_retryable_failed'' ''inflight_step_older_than_timeout''\<rparr>
         else p\<lparr>rp_actions := add ''wait'' ''inflight_step_not_yet_stale''\<rparr>)
      else if ss_state s = ''terminal_failed'' then
        p\<lparr>rp_terminal_failed := rp_terminal_failed p + 1,
          rp_actions := add ''stop'' ''terminal_failure_requires_operator_or_new_run''\<rparr>
      else if ss_state s \<in> set [''created'', ''ready'', ''resumed''] then
        p\<lparr>rp_retryable := rp_retryable p + 1, rp_actions := add ''run'' ''uncommitted_step_ready_to_run''\<rparr>
      else if ss_state s = ''cancelled'' then
        p\<lparr>rp_terminal_failed := rp_terminal_failed p + 1, rp_actions := add ''stop'' ''cancelled_step_is_terminal''\<rparr>
      else p)"

definition empty_plan :: resume_plan where
  "empty_plan = \<lparr>rp_status = [], rp_actions = [], rp_committed = 0, rp_retryable = 0, rp_terminal_failed = 0,
     rp_inflight_stale = 0\<rparr>"

definition plan_status :: "resume_plan \<Rightarrow> string" where
  "plan_status p =
     (if rp_terminal_failed p \<noteq> 0 then ''terminal_failed''
      else if rp_inflight_stale p \<noteq> 0 \<or> rp_retryable p \<noteq> 0 then ''resume_available''
      else if rp_committed p \<noteq> 0 then ''all_committed''
      else ''empty'')"

definition plan_of :: "(step_status \<Rightarrow> bool) \<Rightarrow> step_status list \<Rightarrow> resume_plan" where
  "plan_of stale ss = (let p = foldl (plan_step stale) empty_plan ss in p\<lparr>rp_status := plan_status p\<rparr>)"

definition plan :: "(string \<Rightarrow> rat option) \<Rightarrow> rat \<Rightarrow> string \<Rightarrow> rat \<Rightarrow> store \<Rightarrow> pyexn + resume_plan" where
  "plan epoch timeout now t st =
     sbind (iter_statuses now st) (\<lambda>ss. Inr (plan_of (is_stale epoch timeout t) ss))"

fun mark_stale :: "string \<Rightarrow> resume_action list \<Rightarrow> store \<Rightarrow> run_exn + store" where
  "mark_stale now [] st = Inr st"
| "mark_stale now (a # as) st =
     (if ra_action a \<noteq> ''mark_retryable_failed'' then mark_stale now as st
      else case read_status now st (ra_round_id a) (ra_step_id a) (ra_step_name a) of
        Inl e \<Rightarrow> Inl (DecodeError e)
      | Inr None \<Rightarrow> mark_stale now as st
      | Inr (Some s) \<Rightarrow>
          (if ss_state s \<noteq> ''inflight'' then mark_stale now as st
           else case mark_failed now s True ''StaleInflight'' (ra_reason a) st of
             Inl e \<Rightarrow> Inl (StepError e)
           | Inr (_, st') \<Rightarrow> mark_stale now as st'))"

text \<open>The clock is read again for the plan that is returned.\<close>

definition apply_stale_inflight ::
  "(string \<Rightarrow> rat option) \<Rightarrow> rat \<Rightarrow> string \<Rightarrow> rat \<Rightarrow> rat \<Rightarrow> store \<Rightarrow> run_exn + resume_plan \<times> store" where
  "apply_stale_inflight epoch timeout now t1 t2 st =
     (case plan epoch timeout now t1 st of
        Inl e \<Rightarrow> Inl (DecodeError e)
      | Inr p \<Rightarrow>
          sbind (mark_stale now (rp_actions p) st) (\<lambda>st'.
            case plan epoch timeout now t2 st' of Inl e \<Rightarrow> Inl (DecodeError e) | Inr p' \<Rightarrow> Inr (p', st')))"

definition reap ::
  "(string \<Rightarrow> rat option) \<Rightarrow> rat \<Rightarrow> string \<Rightarrow> rat \<Rightarrow> rat \<Rightarrow> rat \<Rightarrow> store \<Rightarrow> run_exn + pydict \<times> store" where
  "reap epoch timeout now t0 t1 t2 st =
     (case plan epoch timeout now t0 st of
        Inl e \<Rightarrow> Inl (DecodeError e)
      | Inr before \<Rightarrow>
          sbind (apply_stale_inflight epoch timeout now t1 t2 st) (\<lambda>(after, st').
            Inr ([(''status'', PStr (rp_status after)), (''before'', PDict (resume_plan_to_dict before)),
                  (''after'', PDict (resume_plan_to_dict after)),
                  (''policy'', PStr ''stale_inflight_steps_become_retryable_failed_not_success'')], st')))"

section \<open>Lemmas\<close>

lemma status_at_dom: "status_at st k = Some s \<Longrightarrow> k \<in> fst ` set st"
proof (rule ccontr)
  assume s: "status_at st k = Some s" and "k \<notin> fst ` set st"
  then have "map_of st k = None" by (simp add: map_of_eq_None_iff)
  with s show False by (simp add: status_at_def files_at_def)
qed

text \<open>On a well-formed store every recorded status is read, in path order.\<close>

definition stored :: "store \<Rightarrow> step_status list" where
  "stored st = List.map_filter (status_at st) (sort (remdups (map fst st)))"

lemma load_statuses_ok:
  assumes "store_ok st"
  shows "load_statuses now (map (\<lambda>k. sf_status (files_at st k)) ks) = Inr (List.map_filter (status_at st) ks)"
proof (induction ks)
  case (Cons k ks)
  have ok: "status_file_ok k (sf_status (files_at st k))" using assms unfolding store_ok_def by blast
  then consider "sf_status (files_at st k) = None"
    | s where "sf_status (files_at st k) = Some (Json (PDict (status_to_dict s)))" "status_ok s"
    by (auto simp: status_file_ok_def)
  then show ?case
    by cases (auto simp: Cons.IH List.map_filter_simps status_at_def status_dict_roundtrip)
qed (simp add: List.map_filter_simps)

lemma iter_statuses_ok: "store_ok st \<Longrightarrow> iter_statuses now st = Inr (stored st)"
  by (simp add: iter_statuses_def status_files_def load_statuses_ok stored_def)

lemma stored_iff: "s \<in> set (stored st) \<longleftrightarrow> (\<exists>k. status_at st k = Some s)"
proof -
  have "s \<in> set (List.map_filter (status_at st) ks) \<longleftrightarrow> (\<exists>k \<in> set ks. status_at st k = Some s)" for ks
    by (induction ks) (auto simp: List.map_filter_simps split: option.split)
  then have "s \<in> set (stored st) \<longleftrightarrow> (\<exists>k \<in> fst ` set st. status_at st k = Some s)"
    by (simp add: stored_def)
  then show ?thesis using status_at_dom [of st _ s] by blast
qed

text \<open>The counters and actions of a plan, as functions of the statuses.\<close>

definition action_of :: "(step_status \<Rightarrow> bool) \<Rightarrow> step_status \<Rightarrow> resume_action list" where
  "action_of stale s = rp_actions (plan_step stale empty_plan s)"

lemma plan_step_actions: "rp_actions (plan_step stale p s) = rp_actions p @ action_of stale s"
  by (simp add: plan_step_def action_of_def Let_def empty_plan_def)

lemma plan_actions: "rp_actions (plan_of stale ss) = concat (map (action_of stale) ss)"
proof -
  have "rp_actions (foldl (plan_step stale) p ss) = rp_actions p @ concat (map (action_of stale) ss)" for p
    by (induction ss arbitrary: p) (simp_all add: plan_step_actions)
  then show ?thesis by (simp add: plan_of_def Let_def empty_plan_def)
qed

definition in_states :: "string list \<Rightarrow> step_status list \<Rightarrow> nat" where
  "in_states states ss = length (filter (\<lambda>s. ss_state s \<in> set states) ss)"

lemma plan_counts:
  "rp_committed (plan_of stale ss) = in_states [''committed''] ss"
  "rp_retryable (plan_of stale ss) = in_states [''retryable_failed'', ''created'', ''ready'', ''resumed''] ss"
  "rp_terminal_failed (plan_of stale ss) = in_states [''terminal_failed'', ''cancelled''] ss"
  "rp_inflight_stale (plan_of stale ss) = length (filter (\<lambda>s. ss_state s = ''inflight'' \<and> stale s) ss)"
proof -
  have 1: "rp_committed (foldl (plan_step stale) p ss) = rp_committed p + in_states [''committed''] ss" for p
    by (induction ss arbitrary: p) (auto simp: plan_step_def Let_def in_states_def)
  have 2: "rp_retryable (foldl (plan_step stale) p ss) =
      rp_retryable p + in_states [''retryable_failed'', ''created'', ''ready'', ''resumed''] ss" for p
    by (induction ss arbitrary: p) (auto simp: plan_step_def Let_def in_states_def)
  have 3: "rp_terminal_failed (foldl (plan_step stale) p ss) =
      rp_terminal_failed p + in_states [''terminal_failed'', ''cancelled''] ss" for p
    by (induction ss arbitrary: p) (auto simp: plan_step_def Let_def in_states_def)
  have 4: "rp_inflight_stale (foldl (plan_step stale) p ss) =
      rp_inflight_stale p + length (filter (\<lambda>s. ss_state s = ''inflight'' \<and> stale s) ss)" for p
    by (induction ss arbitrary: p) (auto simp: plan_step_def Let_def)
  show "rp_committed (plan_of stale ss) = in_states [''committed''] ss"
    "rp_retryable (plan_of stale ss) = in_states [''retryable_failed'', ''created'', ''ready'', ''resumed''] ss"
    "rp_terminal_failed (plan_of stale ss) = in_states [''terminal_failed'', ''cancelled''] ss"
    "rp_inflight_stale (plan_of stale ss) = length (filter (\<lambda>s. ss_state s = ''inflight'' \<and> stale s) ss)"
    by (simp_all add: plan_of_def Let_def 1 2 3 4 empty_plan_def)
qed

text \<open>What marking does to one status, and the loop over the actions.\<close>

definition stale_failed :: "string \<Rightarrow> step_status \<Rightarrow> step_status" where
  "stale_failed now s =
     s\<lparr>ss_state := ''retryable_failed'', ss_reason := ''inflight_step_older_than_timeout'',
       ss_error := [(''type'', PStr ''StaleInflight''), (''message'', PStr ''inflight_step_older_than_timeout'')],
       ss_updated_at := now\<rparr>"

definition marks :: "resume_action list \<Rightarrow> step_key \<Rightarrow> bool" where
  "marks as k \<longleftrightarrow> (\<exists>a \<in> set as. ra_action a = ''mark_retryable_failed'' \<and>
     step_dir (ra_round_id a) (ra_step_id a) (ra_step_name a) = k)"

definition marked :: "string \<Rightarrow> bool \<Rightarrow> step_status option \<Rightarrow> step_status option" where
  "marked now b found =
     (case found of Some s \<Rightarrow> Some (if b \<and> ss_state s = ''inflight'' then stale_failed now s else s) | None \<Rightarrow> None)"

lemma mark_failed_stale:
  assumes "ss_state s = ''inflight''"
  shows "mark_failed now s True ''StaleInflight'' ''inflight_step_older_than_timeout'' st =
    Inr (stale_failed now s, write_status (stale_failed now s) st)"
proof -
  have "transition now s ''retryable_failed'' ''inflight_step_older_than_timeout''
      (Some [(''type'', PStr ''StaleInflight''), (''message'', PStr ''inflight_step_older_than_timeout'')]) [] =
      Inr (stale_failed now s)"
    using assms by (simp add: transition_Inr step_check_Inr ALL_STEP_STATES_def TERMINAL_STATES_def allowed_steps_def
        ALLOWED_TRANSITIONS_def stale_failed_def str_or_def)
  then show ?thesis by (simp add: mark_failed_def)
qed

lemma mark_stale_spec:
  assumes "store_ok st" "now \<noteq> []"
    and "\<And>a. a \<in> set as \<Longrightarrow> ra_action a = ''mark_retryable_failed'' \<Longrightarrow> ra_reason a = ''inflight_step_older_than_timeout''"
  shows "\<exists>st'. mark_stale now as st = Inr st' \<and> store_ok st' \<and>
    (\<forall>k. status_at st' k = marked now (marks as k) (status_at st k))"
  using assms
proof (induction as arbitrary: st)
  case Nil
  then show ?case by (auto simp: marked_def marks_def split: option.split)
next
  case (Cons a as)
  let ?k = "step_dir (ra_round_id a) (ra_step_id a) (ra_step_name a)"
  note IH = Cons.IH [OF _ Cons.prems(2) Cons.prems(3)]
  show ?case
  proof (cases "ra_action a = ''mark_retryable_failed'' \<and> (\<exists>s. status_at st ?k = Some s \<and> ss_state s = ''inflight'')")
    case False
    then have "mark_stale now (a # as) st = mark_stale now as st"
      using Cons.prems(1) by (auto simp: read_status_at split: option.split)
    moreover have "marked now (marks (a # as) k) (status_at st k) = marked now (marks as k) (status_at st k)" for k
      using False by (auto simp: marked_def marks_def split: option.split)
    ultimately show ?thesis using IH [OF Cons.prems(1)] by simp
  next
    case True
    then obtain s where s: "ra_action a = ''mark_retryable_failed''" "status_at st ?k = Some s" "ss_state s = ''inflight''"
      by blast
    have r: "ra_reason a = ''inflight_step_older_than_timeout''" using s(1) Cons.prems(3) by simp
    have ok: "status_ok s" "status_key s = ?k" using status_at_ok [OF Cons.prems(1) s(2)] by auto
    let ?s = "stale_failed now s"
    have ok': "status_ok ?s" "status_key ?s = ?k" "ss_state ?s = ''retryable_failed''"
      using ok Cons.prems(2) by (simp_all add: stale_failed_def status_ok_def status_key_def ALL_STEP_STATES_def)
    have "mark_stale now (a # as) st = mark_stale now as (write_status ?s st)"
      using s r Cons.prems(1) by (simp add: read_status_at mark_failed_stale)
    moreover have "marked now (marks as k) (status_at (write_status ?s st) k) = marked now (marks (a # as) k) (status_at st k)" for k
      using s ok' by (auto simp: status_at_write marked_def marks_def split: option.split)
    ultimately show ?thesis using IH [OF store_ok_write [OF Cons.prems(1) ok'(1)]] by simp
  qed
qed

lemma action_of_mark:
  "a \<in> set (action_of stale s) \<Longrightarrow> ra_action a = ''mark_retryable_failed'' \<Longrightarrow>
     a = mk_action ''mark_retryable_failed'' s ''inflight_step_older_than_timeout'' \<and> ss_state s = ''inflight'' \<and> stale s"
  by (auto simp: action_of_def plan_step_def empty_plan_def Let_def mk_action_def split: if_splits)

lemma action_of_stale:
  "ss_state s = ''inflight'' \<Longrightarrow> stale s \<Longrightarrow>
     action_of stale s = [mk_action ''mark_retryable_failed'' s ''inflight_step_older_than_timeout'']"
  by (simp add: action_of_def plan_step_def empty_plan_def Let_def)

lemma marks_plan:
  assumes "store_ok st" "status_at st k = Some s"
  shows "marks (rp_actions (plan_of stale (stored st))) k \<and> ss_state s = ''inflight'' \<longleftrightarrow> ss_state s = ''inflight'' \<and> stale s"
proof -
  have key: "step_dir (ss_round_id u) (ss_step_id u) (ss_step_name u) = k' \<longleftrightarrow> status_key u = k'" for u k'
    by (simp add: status_key_def)
  have same: "u = s" if "status_at st k' = Some u" "status_key u = k" for u k'
    using that assms status_at_ok [OF assms(1) that(1)] by simp
  have "stale s" if m: "marks (rp_actions (plan_of stale (stored st))) k"
  proof -
    obtain a where a: "a \<in> set (rp_actions (plan_of stale (stored st)))" "ra_action a = ''mark_retryable_failed''"
      "step_dir (ra_round_id a) (ra_step_id a) (ra_step_name a) = k"
      using m by (auto simp: marks_def)
    then obtain u where u: "u \<in> set (stored st)" "a \<in> set (action_of stale u)" by (auto simp: plan_actions)
    note am = action_of_mark [OF u(2) a(2)]
    then have "status_key u = k" using a(3) by (simp add: mk_action_def key)
    with same u(1) have "u = s" by (auto simp: stored_iff)
    with am show ?thesis by simp
  qed
  moreover have "marks (rp_actions (plan_of stale (stored st))) k" if "ss_state s = ''inflight''" "stale s"
  proof -
    let ?a = "mk_action ''mark_retryable_failed'' s ''inflight_step_older_than_timeout''"
    have "?a \<in> set (rp_actions (plan_of stale (stored st)))"
    proof -
      have "s \<in> set (stored st)" using assms(2) by (auto simp: stored_iff simp del: split_paired_Ex)
      then show ?thesis using action_of_stale [of s stale] that by (force simp: plan_actions)
    qed
    moreover have "step_dir (ra_round_id ?a) (ra_step_id ?a) (ra_step_name ?a) = k"
      using status_at_ok [OF assms] by (simp add: mk_action_def key)
    ultimately show ?thesis unfolding marks_def by (auto simp: mk_action_def intro: bexI [of _ ?a])
  qed
  ultimately show ?thesis by blast
qed

section \<open>Properties\<close>

text \<open>
  C26: repairing stale steps on a well-formed store always succeeds and keeps it well-formed. It changes
  exactly the steps in flight that are stale at the first clock reading: they become retryable failures
  with the StaleInflight error. Every other status, the committed ones above all, is untouched.
\<close>

theorem apply_stale_inflight_spec:
  assumes "store_ok st" "now \<noteq> []"
  shows "\<exists>p st'. apply_stale_inflight epoch timeout now t1 t2 st = Inr (p, st') \<and> store_ok st' \<and>
    (\<forall>k. status_at st' k =
       (case status_at st k of None \<Rightarrow> None
        | Some s \<Rightarrow> Some (if ss_state s = ''inflight'' \<and> is_stale epoch timeout t1 s then stale_failed now s else s)))"
proof -
  let ?acts = "rp_actions (plan_of (is_stale epoch timeout t1) (stored st))"
  have r: "ra_reason a = ''inflight_step_older_than_timeout''" if a: "a \<in> set ?acts" "ra_action a = ''mark_retryable_failed''" for a
    using a action_of_mark by (fastforce simp: plan_actions mk_action_def)
  obtain st' where st': "mark_stale now ?acts st = Inr st'" "store_ok st'"
    "\<And>k. status_at st' k = marked now (marks ?acts k) (status_at st k)"
    using mark_stale_spec [OF assms r] by blast
  have "marked now (marks ?acts k) (status_at st k) =
      (case status_at st k of None \<Rightarrow> None
       | Some s \<Rightarrow> Some (if ss_state s = ''inflight'' \<and> is_stale epoch timeout t1 s then stale_failed now s else s))" for k
    using marks_plan [OF assms(1)] by (auto simp: marked_def split: option.split)
  with st' assms(1) show ?thesis
    by (simp add: apply_stale_inflight_def plan_def iter_statuses_ok)
qed

text \<open>
  The plan of a well-formed store. Every status is counted in exactly one class (fresh steps in
  flight aside), and the plan's status is the first that applies: a terminal failure anywhere, then
  work to resume, then all committed; it is empty only when nothing is recorded or all steps are freshly in flight.
\<close>

theorem plan_classifies:
  assumes "store_ok st"
  shows "\<exists>p. plan epoch timeout now t st = Inr p \<and>
    rp_committed p + rp_retryable p + rp_terminal_failed p + rp_inflight_stale p +
      length (filter (\<lambda>s. ss_state s = ''inflight'' \<and> \<not> is_stale epoch timeout t s) (stored st)) = length (stored st) \<and>
    length (rp_actions p) = length (stored st) \<and>
    (rp_status p = ''terminal_failed'' \<longleftrightarrow> (\<exists>k s. status_at st k = Some s \<and> ss_state s \<in> {''terminal_failed'', ''cancelled''})) \<and>
    (rp_status p = ''all_committed'' \<longrightarrow> (\<forall>k s. status_at st k = Some s \<longrightarrow>
        ss_state s = ''committed'' \<or> ss_state s = ''inflight'' \<and> \<not> is_stale epoch timeout t s))"
proof -
  let ?stale = "is_stale epoch timeout t" and ?p = "plan_of (is_stale epoch timeout t) (stored st)"
  have mem: "s \<in> set (stored st) \<Longrightarrow> ss_state s \<in> set ALL_STEP_STATES" for s
    using status_at_ok [OF assms] by (auto simp: stored_iff status_ok_def)
  have sum: "in_states [''committed''] ss + in_states [''retryable_failed'', ''created'', ''ready'', ''resumed''] ss +
      in_states [''terminal_failed'', ''cancelled''] ss + length (filter (\<lambda>s. ss_state s = ''inflight'' \<and> ?stale s) ss) +
      length (filter (\<lambda>s. ss_state s = ''inflight'' \<and> \<not> ?stale s) ss) = length ss \<and>
      length (concat (map (action_of ?stale) ss)) = length ss"
    if "\<forall>s \<in> set ss. ss_state s \<in> set ALL_STEP_STATES" for ss
    using that
  proof (induction ss)
    case (Cons s ss)
    then have "ss_state s \<in> set ALL_STEP_STATES" by simp
    with Cons show ?case
      unfolding ALL_STEP_STATES_def list.set insert_iff empty_iff
      by (elim disjE) (simp_all add: in_states_def action_of_def plan_step_def empty_plan_def Let_def)
  qed (simp add: in_states_def)
  have st: "rp_status ?p = plan_status ?p" by (simp add: plan_of_def Let_def plan_status_def)
  have "rp_status ?p = ''terminal_failed'' \<longleftrightarrow> rp_terminal_failed ?p \<noteq> 0"
    unfolding st by (simp add: plan_status_def)
  also have "\<dots> \<longleftrightarrow> (\<exists>k s. status_at st k = Some s \<and> ss_state s \<in> {''terminal_failed'', ''cancelled''})"
    unfolding plan_counts in_states_def by (simp add: filter_empty_conv Bex_def stored_iff del: split_paired_Ex) blast
  finally have tf: "rp_status ?p = ''terminal_failed'' \<longleftrightarrow>
      (\<exists>k s. status_at st k = Some s \<and> ss_state s \<in> {''terminal_failed'', ''cancelled''})" .
  have "ss_state s = ''committed'' \<or> ss_state s = ''inflight'' \<and> \<not> ?stale s"
    if "rp_status ?p = ''all_committed''" "status_at st k = Some s" for k s
  proof -
    have s: "s \<in> set (stored st)" using that(2) unfolding stored_iff by blast
    have "rp_terminal_failed ?p = 0 \<and> rp_inflight_stale ?p = 0 \<and> rp_retryable ?p = 0"
      using that(1) unfolding st by (simp add: plan_status_def split: if_splits)
    then show ?thesis
      using s mem [OF s] unfolding plan_counts in_states_def ALL_STEP_STATES_def
      by (auto simp: filter_empty_conv)
  qed
  with sum [of "stored st"] mem tf show ?thesis
    by (auto simp: plan_def iter_statuses_ok [OF assms] plan_counts plan_actions)
qed


section \<open>Witnesses\<close>

definition demo_epoch :: "string \<Rightarrow> rat option" where
  "demo_epoch s = (if s = ''old'' then Some 0 else if s = ''new'' then Some 2000 else None)"

definition demo_flight :: "string \<Rightarrow> step_status" where
  "demo_flight u = (demo_at ''inflight'' ''h1'')\<lparr>ss_updated_at := u\<rparr>"

lemma demo_flight_ok:
  "status_ok (demo_flight ''old'')" "status_key (demo_flight ''old'') = step_dir ''r1'' ''s1'' ''seed''"
  by (simp_all add: demo_flight_def demo_at_def new_status_def status_ok_def status_key_def ALL_STEP_STATES_def)

theorem apply_stale_inflight_spec_witness:
  "\<exists>p st'. apply_stale_inflight demo_epoch 900 ''now'' 2000 2000 (write_status (demo_flight ''old'') []) = Inr (p, st') \<and>
     map_option ss_state (status_at st' (step_dir ''r1'' ''s1'' ''seed'')) = Some ''retryable_failed''"
proof -
  let ?st = "write_status (demo_flight ''old'') []" and ?k = "step_dir ''r1'' ''s1'' ''seed''"
  have st: "store_ok ?st" "status_at ?st ?k = Some (demo_flight ''old'')"
    using demo_flight_ok by (simp_all add: store_ok_write store_ok_empty status_at_write)
  have stale: "is_stale demo_epoch 900 2000 (demo_flight ''old'')" "ss_state (demo_flight ''old'') = ''inflight''"
    by (simp_all add: is_stale_def demo_epoch_def demo_flight_def demo_at_def)
  have "\<exists>p st'. apply_stale_inflight demo_epoch 900 ''now'' 2000 2000 ?st = Inr (p, st') \<and> store_ok st' \<and>
    (\<forall>k. status_at st' k =
       (case status_at ?st k of None \<Rightarrow> None
        | Some s \<Rightarrow> Some (if ss_state s = ''inflight'' \<and> is_stale demo_epoch 900 2000 s then stale_failed ''now'' s else s)))"
    by (rule apply_stale_inflight_spec [OF st(1)]) simp
  then obtain p st' where a: "apply_stale_inflight demo_epoch 900 ''now'' 2000 2000 ?st = Inr (p, st')"
    "status_at st' ?k =
       (case status_at ?st ?k of None \<Rightarrow> None
        | Some s \<Rightarrow> Some (if ss_state s = ''inflight'' \<and> is_stale demo_epoch 900 2000 s then stale_failed ''now'' s else s))"
    by blast
  from a(2) have "map_option ss_state (status_at st' ?k) = Some ''retryable_failed''"
    unfolding st(2) by (simp add: stale stale_failed_def)
  with a(1) show ?thesis by blast
qed

theorem plan_classifies_witness:
  "\<exists>p. plan demo_epoch 900 ''now'' 2000 (write_status (demo_at ''committed'' ''h1'') []) = Inr p \<and>
     rp_status p \<noteq> ''terminal_failed''"
proof -
  let ?st = "write_status (demo_at ''committed'' ''h1'') []"
  have t: "''committed'' \<in> set ALL_STEP_STATES" by (simp add: ALL_STEP_STATES_def)
  note ok = demo_at_ok [OF t, of "''h1''"]
  have st: "store_ok ?st" "status_at ?st k = Some s \<Longrightarrow> ss_state s = ''committed''" for k s
    using ok by (auto simp: store_ok_write store_ok_empty status_at_write split: if_splits)
      (simp_all add: demo_at_def status_at_def files_at_def)
  show ?thesis
    using plan_classifies [OF st(1), of demo_epoch 900 "''now''" 2000] st(2) by fastforce
qed

end
