(* ===== verification/CircuitBreaker.thy ===== *)
theory CircuitBreaker
  imports Prelude
begin

text \<open>
  durable/provider_circuit_breaker.py: one circuit per provider, closed until enough consecutive failures
  open it, half open once the reset time has passed. \<open>t\<close> is the reading of \<open>time.monotonic\<close>; the
  two environment variables are arguments of the constructor.
\<close>

datatype circuit = Closed | Open | HalfOpen

record provider_state =
  pc_provider :: string
  pc_state :: circuit
  pc_failure_count :: int
  pc_opened_at :: "rat option"
  pc_last_error :: string

record breaker =
  cb_failure_threshold :: int
  cb_reset_seconds :: rat
  cb_states :: "(string \<times> provider_state) list"

fun circuit_value :: "circuit \<Rightarrow> string" where
  "circuit_value Closed = ''closed''"
| "circuit_value Open = ''open''"
| "circuit_value HalfOpen = ''half_open''"

definition provider_state_to_dict :: "provider_state \<Rightarrow> pydict" where
  "provider_state_to_dict s =
     [(''provider'', PStr (pc_provider s)), (''state'', PStr (circuit_value (pc_state s))),
      (''failure_count'', PInt (pc_failure_count s)),
      (''opened_at'', case pc_opened_at s of None \<Rightarrow> PNone | Some t \<Rightarrow> PFloat t),
      (''last_error'', PStr (pc_last_error s)),
      (''provider_unavailable'', PBool (pc_state s = Open)), (''no_fixture_fallback'', PBool True)]"

text \<open>The constructor: an argument, else the environment, else the literal; the floors are 1 and 0.1.\<close>

definition breaker_init :: "int option \<Rightarrow> rat option \<Rightarrow> string option \<Rightarrow> string option \<Rightarrow> pyexn + breaker" where
  "breaker_init failure_threshold reset_seconds env_failures env_reset =
     (let f = (case failure_threshold of Some n \<Rightarrow> PInt n | None \<Rightarrow> PNone);
          r = (case reset_seconds of Some q \<Rightarrow> PFloat q | None \<Rightarrow> PNone);
          ef = (case env_failures of Some s \<Rightarrow> s | None \<Rightarrow> ''3'');
          er = (case env_reset of Some s \<Rightarrow> s | None \<Rightarrow> ''60'')
      in sbind (py_int (py_or f (py_or (PStr ef) (PInt 3)))) (\<lambda>n.
         sbind (py_float (py_or r (py_or (PStr er) (PInt 60)))) (\<lambda>q.
           Inr \<lparr>cb_failure_threshold = max 1 n, cb_reset_seconds = max (1 / 10) q, cb_states = []\<rparr>)))"

definition provider_key :: "string \<Rightarrow> string" where
  "provider_key provider = str_or provider ''unknown''"

definition fresh_provider :: "string \<Rightarrow> provider_state" where
  "fresh_provider k = \<lparr>pc_provider = k, pc_state = Closed, pc_failure_count = 0, pc_opened_at = None, pc_last_error = []\<rparr>"

definition state_for :: "string \<Rightarrow> breaker \<Rightarrow> provider_state" where
  "state_for provider b =
     (case map_of (cb_states b) (provider_key provider) of
        Some s \<Rightarrow> s
      | None \<Rightarrow> fresh_provider (provider_key provider))"

text \<open>The caller's state object is the one in the dictionary, so an update of it is an update of the entry.\<close>

definition put_state :: "string \<Rightarrow> provider_state \<Rightarrow> breaker \<Rightarrow> breaker" where
  "put_state provider s b = b\<lparr>cb_states := dset (provider_key provider) s (cb_states b)\<rparr>"

definition before_call :: "rat \<Rightarrow> string \<Rightarrow> breaker \<Rightarrow> (string + provider_state) \<times> breaker" where
  "before_call t provider b =
     (let s0 = state_for provider b;
          s1 = (case pc_opened_at s0 of
                  Some o' \<Rightarrow> (if pc_state s0 = Open \<and> t - o' \<ge> cb_reset_seconds b then s0\<lparr>pc_state := HalfOpen\<rparr> else s0)
                | None \<Rightarrow> s0);
          b1 = put_state provider s1 b
      in (if pc_state s1 = Open
          then (Inl (''provider_unavailable: circuit open for '' @ provider @ ''; fixture fallback is forbidden''), b1)
          else (Inr s1, b1)))"

definition record_success :: "string \<Rightarrow> breaker \<Rightarrow> breaker" where
  "record_success provider b =
     put_state provider
       ((state_for provider b)\<lparr>pc_state := Closed, pc_failure_count := 0, pc_opened_at := None, pc_last_error := []\<rparr>) b"

definition record_failure :: "rat \<Rightarrow> string \<Rightarrow> string \<Rightarrow> breaker \<Rightarrow> breaker" where
  "record_failure t provider err b =
     (let s = state_for provider b;
          s1 = s\<lparr>pc_failure_count := pc_failure_count s + 1, pc_last_error := take 500 err\<rparr>;
          s2 = (if pc_failure_count s1 \<ge> cb_failure_threshold b then s1\<lparr>pc_state := Open, pc_opened_at := Some t\<rparr> else s1)
      in put_state provider s2 b)"

definition breaker_snapshot :: "breaker \<Rightarrow> (string \<times> pydict) list" where
  "breaker_snapshot b =
     map (\<lambda>k. (k, provider_state_to_dict (the (map_of (cb_states b) k)))) (sort (map fst (cb_states b)))"

section \<open>Traces\<close>

datatype breaker_event = CallAt rat string | Succeeded string | FailedAt rat string string

fun breaker_step :: "breaker_event \<Rightarrow> breaker \<Rightarrow> breaker" where
  "breaker_step (CallAt t p) b = snd (before_call t p b)"
| "breaker_step (Succeeded p) b = record_success p b"
| "breaker_step (FailedAt t p e) b = record_failure t p e b"

text \<open>
  The specification of a provider reads the trace, latest event first: the failures since its last
  success, and the time of its last failure.
\<close>

fun event_provider :: "breaker_event \<Rightarrow> string" where
  "event_provider (CallAt t p) = provider_key p"
| "event_provider (Succeeded p) = provider_key p"
| "event_provider (FailedAt t p e) = provider_key p"

fun event_time :: "breaker_event \<Rightarrow> rat option" where
  "event_time (CallAt t p) = Some t"
| "event_time (Succeeded p) = None"
| "event_time (FailedAt t p e) = Some t"

fun failure_times :: "string \<Rightarrow> breaker_event list \<Rightarrow> rat list" where
  "failure_times k [] = []"
| "failure_times k (e # es) =
     (if event_provider e \<noteq> k then failure_times k es
      else case e of Succeeded _ \<Rightarrow> [] | FailedAt t _ _ \<Rightarrow> t # failure_times k es | CallAt _ _ \<Rightarrow> failure_times k es)"

definition tripped :: "int \<Rightarrow> string \<Rightarrow> breaker_event list \<Rightarrow> bool" where
  "tripped n k es \<longleftrightarrow> n \<le> int (length (failure_times k es))"

fun times_ok :: "rat \<Rightarrow> breaker_event list \<Rightarrow> bool" where
  "times_ok t [] = True"
| "times_ok t (e # es) = (case event_time e of None \<Rightarrow> times_ok t es | Some u \<Rightarrow> u \<le> t \<and> times_ok u es)"

definition breaker_run :: "breaker_event list \<Rightarrow> breaker \<Rightarrow> breaker" where
  "breaker_run es b = foldr breaker_step es b"

section \<open>Lemmas\<close>

lemma state_for_put:
  "state_for p (put_state q s b) = (if provider_key p = provider_key q then s else state_for p b)"
  by (simp add: state_for_def put_state_def)

lemma put_state_fields [simp]:
  "cb_failure_threshold (put_state p s b) = cb_failure_threshold b" "cb_reset_seconds (put_state p s b) = cb_reset_seconds b"
  by (simp_all add: put_state_def)

lemma breaker_step_fields [simp]:
  "cb_failure_threshold (breaker_step e b) = cb_failure_threshold b" "cb_reset_seconds (breaker_step e b) = cb_reset_seconds b"
  by (cases e; simp add: before_call_def record_success_def record_failure_def Let_def)+

lemma breaker_run_fields [simp]:
  "cb_failure_threshold (breaker_run es b) = cb_failure_threshold b" "cb_reset_seconds (breaker_run es b) = cb_reset_seconds b"
  by (induction es) (simp_all add: breaker_run_def)

text \<open>The circuit of a provider after a trace.\<close>

definition circuit_ok :: "int \<Rightarrow> rat \<Rightarrow> string \<Rightarrow> rat \<Rightarrow> breaker_event list \<Rightarrow> provider_state \<Rightarrow> bool" where
  "circuit_ok n reset k t es s \<longleftrightarrow>
     pc_failure_count s = int (length (failure_times k es)) \<and>
     (if tripped n k es then
        pc_opened_at s = Some (hd (failure_times k es)) \<and>
        (pc_state s = Open \<or> pc_state s = HalfOpen \<and> t - hd (failure_times k es) \<ge> reset)
      else pc_state s = Closed \<and> pc_opened_at s = None)"

lemma circuit_ok_run:
  assumes "cb_failure_threshold b = n" "cb_reset_seconds b = reset" "cb_states b = []" "1 \<le> n" "times_ok t es"
  shows "circuit_ok n reset (provider_key p) t es (state_for p (breaker_run es b))"
  using assms(5)
proof (induction es arbitrary: t)
  case Nil
  then show ?case
    using assms by (simp add: breaker_run_def circuit_ok_def state_for_def fresh_provider_def tripped_def)
next
  case (Cons e es)
  let ?k = "provider_key p" and ?b = "breaker_run es b" and ?s = "state_for p (breaker_run es b)"
  have run: "breaker_run (e # es) b = breaker_step e ?b" by (simp add: breaker_run_def)
  have nonempty: "tripped n ?k es \<Longrightarrow> failure_times ?k es \<noteq> []" using assms(4) by (auto simp: tripped_def)
  have later: "circuit_ok n reset ?k t es ?s" if "times_ok u es" "u \<le> t" for u
    using Cons.IH [OF that(1)] that(2) by (auto simp: circuit_ok_def split: if_splits)
  show ?case
  proof (cases e)
    case (CallAt u q)
    then have u: "u \<le> t" "times_ok u es" using Cons.prems by auto
    note old = Cons.IH [OF u(2)] and fields = assms(1,2)
    show ?thesis
    proof (cases "provider_key q = ?k")
      case True
      then have q: "state_for q ?b = ?s" by (simp only: state_for_def)
      show ?thesis
        using old u True fields nonempty
        by (auto simp: run [unfolded CallAt] CallAt before_call_def Let_def q state_for_put circuit_ok_def tripped_def split: if_splits option.splits)
    next
      case False
      then show ?thesis
        using later [OF u(2,1)] by (auto simp: run [unfolded CallAt] CallAt before_call_def Let_def state_for_put circuit_ok_def tripped_def)
    qed
  next
    case (Succeeded q)
    then have u: "times_ok t es" using Cons.prems by simp
    show ?thesis
      using Cons.IH [OF u] assms(4)
      by (auto simp: run [unfolded Succeeded] Succeeded record_success_def state_for_put circuit_ok_def tripped_def)
  next
    case (FailedAt u q err)
    then have u: "u \<le> t" "times_ok u es" using Cons.prems by auto
    show ?thesis
    proof (cases "provider_key q = ?k")
      case True
      then have q: "state_for q ?b = ?s" by (simp only: state_for_def)
      show ?thesis
        using Cons.IH [OF u(2)] True assms(1)
        by (auto simp: run [unfolded FailedAt] FailedAt record_failure_def Let_def q state_for_put circuit_ok_def tripped_def split: if_splits)
    next
      case False
      then show ?thesis
        using later [OF u(2,1)] by (auto simp: run [unfolded FailedAt] FailedAt record_failure_def Let_def state_for_put circuit_ok_def tripped_def)
    qed
  qed
qed

section \<open>Properties\<close>

text \<open>
  C7: the circuit against its specification. After any trace of calls, successes and failures of any
  providers, with a clock that does not run backwards, a call is refused exactly when its own provider
  has failed at least the threshold number of times since its last success and the last of these
  failures is more recent than the reset time. Other providers have no influence.
\<close>

theorem before_call_refused_iff:
  assumes "breaker_init ft rs ef er = Inr b0" "times_ok t es"
  shows "(\<exists>msg. fst (before_call t p (breaker_run es b0)) = Inl msg) \<longleftrightarrow>
     tripped (cb_failure_threshold b0) (provider_key p) es \<and>
     t - hd (failure_times (provider_key p) es) < cb_reset_seconds b0"
proof -
  let ?s = "state_for p (breaker_run es b0)" and ?k = "provider_key p"
  have b0: "cb_states b0 = []" "1 \<le> cb_failure_threshold b0"
    using assms(1) by (auto simp: breaker_init_def Let_def sbind_Inr_iff)
  have "circuit_ok (cb_failure_threshold b0) (cb_reset_seconds b0) ?k t es ?s"
    by (rule circuit_ok_run [OF refl refl b0 assms(2)])
  then show ?thesis
    by (auto simp: before_call_def Let_def circuit_ok_def split: if_splits option.splits)
qed

definition demo_breaker :: breaker where
  "demo_breaker = \<lparr>cb_failure_threshold = 2, cb_reset_seconds = 60, cb_states = []\<rparr>"

theorem before_call_refused_iff_witness:
  "\<exists>msg. fst (before_call 30 ''p'' (breaker_run [FailedAt 20 ''p'' ''e'', CallAt 15 ''q'', FailedAt 10 ''p'' ''e''] demo_breaker)) = Inl msg"
proof -
  have "breaker_init (Some 2) (Some 60) None None = Inr demo_breaker"
    by (simp add: breaker_init_def demo_breaker_def py_or_def py_int_def py_float_def)
  from before_call_refused_iff [OF this, of 30 "[FailedAt 20 ''p'' ''e'', CallAt 15 ''q'', FailedAt 10 ''p'' ''e'']" "''p''"]
  show ?thesis by (simp add: tripped_def provider_key_def str_or_def demo_breaker_def)
qed

end
