(* ===== verification/WriteBehind.thy ===== *)
theory WriteBehind
  imports Prelude
begin

text \<open>
  durable/async_writer.py: the write-behind observer. One caller thread freezes updates into batches and
  puts them on a queue, one worker thread takes them off and writes them. The two threads interleave:
  any number of worker steps may happen before an operation of the caller. \<open>freeze\<close> and \<open>write\<close> are
  the methods of the store it is given: a write reports an exception or not, and leaves the store as it
  then is. Waiting and write times of the telemetry are not modelled.
\<close>

datatype 'b wb_item = Batch 'b | Stop

record ('b, 's) observer =
  wb_queue :: "'b wb_item list"
  wb_error :: "string option"
  wb_closed :: bool
  wb_running :: bool
  wb_store :: 's
  wb_batches :: nat
  wb_bytes :: int

datatype wb_result = WbOk | WbClosed | WbWorkerFailed string | WbFreezeFailed string

definition observer_init :: "'s \<Rightarrow> ('b, 's) observer" where
  "observer_init st = \<lparr>wb_queue = [], wb_error = None, wb_closed = False, wb_running = True, wb_store = st,
     wb_batches = 0, wb_bytes = 0\<rparr>"

text \<open>One turn of \<open>_run\<close>: a batch is written only while no write has failed, and counted when no exception left the turn.\<close>

fun worker_step :: "('b \<Rightarrow> 's \<Rightarrow> string option \<times> 's) \<Rightarrow> ('b \<Rightarrow> int) \<Rightarrow> ('b, 's) observer \<Rightarrow> ('b, 's) observer" where
  "worker_step write bytes w =
     (if \<not> wb_running w then w
      else case wb_queue w of
        [] \<Rightarrow> w
      | Stop # q \<Rightarrow> w\<lparr>wb_queue := q, wb_running := False\<rparr>
      | Batch b # q \<Rightarrow>
          (case wb_error w of
             Some _ \<Rightarrow> w\<lparr>wb_queue := q, wb_batches := wb_batches w + 1, wb_bytes := wb_bytes w + bytes b\<rparr>
           | None \<Rightarrow>
               (case write b (wb_store w) of
                  (None, st) \<Rightarrow> w\<lparr>wb_queue := q, wb_store := st, wb_batches := wb_batches w + 1,
                                   wb_bytes := wb_bytes w + bytes b\<rparr>
                | (Some e, st) \<Rightarrow> w\<lparr>wb_queue := q, wb_store := st, wb_error := Some e\<rparr>)))"

declare worker_step.simps [simp del]

text \<open>\<open>queue.join()\<close>: the caller waits until every item has been taken and finished.\<close>

definition join_queue :: "('b \<Rightarrow> 's \<Rightarrow> string option \<times> 's) \<Rightarrow> ('b \<Rightarrow> int) \<Rightarrow> ('b, 's) observer \<Rightarrow> ('b, 's) observer" where
  "join_queue write bytes w = (worker_step write bytes ^^ length (wb_queue w)) w"

definition raise_worker_error :: "('b, 's) observer \<Rightarrow> wb_result" where
  "raise_worker_error w = (case wb_error w of Some e \<Rightarrow> WbWorkerFailed e | None \<Rightarrow> WbOk)"

definition wb_flush ::
  "('b \<Rightarrow> 's \<Rightarrow> string option \<times> 's) \<Rightarrow> ('b \<Rightarrow> int) \<Rightarrow> ('b, 's) observer \<Rightarrow> wb_result \<times> ('b, 's) observer" where
  "wb_flush write bytes w = (let w1 = join_queue write bytes w in (raise_worker_error w1, w1))"

definition wb_close ::
  "('b \<Rightarrow> 's \<Rightarrow> string option \<times> 's) \<Rightarrow> ('b \<Rightarrow> int) \<Rightarrow> ('b, 's) observer \<Rightarrow> wb_result \<times> ('b, 's) observer" where
  "wb_close write bytes w =
     (if wb_closed w then (raise_worker_error w, w)
      else let w1 = join_queue write bytes (w\<lparr>wb_queue := wb_queue w @ [Stop], wb_closed := True\<rparr>)
           in (raise_worker_error w1, w1))"

definition wb_call ::
  "('u \<Rightarrow> string + 'b option) \<Rightarrow> ('u \<Rightarrow> string) \<Rightarrow> ('b \<Rightarrow> 's \<Rightarrow> string option \<times> 's) \<Rightarrow> ('b \<Rightarrow> int) \<Rightarrow> 'u
   \<Rightarrow> ('b, 's) observer \<Rightarrow> wb_result \<times> ('b, 's) observer" where
  "wb_call freeze phase write bytes update w =
     (case wb_error w of
        Some e \<Rightarrow> (WbWorkerFailed e, w)
      | None \<Rightarrow>
          (if wb_closed w then (WbClosed, w)
           else case freeze update of
             Inl e \<Rightarrow> (WbFreezeFailed e, w)
           | Inr None \<Rightarrow> (WbOk, w)
           | Inr (Some b) \<Rightarrow>
               (let w1 = w\<lparr>wb_queue := wb_queue w @ [Batch b]\<rparr> in
                if phase update \<in> set [''post_seeding'', ''error_checkpoint''] then wb_flush write bytes w1
                else if phase update = ''final_synthesis'' then wb_close write bytes w1
                else (WbOk, w1))))"

section \<open>Reachable states\<close>

text \<open>
  \<open>wb_reach bs w\<close>: the caller's calls have so far put the batches \<open>bs\<close> on the queue, in this order, and
  the two threads have brought the observer to \<open>w\<close>.
\<close>

inductive wb_reach ::
  "('u \<Rightarrow> string + 'b option) \<Rightarrow> ('u \<Rightarrow> string) \<Rightarrow> ('b \<Rightarrow> 's \<Rightarrow> string option \<times> 's) \<Rightarrow> ('b \<Rightarrow> int) \<Rightarrow> 's
   \<Rightarrow> 'b list \<Rightarrow> ('b, 's) observer \<Rightarrow> bool"
  for freeze :: "'u \<Rightarrow> string + 'b option" and phase :: "'u \<Rightarrow> string"
    and "write" :: "'b \<Rightarrow> 's \<Rightarrow> string option \<times> 's" and bytes :: "'b \<Rightarrow> int" and st0 :: 's where
  wr_start: "wb_reach freeze phase write bytes st0 [] (observer_init st0)"
| wr_worker: "wb_reach freeze phase write bytes st0 bs w \<Longrightarrow> wb_reach freeze phase write bytes st0 bs (worker_step write bytes w)"
| wr_flush: "wb_reach freeze phase write bytes st0 bs w \<Longrightarrow> wb_reach freeze phase write bytes st0 bs (snd (wb_flush write bytes w))"
| wr_close: "wb_reach freeze phase write bytes st0 bs w \<Longrightarrow> wb_reach freeze phase write bytes st0 bs (snd (wb_close write bytes w))"
| wr_refuse: "\<lbrakk>wb_reach freeze phase write bytes st0 bs w;
      wb_error w \<noteq> None \<or> wb_closed w \<or> (\<forall>b. freeze u \<noteq> Inr (Some b))\<rbrakk>
     \<Longrightarrow> wb_reach freeze phase write bytes st0 bs (snd (wb_call freeze phase write bytes u w))"
| wr_accept: "\<lbrakk>wb_reach freeze phase write bytes st0 bs w; wb_error w = None; \<not> wb_closed w; freeze u = Inr (Some b)\<rbrakk>
     \<Longrightarrow> wb_reach freeze phase write bytes st0 (bs @ [b]) (snd (wb_call freeze phase write bytes u w))"

text \<open>Writing a list of batches in order up to and including the first one that fails.\<close>

fun write_all :: "('b \<Rightarrow> 's \<Rightarrow> string option \<times> 's) \<Rightarrow> 'b list \<Rightarrow> 's \<Rightarrow> string option \<times> 's" where
  "write_all write [] st = (None, st)"
| "write_all write (b # bs) st =
     (case write b st of (None, st') \<Rightarrow> write_all write bs st' | (Some e, st') \<Rightarrow> (Some e, st'))"

lemma write_all_snoc:
  "write_all write (bs @ [b]) st =
     (case write_all write bs st of (None, st') \<Rightarrow> write b st' | (Some e, st') \<Rightarrow> (Some e, st'))"
  by (induction bs arbitrary: st) (auto split: prod.split option.split)

text \<open>The invariant: the processed batches are a prefix, written in order; the rest is still queued.\<close>

definition wb_inv :: "('b \<Rightarrow> 's \<Rightarrow> string option \<times> 's) \<Rightarrow> 's \<Rightarrow> 'b list \<Rightarrow> ('b, 's) observer \<Rightarrow> bool" where
  "wb_inv write st0 bs w \<longleftrightarrow>
     (\<exists>k \<le> length bs. (wb_error w, wb_store w) = write_all write (take k bs) st0 \<and>
        wb_queue w = map Batch (drop k bs) @ (if wb_closed w \<and> wb_running w then [Stop] else []) \<and>
        (\<not> wb_running w \<longrightarrow> wb_closed w \<and> k = length bs))"

lemma wb_inv_worker:
  assumes "wb_inv write st0 bs w"
  shows "wb_inv write st0 bs (worker_step write bytes w)"
proof -
  obtain k where k: "k \<le> length bs" "(wb_error w, wb_store w) = write_all write (take k bs) st0"
    "wb_queue w = map Batch (drop k bs) @ (if wb_closed w \<and> wb_running w then [Stop] else [])"
    "\<not> wb_running w \<longrightarrow> wb_closed w \<and> k = length bs"
    using assms by (auto simp: wb_inv_def)
  show ?thesis
  proof (cases "wb_running w \<and> k < length bs")
    case True
    then have t: "take (Suc k) bs = take k bs @ [bs ! k]" and d: "drop k bs = bs ! k # drop (Suc k) bs"
      by (simp_all add: take_Suc_conv_app_nth Cons_nth_drop_Suc)
    have wa: "write_all write (take k bs) st0 = (wb_error w, wb_store w)" using k(2) by simp
    show ?thesis
      unfolding wb_inv_def
      by (rule exI [of _ "Suc k"])
        (use True k in \<open>auto simp: worker_step.simps t write_all_snoc wa d split: option.split prod.split\<close>)
  next
    case False
    show ?thesis
      unfolding wb_inv_def
      by (rule exI [of _ k]) (use False k in \<open>auto simp: worker_step.simps\<close>)
  qed
qed

lemma wb_inv_steps: "wb_inv write st0 bs w \<Longrightarrow> wb_inv write st0 bs ((worker_step write bytes ^^ n) w)"
  by (induction n) (simp_all add: wb_inv_worker)

lemma worker_step_closed [simp]: "wb_closed (worker_step write bytes w) = wb_closed w"
  by (simp add: worker_step.simps split: list.split wb_item.split option.split prod.split)

lemma worker_step_queue:
  "wb_running w \<Longrightarrow> Stop \<notin> set (butlast (wb_queue w)) \<Longrightarrow>
     wb_queue (worker_step write bytes w) = tl (wb_queue w) \<and>
     (tl (wb_queue w) \<noteq> [] \<longrightarrow> wb_running (worker_step write bytes w))"
  by (cases "tl (wb_queue w) = []")
    (auto simp: worker_step.simps split: list.split wb_item.split option.split prod.split)

text \<open>Waiting for the queue empties it.\<close>

lemma steps_empty:
  "\<lbrakk>wb_running w; Stop \<notin> set (butlast (wb_queue w)); n = length (wb_queue w)\<rbrakk> \<Longrightarrow>
     wb_queue ((worker_step write bytes ^^ n) w) = []"
proof (induction n arbitrary: w)
  case (Suc n)
  let ?w = "worker_step write bytes w"
  note q = worker_step_queue [OF Suc.prems(1,2), of "write" bytes]
  show ?case
  proof (cases "tl (wb_queue w) = []")
    case True
    with Suc.prems(3) have "n = 0" by (cases "wb_queue w") auto
    with q True show ?thesis by simp
  next
    case False
    have "Stop \<notin> set (butlast (tl (wb_queue w)))"
      using Suc.prems(2) False by (cases "wb_queue w") auto
    then have "wb_queue ((worker_step write bytes ^^ n) ?w) = []"
      by (intro Suc.IH) (use q False Suc.prems(3) in auto)
    then show ?thesis by (simp add: funpow_swap1)
  qed
qed simp

lemma wb_inv_no_stop: "wb_inv write st0 bs w \<Longrightarrow> Stop \<notin> set (butlast (wb_queue w))"
  by (auto simp: wb_inv_def butlast_append dest: in_set_butlastD split: if_splits)

lemma wb_inv_join:
  assumes "wb_inv write st0 bs w"
  shows "wb_inv write st0 bs (join_queue write bytes w)" "wb_queue (join_queue write bytes w) = []"
proof -
  show "wb_inv write st0 bs (join_queue write bytes w)"
    unfolding join_queue_def by (rule wb_inv_steps [OF assms])
  show "wb_queue (join_queue write bytes w) = []"
  proof (cases "wb_running w")
    case True
    then show ?thesis unfolding join_queue_def by (rule steps_empty [OF _ wb_inv_no_stop [OF assms] refl])
  next
    case False
    then have "wb_queue w = []" using assms by (auto simp: wb_inv_def)
    then show ?thesis by (simp add: join_queue_def)
  qed
qed

lemma wb_inv_push: "wb_inv write st0 bs w \<Longrightarrow> \<not> wb_closed w \<Longrightarrow> wb_inv write st0 (bs @ [b]) (w\<lparr>wb_queue := wb_queue w @ [Batch b]\<rparr>)"
  unfolding wb_inv_def by (elim exE conjE, rule_tac x = k in exI) auto

lemma wb_inv_stop: "wb_inv write st0 bs w \<Longrightarrow> \<not> wb_closed w \<Longrightarrow>
    wb_inv write st0 bs (w\<lparr>wb_queue := wb_queue w @ [Stop], wb_closed := True\<rparr>)"
  unfolding wb_inv_def by (elim exE conjE, rule_tac x = k in exI) auto

lemma wb_inv_flush: "wb_inv write st0 bs w \<Longrightarrow> wb_inv write st0 bs (snd (wb_flush write bytes w))"
  by (simp add: wb_flush_def Let_def wb_inv_join)

lemma wb_inv_close: "wb_inv write st0 bs w \<Longrightarrow> wb_inv write st0 bs (snd (wb_close write bytes w))"
  by (simp add: wb_close_def Let_def wb_inv_join wb_inv_stop)

lemma wb_reach_inv: "wb_reach freeze phase write bytes st0 bs w \<Longrightarrow> wb_inv write st0 bs w"
proof (induction rule: wb_reach.induct)
  case (wr_accept bs w u b)
  then show ?case
    by (auto simp: wb_call_def Let_def wb_inv_push wb_inv_flush wb_inv_close)
qed (auto simp: observer_init_def wb_inv_def [of _ _ "[]"] wb_inv_worker wb_inv_flush wb_inv_close wb_call_def
    split: option.split sum.split)

lemma worker_steps_closed [simp]: "wb_closed ((worker_step write bytes ^^ n) w) = wb_closed w"
  by (induction n) simp_all

lemma worker_steps_empty [simp]: "wb_queue w = [] \<Longrightarrow> wb_queue ((worker_step write bytes ^^ n) w) = []"
  by (induction n) (simp_all add: worker_step.simps)

lemma worker_step_empty [simp]: "wb_queue w = [] \<Longrightarrow> wb_queue (worker_step write bytes w) = []"
  by (simp add: worker_step.simps)

text \<open>A close leaves an empty queue, and nothing is put on it any more.\<close>

lemma wb_reach_closed: "wb_reach freeze phase write bytes st0 bs w \<Longrightarrow> wb_closed w \<Longrightarrow> wb_queue w = []"
proof (induction rule: wb_reach.induct)
  case (wr_close bs w)
  show ?case
    using wr_close wb_inv_join(2) [OF wb_inv_stop [OF wb_reach_inv [OF wr_close(1)]], of bytes]
    by (auto simp: wb_close_def Let_def)
next
  case (wr_flush bs w)
  then show ?case using wb_inv_join(2) [OF wb_reach_inv [OF wr_flush(1)], of bytes] by (simp add: wb_flush_def Let_def)
next
  case (wr_accept bs w u b)
  have push: "wb_inv write st0 (bs @ [b]) (w\<lparr>wb_queue := wb_queue w @ [Batch b]\<rparr>)"
    by (rule wb_inv_push [OF wb_reach_inv [OF wr_accept(1)] wr_accept(3)])
  show ?case
    using wr_accept wb_inv_join(2) [OF push, of bytes]
      wb_inv_join(2) [OF wb_inv_stop [OF push], of bytes]
    by (auto simp: wb_call_def wb_close_def wb_flush_def Let_def split: if_splits)
qed (auto simp: observer_init_def wb_call_def split: option.splits sum.splits)

section \<open>Properties\<close>


text \<open>
  A flush or close that returns without an exception has made every accepted batch durable: all of
  them were written in order and none failed.
\<close>

theorem wb_flush_durable:
  assumes "wb_reach freeze phase write bytes st0 bs w"
    and "wb_flush write bytes w = (WbOk, w') \<or> wb_close write bytes w = (WbOk, w')"
  shows "write_all write bs st0 = (None, wb_store w')"
proof -
  have inv: "wb_inv write st0 bs w" by (rule wb_reach_inv [OF assms(1)])
  have done': "write_all write bs st0 = (None, wb_store u)"
    if "wb_inv write st0 bs u" "wb_queue u = []" "raise_worker_error u = WbOk" for u
    using that by (auto simp: wb_inv_def raise_worker_error_def split: option.splits)
  from assms(2) consider "wb_flush write bytes w = (WbOk, w')"
    | "wb_closed w" "wb_close write bytes w = (WbOk, w')" | "\<not> wb_closed w" "wb_close write bytes w = (WbOk, w')"
    by blast
  then show ?thesis
  proof cases
    case 1
    then show ?thesis using done' wb_inv_join [OF inv, of bytes] by (auto simp: wb_flush_def Let_def)
  next
    case 2
    then have "w' = w" "raise_worker_error w = WbOk" by (auto simp: wb_close_def)
    with done' [OF inv] wb_reach_closed [OF assms(1) 2(1)] show ?thesis by simp
  next
    case 3
    then show ?thesis
      using done' wb_inv_join [OF wb_inv_stop [OF inv 3(1)], of bytes] by (auto simp: wb_close_def Let_def)
  qed
qed

text \<open>
  The first failing write is final and visible. From then on no batch is written and none accepted:
  every later call raises that same error. The telemetry still counts the batches that are dropped.
\<close>

theorem wb_error_sticky:
  assumes "wb_error w = Some e"
  shows "wb_store (worker_step write bytes w) = wb_store w \<and> wb_error (worker_step write bytes w) = Some e \<and>
    wb_call freeze phase write bytes u w = (WbWorkerFailed e, w) \<and>
    fst (wb_flush write bytes w) = WbWorkerFailed e \<and> fst (wb_close write bytes w) = WbWorkerFailed e \<and>
    (\<forall>b q. wb_running w \<and> wb_queue w = Batch b # q \<longrightarrow>
       wb_batches (worker_step write bytes w) = wb_batches w + 1 \<and>
       wb_bytes (worker_step write bytes w) = wb_bytes w + bytes b)"
proof -
  have step: "wb_store (worker_step write bytes v) = wb_store v \<and> wb_error (worker_step write bytes v) = Some e"
    if "wb_error v = Some e" for v
    using that by (simp add: worker_step.simps split: list.split wb_item.split)
  have "wb_error ((worker_step write bytes ^^ n) v) = Some e" if "wb_error v = Some e" for n v
    using that by (induction n) (simp_all add: step)
  then have joined: "raise_worker_error (join_queue write bytes v) = WbWorkerFailed e" if "wb_error v = Some e" for v
    using that by (simp add: raise_worker_error_def join_queue_def)
  have count: "\<forall>b q. wb_running w \<and> wb_queue w = Batch b # q \<longrightarrow>
       wb_batches (worker_step write bytes w) = wb_batches w + 1 \<and>
       wb_bytes (worker_step write bytes w) = wb_bytes w + bytes b"
    using assms by (simp add: worker_step.simps)
  have "raise_worker_error w = WbWorkerFailed e" using assms by (simp add: raise_worker_error_def)
  with assms show ?thesis
    by (intro conjI count) (simp_all add: step joined wb_call_def wb_flush_def wb_close_def Let_def)
qed

section \<open>Witnesses\<close>

text \<open>A store that is the list of written batches and refuses the number 7.\<close>

definition demo_write :: "nat \<Rightarrow> nat list \<Rightarrow> string option \<times> nat list" where
  "demo_write b st = (if b = 7 then (Some ''disk full'', st) else (None, st @ [b]))"

definition demo_obs :: "(nat, nat list) observer" where
  "demo_obs = snd (wb_call (\<lambda>u. Inr (Some u)) (\<lambda>u. ''round'') demo_write int 1 (observer_init []))"

lemma demo_obs_reach: "wb_reach (\<lambda>u. Inr (Some u)) (\<lambda>u. ''round'') demo_write int [] [1] demo_obs"
  unfolding demo_obs_def
  by (rule wb_reach.wr_accept [of _ _ _ _ _ "[]", simplified, OF wb_reach.wr_start]) (simp_all add: observer_init_def)


theorem wb_flush_durable_witness: "\<exists>w'. wb_flush demo_write int demo_obs = (WbOk, w') \<and> wb_store w' = [1]"
proof -
  have "fst (wb_flush demo_write int demo_obs) = WbOk" by code_simp
  then obtain w' where w': "wb_flush demo_write int demo_obs = (WbOk, w')" by (cases "wb_flush demo_write int demo_obs") simp
  with wb_flush_durable [OF demo_obs_reach, of w'] show ?thesis by (auto simp: demo_write_def)
qed

theorem wb_error_sticky_witness:
  "fst (wb_call (\<lambda>u. Inr (Some u)) (\<lambda>u. ''round'') demo_write int 3
     (worker_step demo_write int (snd (wb_call (\<lambda>u. Inr (Some u)) (\<lambda>u. ''round'') demo_write int 7 (observer_init [])))))
   = WbWorkerFailed ''disk full''"
proof -
  let ?w = "worker_step demo_write int (snd (wb_call (\<lambda>u. Inr (Some u)) (\<lambda>u. ''round'') demo_write int 7 (observer_init [])))"
  have "wb_error ?w = Some ''disk full''" by code_simp
  from wb_error_sticky [OF this, of demo_write int "\<lambda>u. Inr (Some u)" "\<lambda>u. ''round''" 3]
  show ?thesis by simp
qed

end
