(* ===== verification/EventStore.thy ===== *)
theory EventStore
  imports Prelude
begin

text \<open>
  persistence/event_store.py: the append-only JSONL log of bytes, its repair of a torn tail, the watermark,
  the audit against a watermark, and replay. A file is a list of bytes (a \<open>char\<close> is a byte there) or absent;
  text is a list of code points below 256, stored as UTF-8. \<open>json.dumps\<close> with sorted keys is modelled;
  \<open>json.loads\<close> is the argument \<open>loads\<close>, with no value on a JSONDecodeError, and what a property relies on of
  it is its hypothesis. \<open>redact\<close> stands for any redaction, \<open>now\<close> for the clock.
\<close>

section \<open>UTF-8 and JSON text\<close>

definition utf8_char :: "char \<Rightarrow> string" where
  "utf8_char c = (if codept c < 128 then [c] else [char_of (192 + codept c div 64), char_of (128 + codept c mod 64)])"

definition utf8_encode :: "string \<Rightarrow> string" where
  "utf8_encode s = concat (map utf8_char s)"

text \<open>Decoding within the modelled range; anything else is a UnicodeDecodeError.\<close>

fun utf8_decode :: "string \<Rightarrow> string option" where
  "utf8_decode [] = Some []"
| "utf8_decode (b # bs) =
     (if codept b < 128 then map_option ((#) b) (utf8_decode bs)
      else case bs of
        [] \<Rightarrow> None
      | b2 # bs' \<Rightarrow>
          (if (codept b = 194 \<or> codept b = 195) \<and> 128 \<le> codept b2 \<and> codept b2 < 192
           then map_option ((#) (char_of (64 * (codept b - 192) + (codept b2 - 128)))) (utf8_decode bs')
           else None))"

definition hex_digit :: "nat \<Rightarrow> char" where
  "hex_digit n = char_of (if n < 10 then 48 + n else 87 + n)"

definition backslash :: char where "backslash = char_of (92 :: nat)"

definition json_escape :: "char \<Rightarrow> string" where
  "json_escape c =
     (let n = codept c in
      if n = 34 \<or> n = 92 then [backslash, c]
      else if n = 8 then [backslash, CHR ''b'']
      else if n = 12 then [backslash, CHR ''f'']
      else if n = 10 then [backslash, CHR ''n'']
      else if n = 13 then [backslash, CHR ''r'']
      else if n = 9 then [backslash, CHR ''t'']
      else if n < 32 then [backslash, CHR ''u'', CHR ''0'', CHR ''0'', hex_digit (n div 16), hex_digit (n mod 16)]
      else [c])"

definition json_string :: "string \<Rightarrow> string" where
  "json_string s = [CHR 0x22] @ concat (map json_escape s) @ [CHR 0x22]"

text \<open>\<open>json.dumps(v, ensure_ascii=False, sort_keys=True)\<close>.\<close>

fun json_dumps :: "pyval \<Rightarrow> string" where
  "json_dumps PNone = ''null''"
| "json_dumps (PBool b) = (if b then ''true'' else ''false'')"
| "json_dumps (PInt i) = int_str i"
| "json_dumps (PFloat q) = float_str q"
| "json_dumps (PStr s) = json_string s"
| "json_dumps (PList xs) = ''['' @ join_with '', '' (map json_dumps xs) @ '']''"
| "json_dumps (PDict d) =
     ''{'' @ join_with '', '' (map (\<lambda>(k, r). json_string k @ '': '' @ r) (sort_key fst (map (map_prod id json_dumps) d))) @ ''}''"

definition event_line :: "pydict \<Rightarrow> string" where
  "event_line d = utf8_encode (json_dumps (PDict d) @ [newline])"

section \<open>Writing\<close>

type_synonym log_file = "string option"

definition content :: "log_file \<Rightarrow> string" where
  "content f = (case f of None \<Rightarrow> [] | Some bs \<Rightarrow> bs)"

definition tail_marker :: "string \<Rightarrow> nat \<Rightarrow> pydict" where
  "tail_marker now end_offset =
     [(''at'', PStr now), (''reason'', PStr ''unterminated_jsonl_tail''), (''tail_end_offset'', PInt (int end_offset)),
      (''type'', PStr ''event_store_tail_quarantined'')]"

text \<open>\<open>_append_unlocked\<close>: an unterminated tail is closed by a newline and a marker before the events follow.\<close>

definition append_unlocked :: "string \<Rightarrow> pydict list \<Rightarrow> log_file \<Rightarrow> log_file" where
  "append_unlocked now payloads f =
     (if payloads = [] then f
      else
        let bs = content f;
            repair = (if bs \<noteq> [] \<and> last bs \<noteq> newline then [newline] @ event_line (tail_marker now (length bs)) else [])
        in Some (bs @ repair @ concat (map event_line payloads)))"

definition with_at :: "string \<Rightarrow> pydict \<Rightarrow> pydict" where
  "with_at now d = (if ''at'' \<in> dkeys d then d else dset ''at'' (PStr now) d)"

definition event_append :: "(pydict \<Rightarrow> pydict) \<Rightarrow> string \<Rightarrow> pydict \<Rightarrow> log_file \<Rightarrow> pydict \<times> log_file" where
  "event_append redact now event f =
     (let payload = with_at now (redact event) in (payload, append_unlocked now [payload] f))"

section \<open>Reading\<close>

definition line_events :: "(string \<Rightarrow> pyval option) \<Rightarrow> string list \<Rightarrow> pydict list" where
  "line_events loads ls =
     concat (map (\<lambda>l. if strip l = [] then [] else case loads l of Some (PDict d) \<Rightarrow> [d] | _ \<Rightarrow> []) ls)"

text \<open>\<open>_replay_unlocked\<close>; reading a file that is not UTF-8 raises.\<close>

definition replay :: "(string \<Rightarrow> pyval option) \<Rightarrow> log_file \<Rightarrow> pyexn + pydict list" where
  "replay loads f =
     (case f of
        None \<Rightarrow> Inr []
      | Some bs \<Rightarrow>
          (case utf8_decode bs of
             None \<Rightarrow> Inl (PyOtherError ''UnicodeDecodeError'')
           | Some t \<Rightarrow> Inr (line_events loads (splitlines t))))"

text \<open>The signature of an event under identity keys; \<open>redact_v\<close> is redaction of one value.\<close>

definition event_signature :: "(pyval \<Rightarrow> pyval) \<Rightarrow> string list \<Rightarrow> pydict \<Rightarrow> (string \<times> string) list" where
  "event_signature redact_v keys e = map (\<lambda>k. (k, json_dumps (redact_v (dget e k)))) (filter (\<lambda>k. k \<in> dkeys e) keys)"

definition IDENTITY_KEYS :: "string list" where
  "IDENTITY_KEYS = [''type'', ''round'', ''stage'', ''stage_index'', ''stage_count'']"

definition identity_or :: "string list \<Rightarrow> string list" where
  "identity_or keys = (if keys = [] then IDENTITY_KEYS else keys)"

definition append_once ::
  "(string \<Rightarrow> pyval option) \<Rightarrow> (pyval \<Rightarrow> pyval) \<Rightarrow> (pydict \<Rightarrow> pydict) \<Rightarrow> string \<Rightarrow> string list \<Rightarrow> pydict \<Rightarrow> log_file
   \<Rightarrow> pyexn + pydict option \<times> log_file" where
  "append_once loads redact_v redact now keys event f =
     (let ks = identity_or keys; sig = event_signature redact_v ks event in
      sbind (replay loads f) (\<lambda>events.
        if sig \<in> set (map (event_signature redact_v ks) events) then Inr (None, f)
        else (case event_append redact now event f of (payload, f') \<Rightarrow> Inr (Some payload, f'))))"

text \<open>The loop of \<open>append_many_once\<close> over the signatures seen so far.\<close>

fun fresh_events ::
  "(pyval \<Rightarrow> pyval) \<Rightarrow> (pydict \<Rightarrow> pydict) \<Rightarrow> string \<Rightarrow> string list \<Rightarrow> (string \<times> string) list list \<Rightarrow> pydict list \<Rightarrow> pydict list" where
  "fresh_events redact_v redact now ks seen [] = []"
| "fresh_events redact_v redact now ks seen (e # es) =
     (let sig = event_signature redact_v ks e in
      if sig \<in> set seen then fresh_events redact_v redact now ks seen es
      else with_at now (redact e) # fresh_events redact_v redact now ks (sig # seen) es)"

definition append_many_once ::
  "(string \<Rightarrow> pyval option) \<Rightarrow> (pyval \<Rightarrow> pyval) \<Rightarrow> (pydict \<Rightarrow> pydict) \<Rightarrow> string \<Rightarrow> string list \<Rightarrow> pydict list \<Rightarrow> log_file
   \<Rightarrow> pyexn + pydict list \<times> log_file" where
  "append_many_once loads redact_v redact now keys events f =
     (let ks = identity_or keys in
      sbind (replay loads f) (\<lambda>old.
        let appended = fresh_events redact_v redact now ks (map (event_signature redact_v ks) old) events
        in Inr (appended, append_unlocked now appended f)))"

section \<open>Watermarks\<close>

text \<open>\<open>chunk.rfind(newline)\<close>, and the backward scan in chunks of 8192 bytes.\<close>

definition rfind_newline :: "string \<Rightarrow> nat option" where
  "rfind_newline bs =
     (case dropWhile (\<lambda>c. c \<noteq> newline) (rev bs) of [] \<Rightarrow> None | _ # r \<Rightarrow> Some (length r))"

function scan_back :: "string \<Rightarrow> nat \<Rightarrow> nat" where
  "scan_back bs position =
     (if position = 0 then 0
      else
        let start = position - 8192 in
        (case rfind_newline (drop start (take position bs)) of
           Some i \<Rightarrow> start + i + 1
         | None \<Rightarrow> scan_back bs start))"
  by pat_completeness auto
termination
  by (relation "measure snd") auto

declare scan_back.simps [simp del]

definition committed_offset :: "log_file \<Rightarrow> nat" where
  "committed_offset f =
     (let bs = content f in
      if bs = [] then 0 else if last bs = newline then length bs else scan_back bs (length bs))"

text \<open>The lines of a binary file, each with its newline.\<close>

fun byte_lines_from :: "string \<Rightarrow> string \<Rightarrow> string list" where
  "byte_lines_from acc [] = (if acc = [] then [] else [acc])"
| "byte_lines_from acc (c # s) =
     (if c = newline then (acc @ [c]) # byte_lines_from [] s else byte_lines_from (acc @ [c]) s)"

definition byte_lines :: "string \<Rightarrow> string list" where
  "byte_lines bs = byte_lines_from [] bs"

datatype truncation = Shorter nat nat | BadLine string nat nat

record event_report =
  er_committed :: "pydict list"
  er_post :: "pydict list"
  er_truncated :: "truncation list"

text \<open>What one line is: an event, or the reason it is not.\<close>

definition line_event :: "(string \<Rightarrow> pyval option) \<Rightarrow> string \<Rightarrow> string + pydict" where
  "line_event loads raw =
     (if raw = [] \<or> last raw \<noteq> newline then Inl ''incomplete_line''
      else case utf8_decode raw of
        None \<Rightarrow> Inl ''invalid_json''
      | Some t \<Rightarrow> (case loads t of None \<Rightarrow> Inl ''invalid_json'' | Some (PDict d) \<Rightarrow> Inr d | Some _ \<Rightarrow> Inl ''invalid_event''))"

fun classify_lines :: "(string \<Rightarrow> pyval option) \<Rightarrow> nat \<Rightarrow> nat \<Rightarrow> string list \<Rightarrow> event_report \<Rightarrow> event_report" where
  "classify_lines loads offset cursor [] rep = rep"
| "classify_lines loads offset cursor (raw # ls) rep =
     (let start = cursor; stop = cursor + length raw;
          rep1 = (case line_event loads raw of
             Inl reason \<Rightarrow> rep\<lparr>er_truncated := er_truncated rep @ [BadLine reason start stop]\<rparr>
           | Inr d \<Rightarrow>
               (if stop \<le> offset then rep\<lparr>er_committed := er_committed rep @ [d]\<rparr>
                else if start \<ge> offset then rep\<lparr>er_post := er_post rep @ [d]\<rparr>
                else rep\<lparr>er_truncated := er_truncated rep @ [BadLine ''watermark_splits_line'' start stop]\<rparr>))
      in classify_lines loads offset stop ls rep1)"

definition reconcile_at :: "(string \<Rightarrow> pyval option) \<Rightarrow> nat \<Rightarrow> log_file \<Rightarrow> event_report" where
  "reconcile_at loads offset f =
     (let size = length (content f);
          rep = \<lparr>er_committed = [], er_post = [],
                 er_truncated = (if size < offset then [Shorter offset size] else [])\<rparr>
      in case f of None \<Rightarrow> rep | Some bs \<Rightarrow> classify_lines loads offset 0 (byte_lines bs) rep)"

definition reconcile :: "(string \<Rightarrow> pyval option) \<Rightarrow> string \<Rightarrow> pydict \<Rightarrow> log_file \<Rightarrow> pyexn + event_report" where
  "reconcile loads path watermark f =
     (if str_field (dget watermark ''path'') [] \<noteq> path then Inl PyValueError
      else case map_of watermark ''offset'' of
        None \<Rightarrow> Inl PyKeyError
      | Some v \<Rightarrow>
          sbind (py_int v) (\<lambda>offset. if offset < 0 then Inl PyValueError else Inr (reconcile_at loads (nat offset) f)))"

definition watermark :: "string \<Rightarrow> log_file \<Rightarrow> pydict" where
  "watermark path f = [(''path'', PStr path), (''offset'', PInt (int (committed_offset f)))]"

section \<open>Lemmas\<close>

subsection \<open>Bytes and lines\<close>

lemma codept_bound: "codept c < 256"
  by (simp add: codept_def)

lemma char_of_codept [simp]: "char_of (codept c) = c"
  by (simp add: codept_def)

lemma utf8_roundtrip [simp]: "utf8_decode (utf8_encode s @ r) = map_option ((@) s) (utf8_decode r)"
proof (induction s)
  case Nil
  show ?case by (cases "utf8_decode r") (simp_all add: utf8_encode_def)
next
  case (Cons c s)
  show ?case
  proof (cases "codept c < 128")
    case True
    with Cons show ?thesis
      by (cases "utf8_decode r") (simp_all add: utf8_encode_def utf8_char_def)
  next
    case False
    have b: "codept c < 256" by (rule codept_bound)
    have k: "codept (char_of (192 + codept c div 64)) = 192 + codept c div 64"
      "codept (char_of (128 + codept c mod 64)) = 128 + codept c mod 64"
      using b by (simp_all add: codept_char_of)
    have "codept c div 64 = 2 \<or> codept c div 64 = 3" using False b by auto
    moreover have "64 * (codept c div 64) + codept c mod 64 = codept c" by simp
    ultimately show ?thesis
      using Cons False k
      by (cases "utf8_decode r") (auto simp: utf8_encode_def utf8_char_def)
  qed
qed

lemma byte_lines_split:
  "byte_lines_from acc (s @ newline # t) = byte_lines_from acc (s @ [newline]) @ byte_lines_from [] t"
  by (induction s arbitrary: acc) auto

lemma byte_lines_append:
  assumes "a = [] \<or> last a = newline"
  shows "byte_lines (a @ b) = byte_lines a @ byte_lines b"
proof (cases "a = []")
  case False
  then have "a = butlast a @ [newline]" using assms by (metis append_butlast_last_id)
  then obtain a' where "a = a' @ [newline]" ..
  then show ?thesis using byte_lines_split [of "[]" a' b] by (simp add: byte_lines_def)
qed (simp add: byte_lines_def)

lemma byte_lines_line: "newline \<notin> set a \<Longrightarrow> byte_lines_from acc (a @ [newline]) = [acc @ a @ [newline]]"
  by (induction a arbitrary: acc) auto

lemma byte_lines_total: "sum_list (map length (byte_lines_from acc s)) = length acc + length s"
  by (induction s arbitrary: acc) auto

lemma byte_lines_nonempty: "l \<in> set (byte_lines_from acc s) \<Longrightarrow> l \<noteq> []"
  by (induction s arbitrary: acc) (auto split: if_splits)

subsection \<open>The printed line\<close>

definition no_ctrl :: "string \<Rightarrow> bool" where
  "no_ctrl s \<longleftrightarrow> (\<forall>c \<in> set s. 32 \<le> codept c)"

lemma no_ctrl_simps [simp]:
  "no_ctrl []" "no_ctrl (c # s) \<longleftrightarrow> 32 \<le> codept c \<and> no_ctrl s" "no_ctrl (s @ t) \<longleftrightarrow> no_ctrl s \<and> no_ctrl t"
  by (auto simp: no_ctrl_def)

lemma no_ctrl_join: "no_ctrl sep \<Longrightarrow> \<forall>s \<in> set ss. no_ctrl s \<Longrightarrow> no_ctrl (join_with sep ss)"
  by (induction sep ss rule: join_with.induct) simp_all

lemma no_ctrl_digits: "no_ctrl (nat_digits n)"
proof (induction n rule: nat_digits.induct)
  case (1 n)
  have "n mod 10 < 10" by simp
  then show ?case
    using 1 by (subst nat_digits.simps) (auto simp: codept_char_of)
qed

lemma codept_lit [simp]: "codept (CHR ''-'') = 45" "codept (CHR ''.'') = 46" "codept (CHR ''0'') = 48"
  "codept (CHR '','') = 44" "codept (CHR '' '') = 32" "codept (CHR '':'') = 58"
  "codept (CHR ''['') = 91" "codept (CHR '']'') = 93" "codept (CHR ''{'') = 123" "codept (CHR ''}'') = 125"
  "codept (CHR 0x22) = 34"
  by (simp_all add: codept_def)

lemma no_ctrl_int: "no_ctrl (int_str i)"
  by (simp add: int_str_def no_ctrl_digits)

lemma no_ctrl_frac: "0 \<le> q \<Longrightarrow> q < 1 \<Longrightarrow> no_ctrl (frac_digits n q)"
proof (induction n arbitrary: q)
  case (Suc n)
  have f: "0 \<le> \<lfloor>10 * q\<rfloor>" "\<lfloor>10 * q\<rfloor> \<le> 9" "0 \<le> 10 * q - of_int \<lfloor>10 * q\<rfloor>" "10 * q - of_int \<lfloor>10 * q\<rfloor> < 1"
    using Suc.prems by (auto simp: floor_le_iff) linarith+
  have "32 \<le> codept (char_of (nat (48 + \<lfloor>10 * q\<rfloor>)))"
  proof -
    have "nat (48 + \<lfloor>10 * q\<rfloor>) < 256" "32 \<le> nat (48 + \<lfloor>10 * q\<rfloor>)" using f(1,2) by linarith+
    then show ?thesis by (simp only: codept_char_of)
  qed
  with Suc.IH [OF f(3,4)] show ?case by simp
qed simp

lemma no_ctrl_float: "no_ctrl (float_str q)"
proof -
  have "no_ctrl (frac_digits 17 (\<bar>q\<bar> - of_int \<lfloor>\<bar>q\<bar>\<rfloor>))"
    by (rule no_ctrl_frac) linarith+
  then show ?thesis by (simp add: float_str_def Let_def no_ctrl_int)
qed

lemma no_ctrl_escape: "no_ctrl (json_escape c)"
proof -
  have "codept c < 256" by (rule codept_bound)
  moreover have "codept (hex_digit n) \<ge> 32" if "n < 16" for n
    using that by (simp add: hex_digit_def codept_char_of)
  ultimately show ?thesis
    by (auto simp: json_escape_def Let_def backslash_def codept_char_of) (simp_all add: codept_def)
qed

lemma no_ctrl_string: "no_ctrl (json_string s)"
  by (simp add: json_string_def) (auto simp: no_ctrl_def dest: no_ctrl_escape [unfolded no_ctrl_def, rule_format])

lemma no_ctrl_dumps: "no_ctrl (json_dumps v)"
proof (induction v)
  case (PDict d)
  define ss where "ss = sort_key fst (map (map_prod id json_dumps) d)"
  have "no_ctrl r" if "(k, r) \<in> set ss" for k r
    using that PDict by (auto simp: ss_def)
  then have "\<forall>x \<in> set (map (\<lambda>(k, r). json_string k @ '': '' @ r) ss). no_ctrl x"
    by (auto simp: no_ctrl_string)
  then have "no_ctrl (join_with '', '' (map (\<lambda>(k, r). json_string k @ '': '' @ r) ss))"
    by (simp add: no_ctrl_join)
  then show ?case by (simp add: ss_def)
next
  case (PBool b)
  show ?case by (simp add: codept_def)
next
  case PNone
  show ?case by (simp add: codept_def)
qed (auto intro!: no_ctrl_join simp: no_ctrl_string no_ctrl_int no_ctrl_float)

lemma utf8_no_newline: "newline \<notin> set s \<Longrightarrow> newline \<notin> set (utf8_encode s)"
proof -
  assume s: "newline \<notin> set s"
  have "newline \<notin> set (utf8_char c)" if "c \<noteq> newline" for c
  proof -
    have "codept (char_of (192 + codept c div 64)) \<noteq> 10" "codept (char_of (128 + codept c mod 64)) \<noteq> 10"
      using codept_bound [of c] by (simp_all add: codept_char_of)
    then show ?thesis using that by (auto simp: utf8_char_def simp flip: codept_newline)
  qed
  then have "newline \<notin> set (utf8_char c)" if "c \<in> set s" for c using that s by metis
  then show ?thesis by (auto simp: utf8_encode_def)
qed

lemma event_line_form:
  "event_line d = utf8_encode (json_dumps (PDict d)) @ [newline]" "newline \<notin> set (utf8_encode (json_dumps (PDict d)))"
proof -
  have "newline \<notin> set (json_dumps (PDict d))"
    using no_ctrl_dumps [of "PDict d"] by (auto simp: no_ctrl_def simp del: json_dumps.simps)
  then show "newline \<notin> set (utf8_encode (json_dumps (PDict d)))" by (rule utf8_no_newline)
  show "event_line d = utf8_encode (json_dumps (PDict d)) @ [newline]"
    by (simp add: event_line_def utf8_encode_def utf8_char_def del: json_dumps.simps)
qed

lemma last_event_line [simp]: "event_line d \<noteq> []" "last (event_line d) = newline"
  by (simp_all add: event_line_form(1))

lemma byte_lines_event: "byte_lines (event_line d) = [event_line d]"
  using byte_lines_line [OF event_line_form(2), of "[]"] by (simp add: byte_lines_def event_line_form(1))

lemma byte_lines_events: "byte_lines (concat (map event_line ds)) = map event_line ds"
proof (induction ds)
  case Nil
  show ?case by (simp add: byte_lines_def)
next
  case (Cons d ds)
  have "byte_lines (event_line d @ concat (map event_line ds)) = byte_lines (event_line d) @ byte_lines (concat (map event_line ds))"
    by (rule byte_lines_append) simp
  with Cons show ?case by (simp add: byte_lines_event)
qed

text \<open>What is relied on of \<open>json.loads\<close> for an event: it reads its printed form back, with or without the newline.\<close>

definition reads :: "(string \<Rightarrow> pyval option) \<Rightarrow> pydict \<Rightarrow> bool" where
  "reads loads d \<longleftrightarrow>
     loads (json_dumps (PDict d)) = Some (PDict d) \<and> loads (json_dumps (PDict d) @ [newline]) = Some (PDict d)"

lemma line_event_read: "reads loads d \<Longrightarrow> line_event loads (event_line d) = Inr d"
proof -
  assume r: "reads loads d"
  have "utf8_decode (event_line d) = Some (json_dumps (PDict d) @ [newline])"
    using utf8_roundtrip [of "json_dumps (PDict d) @ [newline]" "[]"] by (simp add: event_line_def del: json_dumps.simps)
  then show ?thesis using r by (simp add: line_event_def reads_def del: json_dumps.simps)
qed

subsection \<open>The backward scan\<close>

definition last_line_end :: "string \<Rightarrow> nat" where
  "last_line_end s = (case rfind_newline s of None \<Rightarrow> 0 | Some i \<Rightarrow> i + 1)"

lemma rfind_snoc: "rfind_newline (s @ [c]) = (if c = newline then Some (length s) else rfind_newline s)"
  by (simp add: rfind_newline_def)

lemma rfind_Nil [simp]: "rfind_newline [] = None"
  by (simp add: rfind_newline_def)

lemma rfind_append:
  "rfind_newline (s @ t) = (case rfind_newline t of Some i \<Rightarrow> Some (length s + i) | None \<Rightarrow> rfind_newline s)"
  by (induction t rule: rev_induct) (simp_all add: rfind_snoc flip: append_assoc)

lemma scan_back_last: "pos \<le> length bs \<Longrightarrow> scan_back bs pos = last_line_end (take pos bs)"
proof (induction bs pos rule: scan_back.induct)
  case (1 bs pos)
  let ?start = "pos - 8192"
  have split: "take ?start bs @ drop ?start (take pos bs) = take pos bs"
    by (metis append_take_drop_id diff_le_self min.absorb1 take_take)
  have "length (take ?start bs) = ?start" using 1(2) by simp
  then have "rfind_newline (take ?start bs @ drop ?start (take pos bs)) =
      (case rfind_newline (drop ?start (take pos bs)) of Some i \<Rightarrow> Some (?start + i) | None \<Rightarrow> rfind_newline (take ?start bs))"
    by (simp only: rfind_append)
  then have "rfind_newline (take pos bs) =
      (case rfind_newline (drop ?start (take pos bs)) of Some i \<Rightarrow> Some (?start + i) | None \<Rightarrow> rfind_newline (take ?start bs))"
    by (simp only: split)
  then show ?case
    using 1 by (subst scan_back.simps) (auto simp: last_line_end_def Let_def split: option.split)
qed

lemma committed_offset_last: "committed_offset f = last_line_end (content f)"
proof (cases "content f" rule: rev_cases)
  case (snoc s c)
  then show ?thesis
    using scan_back_last [of "length (content f)" "content f"]
    by (auto simp: committed_offset_def Let_def last_line_end_def rfind_snoc)
qed (simp add: committed_offset_def last_line_end_def)

lemma last_line_end_spec:
  "last_line_end s \<le> length s \<and> (take (last_line_end s) s = [] \<or> last (take (last_line_end s) s) = newline) \<and>
   newline \<notin> set (drop (last_line_end s) s)"
proof (induction s rule: rev_induct)
  case (snoc c s)
  show ?case
  proof (cases "c = newline")
    case False
    then have "last_line_end (s @ [c]) = last_line_end s" by (simp add: last_line_end_def rfind_snoc)
    with snoc False show ?thesis by auto
  qed (simp add: last_line_end_def rfind_snoc)
qed (simp add: last_line_end_def)

subsection \<open>Classification\<close>

definition line_oks :: "(string \<Rightarrow> pyval option) \<Rightarrow> string list \<Rightarrow> pydict list" where
  "line_oks loads ls = concat (map (\<lambda>l. case line_event loads l of Inr d \<Rightarrow> [d] | Inl _ \<Rightarrow> []) ls)"

lemma line_oks_simps [simp]:
  "line_oks loads [] = []" "line_oks loads (l # ls) = (case line_event loads l of Inr d \<Rightarrow> [d] | Inl _ \<Rightarrow> []) @ line_oks loads ls"
  "line_oks loads (ls @ ms) = line_oks loads ls @ line_oks loads ms"
  by (simp_all add: line_oks_def)

lemma line_oks_events: "\<forall>d \<in> set ds. reads loads d \<Longrightarrow> line_oks loads (map event_line ds) = ds"
  by (induction ds) (simp_all add: line_event_read)

lemma classify_append:
  "classify_lines loads off cur (ls @ ms) rep =
     classify_lines loads off (cur + sum_list (map length ls)) ms (classify_lines loads off cur ls rep)"
  by (induction ls arbitrary: cur rep) (simp_all add: Let_def add.assoc)

text \<open>A line that is not an event is reported with its own reason.\<close>

definition bad_line :: "truncation \<Rightarrow> bool" where
  "bad_line t \<longleftrightarrow> (\<exists>r a b. t = BadLine r a b \<and> r \<noteq> ''watermark_splits_line'')"

lemma bad_line_event: "line_event loads l = Inl r \<Longrightarrow> bad_line (BadLine r a b)"
  by (auto simp: bad_line_def line_event_def split: if_splits option.splits pyval.splits)

lemma classify_before:
  "cur + sum_list (map length ls) \<le> off \<Longrightarrow>
     \<exists>bad. classify_lines loads off cur ls rep =
       rep\<lparr>er_committed := er_committed rep @ line_oks loads ls, er_truncated := er_truncated rep @ bad\<rparr> \<and> list_all bad_line bad"
proof (induction ls arbitrary: cur rep)
  case (Cons l ls)
  have le: "cur + length l + sum_list (map length ls) \<le> off" using Cons.prems by simp
  show ?case
  proof (cases "line_event loads l")
    case (Inl r)
    let ?b = "BadLine r cur (cur + length l)"
    obtain bad where "classify_lines loads off (cur + length l) ls (rep\<lparr>er_truncated := er_truncated rep @ [?b]\<rparr>) =
        rep\<lparr>er_committed := er_committed rep @ line_oks loads ls, er_truncated := er_truncated rep @ ?b # bad\<rparr>" "list_all bad_line bad"
      using Cons.IH [OF le, of "rep\<lparr>er_truncated := er_truncated rep @ [?b]\<rparr>"] by auto
    then show ?thesis
      using Inl bad_line_event [OF Inl] by (intro exI [of _ "?b # bad"]) (simp add: Let_def)
  next
    case (Inr d)
    then show ?thesis
      using Cons.IH [OF le, of "rep\<lparr>er_committed := er_committed rep @ [d]\<rparr>"] le by (simp add: Let_def)
  qed
qed (auto intro: exI [of _ "[]"])

lemma classify_after:
  "off \<le> cur \<Longrightarrow> \<forall>l \<in> set ls. l \<noteq> [] \<Longrightarrow>
     \<exists>bad. classify_lines loads off cur ls rep =
       rep\<lparr>er_post := er_post rep @ line_oks loads ls, er_truncated := er_truncated rep @ bad\<rparr> \<and> list_all bad_line bad"
proof (induction ls arbitrary: cur rep)
  case (Cons l ls)
  have ge: "off \<le> cur + length l" and ne: "\<forall>l \<in> set ls. l \<noteq> []" "0 < length l" using Cons.prems by simp_all
  show ?case
  proof (cases "line_event loads l")
    case (Inl r)
    let ?b = "BadLine r cur (cur + length l)"
    obtain bad where "classify_lines loads off (cur + length l) ls (rep\<lparr>er_truncated := er_truncated rep @ [?b]\<rparr>) =
        rep\<lparr>er_post := er_post rep @ line_oks loads ls, er_truncated := er_truncated rep @ ?b # bad\<rparr>" "list_all bad_line bad"
      using Cons.IH [OF ge ne(1), of "rep\<lparr>er_truncated := er_truncated rep @ [?b]\<rparr>"] by auto
    then show ?thesis
      using Inl bad_line_event [OF Inl] by (intro exI [of _ "?b # bad"]) (simp add: Let_def)
  next
    case (Inr d)
    have "\<not> cur + length l \<le> off" using Cons.prems(1) ne(2) by linarith
    then show ?thesis
      using Inr Cons.IH [OF ge ne(1), of "rep\<lparr>er_post := er_post rep @ [d]\<rparr>"] Cons.prems(1) by (simp add: Let_def)
  qed
qed (auto intro: exI [of _ "[]"])

text \<open>The audit against a watermark at a line boundary.\<close>

lemma reconcile_split:
  assumes "pre = [] \<or> last pre = newline" "f = Some (pre @ suf)"
  shows "er_committed (reconcile_at loads (length pre) f) = line_oks loads (byte_lines pre) \<and>
    er_post (reconcile_at loads (length pre) f) = line_oks loads (byte_lines suf) \<and>
    list_all bad_line (er_truncated (reconcile_at loads (length pre) f))"
proof -
  let ?rep = "\<lparr>er_committed = [], er_post = [], er_truncated = []\<rparr>"
  have total: "sum_list (map length (byte_lines pre)) = length pre"
    by (simp add: byte_lines_def byte_lines_total)
  have ne: "\<forall>l \<in> set (byte_lines suf). l \<noteq> []" using byte_lines_nonempty by (auto simp: byte_lines_def)
  obtain b1 where 1: "classify_lines loads (length pre) 0 (byte_lines pre) ?rep =
      ?rep\<lparr>er_committed := line_oks loads (byte_lines pre), er_truncated := b1\<rparr>" "list_all bad_line b1"
    using classify_before [of 0 "byte_lines pre" "length pre" loads ?rep] total by auto
  let ?r1 = "?rep\<lparr>er_committed := line_oks loads (byte_lines pre), er_truncated := b1\<rparr>"
  obtain b2 where 2: "classify_lines loads (length pre) (length pre) (byte_lines suf) ?r1 =
      ?r1\<lparr>er_post := line_oks loads (byte_lines suf), er_truncated := b1 @ b2\<rparr>" "list_all bad_line b2"
    using classify_after [where off = "length pre" and cur = "length pre" and ls = "byte_lines suf" and loads = loads and rep = ?r1] ne
    by auto
  have "reconcile_at loads (length pre) f = ?r1\<lparr>er_post := line_oks loads (byte_lines suf), er_truncated := b1 @ b2\<rparr>"
    using assms 1 2 by (simp add: reconcile_at_def content_def byte_lines_append classify_append total)
  then show ?thesis using 1(2) 2(2) by simp
qed

lemma append_form:
  "payloads \<noteq> [] \<Longrightarrow> \<exists>repair. append_unlocked now payloads f = Some (content f @ repair @ concat (map event_line payloads)) \<and>
     (repair = [] \<and> (content f = [] \<or> last (content f) = newline) \<or>
      repair = newline # event_line (tail_marker now (length (content f))) \<and> content f \<noteq> [] \<and> last (content f) \<noteq> newline)"
  by (auto simp: append_unlocked_def Let_def)

lemma reconcile_appended:
  assumes "\<forall>d \<in> set payloads. reads loads d" "payloads \<noteq> []"
  shows "let rep = reconcile_at loads (committed_offset f) (append_unlocked now payloads f) in
    er_committed rep = line_oks loads (byte_lines (take (committed_offset f) (content f))) \<and>
    (\<exists>xs. er_post rep = xs @ payloads \<and> (content f = [] \<or> last (content f) = newline \<longrightarrow> xs = [])) \<and>
    list_all bad_line (er_truncated rep)"
proof -
  let ?c = "content f" and ?w = "committed_offset f" and ?ls = "concat (map event_line payloads)"
  obtain repair where r: "append_unlocked now payloads f = Some (?c @ repair @ ?ls)"
    "repair = [] \<and> (?c = [] \<or> last ?c = newline) \<or>
      repair = newline # event_line (tail_marker now (length ?c)) \<and> ?c \<noteq> [] \<and> last ?c \<noteq> newline"
    using append_form [OF assms(2)] by blast
  have w: "?w \<le> length ?c" "take ?w ?c = [] \<or> last (take ?w ?c) = newline" "length (take ?w ?c) = ?w"
    using last_line_end_spec [of ?c] by (simp_all add: committed_offset_last)
  have f': "append_unlocked now payloads f = Some (take ?w ?c @ drop ?w ?c @ repair @ ?ls)"
    by (simp add: r(1))
  note rec = reconcile_split [OF w(2) f', of loads, unfolded w(3)]
  have "\<exists>xs. line_oks loads (byte_lines (drop ?w ?c @ repair @ ?ls)) = xs @ payloads \<and>
      (?c = [] \<or> last ?c = newline \<longrightarrow> xs = [])"
  proof (cases "?c = [] \<or> last ?c = newline")
    case True
    then have "?w = length ?c" by (auto simp: committed_offset_def Let_def)
    with True r(2) show ?thesis by (auto simp: byte_lines_events line_oks_events [OF assms(1)])
  next
    case False
    then have rep: "repair = newline # event_line (tail_marker now (length ?c))" using r(2) by auto
    have "byte_lines ((drop ?w ?c @ repair) @ ?ls) = byte_lines (drop ?w ?c @ repair) @ byte_lines ?ls"
      by (rule byte_lines_append) (simp add: rep)
    then show ?thesis using False by (simp add: byte_lines_events line_oks_events [OF assms(1)])
  qed
  with rec show ?thesis by (auto simp: Let_def)
qed

subsection \<open>Replay\<close>

lemma splitlines_break:
  assumes "whole a" "line_break b" "codept b \<noteq> 13"
  shows "splitlines_from acc (a @ b # t) = (acc @ a) # splitlines_from [] t"
  using assms(1)
proof (induction a arbitrary: acc)
  case Nil
  show ?case using assms(2,3) by simp
next
  case (Cons c a)
  then have "\<not> line_break c" "codept c \<noteq> 13" "whole a" using codept_13 by (auto simp: whole_def)
  with Cons.IH show ?case by simp
qed

text \<open>Text that ends a line can be split off.\<close>

lemma splitlines_append:
  "splitlines_from acc (t @ newline # u) = splitlines_from acc (t @ [newline]) @ splitlines_from [] u"
proof (induction acc t rule: splitlines_from.induct)
  case (2 acc c s)
  show ?case
  proof (cases "codept c = 13")
    case True
    show ?thesis
    proof (cases s)
      case (Cons d s')
      with True 2 show ?thesis by auto
    qed (use True in simp)
  next
    case False
    then show ?thesis using 2(3,4) by auto
  qed
qed (simp add: line_break_def)

lemma line_events_append [simp]: "line_events loads (a @ b) = line_events loads a @ line_events loads b"
  by (simp add: line_events_def)

lemma utf8_decode_lines: "utf8_decode (utf8_encode s) = Some s"
  using utf8_roundtrip [of s "[]"] by simp

lemma events_text: "concat (map event_line ds) = utf8_encode (concat (map (\<lambda>d. json_dumps (PDict d) @ [newline]) ds))"
  by (induction ds) (simp_all add: event_line_def utf8_encode_def del: json_dumps.simps)

lemma utf8_decode_append: "utf8_decode bs = Some t \<Longrightarrow> utf8_decode (bs @ utf8_encode s) = Some (t @ s)"
proof (induction bs arbitrary: t rule: utf8_decode.induct)
  case (2 b bs)
  then show ?case by (auto split: if_splits list.splits)
qed (simp add: utf8_decode_lines)

lemma utf8_decode_newline_last: "utf8_decode bs = Some t \<Longrightarrow> bs \<noteq> [] \<Longrightarrow> last bs = newline \<Longrightarrow> \<exists>u. t = u @ [newline]"
proof (induction bs arbitrary: t rule: utf8_decode.induct)
  case (2 b bs)
  show ?case
  proof (cases "codept b < 128")
    case True
    then obtain u where u: "utf8_decode bs = Some u" "t = b # u" using 2(3) by auto
    show ?thesis
    proof (cases "bs = []")
      case False
      then show ?thesis using 2(1) [OF True u(1)] 2(5) u(2) by auto
    qed (use u 2 in auto)
  next
    case False
    then obtain b2 bs' u where u: "bs = b2 # bs'" "utf8_decode bs' = Some u" "128 \<le> codept b2" "\<exists>c. t = c # u"
      using 2(3) by (auto split: list.splits if_splits)
    have "bs' \<noteq> []" using 2(5) u(1,3) by (auto simp: newline_def codept_char_of)
    then show ?thesis using 2(2) [OF False u(1)] False 2(3,5) u by (auto split: if_splits)
  qed
qed simp

lemma utf8_torn: "utf8_decode bs = None \<Longrightarrow> utf8_decode (bs @ newline # r) = None"
proof (induction bs rule: utf8_decode.induct)
  case (2 b bs)
  then show ?case by (cases bs) (auto split: if_splits)
qed simp

lemma replay_torn:
  assumes "utf8_decode bs = None" "last bs \<noteq> newline" "payloads \<noteq> []"
  shows "replay loads (append_unlocked now payloads (Some bs)) = Inl (PyOtherError ''UnicodeDecodeError'')"
proof -
  have "bs \<noteq> []" using assms(1) by auto
  then show ?thesis
    using assms utf8_torn [OF assms(1)] by (simp add: append_unlocked_def content_def Let_def replay_def)
qed

definition event_text :: "pydict \<Rightarrow> string" where
  "event_text d = json_dumps (PDict d)"

lemma strip_brace: "strip (CHR ''{'' # s) \<noteq> []"
proof -
  have "\<not> is_space (CHR ''{'')" by (simp add: is_space_def Let_def)
  then show ?thesis by (simp add: strip_def dropWhile_eq_Nil_conv)
qed

lemma strip_event_text: "strip (event_text d) \<noteq> []"
  by (simp add: event_text_def strip_brace)

lemma events_text': "concat (map event_line ds) = utf8_encode (concat (map (\<lambda>d. event_text d @ [newline]) ds))"
  unfolding event_text_def by (rule events_text)

lemma splitlines_events:
  "\<forall>d \<in> set ds. whole (event_text d) \<Longrightarrow> splitlines_from [] (concat (map (\<lambda>d. event_text d @ [newline]) ds)) = map event_text ds"
  by (induction ds) (simp_all add: splitlines_whole)

lemma reads_event_text: "reads loads d \<Longrightarrow> loads (event_text d) = Some (PDict d)"
  by (simp add: reads_def event_text_def del: json_dumps.simps)

lemma line_events_events: "\<forall>d \<in> set ds. reads loads d \<Longrightarrow> line_events loads (map event_text ds) = ds"
  by (induction ds) (simp_all add: line_events_def strip_event_text reads_event_text)

text \<open>Replay of a complete file to which text is appended.\<close>

lemma replay_more:
  assumes "replay loads f = Inr events" "content f = [] \<or> last (content f) = newline"
  shows "replay loads (Some (content f @ utf8_encode s)) = Inr (events @ line_events loads (splitlines s))"
proof -
  obtain t where t: "utf8_decode (content f) = Some t" "events = line_events loads (splitlines t)"
    using assms(1) by (cases f) (auto simp: replay_def content_def splitlines_def line_events_def split: option.splits)
  have "splitlines (t @ s) = splitlines t @ splitlines s"
  proof (cases "content f = []")
    case True
    then show ?thesis using t(1) by (simp add: splitlines_def)
  next
    case False
    then obtain u where "t = u @ [newline]" using utf8_decode_newline_last [OF t(1)] assms(2) by auto
    then show ?thesis using splitlines_append [of "[]" u s] by (simp add: splitlines_def)
  qed
  then show ?thesis using utf8_decode_append [OF t(1), of s] t(2) by (simp add: replay_def)
qed

lemma append_complete:
  "payloads \<noteq> [] \<Longrightarrow> content f = [] \<or> last (content f) = newline \<Longrightarrow>
     append_unlocked now payloads f = Some (content f @ concat (map event_line payloads))"
  by (auto simp: append_unlocked_def Let_def)

lemma fresh_events_spec:
  "\<exists>es. fresh_events rv redact now ks seen evs = map (\<lambda>e. with_at now (redact e)) es \<and> set es \<subseteq> set evs \<and>
     distinct (map (event_signature rv ks) es) \<and> set (map (event_signature rv ks) es) \<inter> set seen = {} \<and>
     (\<forall>e \<in> set evs. event_signature rv ks e \<in> set seen \<union> set (map (event_signature rv ks) es))"
proof (induction evs arbitrary: seen)
  case (Cons e evs)
  let ?s = "event_signature rv ks e"
  show ?case
  proof (cases "?s \<in> set seen")
    case True
    then show ?thesis using Cons [of seen] by (fastforce simp: Let_def)
  next
    case False
    obtain es where es: "fresh_events rv redact now ks (?s # seen) evs = map (\<lambda>e. with_at now (redact e)) es"
      "set es \<subseteq> set evs" "distinct (map (event_signature rv ks) es)"
      "set (map (event_signature rv ks) es) \<inter> set (?s # seen) = {}"
      "\<forall>e \<in> set evs. event_signature rv ks e \<in> set (?s # seen) \<union> set (map (event_signature rv ks) es)"
      using Cons [of "?s # seen"] by blast
    show ?thesis
      by (rule exI [of _ "e # es"]) (use False es in \<open>auto simp: Let_def\<close>)
  qed
qed simp

section \<open>Properties\<close>



text \<open>
  Appending and replaying. On a log whose last line is complete, a replay after an append gives the
  events of before followed by the appended ones, provided no printed event contains a character that \<open>splitlines\<close>
  takes for a line end.
\<close>

theorem replay_after_append:
  assumes "replay loads f = Inr events" "content f = [] \<or> last (content f) = newline"
    and "\<forall>d \<in> set payloads. reads loads d \<and> whole (event_text d)" "payloads \<noteq> []"
  shows "replay loads (append_unlocked now payloads f) = Inr (events @ payloads)"
proof -
  have "replay loads (append_unlocked now payloads f) =
      replay loads (Some (content f @ utf8_encode (concat (map (\<lambda>d. event_text d @ [newline]) payloads))))"
    by (simp only: append_complete [OF assms(4,2)] events_text')
  also have "\<dots> = Inr (events @ line_events loads (map event_text payloads))"
    using replay_more [OF assms(1,2)] assms(3) by (simp add: splitlines_def splitlines_events)
  finally show ?thesis using assms(3) by (simp add: line_events_events)
qed

text \<open>
  An event is lost on replay when its JSON text contains U+0085, which \<open>json.dumps\<close> leaves as it is
  without \<open>ensure_ascii\<close> and \<open>splitlines\<close> takes for a line end: replay returns the events of before only, while the
  audit of the very same file counts the event.
\<close>

theorem replay_loses_nel_event:
  assumes "replay loads f = Inr events" "content f = [] \<or> last (content f) = newline" "reads loads d"
    and "event_text d = a @ char_of (133 :: nat) # b" "whole a" "whole b" "loads a = None" "loads b = None"
  shows "replay loads (append_unlocked now [d] f) = Inr events \<and>
    er_post (reconcile_at loads (committed_offset f) (append_unlocked now [d] f)) = [d]"
proof
  let ?c = "char_of (133 :: nat) :: char"
  have c: "line_break ?c" "codept ?c \<noteq> 13" by (simp_all add: line_break_def codept_char_of)
  have "replay loads (append_unlocked now [d] f) = replay loads (Some (content f @ utf8_encode (event_text d @ [newline])))"
    using append_complete [OF _ assms(2), of "[d]" now] events_text' [of "[d]"] by simp
  also have "\<dots> = Inr (events @ line_events loads (splitlines (event_text d @ [newline])))"
    by (rule replay_more [OF assms(1,2)])
  also have "splitlines (event_text d @ [newline]) = [a, b]"
    using splitlines_break [OF assms(5) c, of "[]" "b @ [newline]"] splitlines_whole [OF assms(6), of "[]" "[]"]
    by (simp add: assms(4) splitlines_def)
  finally show "replay loads (append_unlocked now [d] f) = Inr events"
    using assms(7,8) by (simp add: line_events_def)
  have "\<exists>xs. er_post (reconcile_at loads (committed_offset f) (append_unlocked now [d] f)) = xs @ [d] \<and>
      (content f = [] \<or> last (content f) = newline \<longrightarrow> xs = [])"
    using reconcile_appended [of "[d]" loads f now] assms(3) by (simp add: Let_def)
  with assms(2) show "er_post (reconcile_at loads (committed_offset f) (append_unlocked now [d] f)) = [d]" by auto
qed

text \<open>
  A tail torn inside a multi-byte character is never recovered from. The next append closes it with a
  newline and a quarantine marker, but replay decodes the whole file at once: it raises UnicodeDecodeError
  from then on, and so do \<open>append_once\<close> and \<open>append_many_once\<close>, which replay first.
\<close>

theorem torn_character_blocks_replay:
  assumes "utf8_decode bs = None" "last bs \<noteq> newline" "payloads \<noteq> []"
  shows "let f = append_unlocked now payloads (Some bs) in
    replay loads f = Inl (PyOtherError ''UnicodeDecodeError'') \<and>
    append_once loads rv redact now' keys e f = Inl (PyOtherError ''UnicodeDecodeError'') \<and>
    append_many_once loads rv redact now' keys es f = Inl (PyOtherError ''UnicodeDecodeError'')"
  using replay_torn [OF assms] by (simp add: Let_def append_once_def append_many_once_def)

text \<open>
  \<open>append_many_once\<close> appends, in order and redacted, one event for each identity signature that is new:
  no two of them share a signature, none has the signature of a replayed event, and no new signature is left out.
\<close>

theorem append_many_once_fresh:
  assumes "append_many_once loads rv redact now keys events f = Inr (appended, f')" "replay loads f = Inr old"
  shows "f' = append_unlocked now appended f \<and>
    (\<exists>es. appended = map (\<lambda>e. with_at now (redact e)) es \<and> set es \<subseteq> set events \<and>
       distinct (map (event_signature rv (identity_or keys)) es) \<and>
       (\<forall>e \<in> set es. \<forall>o' \<in> set old. event_signature rv (identity_or keys) e \<noteq> event_signature rv (identity_or keys) o') \<and>
       (\<forall>e \<in> set events. event_signature rv (identity_or keys) e \<in>
          event_signature rv (identity_or keys) ` (set old \<union> set es)))"
proof -
  let ?sig = "event_signature rv (identity_or keys)"
  obtain es where es: "appended = map (\<lambda>e. with_at now (redact e)) es" "set es \<subseteq> set events" "distinct (map ?sig es)"
    "set (map ?sig es) \<inter> set (map ?sig old) = {}"
    "\<forall>e \<in> set events. ?sig e \<in> set (map ?sig old) \<union> set (map ?sig es)"
    using fresh_events_spec [of rv redact now "identity_or keys" "map ?sig old" events] assms
    by (auto simp: append_many_once_def Let_def)
  have 1: "\<forall>e \<in> set es. \<forall>o' \<in> set old. ?sig e \<noteq> ?sig o'" using es(4) by auto
  have 2: "\<forall>e \<in> set events. ?sig e \<in> ?sig ` (set old \<union> set es)" using es(5) by auto
  have "f' = append_unlocked now appended f" using assms by (auto simp: append_many_once_def Let_def)
  with es(1-3) 1 2 show ?thesis by blast
qed

section \<open>Witnesses\<close>

text \<open>A parser that reads back one event and nothing else.\<close>

definition demo_loads :: "pydict \<Rightarrow> string \<Rightarrow> pyval option" where
  "demo_loads d s = (if s = event_text d \<or> s = event_text d @ [newline] then Some (PDict d) else None)"

definition demo_event :: pydict where "demo_event = [(''a'', PStr ''b'')]"

definition nel_event :: pydict where "nel_event = [(''k'', PStr [char_of (133 :: nat)])]"

lemma demo_reads: "reads (demo_loads d) d"
  by (simp add: reads_def demo_loads_def event_text_def del: json_dumps.simps)

lemma demo_text: "event_text demo_event = [CHR ''{'', CHR 0x22, CHR ''a'', CHR 0x22, CHR '':'', CHR '' '', CHR 0x22, CHR ''b'', CHR 0x22, CHR ''}'']"
  by code_simp

lemma demo_whole: "whole (event_text demo_event)"
  unfolding demo_text by (simp add: whole_def line_break_def codept_def)

lemma nel_text:
  "event_text nel_event = [CHR ''{'', CHR 0x22, CHR ''k'', CHR 0x22, CHR '':'', CHR '' '', CHR 0x22] @ char_of (133 :: nat) # [CHR 0x22, CHR ''}'']"
  by code_simp



theorem replay_after_append_witness:
  "replay (demo_loads demo_event) (append_unlocked ''t'' [demo_event] None) = Inr [demo_event]"
  using replay_after_append [of "demo_loads demo_event" None "[]" "[demo_event]" "''t''"] demo_reads [of demo_event] demo_whole
  by (simp add: replay_def content_def)

theorem replay_loses_nel_event_witness:
  "replay (demo_loads nel_event) (append_unlocked ''t'' [nel_event] None) = Inr [] \<and>
   er_post (reconcile_at (demo_loads nel_event) (committed_offset None) (append_unlocked ''t'' [nel_event] None)) = [nel_event]"
proof (rule replay_loses_nel_event [OF _ _ demo_reads nel_text])
  show "replay (demo_loads nel_event) None = Inr []" by (simp add: replay_def)
  show "content None = [] \<or> last (content None) = newline" by (simp add: content_def)
qed (simp_all add: whole_def line_break_def codept_def demo_loads_def nel_text)

theorem torn_character_blocks_replay_witness:
  "replay (demo_loads demo_event) (append_unlocked ''t'' [demo_event] (Some [char_of (195 :: nat)])) =
     Inl (PyOtherError ''UnicodeDecodeError'')"
  using torn_character_blocks_replay
    [where bs = "[char_of (195 :: nat)]" and payloads = "[demo_event]" and loads = "demo_loads demo_event" and now = "''t''"]
  unfolding Let_def by (simp add: codept_def newline_def)

theorem append_many_once_fresh_witness:
  "let ev = [(''a'', PStr ''b''), (''at'', PStr ''t'')] in
     append_many_once (demo_loads demo_event) (\<lambda>v. v) (\<lambda>d. d) ''t'' [''a''] [demo_event, demo_event] None =
       Inr ([ev], append_unlocked ''t'' [ev] None) \<and>
     (\<exists>es. [ev] = map (with_at ''t'') es \<and> distinct (map (event_signature (\<lambda>v. v) [''a'']) es))"
proof -
  let ?ev = "[(''a'', PStr ''b''), (''at'', PStr ''t'')]"
  have r: "append_many_once (demo_loads demo_event) (\<lambda>v. v) (\<lambda>d. d) ''t'' [''a''] [demo_event, demo_event] None =
       Inr ([?ev], append_unlocked ''t'' [?ev] None)"
    by (simp add: append_many_once_def replay_def identity_or_def event_signature_def demo_event_def with_at_def dkeys_def)
  have "replay (demo_loads demo_event) None = Inr []" by (simp add: replay_def)
  note fresh = append_many_once_fresh [OF r this, THEN conjunct2]
  have "identity_or [''a''] = [''a'']" by (simp add: identity_or_def)
  with fresh have "\<exists>es. [?ev] = map (with_at ''t'') es \<and> distinct (map (event_signature (\<lambda>v. v) [''a'']) es)"
    by - (elim exE conjE, intro exI conjI, assumption, simp only:)
  with r show ?thesis unfolding Let_def by blast
qed

end
