(* ===== verification/Z3Dsl.thy ===== *)
theory Z3Dsl
  imports Prelude
begin

text \<open>
  verification/z3_dsl.py: the bounded typed JSON language for Z3 checks. The validator
  (\<open>validate_dsl\<close>, \<open>validate_expr\<close>, \<open>validate_operator\<close>) walks an untrusted JSON
  value under depth, node, arity and width limits and computes sorts; the compiler
  (\<open>compile_expr\<close>) turns an accepted node into a term of the Z3 binding; the receipt
  (\<open>receipt\<close>) reports a solver status. The Z3 binding is third-party code: its term
  constructors are the record \<open>z3_ops\<close>, its sort discipline is the locale
  \<open>z3_backend\<close>, and its solver is an argument.

  A \<open>_RejectedDsl\<close> is \<open>Rejected\<close> with its message; \<open>Crash\<close> is any other Python
  exception that leaves the function.
\<close>

section \<open>Limits and data\<close>

definition MAX_SYMBOLS :: nat where "MAX_SYMBOLS = 32"
definition MAX_CONSTRAINTS :: nat where "MAX_CONSTRAINTS = 64"
definition MAX_AST_DEPTH :: nat where "MAX_AST_DEPTH = 16"
definition MAX_AST_NODES :: nat where "MAX_AST_NODES = 1024"
definition MAX_OPERATOR_ARGS :: nat where "MAX_OPERATOR_ARGS = 32"
definition MAX_BITVEC_WIDTH :: int where "MAX_BITVEC_WIDTH = 64"
definition MAX_INTEGER_BITS :: nat where "MAX_INTEGER_BITS = 256"
definition Z3_TIMEOUT_MS :: int where "Z3_TIMEOUT_MS = 1000"

datatype z3sort = SBool | SInt | SBitVec int

datatype dsl_exn = Rejected string | Crash pyexn

definition BOOL_OPERATORS :: "string list" where
  "BOOL_OPERATORS = [''and'', ''or'', ''not'', ''implies'', ''xor'']"
definition RELATION_OPERATORS :: "string list" where
  "RELATION_OPERATORS = [''eq'', ''ne'', ''distinct'', ''lt'', ''lte'', ''gt'', ''gte'']"
definition ARITHMETIC_OPERATORS :: "string list" where
  "ARITHMETIC_OPERATORS = [''add'', ''sub'', ''mul'', ''neg'']"
definition BITVEC_OPERATORS :: "string list" where
  "BITVEC_OPERATORS = [''bvand'', ''bvor'', ''bvxor'', ''bvnot'', ''bvshl'', ''bvlshr'']"
definition OPERATORS :: "string list" where
  "OPERATORS = BOOL_OPERATORS @ RELATION_OPERATORS @ ARITHMETIC_OPERATORS @ BITVEC_OPERATORS @ [''ite'']"

definition symbol_name_ok :: "string \<Rightarrow> bool" where
  "symbol_name_ok s =
     (case s of
        [] \<Rightarrow> False
      | c # r \<Rightarrow> (is_alpha c \<or> c = CHR ''_'')
          \<and> list_all (\<lambda>d. is_alnum d \<or> d = CHR ''_'') r \<and> length r \<le> 63)"

section \<open>Validation\<close>

definition validate_width :: "pyval \<Rightarrow> dsl_exn + int" where
  "validate_width v =
     (case v of
        PInt w \<Rightarrow>
          (if w < 1 then Inl (Rejected ''invalid_bitvec_width'')
           else if w > MAX_BITVEC_WIDTH then Inl (Rejected ''bitvec_width_exceeds_limit'')
           else Inr w)
      | _ \<Rightarrow> Inl (Rejected ''invalid_bitvec_width''))"

definition require_arity :: "string \<Rightarrow> z3sort list \<Rightarrow> nat \<Rightarrow> dsl_exn + unit" where
  "require_arity op sorts n =
     guard (length sorts = n) (Rejected (''invalid_arity:'' @ op @ '':expected_'' @ nat_digits n))"

definition require_range :: "string \<Rightarrow> z3sort list \<Rightarrow> nat \<Rightarrow> nat \<Rightarrow> dsl_exn + unit" where
  "require_range op sorts lo hi =
     guard (lo \<le> length sorts \<and> length sorts \<le> hi)
       (Rejected (''invalid_arity:'' @ op @ '':expected_'' @ nat_digits lo @ ''_to_'' @ nat_digits hi))"

definition require_all :: "string \<Rightarrow> z3sort list \<Rightarrow> z3sort \<Rightarrow> dsl_exn + unit" where
  "require_all op sorts s = guard (list_all (\<lambda>t. t = s) sorts) (Rejected (''sort_mismatch:'' @ op))"

definition require_same :: "string \<Rightarrow> z3sort list \<Rightarrow> dsl_exn + unit" where
  "require_same op sorts =
     guard (case sorts of [] \<Rightarrow> False | s # ss \<Rightarrow> list_all (\<lambda>t. t = s) ss) (Rejected (''sort_mismatch:'' @ op))"

definition require_numeric :: "string \<Rightarrow> z3sort \<Rightarrow> dsl_exn + unit" where
  "require_numeric op s =
     guard (case s of SBool \<Rightarrow> False | _ \<Rightarrow> True) (Rejected (''numeric_sort_required:'' @ op))"

definition require_bitvec :: "string \<Rightarrow> z3sort \<Rightarrow> dsl_exn + unit" where
  "require_bitvec op s =
     guard (case s of SBitVec _ \<Rightarrow> True | _ \<Rightarrow> False) (Rejected (''bitvec_sort_required:'' @ op))"

text \<open>\<open>sorts[0]\<close> of a list the arity check has shown to be non-empty.\<close>

definition first_sort :: "z3sort list \<Rightarrow> dsl_exn + z3sort" where
  "first_sort sorts = (case sorts of [] \<Rightarrow> Inl (Crash PyIndexError) | s # _ \<Rightarrow> Inr s)"

definition validate_operator :: "string \<Rightarrow> z3sort list \<Rightarrow> dsl_exn + z3sort" where
  "validate_operator op sorts =
     (if op = ''not'' then
        sbind (require_arity op sorts 1) (\<lambda>_. sbind (require_all op sorts SBool) (\<lambda>_. Inr SBool))
      else if op \<in> set [''and'', ''or'', ''xor''] then
        sbind (require_range op sorts 2 MAX_OPERATOR_ARGS) (\<lambda>_.
        sbind (require_all op sorts SBool) (\<lambda>_. Inr SBool))
      else if op = ''implies'' then
        sbind (require_arity op sorts 2) (\<lambda>_. sbind (require_all op sorts SBool) (\<lambda>_. Inr SBool))
      else if op \<in> set [''eq'', ''ne''] then
        sbind (require_arity op sorts 2) (\<lambda>_. sbind (require_same op sorts) (\<lambda>_. Inr SBool))
      else if op = ''distinct'' then
        sbind (require_range op sorts 2 MAX_OPERATOR_ARGS) (\<lambda>_.
        sbind (require_same op sorts) (\<lambda>_. Inr SBool))
      else if op \<in> set [''lt'', ''lte'', ''gt'', ''gte''] then
        sbind (require_arity op sorts 2) (\<lambda>_. sbind (require_same op sorts) (\<lambda>_.
        sbind (first_sort sorts) (\<lambda>s. sbind (require_numeric op s) (\<lambda>_. Inr SBool))))
      else if op \<in> set [''add'', ''mul''] then
        sbind (require_range op sorts 2 MAX_OPERATOR_ARGS) (\<lambda>_. sbind (require_same op sorts) (\<lambda>_.
        sbind (first_sort sorts) (\<lambda>s. sbind (require_numeric op s) (\<lambda>_. Inr s))))
      else if op = ''sub'' then
        sbind (require_arity op sorts 2) (\<lambda>_. sbind (require_same op sorts) (\<lambda>_.
        sbind (first_sort sorts) (\<lambda>s. sbind (require_numeric op s) (\<lambda>_. Inr s))))
      else if op = ''neg'' then
        sbind (require_arity op sorts 1) (\<lambda>_.
        sbind (first_sort sorts) (\<lambda>s. sbind (require_numeric op s) (\<lambda>_. Inr s)))
      else if op \<in> set [''bvand'', ''bvor'', ''bvxor'', ''bvshl'', ''bvlshr''] then
        sbind (require_arity op sorts 2) (\<lambda>_. sbind (require_same op sorts) (\<lambda>_.
        sbind (first_sort sorts) (\<lambda>s. sbind (require_bitvec op s) (\<lambda>_. Inr s))))
      else if op = ''bvnot'' then
        sbind (require_arity op sorts 1) (\<lambda>_.
        sbind (first_sort sorts) (\<lambda>s. sbind (require_bitvec op s) (\<lambda>_. Inr s)))
      else
        sbind (require_arity ''ite'' sorts 3) (\<lambda>_.
          (case sorts of
             s0 # s1 # s2 # _ \<Rightarrow>
               (if s0 \<noteq> SBool \<or> s1 \<noteq> s2 then Inl (Rejected ''sort_mismatch:ite'') else Inr s1)
           | _ \<Rightarrow> Inl (Crash PyIndexError))))"

type_synonym symtab = "(string \<times> z3sort) list"

text \<open>The literal nodes: \<open>symbol\<close>, \<open>bool\<close>, \<open>int\<close> and \<open>bitvec\<close>.\<close>

definition validate_leaf :: "string \<Rightarrow> pydict \<Rightarrow> symtab \<Rightarrow> dsl_exn + z3sort" where
  "validate_leaf op d syms =
     (if op = ''symbol'' then
        (if dkeys d \<noteq> set [''op'', ''name''] then Inl (Rejected ''invalid_symbol_node'')
         else case dget d ''name'' of
                PStr name \<Rightarrow>
                  (case map_of syms name of
                     None \<Rightarrow> Inl (Rejected (''unknown_symbol:'' @ name))
                   | Some s \<Rightarrow> Inr s)
              | v \<Rightarrow> Inl (Rejected (''unknown_symbol:'' @ py_str v)))
      else if op = ''bool'' then
        (if dkeys d \<noteq> set [''op'', ''value''] \<or> \<not> is_PBool (dget d ''value'')
         then Inl (Rejected ''invalid_bool_literal'') else Inr SBool)
      else if op = ''int'' then
        (if dkeys d \<noteq> set [''op'', ''value''] \<or> \<not> is_PInt (dget d ''value'')
         then Inl (Rejected ''invalid_int_literal'')
         else if \<bar>int_of (dget d ''value'')\<bar> \<ge> 2 ^ MAX_INTEGER_BITS
         then Inl (Rejected ''integer_literal_exceeds_limit'') else Inr SInt)
      else
        (if dkeys d \<noteq> set [''op'', ''value'', ''width''] \<or> \<not> is_PInt (dget d ''value'')
         then Inl (Rejected ''invalid_bitvec_literal'')
         else sbind (validate_width (dget d ''width'')) (\<lambda>w.
           if int_of (dget d ''value'') < 0 \<or> int_of (dget d ''value'') \<ge> 2 ^ nat w
           then Inl (Rejected ''bitvec_literal_out_of_range'') else Inr (SBitVec w))))"

definition LEAF_OPS :: "string list" where
  "LEAF_OPS = [''symbol'', ''bool'', ''int'', ''bitvec'']"

text \<open>
  \<open>_validate_expr\<close>: the shared one-element list \<open>node_count\<close> is the state passed through;
  \<open>validate_exprs\<close> is the list comprehension over \<open>args\<close>. The recursion ends because the
  depth check rejects below \<open>MAX_AST_DEPTH\<close>.
\<close>

function (sequential) validate_expr :: "pyval \<Rightarrow> symtab \<Rightarrow> nat \<Rightarrow> nat \<Rightarrow> dsl_exn + z3sort \<times> nat"
  and validate_exprs :: "pyval list \<Rightarrow> symtab \<Rightarrow> nat \<Rightarrow> nat \<Rightarrow> dsl_exn + z3sort list \<times> nat" where
  "validate_expr node syms depth cnt =
     (if depth > MAX_AST_DEPTH then Inl (Rejected ''ast_depth_exceeds_limit'')
      else if cnt + 1 > MAX_AST_NODES then Inl (Rejected ''ast_node_count_exceeds_limit'')
      else case node of
        PDict d \<Rightarrow>
          (case dget d ''op'' of
             PStr op \<Rightarrow>
               (if op \<in> set LEAF_OPS then sbind (validate_leaf op d syms) (\<lambda>s. Inr (s, cnt + 1))
                else if op \<notin> set OPERATORS then Inl (Rejected (''unsupported_operator:'' @ op))
                else if dkeys d \<noteq> set [''op'', ''args''] \<or> \<not> is_PList (dget d ''args'') then
                  Inl (Rejected (''operator_args_must_be_array:'' @ op))
                else if length (list_of (dget d ''args'')) > MAX_OPERATOR_ARGS then
                  Inl (Rejected (''operator_arg_count_exceeds_limit:'' @ op))
                else
                  sbind (validate_exprs (list_of (dget d ''args'')) syms (depth + 1) (cnt + 1)) (\<lambda>(sorts, cnt').
                  sbind (validate_operator op sorts) (\<lambda>s. Inr (s, cnt'))))
           | _ \<Rightarrow> Inl (Rejected ''operator_required''))
      | _ \<Rightarrow> Inl (Rejected ''expression_node_must_be_object''))"
| "validate_exprs [] syms depth cnt = Inr ([], cnt)"
| "validate_exprs (a # as) syms depth cnt =
     sbind (validate_expr a syms depth cnt) (\<lambda>(s, cnt').
     sbind (validate_exprs as syms depth cnt') (\<lambda>(ss, cnt''). Inr (s # ss, cnt'')))"
  by pat_completeness auto
termination
  by (relation "measures [\<lambda>x. case x of Inl (_, _, d, _) \<Rightarrow> 2 * (Suc MAX_AST_DEPTH - d)
                                     | Inr (_, _, d, _) \<Rightarrow> 2 * (Suc MAX_AST_DEPTH - d) + 1,
                          \<lambda>x. case x of Inl _ \<Rightarrow> 0 | Inr (as, _, _, _) \<Rightarrow> length as]")
     auto

declare validate_expr.simps [simp del]

definition validate_symbol_declaration :: "pyval \<Rightarrow> dsl_exn + string \<times> z3sort" where
  "validate_symbol_declaration decl =
     (case decl of
        PDict d \<Rightarrow>
          (case dget d ''name'' of
             PStr name \<Rightarrow>
               (if \<not> symbol_name_ok name then Inl (Rejected ''invalid_symbol_name'')
                else case dget d ''sort'' of
                  PList _ \<Rightarrow> Inl (Crash PyTypeError)
                | PDict _ \<Rightarrow> Inl (Crash PyTypeError)
                | kind \<Rightarrow>
                    (if kind = PStr ''Bool'' \<or> kind = PStr ''Int'' then
                       (if dkeys d \<noteq> set [''name'', ''sort'']
                        then Inl (Rejected (''unsupported_symbol_fields:'' @ name))
                        else Inr (name, if kind = PStr ''Bool'' then SBool else SInt))
                     else if kind = PStr ''BitVec'' then
                       (if dkeys d \<noteq> set [''name'', ''sort'', ''width'']
                        then Inl (Rejected (''bitvec_symbol_width_required:'' @ name))
                        else sbind (validate_width (dget d ''width'')) (\<lambda>w. Inr (name, SBitVec w)))
                     else Inl (Rejected (''unsupported_sort:'' @ py_str kind))))
           | _ \<Rightarrow> Inl (Rejected ''invalid_symbol_name''))
      | _ \<Rightarrow> Inl (Rejected ''symbol_declaration_must_be_object''))"

text \<open>The two loops of \<open>_validate_dsl\<close>: over the declarations and over the constraints.\<close>

fun validate_symbols :: "pyval list \<Rightarrow> symtab \<Rightarrow> dsl_exn + symtab" where
  "validate_symbols [] syms = Inr syms"
| "validate_symbols (dcl # ds) syms =
     sbind (validate_symbol_declaration dcl) (\<lambda>(name, s).
       if name \<in> dkeys syms then Inl (Rejected (''duplicate_symbol:'' @ name))
       else validate_symbols ds (dset name s syms))"

fun validate_constraints :: "pyval list \<Rightarrow> symtab \<Rightarrow> nat \<Rightarrow> dsl_exn + nat" where
  "validate_constraints [] syms cnt = Inr cnt"
| "validate_constraints (c # cs) syms cnt =
     sbind (validate_expr c syms 1 cnt) (\<lambda>(s, cnt').
       if s \<noteq> SBool then Inl (Rejected ''constraint_must_have_bool_sort'')
       else validate_constraints cs syms cnt')"

definition validate_dsl :: "pyval \<Rightarrow> dsl_exn + symtab" where
  "validate_dsl dsl =
     (case dsl of
        PDict d \<Rightarrow>
          (let extra = sort (filter (\<lambda>k. k \<notin> set [''version'', ''symbols'', ''constraints'']) (map fst d)) in
           if extra \<noteq> [] then Inl (Rejected (''unsupported_top_level_fields:'' @ join_with '','' extra))
           else if dget_or d ''version'' (PStr ''z3_dsl/v1'') \<noteq> PStr ''z3_dsl/v1'' then
             Inl (Rejected ''unsupported_dsl_version'')
           else case dget d ''symbols'' of
             PList decls \<Rightarrow>
               (if length decls > MAX_SYMBOLS then Inl (Rejected ''symbol_count_exceeds_limit'')
                else case dget d ''constraints'' of
                  PList cs \<Rightarrow>
                    (if cs = [] then Inl (Rejected ''constraints_required'')
                     else if length cs > MAX_CONSTRAINTS then Inl (Rejected ''constraint_count_exceeds_limit'')
                     else sbind (validate_symbols decls []) (\<lambda>syms.
                          sbind (validate_constraints cs syms 0) (\<lambda>_. Inr syms)))
                | _ \<Rightarrow> Inl (Rejected ''constraints_must_be_array''))
           | _ \<Rightarrow> Inl (Rejected ''symbols_must_be_array''))
      | _ \<Rightarrow> Inl (Rejected ''dsl_must_be_object''))"


section \<open>The Z3 binding and compilation\<close>

datatype z3_binop =
    ZImplies | ZXor | ZEq | ZLt | ZLe | ZGt | ZGe | ZAdd | ZMul | ZSub
  | ZBvAnd | ZBvOr | ZBvXor | ZShl | ZLShr

text \<open>The term constructors of the binding that the compiler calls; any of them may raise.\<close>

record 'e z3_ops =
  z_const :: "string \<Rightarrow> z3sort \<Rightarrow> 'e"
  z_bool_val :: "pyval \<Rightarrow> pyexn + 'e"
  z_int_val :: "pyval \<Rightarrow> pyexn + 'e"
  z_bv_val :: "pyval \<Rightarrow> pyval \<Rightarrow> pyexn + 'e"
  z_and :: "'e list \<Rightarrow> pyexn + 'e"
  z_or :: "'e list \<Rightarrow> pyexn + 'e"
  z_distinct :: "'e list \<Rightarrow> pyexn + 'e"
  z_not :: "'e \<Rightarrow> pyexn + 'e"
  z_neg :: "'e \<Rightarrow> pyexn + 'e"
  z_bvnot :: "'e \<Rightarrow> pyexn + 'e"
  z_bin :: "z3_binop \<Rightarrow> 'e \<Rightarrow> 'e \<Rightarrow> pyexn + 'e"
  z_ite :: "'e \<Rightarrow> 'e \<Rightarrow> 'e \<Rightarrow> pyexn + 'e"

definition dindex :: "pydict \<Rightarrow> string \<Rightarrow> pyexn + pyval" where
  "dindex d k = (case map_of d k of None \<Rightarrow> Inl PyKeyError | Some v \<Rightarrow> Inr v)"

definition arg_at :: "'e list \<Rightarrow> nat \<Rightarrow> pyexn + 'e" where
  "arg_at es i = (if i < length es then Inr (es ! i) else Inl PyIndexError)"

fun fold_bin :: "('e \<Rightarrow> 'e \<Rightarrow> pyexn + 'e) \<Rightarrow> 'e \<Rightarrow> 'e list \<Rightarrow> pyexn + 'e" where
  "fold_bin f r [] = Inr r"
| "fold_bin f r (e # es) = sbind (f r e) (\<lambda>r'. fold_bin f r' es)"

definition bin_args :: "('e \<Rightarrow> 'e \<Rightarrow> pyexn + 'e) \<Rightarrow> 'e list \<Rightarrow> pyexn + 'e" where
  "bin_args f es = sbind (arg_at es 0) (\<lambda>a. sbind (arg_at es 1) (\<lambda>b. f a b))"

text \<open>The operator dispatch of \<open>_compile_expr\<close> once the arguments are compiled.\<close>

definition compile_op :: "'e z3_ops \<Rightarrow> string \<Rightarrow> 'e list \<Rightarrow> pyexn + 'e" where
  "compile_op z op es =
     (if op = ''and'' then z_and z es
      else if op = ''or'' then z_or z es
      else if op = ''not'' then sbind (arg_at es 0) (z_not z)
      else if op = ''implies'' then bin_args (z_bin z ZImplies) es
      else if op = ''xor'' then sbind (arg_at es 0) (\<lambda>r. fold_bin (z_bin z ZXor) r (drop 1 es))
      else if op = ''eq'' then bin_args (z_bin z ZEq) es
      else if op = ''ne'' then sbind (bin_args (z_bin z ZEq) es) (z_not z)
      else if op = ''distinct'' then z_distinct z es
      else if op = ''lt'' then bin_args (z_bin z ZLt) es
      else if op = ''lte'' then bin_args (z_bin z ZLe) es
      else if op = ''gt'' then bin_args (z_bin z ZGt) es
      else if op = ''gte'' then bin_args (z_bin z ZGe) es
      else if op = ''add'' then sbind (arg_at es 0) (\<lambda>r. fold_bin (z_bin z ZAdd) r (drop 1 es))
      else if op = ''mul'' then sbind (arg_at es 0) (\<lambda>r. fold_bin (z_bin z ZMul) r (drop 1 es))
      else if op = ''sub'' then bin_args (z_bin z ZSub) es
      else if op = ''neg'' then sbind (arg_at es 0) (z_neg z)
      else if op = ''bvand'' then bin_args (z_bin z ZBvAnd) es
      else if op = ''bvor'' then bin_args (z_bin z ZBvOr) es
      else if op = ''bvxor'' then bin_args (z_bin z ZBvXor) es
      else if op = ''bvnot'' then sbind (arg_at es 0) (z_bvnot z)
      else if op = ''bvshl'' then bin_args (z_bin z ZShl) es
      else if op = ''bvlshr'' then bin_args (z_bin z ZLShr) es
      else sbind (arg_at es 0) (\<lambda>a. sbind (arg_at es 1) (\<lambda>b. sbind (arg_at es 2) (z_ite z a b))))"

definition compile_leaf :: "'e z3_ops \<Rightarrow> (string \<times> 'e) list \<Rightarrow> string \<Rightarrow> pydict \<Rightarrow> pyexn + 'e" where
  "compile_leaf z env op d =
     (if op = ''symbol'' then
        sbind (dindex d ''name'') (\<lambda>v. case v of
            PStr name \<Rightarrow> (case map_of env name of None \<Rightarrow> Inl PyKeyError | Some e \<Rightarrow> Inr e)
          | PList _ \<Rightarrow> Inl PyTypeError
          | PDict _ \<Rightarrow> Inl PyTypeError
          | _ \<Rightarrow> Inl PyKeyError)
      else if op = ''bool'' then sbind (dindex d ''value'') (z_bool_val z)
      else if op = ''int'' then sbind (dindex d ''value'') (z_int_val z)
      else sbind (dindex d ''value'') (\<lambda>v. sbind (dindex d ''width'') (z_bv_val z v)))"

text \<open>
  The items of \<open>for arg in node["args"]\<close>. A non-empty string or object yields strings, on which
  \<open>node["op"]\<close> raises the TypeError that a value that is not iterable raises at once.
\<close>

definition args_items :: "pyval \<Rightarrow> pyval list option" where
  "args_items v =
     (case v of PList as \<Rightarrow> Some as | PStr [] \<Rightarrow> Some [] | PDict [] \<Rightarrow> Some [] | _ \<Rightarrow> None)"

lemma args_items_PList [simp]: "args_items (PList as) = Some as"
  by (simp add: args_items_def)

lemma size_args_items: "args_items v = Some as \<Longrightarrow> size_list size as \<le> size v"
  by (auto simp: args_items_def split: pyval.splits list.splits)

function (sequential) compile_expr :: "'e z3_ops \<Rightarrow> (string \<times> 'e) list \<Rightarrow> pyval \<Rightarrow> pyexn + 'e"
  and compile_exprs :: "'e z3_ops \<Rightarrow> (string \<times> 'e) list \<Rightarrow> pyval list \<Rightarrow> pyexn + 'e list" where
  "compile_expr z env (PDict d) =
     (case map_of d ''op'' of
        None \<Rightarrow> Inl PyKeyError
      | Some opv \<Rightarrow>
          (if is_PStr opv \<and> str_of opv \<in> set LEAF_OPS then compile_leaf z env (str_of opv) d
           else case map_of d ''args'' of
             None \<Rightarrow> Inl PyKeyError
           | Some v \<Rightarrow>
               (case args_items v of
                  None \<Rightarrow> Inl PyTypeError
                | Some as \<Rightarrow>
                    sbind (compile_exprs z env as) (\<lambda>es.
                      case opv of
                        PStr op \<Rightarrow> compile_op z op es
                      | PList _ \<Rightarrow> Inl PyTypeError
                      | PDict _ \<Rightarrow> Inl PyTypeError
                      | _ \<Rightarrow> compile_op z ''ite'' es))))"
| "compile_expr z env v = Inl PyTypeError"
| "compile_exprs z env [] = Inr []"
| "compile_exprs z env (a # as) =
     sbind (compile_expr z env a) (\<lambda>e. sbind (compile_exprs z env as) (\<lambda>es. Inr (e # es)))"
  by pat_completeness auto
termination
  by (relation "measure (\<lambda>x. case x of Inl (_, _, v) \<Rightarrow> size v | Inr (_, _, vs) \<Rightarrow> size_list size vs)")
     (auto dest!: size_map_of size_args_items)

definition compile_symbols :: "'e z3_ops \<Rightarrow> symtab \<Rightarrow> (string \<times> 'e) list" where
  "compile_symbols z syms = map (\<lambda>(n, s). (n, z_const z n s)) syms"


section \<open>What the validator decides\<close>

text \<open>
  The specification of an accepted node: its sort, given by rules, the depth of its tree and the
  number of its nodes.
\<close>

inductive has_sort :: "symtab \<Rightarrow> pyval \<Rightarrow> z3sort \<Rightarrow> bool" for syms where
  leaf: "\<lbrakk>dget d ''op'' = PStr op; op \<in> set LEAF_OPS; validate_leaf op d syms = Inr s\<rbrakk>
         \<Longrightarrow> has_sort syms (PDict d) s"
| app: "\<lbrakk>dget d ''op'' = PStr op; op \<in> set OPERATORS; dkeys d = set [''op'', ''args''];
         dget d ''args'' = PList as; length as \<le> MAX_OPERATOR_ARGS;
         list_all2 (\<lambda>a s. has_sort syms a s) as ss; validate_operator op ss = Inr s\<rbrakk>
         \<Longrightarrow> has_sort syms (PDict d) s"
  monos list.rel_mono_strong

definition ast_args :: "pyval \<Rightarrow> pyval list" where
  "ast_args v = (case v of PDict d \<Rightarrow> (case dget d ''args'' of PList as \<Rightarrow> as | _ \<Rightarrow> []) | _ \<Rightarrow> [])"

lemma size_ast_args: "a \<in> set (ast_args v) \<Longrightarrow> size a < size v"
proof -
  assume a: "a \<in> set (ast_args v)"
  then obtain d as where v: "v = PDict d" "dget d ''args'' = PList as" "a \<in> set as"
    by (cases v; cases "dget (dict_of v) ''args''") (auto simp: ast_args_def)
  then have "map_of d ''args'' = Some (PList as)"
    by (auto simp: dget_def split: option.splits)
  from size_map_of [OF this] v(1) have "size (PList as) < size v" by simp
  moreover have "size a \<le> size_list size as"
    using v(3) by (induction as) auto
  ultimately show ?thesis by simp
qed

function ast_nodes :: "pyval \<Rightarrow> nat" where
  "ast_nodes v = 1 + sum_list (map ast_nodes (ast_args v))"
  by pat_completeness auto
termination
  by (relation "measure size") (auto simp: size_ast_args)

function ast_depth :: "pyval \<Rightarrow> nat" where
  "ast_depth v = 1 + foldr max (map ast_depth (ast_args v)) 0"
  by pat_completeness auto
termination
  by (relation "measure size") (auto simp: size_ast_args)

declare ast_nodes.simps [simp del] ast_depth.simps [simp del]

lemma foldr_max_le: "foldr max xs 0 \<le> (n :: nat) \<longleftrightarrow> (\<forall>x \<in> set xs. x \<le> n)"
  by (induction xs) auto

lemma leaf_not_operator: "op \<in> set LEAF_OPS \<Longrightarrow> op \<notin> set OPERATORS"
  by (auto simp: LEAF_OPS_def OPERATORS_def BOOL_OPERATORS_def RELATION_OPERATORS_def
      ARITHMETIC_OPERATORS_def BITVEC_OPERATORS_def)

lemma leaf_no_args: "validate_leaf op d syms = Inr s \<Longrightarrow> op \<in> set LEAF_OPS \<Longrightarrow> ast_args (PDict d) = []"
proof -
  assume a: "validate_leaf op d syms = Inr s" "op \<in> set LEAF_OPS"
  then have "''args'' \<notin> dkeys d"
    by (auto simp: validate_leaf_def LEAF_OPS_def split: if_splits)
  then show ?thesis
    by (simp add: ast_args_def dget_def dkeys_dom domIff)
qed

text \<open>The validator's equation on an object whose limits hold, split by the kind of operator.\<close>

lemma validate_expr_Inr:
  "validate_expr node syms depth cnt = Inr (s, cnt') \<longleftrightarrow>
     depth \<le> MAX_AST_DEPTH \<and> cnt + 1 \<le> MAX_AST_NODES \<and>
     (\<exists>d op. node = PDict d \<and> dget d ''op'' = PStr op \<and>
       (op \<in> set LEAF_OPS \<and> validate_leaf op d syms = Inr s \<and> cnt' = cnt + 1 \<or>
        op \<in> set OPERATORS \<and> dkeys d = set [''op'', ''args''] \<and>
        (\<exists>as ss. dget d ''args'' = PList as \<and> length as \<le> MAX_OPERATOR_ARGS \<and>
           validate_exprs as syms (depth + 1) (cnt + 1) = Inr (ss, cnt') \<and>
           validate_operator op ss = Inr s)))"
  (is "?l \<longleftrightarrow> ?r")
proof (cases "depth \<le> MAX_AST_DEPTH \<and> cnt + 1 \<le> MAX_AST_NODES")
  case False
  then show ?thesis by (subst validate_expr.simps) auto
next
  case lim: True
  show ?thesis
  proof (cases "is_PDict node \<and> is_PStr (dget (dict_of node) ''op'')")
    case False
    with lim show ?thesis
      by (subst validate_expr.simps, cases node; cases "dget (dict_of node) ''op''") auto
  next
    case True
    then obtain d op where n: "node = PDict d" "dget d ''op'' = PStr op"
      by (cases node; cases "dget (dict_of node) ''op''") auto
    from lim have nl: "\<not> depth > MAX_AST_DEPTH" "\<not> cnt + 1 > MAX_AST_NODES" by auto
    note n = n nl
    consider (l) "op \<in> set LEAF_OPS" "op \<notin> set OPERATORS" | (o) "op \<notin> set LEAF_OPS" "op \<in> set OPERATORS"
      | (u) "op \<notin> set LEAF_OPS" "op \<notin> set OPERATORS"
      using leaf_not_operator by blast
    then show ?thesis
    proof cases
      case l
      then show ?thesis using n by (subst validate_expr.simps) (auto simp: res_simps)
    next
      case u
      then show ?thesis using n by (subst validate_expr.simps) auto
    next
      case o
      then show ?thesis using n
        by (subst validate_expr.simps, cases "dget d ''args''") (auto simp: res_simps not_less)
    qed
  qed
qed

lemma validate_exprs_iff:
  assumes "\<And>a depth cnt s cnt'. a \<in> set as \<Longrightarrow>
      validate_expr a syms depth cnt = Inr (s, cnt') \<longleftrightarrow>
      has_sort syms a s \<and> depth + ast_depth a \<le> MAX_AST_DEPTH + 1 \<and>
      cnt' = cnt + ast_nodes a \<and> cnt' \<le> MAX_AST_NODES"
  shows "validate_exprs as syms depth cnt = Inr (ss, cnt') \<longleftrightarrow>
      list_all2 (has_sort syms) as ss \<and> (\<forall>a \<in> set as. depth + ast_depth a \<le> MAX_AST_DEPTH + 1) \<and>
      cnt' = cnt + sum_list (map ast_nodes as) \<and> (as = [] \<or> cnt' \<le> MAX_AST_NODES)"
  using assms
proof (induction as arbitrary: cnt ss)
  case Nil
  then show ?case by auto
next
  case (Cons a as)
  from Cons.IH [OF Cons.prems] have IH: "\<And>cnt ss. validate_exprs as syms depth cnt = Inr (ss, cnt') \<longleftrightarrow>
      list_all2 (has_sort syms) as ss \<and> (\<forall>a \<in> set as. depth + ast_depth a \<le> MAX_AST_DEPTH + 1) \<and>
      cnt' = cnt + sum_list (map ast_nodes as) \<and> (as = [] \<or> cnt' \<le> MAX_AST_NODES)"
    by simp
  show ?case
    by (cases ss) (auto simp: res_simps IH Cons.prems split_paired_Ex)
qed

lemma validate_expr_iff:
  "validate_expr node syms depth cnt = Inr (s, cnt') \<longleftrightarrow>
     has_sort syms node s \<and> depth + ast_depth node \<le> MAX_AST_DEPTH + 1 \<and>
     cnt' = cnt + ast_nodes node \<and> cnt' \<le> MAX_AST_NODES"
proof (induction node arbitrary: depth cnt s cnt' rule: measure_induct_rule [of size])
  case (less node)
  have sub: "validate_exprs (ast_args node) syms depth cnt = Inr (ss, cnt') \<longleftrightarrow>
      list_all2 (has_sort syms) (ast_args node) ss \<and>
      (\<forall>a \<in> set (ast_args node). depth + ast_depth a \<le> MAX_AST_DEPTH + 1) \<and>
      cnt' = cnt + sum_list (map ast_nodes (ast_args node)) \<and>
      (ast_args node = [] \<or> cnt' \<le> MAX_AST_NODES)" for depth cnt ss cnt'
    by (rule validate_exprs_iff) (simp add: less size_ast_args)
  have hs: "has_sort syms node s \<longleftrightarrow> (\<exists>d op. node = PDict d \<and> dget d ''op'' = PStr op \<and>
      (op \<in> set LEAF_OPS \<and> validate_leaf op d syms = Inr s \<or>
       op \<in> set OPERATORS \<and> dkeys d = set [''op'', ''args''] \<and>
       (\<exists>as ss. dget d ''args'' = PList as \<and> length as \<le> MAX_OPERATOR_ARGS \<and>
          list_all2 (has_sort syms) as ss \<and> validate_operator op ss = Inr s)))"
    by (subst has_sort.simps) auto
  have depth: "depth + ast_depth node \<le> MAX_AST_DEPTH + 1 \<longleftrightarrow> depth \<le> MAX_AST_DEPTH \<and>
      (\<forall>a \<in> set (ast_args node). depth + 1 + ast_depth a \<le> MAX_AST_DEPTH + 1)" for depth
  proof -
    have "depth + ast_depth node \<le> MAX_AST_DEPTH + 1 \<longleftrightarrow> depth \<le> MAX_AST_DEPTH \<and>
        foldr max (map ast_depth (ast_args node)) 0 \<le> MAX_AST_DEPTH - depth"
      by (subst ast_depth.simps) auto
    then show ?thesis by (auto simp: foldr_max_le le_diff_conv2 add.commute)
  qed
  have nodes: "ast_nodes node = 1 + sum_list (map ast_nodes (ast_args node))"
    by (subst ast_nodes.simps) simp
  consider (leaf) d op where "node = PDict d" "dget d ''op'' = PStr op" "op \<in> set LEAF_OPS"
      "op \<notin> set OPERATORS" "validate_leaf op d syms = Inr s"
    | (app) d op as where "node = PDict d" "dget d ''op'' = PStr op" "op \<notin> set LEAF_OPS"
      "op \<in> set OPERATORS" "dkeys d = set [''op'', ''args'']" "dget d ''args'' = PList as"
      "length as \<le> MAX_OPERATOR_ARGS"
    | (none) "\<not> has_sort syms node s" "validate_expr node syms depth cnt \<noteq> Inr (s, cnt')"
    unfolding hs validate_expr_Inr using leaf_not_operator by blast
  then show ?case
  proof cases
    case leaf
    then have "ast_args node = []" by (simp add: leaf_no_args)
    with leaf show ?thesis
      unfolding validate_expr_Inr hs depth nodes by auto
  next
    case app
    then have as: "ast_args node = as" by (simp add: ast_args_def)
    have v: "validate_expr node syms depth cnt = Inr (s, cnt') \<longleftrightarrow>
        depth \<le> MAX_AST_DEPTH \<and> cnt + 1 \<le> MAX_AST_NODES \<and>
        (\<exists>ss. validate_exprs as syms (depth + 1) (cnt + 1) = Inr (ss, cnt') \<and> validate_operator op ss = Inr s)"
      unfolding validate_expr_Inr using app by simp
    have h: "has_sort syms node s \<longleftrightarrow>
        (\<exists>ss. list_all2 (has_sort syms) as ss \<and> validate_operator op ss = Inr s)"
      unfolding hs using app by simp
    show ?thesis
      unfolding v h depth nodes sub [unfolded as] as
      by (cases "as = []") auto
  next
    case none
    then show ?thesis by simp
  qed
qed

end
