(* ===== verification/ValidationResult.thy ===== *)
theory ValidationResult
  imports Prelude
begin

text \<open>
  validation/result.py: the preliminary status vocabulary, the verdict read from an untrusted
  mapping and the aggregation of verdicts.
\<close>

datatype verdict = VPass | VFail | VInconclusive | VSkip

definition CANONICAL_STATUSES :: "string list" where
  "CANONICAL_STATUSES = [''not_run'', ''preliminary_passed'', ''preliminary_failed'', ''inconclusive'']"

definition normalize_status_value :: "pyval \<Rightarrow> string" where
  "normalize_status_value v =
     (let text = replace_char (CHR '' '') (CHR ''_'') (replace_char (CHR ''-'') (CHR ''_'')
                   (lower (strip (str_field v []))))
      in if text \<in> set CANONICAL_STATUSES then text
         else if text \<in> set [''pass'', ''passed'', ''success'', ''ok''] then ''preliminary_passed''
         else if text \<in> set [''fail'', ''failed'', ''error'', ''rejected''] then ''preliminary_failed''
         else if text \<in> set [''skip'', ''skipped'', ''not_applicable'', ''notrun''] then ''not_run''
         else if text \<in> set [''unknown'', ''undetermined''] then ''inconclusive''
         else [])"

text \<open>The loop over the four status keys: the first one that normalizes decides.\<close>

fun first_status :: "pydict \<Rightarrow> string list \<Rightarrow> string option" where
  "first_status raw [] = None"
| "first_status raw (k # ks) =
     (if normalize_status_value (dget raw k) \<noteq> [] then Some (normalize_status_value (dget raw k))
      else first_status raw ks)"

definition canonical_validation_status :: "pydict \<Rightarrow> string \<Rightarrow> string" where
  "canonical_validation_status raw dflt =
     (case first_status raw [''validation_status'', ''verdict'', ''outcome'', ''status''] of
        Some s \<Rightarrow> s
      | None \<Rightarrow>
          if py_is_true (dget raw ''passed'') then ''preliminary_passed''
          else if py_is_false (dget raw ''passed'') then ''preliminary_failed''
          else if dflt \<in> set CANONICAL_STATUSES then dflt else ''not_run'')"

definition preliminary_passed_from_mapping :: "pydict \<Rightarrow> bool option" where
  "preliminary_passed_from_mapping raw =
     (let status = canonical_validation_status raw ''not_run''
      in if status = ''preliminary_passed'' then Some True
         else if status = ''preliminary_failed'' then Some False else None)"

record vresult =
  vr_verdict :: verdict
  vr_source :: string
  vr_confidence :: rat
  vr_reason :: string
  vr_code :: string
  vr_evidence_ids :: "string list"
  vr_details :: pydict

definition vresult_passed :: "vresult \<Rightarrow> bool option" where
  "vresult_passed r = (case vr_verdict r of VPass \<Rightarrow> Some True | VFail \<Rightarrow> Some False | _ \<Rightarrow> None)"

definition is_blocking :: "vresult \<Rightarrow> rat \<Rightarrow> bool" where
  "is_blocking r threshold \<longleftrightarrow> vr_verdict r = VFail \<and> vr_confidence r \<ge> threshold"

fun verdict_value :: "verdict \<Rightarrow> string" where
  "verdict_value VPass = ''pass''"
| "verdict_value VFail = ''fail''"
| "verdict_value VInconclusive = ''inconclusive''"
| "verdict_value VSkip = ''skip''"

definition vresult_to_dict :: "vresult \<Rightarrow> pydict" where
  "vresult_to_dict r =
     [(''verdict'', PStr (verdict_value (vr_verdict r))),
      (''source'', PStr (vr_source r)),
      (''confidence'', PFloat (vr_confidence r)),
      (''reason'', PStr (vr_reason r)),
      (''code'', PStr (vr_code r)),
      (''evidence_ids'', PList (map PStr (vr_evidence_ids r))),
      (''details'', PDict (vr_details r)),
      (''passed'', (case vresult_passed r of None \<Rightarrow> PNone | Some b \<Rightarrow> PBool b))]"

definition verdict_from_raw :: "pydict \<Rightarrow> verdict" where
  "verdict_from_raw raw =
     (let status = canonical_validation_status raw ''inconclusive''
      in if status = ''preliminary_passed'' then VPass
         else if status = ''preliminary_failed'' then VFail
         else if status = ''not_run'' then VSkip
         else VInconclusive)"

definition confidence_from_raw :: "pydict \<Rightarrow> verdict \<Rightarrow> rat" where
  "confidence_from_raw raw v =
     (let value = (case py_float (dget raw ''confidence'') of
                     Inr q \<Rightarrow> q
                   | Inl _ \<Rightarrow> if v = VPass \<or> v = VFail then 1 else 0)
      in if value < 0 then 0 else if value > 1 then 1 else value)"

definition verification_result_from_mapping :: "pydict \<Rightarrow> string \<Rightarrow> vresult" where
  "verification_result_from_mapping raw source =
     (let v = verdict_from_raw raw in
      \<lparr> vr_verdict = v,
        vr_source = str_field (dget raw ''source'') source,
        vr_confidence = confidence_from_raw raw v,
        vr_reason = str_field (py_or (py_or (py_or (dget raw ''reason'') (dget raw ''message''))
                                 (dget raw ''diagnostic'')) (dget raw ''status'')) [],
        vr_code = str_field (py_or (py_or (dget raw ''code'') (dget raw ''category'')) (dget raw ''status'')) [],
        vr_evidence_ids =
          (case dget raw ''evidence_ids'' of
             PList xs \<Rightarrow> filter (\<lambda>s. strip s \<noteq> []) (map py_str xs)
           | _ \<Rightarrow> []),
        vr_details = raw \<rparr>)"

definition aggregate_verification_results :: "vresult list \<Rightarrow> string \<Rightarrow> vresult" where
  "aggregate_verification_results results source =
     (if results = [] then
        \<lparr> vr_verdict = VInconclusive, vr_source = source, vr_confidence = 0,
          vr_reason = ''no verification results'', vr_code = [], vr_evidence_ids = [], vr_details = [] \<rparr>
      else
        let failures = filter (\<lambda>r. vr_verdict r = VFail) results;
            details = [(''results'', PList (map (PDict \<circ> vresult_to_dict) results))]
        in if failures \<noteq> [] then
             \<lparr> vr_verdict = VFail, vr_source = source,
               vr_confidence = Max (set (map vr_confidence failures)),
               vr_reason = join_with ''; '' (map (\<lambda>r. str_or (str_or (vr_reason r) (vr_code r)) (vr_source r)) failures),
               vr_code = ''aggregate_failure'',
               vr_evidence_ids = concat (map vr_evidence_ids failures), vr_details = details \<rparr>
           else if list_all (\<lambda>r. vr_verdict r = VPass) results then
             \<lparr> vr_verdict = VPass, vr_source = source,
               vr_confidence = Min (set (map vr_confidence results)),
               vr_reason = ''all verification results passed'', vr_code = ''aggregate_pass'',
               vr_evidence_ids = concat (map vr_evidence_ids results), vr_details = details \<rparr>
           else
             \<lparr> vr_verdict = VInconclusive, vr_source = source,
               vr_confidence = Max (set (map vr_confidence results)),
               vr_reason = ''verification results are mixed or skipped'', vr_code = ''aggregate_inconclusive'',
               vr_evidence_ids = concat (map vr_evidence_ids results), vr_details = details \<rparr>)"

section \<open>Properties\<close>

lemma normalize_status_canonical:
  "normalize_status_value v = [] \<or> normalize_status_value v \<in> set CANONICAL_STATUSES"
  by (simp add: normalize_status_value_def CANONICAL_STATUSES_def Let_def)

lemma first_status_canonical: "first_status raw ks = Some s \<Longrightarrow> s \<in> set CANONICAL_STATUSES"
proof (induction ks)
  case (Cons k ks)
  then show ?case using normalize_status_canonical [of "dget raw k"] by (auto split: if_splits)
qed simp

lemma canonical_status_closed: "canonical_validation_status raw dflt \<in> set CANONICAL_STATUSES"
proof (cases "first_status raw [''validation_status'', ''verdict'', ''outcome'', ''status'']")
  case None
  then show ?thesis by (simp add: canonical_validation_status_def CANONICAL_STATUSES_def)
next
  case (Some s)
  then show ?thesis
    using first_status_canonical [OF Some] by (simp add: canonical_validation_status_def)
qed

lemma confidence_unit: "0 \<le> confidence_from_raw raw v \<and> confidence_from_raw raw v \<le> 1"
  by (auto simp: confidence_from_raw_def Let_def)

text \<open>Aggregation is the meet of the verdicts: one failure fails, a pass needs every result to pass.\<close>

lemma aggregate_fail_iff:
  "vr_verdict (aggregate_verification_results rs src) = VFail \<longleftrightarrow> (\<exists>r \<in> set rs. vr_verdict r = VFail)"
  by (auto simp: aggregate_verification_results_def Let_def filter_empty_conv)

lemma aggregate_pass_iff:
  "vr_verdict (aggregate_verification_results rs src) = VPass \<longleftrightarrow>
     rs \<noteq> [] \<and> (\<forall>r \<in> set rs. vr_verdict r = VPass)"
  by (auto simp: aggregate_verification_results_def Let_def filter_empty_conv list_all_iff)

lemma aggregate_confidence_mem:
  "rs \<noteq> [] \<Longrightarrow> vr_confidence (aggregate_verification_results rs src) \<in> vr_confidence ` set rs"
proof -
  assume ne: "rs \<noteq> []"
  have mx: "xs \<noteq> [] \<Longrightarrow> Max (vr_confidence ` set xs) \<in> vr_confidence ` set xs" for xs :: "vresult list"
    by (intro Max_in) auto
  have mn: "Min (vr_confidence ` set rs) \<in> vr_confidence ` set rs"
    using ne by (intro Min_in) auto
  show ?thesis
    using ne mx [of rs] mn mx [of "filter (\<lambda>r. vr_verdict r = VFail) rs"]
    by (auto simp: aggregate_verification_results_def Let_def)
qed

end
