(* ===== verification/VerificationTypes.thy ===== *)
theory VerificationTypes
  imports ValidationResult
begin

text \<open>
  verification/ladder.py and verification/types.py: the strength ladder and the payloads of the
  verification spine, with their JSON forms and the checks a graded output makes on construction.
\<close>

section \<open>The ladder\<close>

datatype strength = SNone | SAdversarial | SDecomposed | SEmpirical | SFormal | SExecutable

fun strength_value :: "strength \<Rightarrow> int" where
  "strength_value SNone = 0"
| "strength_value SAdversarial = 1"
| "strength_value SDecomposed = 2"
| "strength_value SEmpirical = 3"
| "strength_value SFormal = 4"
| "strength_value SExecutable = 5"

fun strength_name :: "strength \<Rightarrow> string" where
  "strength_name SNone = ''NONE''"
| "strength_name SAdversarial = ''ADVERSARIAL''"
| "strength_name SDecomposed = ''DECOMPOSED''"
| "strength_name SEmpirical = ''EMPIRICAL''"
| "strength_name SFormal = ''FORMAL''"
| "strength_name SExecutable = ''EXECUTABLE''"

definition STRENGTHS :: "strength list" where
  "STRENGTHS = [SNone, SAdversarial, SDecomposed, SEmpirical, SFormal, SExecutable]"

text \<open>The order of an IntEnum is that of its values.\<close>

instantiation strength :: linorder
begin

definition less_eq_strength :: "strength \<Rightarrow> strength \<Rightarrow> bool" where
  "less_eq_strength a b \<longleftrightarrow> strength_value a \<le> strength_value b"

definition less_strength :: "strength \<Rightarrow> strength \<Rightarrow> bool" where
  "less_strength a b \<longleftrightarrow> strength_value a < strength_value b"

lemma strength_value_eq: "strength_value a = strength_value b \<Longrightarrow> a = b"
  by (cases a; cases b; simp)

instance
  by standard (auto simp: less_eq_strength_def less_strength_def intro: strength_value_eq)

end

lemmas strength_order = less_eq_strength_def less_strength_def

definition strength_of_name :: "string \<Rightarrow> strength option" where
  "strength_of_name n = find (\<lambda>s. strength_name s = n) STRENGTHS"

definition strength_of_int :: "int \<Rightarrow> strength option" where
  "strength_of_int i = find (\<lambda>s. strength_value s = i) STRENGTHS"

definition strength_from_value :: "pyval \<Rightarrow> strength" where
  "strength_from_value v =
     (case (case v of PStr s \<Rightarrow> strength_of_name (upper (strip s)) | _ \<Rightarrow> None) of
        Some s \<Rightarrow> s
      | None \<Rightarrow>
          (case py_int v of
             Inl _ \<Rightarrow> SNone
           | Inr i \<Rightarrow> (case strength_of_int i of None \<Rightarrow> SNone | Some s \<Rightarrow> s)))"

section \<open>Verification results\<close>

record ver_result =
  vs_passed :: bool
  vs_score :: rat
  vs_strength :: strength
  vs_evidence_ref :: string
  vs_replayable :: bool
  vs_diagnostics :: "string list"
  vs_metadata :: pydict

definition CARRIED_KEYS :: "string list" where
  "CARRIED_KEYS =
     [''measured_strength'', ''measured_strength_value'', ''honesty_measurements'', ''grounding_regime_id'',
      ''replay_record'', ''diagnostics_only'', ''legacy'']"

definition ver_result_to_dict :: "ver_result \<Rightarrow> pydict" where
  "ver_result_to_dict r =
     (let md = vs_metadata r;
          vs = str_field (dget md ''validation_status'') [];
          status = (if vs \<in> set [''not_run'', ''preliminary_passed'', ''preliminary_failed'', ''inconclusive''] then vs
                    else if vs_passed r then ''preliminary_passed'' else ''preliminary_failed'');
          base = [(''passed'', PBool (vs_passed r)), (''score'', PFloat (vs_score r)),
                  (''strength'', PStr (strength_name (vs_strength r))), (''evidence_ref'', PStr (vs_evidence_ref r)),
                  (''replayable'', PBool (vs_replayable r)), (''diagnostics'', PList (map PStr (vs_diagnostics r))),
                  (''metadata'', PDict md), (''strength_value'', PInt (strength_value (vs_strength r))),
                  (''validation_status'', PStr status)]
      in fold (\<lambda>k acc. if k \<in> dkeys md then dset k (dget md k) acc else acc) CARRIED_KEYS base)"

text \<open>\<open>_float\<close> and the texts of the truthy items of an iterable.\<close>

definition float_default :: "pyval \<Rightarrow> rat \<Rightarrow> rat" where
  "float_default v q = (case py_float v of Inr x \<Rightarrow> x | Inl _ \<Rightarrow> q)"

definition truthy_texts :: "pyval \<Rightarrow> pyexn + string list" where
  "truthy_texts v = sbind (iter_items v) (\<lambda>xs. Inr (map py_str (filter truthy xs)))"

definition ver_result_from_dict :: "pyval \<Rightarrow> pyexn + ver_result" where
  "ver_result_from_dict data =
     (let raw = coerce_dict data;
          md0 = coerce_dict (dget raw ''metadata'');
          md1 = dset ''validation_status'' (PStr (canonical_validation_status (dupdate md0 raw) ''inconclusive'')) md0;
          md = fold (\<lambda>k acc. if k \<in> dkeys raw \<and> k \<notin> dkeys acc then dset k (dget raw k) acc else acc) CARRIED_KEYS md1
      in sbind (truthy_texts (dget_or raw ''diagnostics'' (PList []))) (\<lambda>diags.
           Inr \<lparr> vs_passed = truthy (dget raw ''passed''),
                 vs_score = float_default (dget raw ''score'') 0,
                 vs_strength = strength_from_value (py_or (dget raw ''strength'') (dget raw ''strength_value'')),
                 vs_evidence_ref = str_field (dget raw ''evidence_ref'') [],
                 vs_replayable = truthy (dget raw ''replayable''),
                 vs_diagnostics = diags,
                 vs_metadata = md \<rparr>))"

section \<open>Plans, results and directions\<close>

record ver_plan =
  vp_verifier_id :: string
  vp_strength :: strength
  vp_modality :: string
  vp_verifier_fingerprint :: string
  vp_replayable :: bool
  vp_diagnostics :: "string list"
  vp_reformulations :: "pydict list"
  vp_metadata :: pydict

definition ver_plan_to_dict :: "ver_plan \<Rightarrow> pydict" where
  "ver_plan_to_dict p =
     [(''verifier_id'', PStr (vp_verifier_id p)), (''strength'', PStr (strength_name (vp_strength p))),
      (''modality'', PStr (vp_modality p)), (''verifier_fingerprint'', PStr (vp_verifier_fingerprint p)),
      (''replayable'', PBool (vp_replayable p)), (''diagnostics'', PList (map PStr (vp_diagnostics p))),
      (''reformulations'', PList (map PDict (vp_reformulations p))), (''metadata'', PDict (vp_metadata p)),
      (''strength_value'', PInt (strength_value (vp_strength p)))]"

text \<open>The objects among the items of an iterable.\<close>

definition object_items :: "pyval \<Rightarrow> pyexn + pydict list" where
  "object_items v = sbind (iter_items v) (\<lambda>xs. Inr (map dict_of (filter is_PDict xs)))"

definition ver_plan_from_dict :: "pyval \<Rightarrow> pyexn + ver_plan" where
  "ver_plan_from_dict data =
     (let raw = coerce_dict data in
      sbind (truthy_texts (dget_or raw ''diagnostics'' (PList []))) (\<lambda>diags.
      sbind (object_items (dget_or raw ''reformulations'' (PList []))) (\<lambda>refs.
        Inr \<lparr> vp_verifier_id = str_field (dget raw ''verifier_id'') ''noop-verifier'',
              vp_strength = strength_from_value (py_or (dget raw ''strength'') (dget raw ''strength_value'')),
              vp_modality = str_field (dget raw ''modality'') ''none'',
              vp_verifier_fingerprint = str_field (py_or (dget raw ''verifier_fingerprint'') (dget raw ''fingerprint'')) [],
              vp_replayable = truthy (dget raw ''replayable''),
              vp_diagnostics = diags,
              vp_reformulations = refs,
              vp_metadata = coerce_dict (dget raw ''metadata'') \<rparr>)))"

record verified =
  vd_answer :: pyval
  vd_replayable :: bool
  vd_evidence_ref :: string
  vd_verifier_fingerprint :: string

definition verified_to_dict :: "verified \<Rightarrow> pydict" where
  "verified_to_dict v =
     [(''answer'', vd_answer v), (''replayable'', PBool (vd_replayable v)),
      (''evidence_ref'', PStr (vd_evidence_ref v)), (''verifier_fingerprint'', PStr (vd_verifier_fingerprint v))]"

definition verified_of :: "pydict \<Rightarrow> verified" where
  "verified_of raw =
     \<lparr> vd_answer = dget raw ''answer'', vd_replayable = truthy (dget raw ''replayable''),
       vd_evidence_ref = str_field (dget raw ''evidence_ref'') [],
       vd_verifier_fingerprint = str_field (dget raw ''verifier_fingerprint'') [] \<rparr>"

definition verified_from_dict :: "pyval \<Rightarrow> verified option" where
  "verified_from_dict data = (let raw = coerce_dict data in if raw = [] then None else Some (verified_of raw))"

record direction =
  dn_core_insight :: string
  dn_key_assumptions :: "string list"
  dn_falsification_test :: string
  dn_lineage :: "string list"
  dn_why_non_obvious :: string

definition direction_to_dict :: "direction \<Rightarrow> pydict" where
  "direction_to_dict d =
     [(''core_insight'', PStr (dn_core_insight d)), (''key_assumptions'', PList (map PStr (dn_key_assumptions d))),
      (''falsification_test'', PStr (dn_falsification_test d)), (''lineage'', PList (map PStr (dn_lineage d))),
      (''why_non_obvious'', PStr (dn_why_non_obvious d))]"

text \<open>Both readers of a direction differ in the defaults of the three text fields only.\<close>

definition direction_of :: "string \<Rightarrow> string \<Rightarrow> string \<Rightarrow> pydict \<Rightarrow> pyexn + direction" where
  "direction_of insight0 test0 why0 raw =
     sbind (truthy_texts (dget_or raw ''key_assumptions'' (PList []))) (\<lambda>keys.
     sbind (truthy_texts (dget_or raw ''lineage'' (PList []))) (\<lambda>lin.
       Inr \<lparr> dn_core_insight = str_field (py_or (dget raw ''core_insight'') (dget raw ''insight'')) insight0,
             dn_key_assumptions = keys,
             dn_falsification_test = str_field (dget raw ''falsification_test'') test0,
             dn_lineage = lin,
             dn_why_non_obvious = str_field (dget raw ''why_non_obvious'') why0 \<rparr>))"

definition direction_from_dict :: "pyval \<Rightarrow> pyexn + direction" where
  "direction_from_dict data = direction_of [] [] [] (coerce_dict data)"

section \<open>Graded outputs\<close>

record graded =
  gr_mode :: string
  gr_strength :: strength
  gr_result :: "verified option"
  gr_portfolio :: "direction list"
  gr_ruled_out_map :: "pyval list"
  gr_certificate :: "pydict option"

datatype graded_error = GradedAssertion string | GradedPy pyexn

text \<open>The constructor with its \<open>__post_init__\<close>: the legacy mode is renamed and the assertions are made.\<close>

definition graded_make ::
  "string \<Rightarrow> strength \<Rightarrow> verified option \<Rightarrow> direction list \<Rightarrow> pyval list \<Rightarrow> pydict option \<Rightarrow> graded_error + graded" where
  "graded_make mode0 st result portfolio ruled cert =
     (let mode = (if mode0 = ''verified_result'' then ''preliminary_result'' else mode0) in
      if mode \<notin> set [''preliminary_result'', ''graded_portfolio''] then
        Inl (GradedAssertion ''graded output mode must be preliminary_result or graded_portfolio'')
      else if mode = ''preliminary_result'' \<and> result = None then Inl (GradedAssertion [])
      else case result of
        None \<Rightarrow> Inr \<lparr>gr_mode = mode, gr_strength = st, gr_result = None, gr_portfolio = portfolio,
                     gr_ruled_out_map = ruled, gr_certificate = cert\<rparr>
      | Some r \<Rightarrow>
          (if mode \<noteq> ''preliminary_result'' \<or> st < SFormal \<or> \<not> vd_replayable r \<or> cert = None \<or> cert = Some []
           then Inl (GradedAssertion [])
           else Inr \<lparr>gr_mode = mode, gr_strength = st, gr_result = Some r, gr_portfolio = portfolio,
                     gr_ruled_out_map = ruled, gr_certificate = cert\<rparr>))"

definition graded_to_dict :: "graded \<Rightarrow> pydict" where
  "graded_to_dict g =
     [(''mode'', PStr (gr_mode g)),
      (''validation_status'', PStr (if gr_result g \<noteq> None then ''preliminary_passed''
                                    else if gr_strength g = SNone then ''not_run'' else ''inconclusive'')),
      (''verification_strength'', PStr (strength_name (gr_strength g))),
      (''verification_strength_value'', PInt (strength_value (gr_strength g))),
      (''result'', case gr_result g of None \<Rightarrow> PNone | Some r \<Rightarrow> PDict (verified_to_dict r)),
      (''portfolio'', PList (map (\<lambda>d. PDict (direction_to_dict d)) (gr_portfolio g))),
      (''ruled_out_map'', PList (gr_ruled_out_map g)),
      (''replay_certificate'', case gr_certificate g of None \<Rightarrow> PNone
                               | Some c \<Rightarrow> (if c = [] then PNone else PDict c))]"

definition lift_py :: "pyexn + 'a \<Rightarrow> graded_error + 'a" where
  "lift_py r = (case r of Inl e \<Rightarrow> Inl (GradedPy e) | Inr x \<Rightarrow> Inr x)"

definition graded_from_dict :: "pyval \<Rightarrow> graded_error + graded" where
  "graded_from_dict data =
     (let raw = coerce_dict data in
      if raw = [] then graded_make ''graded_portfolio'' SNone None [] [] None
      else
        let result = (case dget raw ''result'' of PDict d \<Rightarrow> verified_from_dict (PDict d) | _ \<Rightarrow> None);
            mode0 = str_field (dget raw ''mode'') (if result \<noteq> None then ''preliminary_result'' else ''graded_portfolio'');
            mode1 = (if mode0 = ''verified_result'' then ''preliminary_result'' else mode0);
            mode = (if mode1 = ''preliminary_result'' \<and> result = None then ''graded_portfolio'' else mode1);
            cert = coerce_dict (dget raw ''replay_certificate'')
        in sbind (lift_py (object_items (dget_or raw ''portfolio'' (PList [])))) (\<lambda>items.
           sbind (lift_py (list_all_ok (\<lambda>d. direction_from_dict (PDict d)) items)) (\<lambda>portfolio.
           sbind (lift_py (iter_items (py_or (dget raw ''ruled_out_map'') (PList [])))) (\<lambda>ruled.
             graded_make mode
               (strength_from_value (py_or (dget raw ''verification_strength'') (dget raw ''verification_strength_value'')))
               result portfolio ruled (if cert = [] then None else Some cert)))))"

section \<open>Lemmas\<close>

lemma strength_of_name_name [simp]: "strength_from_value (PStr (strength_name s)) = s"
  by (cases s; simp) (code_simp+)

lemma strength_name_nonempty [simp]: "strength_name s \<noteq> []"
  by (cases s) simp_all

lemma strength_from_value_int [simp]: "strength_from_value (PInt (strength_value s)) = s"
  by (cases s) (simp_all add: strength_from_value_def py_int_def strength_of_int_def STRENGTHS_def)

lemma lift_py_simps [simp]: "lift_py (Inr x) = Inr x" "lift_py (Inl e) = Inl (GradedPy e)"
  by (simp_all add: lift_py_def)

definition graded_ok :: "graded \<Rightarrow> bool" where
  "graded_ok g \<longleftrightarrow>
     (case gr_result g of
        None \<Rightarrow> gr_mode g = ''graded_portfolio''
      | Some r \<Rightarrow> gr_mode g = ''preliminary_result'' \<and> SFormal \<le> gr_strength g \<and> vd_replayable r \<and>
          (\<exists>c. gr_certificate g = Some c \<and> c \<noteq> []))"

lemma graded_make_ok: "graded_make m st r p ru c = Inr g \<Longrightarrow> graded_ok g"
  by (auto simp: graded_make_def Let_def graded_ok_def not_less split: if_splits option.splits)

lemma graded_from_dict_ok: "graded_from_dict data = Inr g \<Longrightarrow> graded_ok g"
  by (auto simp: graded_from_dict_def Let_def sbind_Inr_iff intro: graded_make_ok split: if_splits)

lemma graded_make_id:
  assumes "graded_ok g"
  shows "graded_make (gr_mode g) (gr_strength g) (gr_result g) (gr_portfolio g) (gr_ruled_out_map g) (gr_certificate g) = Inr g"
  using assms by (cases g) (auto simp: graded_ok_def graded_make_def Let_def split: option.splits)

text \<open>A direction whose lists hold no empty text survives printing.\<close>

definition direction_ok :: "direction \<Rightarrow> bool" where
  "direction_ok d \<longleftrightarrow> [] \<notin> set (dn_key_assumptions d) \<and> [] \<notin> set (dn_lineage d)"

lemma truthy_texts_strs: "[] \<notin> set ss \<Longrightarrow> truthy_texts (PList (map PStr ss)) = Inr ss"
proof -
  assume "[] \<notin> set ss"
  then have "filter truthy (map PStr ss) = map PStr ss" by (auto simp: filter_id_conv)
  then show ?thesis by (simp add: truthy_texts_def comp_def)
qed

lemma direction_roundtrip: "direction_ok d \<Longrightarrow> direction_from_dict (PDict (direction_to_dict d)) = Inr d"
  by (cases d) (simp add: direction_from_dict_def direction_of_def direction_to_dict_def direction_ok_def dget_or_def
      dget_def truthy_texts_strs str_field_def py_or_def)

lemma verified_roundtrip: "verified_from_dict (PDict (verified_to_dict v)) = Some v"
  by (cases v) (simp add: verified_from_dict_def verified_of_def verified_to_dict_def dget_def Let_def str_field_def py_or_def)

lemma directions_roundtrip:
  "\<forall>d \<in> set ds. direction_ok d \<Longrightarrow>
     list_all_ok (\<lambda>d. direction_from_dict (PDict d)) (map direction_to_dict ds) = Inr ds"
  by (induction ds) (simp_all add: direction_roundtrip)

section \<open>Properties\<close>


text \<open>
  Decoding the JSON form of a graded output gives it back.\<close>

theorem graded_roundtrip:
  assumes "graded_ok g" "\<forall>d \<in> set (gr_portfolio g). direction_ok d" "gr_certificate g \<noteq> Some []"
  shows "graded_from_dict (PDict (graded_to_dict g)) = Inr g"
proof -
  have items: "object_items (PList (map (\<lambda>d. PDict (direction_to_dict d)) ds)) = Inr (map direction_to_dict ds)" for ds
    by (simp add: object_items_def filter_id_conv [THEN iffD2] comp_def)
  have st: "strength_from_value (py_or (PStr (strength_name s)) w) = s" for s w
    by (simp add: py_or_def)
  have ruled: "py_or (PList xs) (PList []) = PList xs" for xs
    by (simp add: py_or_def)
  have mode: "gr_mode g \<noteq> ''verified_result''" "gr_mode g = ''preliminary_result'' \<longleftrightarrow> gr_result g \<noteq> None" "gr_mode g \<noteq> []"
    using assms(1) by (auto simp: graded_ok_def split: option.splits)
  have res: "(case (case gr_result g of None \<Rightarrow> PNone | Some r \<Rightarrow> PDict (verified_to_dict r)) of
      PDict d \<Rightarrow> verified_from_dict (PDict d) | _ \<Rightarrow> None) = gr_result g"
    by (simp add: verified_roundtrip split: option.split)
  have cert: "(let c = coerce_dict (case gr_certificate g of None \<Rightarrow> PNone | Some c \<Rightarrow> (if c = [] then PNone else PDict c))
      in if c = [] then None else Some c) = gr_certificate g"
    using assms(3) by (auto simp: Let_def coerce_dict_def split: option.split)
  show ?thesis
    using graded_make_id [OF assms(1)] res cert mode
    by (cases "gr_result g") (simp_all add: graded_from_dict_def graded_to_dict_def dget_def dget_or_def Let_def items st
        ruled directions_roundtrip [OF assms(2)])
qed

text \<open>
  The ladder's decoder inverts both of its encodings, the name and the number, and every value decodes to a rung.\<close>

theorem strength_encodings:
  "strength_from_value (PStr (strength_name s)) = s \<and> strength_from_value (PInt (strength_value s)) = s \<and>
   strength_from_value v \<in> set STRENGTHS \<and> (strength_value s \<le> strength_value t \<longleftrightarrow> s \<le> t)"
  by (cases "strength_from_value v") (simp_all add: STRENGTHS_def less_eq_strength_def)

section \<open>Witnesses\<close>

definition demo_graded :: graded where
  "demo_graded = \<lparr>gr_mode = ''preliminary_result'', gr_strength = SExecutable,
     gr_result = Some \<lparr>vd_answer = PInt 42, vd_replayable = True, vd_evidence_ref = ''e'', vd_verifier_fingerprint = ''f''\<rparr>,
     gr_portfolio = [], gr_ruled_out_map = [], gr_certificate = Some [(''replay_verified'', PBool True)]\<rparr>"

theorem graded_roundtrip_witness: "graded_from_dict (PDict (graded_to_dict demo_graded)) = Inr demo_graded"
  by (rule graded_roundtrip) (simp_all add: demo_graded_def graded_ok_def less_eq_strength_def)


end
