(* ===== verification/Z3Solve.thy ===== *)
theory Z3Solve
  imports Z3Dsl VerificationTypes
begin

text \<open>
  The part of verification/z3_dsl.py that meets the solver: compilation against any binding that keeps
  Z3's sort discipline (the locale \<open>z3_backend\<close>), \<open>evaluate_z3_dsl\<close> and its receipt. The binding is an
  argument: an import that fails is its exception's class name, a solver run is an answer or the class
  name of what it raised. An evaluator of terms is the binding on which the locale is interpreted.
\<close>

section \<open>The sort discipline of a binding\<close>

fun bin_sort :: "z3_binop \<Rightarrow> z3sort \<Rightarrow> z3sort \<Rightarrow> z3sort option" where
  "bin_sort ZImplies s t = (if s = SBool \<and> t = SBool then Some SBool else None)"
| "bin_sort ZXor s t = (if s = SBool \<and> t = SBool then Some SBool else None)"
| "bin_sort ZEq s t = (if s = t then Some SBool else None)"
| "bin_sort ZLt s t = (if s = t \<and> s \<noteq> SBool then Some SBool else None)"
| "bin_sort ZLe s t = (if s = t \<and> s \<noteq> SBool then Some SBool else None)"
| "bin_sort ZGt s t = (if s = t \<and> s \<noteq> SBool then Some SBool else None)"
| "bin_sort ZGe s t = (if s = t \<and> s \<noteq> SBool then Some SBool else None)"
| "bin_sort ZAdd s t = (if s = t \<and> s \<noteq> SBool then Some s else None)"
| "bin_sort ZMul s t = (if s = t \<and> s \<noteq> SBool then Some s else None)"
| "bin_sort ZSub s t = (if s = t \<and> s \<noteq> SBool then Some s else None)"
| "bin_sort _ s t = (if s = t \<and> s \<noteq> SBool \<and> s \<noteq> SInt then Some s else None)"

definition yields :: "('e \<Rightarrow> z3sort) \<Rightarrow> pyexn + 'e \<Rightarrow> z3sort \<Rightarrow> bool" where
  "yields sort_of r s \<longleftrightarrow> (\<exists>e. r = Inr e \<and> sort_of e = s)"

lemma yields_Inr [simp]: "yields so (Inr e) s \<longleftrightarrow> so e = s"
  by (simp add: yields_def)

lemma yields_bind: "yields so r s \<Longrightarrow> (\<And>e. so e = s \<Longrightarrow> yields so (f e) t) \<Longrightarrow> yields so (sbind r f) t"
  by (auto simp: yields_def)

locale z3_backend =
  fixes z :: "'e z3_ops" and sort_of :: "'e \<Rightarrow> z3sort"
  assumes const_sort: "sort_of (z_const z n s) = s"
    and bool_val: "yields sort_of (z_bool_val z (PBool bv)) SBool"
    and int_val: "yields sort_of (z_int_val z (PInt i)) SInt"
    and bv_val: "1 \<le> w \<Longrightarrow> yields sort_of (z_bv_val z (PInt v) (PInt w)) (SBitVec w)"
    and and_or: "es \<noteq> [] \<Longrightarrow> \<forall>e \<in> set es. sort_of e = SBool \<Longrightarrow>
        yields sort_of (z_and z es) SBool \<and> yields sort_of (z_or z es) SBool"
    and distinct_args: "es \<noteq> [] \<Longrightarrow> \<forall>e \<in> set es. sort_of e = s \<Longrightarrow> yields sort_of (z_distinct z es) SBool"
    and not_arg: "sort_of e = SBool \<Longrightarrow> yields sort_of (z_not z e) SBool"
    and neg_arg: "sort_of e \<noteq> SBool \<Longrightarrow> yields sort_of (z_neg z e) (sort_of e)"
    and bvnot_arg: "sort_of e \<noteq> SBool \<Longrightarrow> sort_of e \<noteq> SInt \<Longrightarrow> yields sort_of (z_bvnot z e) (sort_of e)"
    and bin_args_sort: "bin_sort bop (sort_of a) (sort_of b) = Some s \<Longrightarrow> yields sort_of (z_bin z bop a b) s"
    and ite_args: "sort_of c = SBool \<Longrightarrow> sort_of a = sort_of b \<Longrightarrow> yields sort_of (z_ite z c a b) (sort_of a)"
begin

lemma fold_bin_sort:
  "\<lbrakk>bin_sort bop s s = Some s; sort_of r = s; \<forall>e \<in> set es. sort_of e = s\<rbrakk> \<Longrightarrow>
     yields sort_of (fold_bin (z_bin z bop) r es) s"
  by (induction es arbitrary: r) (auto intro!: yields_bind [where s = s] bin_args_sort)

lemma bin2: "bin_sort bop (sort_of a) (sort_of b) = Some s \<Longrightarrow> yields sort_of (bin_args (z_bin z bop) [a, b]) s"
  by (simp add: bin_args_def arg_at_def bin_args_sort)

lemma len2: "length (es :: 'e list) = 2 \<Longrightarrow> \<exists>a b. es = [a, b]"
  by (auto simp: numeral_2_eq_2 length_Suc_conv)

text \<open>The operators by their number of arguments.\<close>

lemma compile_unary:
  assumes "op \<in> set [''not'', ''neg'', ''bvnot'']" "validate_operator op (map sort_of es) = Inr s"
  shows "yields sort_of (compile_op z op es) s"
proof -
  from assms have "length es = 1"
    unfolding list.set insert_iff empty_iff
    by (elim disjE) (simp_all add: validate_operator_def sbind_Inr_iff require_arity_def)
  then obtain e where e: "es = [e]" by (auto simp: length_Suc_conv)
  from assms(2) assms(1) neg_arg [of e] bvnot_arg [of e] show ?thesis
    unfolding e list.set insert_iff empty_iff
    by (elim disjE)
      (simp_all add: validate_operator_def sbind_Inr_iff require_arity_def require_all_def require_numeric_def
        require_bitvec_def first_sort_def compile_op_def arg_at_def not_arg split: z3sort.splits)
qed

definition binop_of :: "string \<Rightarrow> z3_binop" where
  "binop_of op = the (map_of
     [(''implies'', ZImplies), (''eq'', ZEq), (''lt'', ZLt), (''lte'', ZLe), (''gt'', ZGt), (''gte'', ZGe),
      (''sub'', ZSub), (''bvand'', ZBvAnd), (''bvor'', ZBvOr), (''bvxor'', ZBvXor), (''bvshl'', ZShl), (''bvlshr'', ZLShr)] op)"

lemma compile_binary:
  assumes "op \<in> set [''implies'', ''eq'', ''lt'', ''lte'', ''gt'', ''gte'', ''sub'', ''bvand'', ''bvor'', ''bvxor'', ''bvshl'', ''bvlshr'']"
    and "validate_operator op (map sort_of es) = Inr s"
  shows "yields sort_of (compile_op z op es) s"
proof -
  have op: "compile_op z op es = bin_args (z_bin z (binop_of op)) es"
    using assms(1) unfolding list.set insert_iff empty_iff by (elim disjE) (simp_all add: compile_op_def binop_of_def)
  have "length es = 2"
    using assms unfolding list.set insert_iff empty_iff
    by (elim disjE) (simp_all add: validate_operator_def sbind_Inr_iff require_arity_def)
  then obtain a b where es: "es = [a, b]" using len2 by blast
  have "bin_sort (binop_of op) (sort_of a) (sort_of b) = Some s"
    using assms(2,1) unfolding es list.set insert_iff empty_iff
    by (elim disjE)
      (simp_all add: validate_operator_def sbind_Inr_iff require_arity_def require_all_def require_same_def
        require_numeric_def require_bitvec_def first_sort_def binop_of_def split: z3sort.splits)
  then show ?thesis unfolding op unfolding es by (rule bin2)
qed

lemma compile_nary:
  assumes "op \<in> set [''and'', ''or'', ''xor'', ''distinct'', ''add'', ''mul'']"
    and "validate_operator op (map sort_of es) = Inr s"
  shows "yields sort_of (compile_op z op es) s"
proof -
  have "length es \<ge> 2"
    using assms unfolding list.set insert_iff empty_iff
    by (elim disjE) (simp_all add: validate_operator_def sbind_Inr_iff require_range_def)
  then obtain a as where es: "es = a # as" by (cases es) auto
  have same: "\<forall>e \<in> set es. sort_of e = sort_of a"
    using assms(2,1) unfolding es list.set insert_iff empty_iff
    by (elim disjE)
      (simp_all add: validate_operator_def sbind_Inr_iff require_range_def require_all_def require_same_def list_all_iff)
  have sort: "if op \<in> set [''and'', ''or'', ''xor''] then s = SBool \<and> sort_of a = SBool
      else if op = ''distinct'' then s = SBool else s = sort_of a \<and> sort_of a \<noteq> SBool"
    using assms(2,1) unfolding es list.set insert_iff empty_iff
    by (elim disjE)
      (simp_all add: validate_operator_def sbind_Inr_iff require_range_def require_all_def require_same_def
        require_numeric_def first_sort_def split: z3sort.splits)
  have as: "\<forall>e \<in> set as. sort_of e = sort_of a" using same es by simp
  have fold: "yields sort_of (fold_bin (z_bin z bop) a as) (sort_of a)"
    if "bin_sort bop (sort_of a) (sort_of a) = Some (sort_of a)" for bop
    by (rule fold_bin_sort [OF that refl as])
  have dis: "yields sort_of (z_distinct z (a # as)) SBool"
    using distinct_args [OF _ same] by (simp add: es)
  have ao: "yields sort_of (z_and z (a # as)) SBool \<and> yields sort_of (z_or z (a # as)) SBool" if "sort_of a = SBool"
    by (rule and_or) (use as that in auto)
  have f: "sort_of a = SBool \<Longrightarrow> yields sort_of (fold_bin (z_bin z ZXor) a as) SBool"
    "sort_of a \<noteq> SBool \<Longrightarrow> yields sort_of (fold_bin (z_bin z ZAdd) a as) (sort_of a)"
    "sort_of a \<noteq> SBool \<Longrightarrow> yields sort_of (fold_bin (z_bin z ZMul) a as) (sort_of a)"
    using fold [of ZXor] fold [of ZAdd] fold [of ZMul] by simp_all
  from assms(1) sort show ?thesis
    unfolding list.set insert_iff empty_iff es
    by (elim disjE) (simp_all add: compile_op_def arg_at_def dis ao f)
qed

lemma compile_ne:
  assumes "validate_operator ''ne'' (map sort_of es) = Inr s"
  shows "yields sort_of (compile_op z ''ne'' es) s"
proof -
  have v: "validate_operator ''eq'' (map sort_of es) = Inr SBool" "s = SBool"
    using assms by (simp_all add: validate_operator_def sbind_Inr_iff require_arity_def require_same_def)
  have "yields sort_of (compile_op z ''eq'' es) SBool" by (rule compile_binary [OF _ v(1)]) simp
  then have "yields sort_of (sbind (compile_op z ''eq'' es) (z_not z)) SBool"
    by (rule yields_bind) (rule not_arg)
  then show ?thesis using v(2) by (simp add: compile_op_def)
qed

lemma compile_ite:
  assumes "validate_operator ''ite'' (map sort_of es) = Inr s"
  shows "yields sort_of (compile_op z ''ite'' es) s"
proof -
  have "length es = 3"
    using assms by (simp add: validate_operator_def sbind_Inr_iff require_arity_def)
  then obtain c a b where es: "es = [c, a, b]" by (auto simp: numeral_3_eq_3 length_Suc_conv)
  from assms ite_args [of c a b] show ?thesis
    unfolding es
    by (simp add: validate_operator_def sbind_Inr_iff require_arity_def compile_op_def arg_at_def split: if_splits)
qed

lemma compile_operator:
  assumes "op \<in> set OPERATORS" "validate_operator op (map sort_of es) = Inr s"
  shows "yields sort_of (compile_op z op es) s"
proof -
  have "op \<in> set [''not'', ''neg'', ''bvnot''] \<or>
    op \<in> set [''implies'', ''eq'', ''lt'', ''lte'', ''gt'', ''gte'', ''sub'', ''bvand'', ''bvor'', ''bvxor'', ''bvshl'', ''bvlshr''] \<or>
    op \<in> set [''and'', ''or'', ''xor'', ''distinct'', ''add'', ''mul''] \<or> op = ''ne'' \<or> op = ''ite''"
    using assms(1) unfolding OPERATORS_def BOOL_OPERATORS_def RELATION_OPERATORS_def ARITHMETIC_OPERATORS_def
      BITVEC_OPERATORS_def append.simps list.set insert_iff empty_iff
    by (elim disjE) simp_all
  then show ?thesis
    using assms(2) by (elim disjE) (simp_all only: compile_unary compile_binary compile_nary compile_ne compile_ite)
qed

definition env_ok :: "(string \<times> 'e) list \<Rightarrow> symtab \<Rightarrow> bool" where
  "env_ok env syms \<longleftrightarrow> (\<forall>n s. map_of syms n = Some s \<longrightarrow> (\<exists>e. map_of env n = Some e \<and> sort_of e = s))"

lemma env_ok_symbols: "env_ok (compile_symbols z syms) syms"
  unfolding env_ok_def compile_symbols_def
  by (induction syms) (auto simp: const_sort)

lemma compile_leaf_sort:
  assumes "env_ok env syms" "op \<in> set LEAF_OPS" "validate_leaf op d syms = Inr s"
  shows "yields sort_of (compile_leaf z env op d) s"
proof -
  have dindex: "dget d k \<noteq> PNone \<Longrightarrow> dindex d k = Inr (dget d k)" for k
    by (auto simp: dindex_def dget_def split: option.splits)
  consider "op = ''symbol''" | "op = ''bool''" | "op = ''int''" | "op = ''bitvec''"
    using assms(2) unfolding LEAF_OPS_def by auto
  then show ?thesis
  proof cases
    case 1
    then obtain name where "dget d ''name'' = PStr name" "map_of syms name = Some s"
      using assms(3) by (auto simp: validate_leaf_def split: if_splits pyval.splits option.splits)
    moreover from this(2) obtain e where "map_of env name = Some e" "sort_of e = s"
      using assms(1) unfolding env_ok_def by blast
    ultimately show ?thesis using 1 dindex [of "''name''"] by (simp add: compile_leaf_def)
  next
    case 2
    then obtain b where "dget d ''value'' = PBool b" "s = SBool"
      using assms(3) by (auto simp: validate_leaf_def is_PBool_def split: if_splits)
    then show ?thesis using 2 dindex [of "''value''"] bool_val [of b] by (simp add: compile_leaf_def)
  next
    case 3
    then obtain i where "dget d ''value'' = PInt i" "s = SInt"
      using assms(3) by (auto simp: validate_leaf_def is_PInt_def split: if_splits)
    then show ?thesis using 3 dindex [of "''value''"] int_val [of i] by (simp add: compile_leaf_def)
  next
    case 4
    then obtain i w where "dget d ''value'' = PInt i" "dget d ''width'' = PInt w" "1 \<le> w" "s = SBitVec w"
      using assms(3)
      by (auto simp: validate_leaf_def is_PInt_def sbind_Inr_iff validate_width_def split: if_splits pyval.splits)
    then show ?thesis
      using 4 dindex [of "''value''"] dindex [of "''width''"] bv_val [of w i] by (simp add: compile_leaf_def)
  qed
qed

text \<open>Type soundness of compilation: a well-sorted node compiles, to a term of its sort.\<close>

lemma compile_expr_sort:
  assumes "env_ok env syms" "has_sort syms node s"
  shows "yields sort_of (compile_expr z env node) s"
  using assms(2)
proof (induction rule: has_sort.induct)
  case (leaf d op s)
  have "map_of d ''op'' = Some (PStr op)"
    using leaf(1) by (auto simp: dget_def split: option.splits)
  then show ?case using compile_leaf_sort [OF assms(1) leaf(2,3)] leaf(2) by simp
next
  case (app d op as ss s)
  have op: "map_of d ''op'' = Some (PStr op)" "map_of d ''args'' = Some (PList as)"
    using app.hyps(1,4) by (auto simp: dget_def split: option.splits)
  have "list_all2 (\<lambda>a t. yields sort_of (compile_expr z env a) t) as ss"
    using app.IH by (rule list_all2_mono) simp
  then have "\<exists>es. compile_exprs z env as = Inr es \<and> map sort_of es = ss"
    by (induction as ss rule: list_all2_induct) (auto simp: yields_def)
  then obtain es where es: "compile_exprs z env as = Inr es" "map sort_of es = ss" by blast
  have "yields sort_of (compile_op z op es) s"
    by (rule compile_operator [OF app.hyps(2)]) (use app.hyps(6) es(2) in simp)
  then show ?case
    using op es(1) app.hyps(2) leaf_not_operator [of op] by auto
qed

end

section \<open>A binding that evaluates\<close>

text \<open>
  Terms as a sort and a value in every model. A bit vector of width \<open>w\<close> is a number below \<open>2 ^ w\<close>;
  Python's comparison operators on Z3 bit vectors are the signed ones.
\<close>

unbundle bit_operations_syntax

datatype z3val = VB (vb: bool) | VI (vi: int)

record z3term =
  zt_sort :: z3sort
  zt_eval :: "(string \<Rightarrow> z3val) \<Rightarrow> z3val"

definition wrap_val :: "z3sort \<Rightarrow> int \<Rightarrow> z3val" where
  "wrap_val s x = VI (case s of SBitVec w \<Rightarrow> x mod 2 ^ nat w | _ \<Rightarrow> x)"

definition signed_val :: "z3sort \<Rightarrow> int \<Rightarrow> int" where
  "signed_val s x = (case s of SBitVec w \<Rightarrow> (if 2 * x < 2 ^ nat w then x else x - 2 ^ nat w) | _ \<Rightarrow> x)"

fun bin_val :: "z3_binop \<Rightarrow> z3sort \<Rightarrow> z3val \<Rightarrow> z3val \<Rightarrow> z3val" where
  "bin_val ZImplies s v w = VB (vb v \<longrightarrow> vb w)"
| "bin_val ZXor s v w = VB (vb v \<noteq> vb w)"
| "bin_val ZEq s v w = VB (v = w)"
| "bin_val ZLt s v w = VB (signed_val s (vi v) < signed_val s (vi w))"
| "bin_val ZLe s v w = VB (signed_val s (vi v) \<le> signed_val s (vi w))"
| "bin_val ZGt s v w = VB (signed_val s (vi v) > signed_val s (vi w))"
| "bin_val ZGe s v w = VB (signed_val s (vi v) \<ge> signed_val s (vi w))"
| "bin_val ZAdd s v w = wrap_val s (vi v + vi w)"
| "bin_val ZMul s v w = wrap_val s (vi v * vi w)"
| "bin_val ZSub s v w = wrap_val s (vi v - vi w)"
| "bin_val ZBvAnd s v w = VI (vi v AND vi w)"
| "bin_val ZBvOr s v w = VI (vi v OR vi w)"
| "bin_val ZBvXor s v w = VI (vi v XOR vi w)"
| "bin_val ZShl s v w = wrap_val s (vi v * 2 ^ nat (vi w))"
| "bin_val ZLShr s v w = VI (vi v div 2 ^ nat (vi w))"

definition z3_fail :: "pyexn + z3term" where
  "z3_fail = Inl (PyOtherError ''Z3Exception'')"

definition eval_ops :: "z3term z3_ops" where
  "eval_ops =
     \<lparr> z_const = (\<lambda>n s. \<lparr>zt_sort = s, zt_eval = (\<lambda>m. m n)\<rparr>),
       z_bool_val = (\<lambda>v. case v of PBool b \<Rightarrow> Inr \<lparr>zt_sort = SBool, zt_eval = (\<lambda>m. VB b)\<rparr> | _ \<Rightarrow> z3_fail),
       z_int_val = (\<lambda>v. case v of PInt i \<Rightarrow> Inr \<lparr>zt_sort = SInt, zt_eval = (\<lambda>m. VI i)\<rparr> | _ \<Rightarrow> z3_fail),
       z_bv_val = (\<lambda>v w. case (v, w) of
          (PInt i, PInt n) \<Rightarrow>
            (if 1 \<le> n then Inr \<lparr>zt_sort = SBitVec n, zt_eval = (\<lambda>m. wrap_val (SBitVec n) i)\<rparr> else z3_fail)
        | _ \<Rightarrow> z3_fail),
       z_and = (\<lambda>es. if list_all (\<lambda>e. zt_sort e = SBool) es
          then Inr \<lparr>zt_sort = SBool, zt_eval = (\<lambda>m. VB (list_all (\<lambda>e. vb (zt_eval e m)) es))\<rparr> else z3_fail),
       z_or = (\<lambda>es. if list_all (\<lambda>e. zt_sort e = SBool) es
          then Inr \<lparr>zt_sort = SBool, zt_eval = (\<lambda>m. VB (list_ex (\<lambda>e. vb (zt_eval e m)) es))\<rparr> else z3_fail),
       z_distinct = (\<lambda>es. if list_all (\<lambda>e. zt_sort e = zt_sort (hd es)) es
          then Inr \<lparr>zt_sort = SBool, zt_eval = (\<lambda>m. VB (distinct (map (\<lambda>e. zt_eval e m) es)))\<rparr> else z3_fail),
       z_not = (\<lambda>e. if zt_sort e = SBool then Inr \<lparr>zt_sort = SBool, zt_eval = (\<lambda>m. VB (\<not> vb (zt_eval e m)))\<rparr> else z3_fail),
       z_neg = (\<lambda>e. if zt_sort e \<noteq> SBool
          then Inr (e\<lparr>zt_eval := (\<lambda>m. wrap_val (zt_sort e) (- vi (zt_eval e m)))\<rparr>) else z3_fail),
       z_bvnot = (\<lambda>e. if zt_sort e \<noteq> SBool \<and> zt_sort e \<noteq> SInt
          then Inr (e\<lparr>zt_eval := (\<lambda>m. wrap_val (zt_sort e) (- vi (zt_eval e m) - 1))\<rparr>) else z3_fail),
       z_bin = (\<lambda>bop a b. case bin_sort bop (zt_sort a) (zt_sort b) of
          None \<Rightarrow> z3_fail
        | Some s \<Rightarrow> Inr \<lparr>zt_sort = s, zt_eval = (\<lambda>m. bin_val bop (zt_sort a) (zt_eval a m) (zt_eval b m))\<rparr>),
       z_ite = (\<lambda>c a b. if zt_sort c = SBool \<and> zt_sort a = zt_sort b
          then Inr (a\<lparr>zt_eval := (\<lambda>m. if vb (zt_eval c m) then zt_eval a m else zt_eval b m)\<rparr>) else z3_fail) \<rparr>"

interpretation eval_backend: z3_backend eval_ops zt_sort
  by unfold_locales (auto simp: eval_ops_def list_all_iff)

section \<open>Evaluation and receipts\<close>

datatype z3_answer = ZSat | ZUnsat | ZUnknown string

fun exn_name :: "pyexn \<Rightarrow> string" where
  "exn_name PyTypeError = ''TypeError''"
| "exn_name PyValueError = ''ValueError''"
| "exn_name PyKeyError = ''KeyError''"
| "exn_name PyIndexError = ''IndexError''"
| "exn_name PyRuntimeError = ''RuntimeError''"
| "exn_name (PyOtherError n) = n"

text \<open>The status and reason of an answer.\<close>

fun answer_status :: "z3_answer \<Rightarrow> string \<times> string" where
  "answer_status ZSat = (''sat'', [])"
| "answer_status ZUnsat = (''unsat'', [])"
| "answer_status (ZUnknown r) =
     (let reason = str_or r ''unknown''; l = lower reason
      in (if infix_of ''timeout'' l \<or> infix_of ''canceled'' l then ''timeout'' else ''unknown'', reason))"

definition z3_receipt :: "(pyval \<Rightarrow> string) \<Rightarrow> string \<Rightarrow> string \<Rightarrow> string \<Rightarrow> string \<Rightarrow> string \<Rightarrow> string \<Rightarrow> ver_result" where
  "z3_receipt hash status sha expected fingerprint formal_kind reason =
     (let passed = (status = expected);
          replayable = (status \<in> set [''sat'', ''unsat'']);
          vstatus = (if passed then ''preliminary_passed'' else if replayable then ''preliminary_failed''
                     else if status \<in> set [''unknown'', ''timeout''] then ''inconclusive'' else ''not_run'')
      in \<lparr> vs_passed = passed, vs_score = (if passed then 1 else 0), vs_strength = SNone,
           vs_evidence_ref = ''evidence-z3-'' @ take 16 (hash (PDict [(''dsl_sha256'', PStr sha), (''status'', PStr status)])),
           vs_replayable = replayable,
           vs_diagnostics = [''z3_status:'' @ status, ''formal_kind:'' @ formal_kind] @
             (if reason \<noteq> [] then [''z3_reason:'' @ reason] else []),
           vs_metadata =
             [(''fingerprint'', PStr (str_or fingerprint (''verifier-'' @ take 16 sha))),
              (''cli_not_attempted'', PBool True), (''oracle_kind'', PStr ''formal''),
              (''diagnostics_only'', PBool (\<not> replayable)),
              (''replay_verified'', PBool (passed \<and> replayable)),
              (''validation_status'', PStr vstatus), (''formal_kind'', PStr formal_kind), (''z3_status'', PStr status),
              (''z3_expected_status'', PStr expected), (''z3_dsl_sha256'', PStr sha), (''z3_reason'', PStr reason),
              (''z3_timeout_ms'', PInt Z3_TIMEOUT_MS),
              (''z3_limits'', PDict
                 [(''max_symbols'', PInt (int MAX_SYMBOLS)), (''max_constraints'', PInt (int MAX_CONSTRAINTS)),
                  (''max_ast_depth'', PInt (int MAX_AST_DEPTH)), (''max_ast_nodes'', PInt (int MAX_AST_NODES)),
                  (''max_operator_args'', PInt (int MAX_OPERATOR_ARGS)), (''max_bitvec_width'', PInt MAX_BITVEC_WIDTH),
                  (''max_integer_bits'', PInt (int MAX_INTEGER_BITS))])] \<rparr>)"

text \<open>\<open>dsl["constraints"]\<close> of a validated description.\<close>

definition dsl_constraints :: "pyval \<Rightarrow> pyval list" where
  "dsl_constraints dsl = (case dget (coerce_dict dsl) ''constraints'' of PList cs \<Rightarrow> cs | _ \<Rightarrow> [])"

definition compile_dsl :: "'e z3_ops \<Rightarrow> symtab \<Rightarrow> pyval \<Rightarrow> pyexn + 'e list" where
  "compile_dsl z syms dsl = compile_exprs z (compile_symbols z syms) (dsl_constraints dsl)"

definition evaluate_z3_dsl ::
  "(pyval \<Rightarrow> string) \<Rightarrow> string + 'e z3_ops \<Rightarrow> ('e list \<Rightarrow> string + z3_answer) \<Rightarrow> pyval \<Rightarrow> string \<Rightarrow> string \<Rightarrow> string
   \<Rightarrow> pyexn + ver_result" where
  "evaluate_z3_dsl hash binding solver dsl expected fingerprint formal_kind =
     (let sha = hash dsl;
          receipt = (\<lambda>status reason. z3_receipt hash status sha expected fingerprint formal_kind reason)
      in case validate_dsl dsl of
           Inl (Rejected r) \<Rightarrow> Inr (receipt ''rejected'' r)
         | Inl (Crash e) \<Rightarrow> Inl e
         | Inr syms \<Rightarrow>
             (case binding of
                Inl name \<Rightarrow> Inr (receipt ''unavailable'' (''z3_solver_python_binding_unavailable:'' @ name))
              | Inr z \<Rightarrow>
                  (case compile_dsl z syms dsl of
                     Inl e \<Rightarrow> Inr (receipt ''unavailable'' (''z3_solver_error:'' @ exn_name e))
                   | Inr es \<Rightarrow>
                       (case solver es of
                          Inl name \<Rightarrow> Inr (receipt ''unavailable'' (''z3_solver_error:'' @ name))
                        | Inr ans \<Rightarrow> (case answer_status ans of (status, reason) \<Rightarrow> Inr (receipt status reason))))))"

section \<open>Lemmas\<close>

lemma dset_fresh: "k \<notin> dkeys d \<Longrightarrow> dset k v d = d @ [(k, v)]"
  by (induction d) (auto simp: dkeys_def)

lemma validate_symbols_Inr:
  assumes "distinct (map fst syms0)"
  shows "validate_symbols ds syms0 = Inr syms \<longleftrightarrow>
    (\<exists>new. syms = syms0 @ new \<and> list_all2 (\<lambda>d p. validate_symbol_declaration d = Inr p) ds new \<and> distinct (map fst syms))"
  using assms
proof (induction ds arbitrary: syms0)
  case (Cons d ds)
  show ?case
  proof (cases "validate_symbol_declaration d")
    case (Inl e)
    then show ?thesis by (auto simp: list_all2_Cons1)
  next
    case (Inr p)
    obtain n s where p: "p = (n, s)" by force
    show ?thesis
    proof (cases "n \<in> dkeys syms0")
      case True
      then show ?thesis using Inr p by (auto simp: list_all2_Cons1 dkeys_def)
    next
      case False
      then have "distinct (map fst (syms0 @ [(n, s)]))" using Cons.prems by (auto simp: dkeys_def)
      from Cons.IH [OF this] show ?thesis
        using Inr p False by (auto simp: list_all2_Cons1 dset_fresh)
    qed
  qed
qed auto

lemma validate_constraints_Inr:
  "validate_constraints cs syms cnt = Inr cnt' \<longleftrightarrow>
     (\<forall>c \<in> set cs. has_sort syms c SBool \<and> ast_depth c \<le> MAX_AST_DEPTH) \<and>
     cnt' = cnt + sum_list (map ast_nodes cs) \<and> (cs = [] \<or> cnt' \<le> MAX_AST_NODES)"
proof (induction cs arbitrary: cnt)
  case (Cons c cs)
  have "validate_constraints (c # cs) syms cnt = Inr cnt' \<longleftrightarrow>
      (\<exists>m. validate_expr c syms 1 cnt = Inr (SBool, m) \<and> validate_constraints cs syms m = Inr cnt')"
    by (auto simp: sbind_Inr_iff split: if_splits)
  then show ?case
    unfolding Cons.IH validate_expr_iff by auto
qed auto

lemma validate_dsl_Inr:
  "validate_dsl dsl = Inr syms \<longleftrightarrow>
     (\<exists>d decls cs. dsl = PDict d \<and> dkeys d \<subseteq> {''version'', ''symbols'', ''constraints''} \<and>
        dget_or d ''version'' (PStr ''z3_dsl/v1'') = PStr ''z3_dsl/v1'' \<and>
        dget d ''symbols'' = PList decls \<and> length decls \<le> MAX_SYMBOLS \<and>
        list_all2 (\<lambda>d p. validate_symbol_declaration d = Inr p) decls syms \<and> distinct (map fst syms) \<and>
        dget d ''constraints'' = PList cs \<and> cs \<noteq> [] \<and> length cs \<le> MAX_CONSTRAINTS \<and>
        (\<forall>c \<in> set cs. has_sort syms c SBool \<and> ast_depth c \<le> MAX_AST_DEPTH) \<and>
        sum_list (map ast_nodes cs) \<le> MAX_AST_NODES)"
proof (cases dsl)
  case (PDict d)
  have extra: "sort (filter (\<lambda>k. k \<notin> set ks) (map fst d)) = [] \<longleftrightarrow> dkeys d \<subseteq> set ks" for ks
  proof -
    have "sort xs = [] \<longleftrightarrow> xs = []" for xs :: "string list" by (metis length_0_conv length_sort)
    then show ?thesis unfolding dkeys_def by (simp only: filter_empty_conv not_not subset_code(1))
  qed
  let ?v = "dget_or d ''version'' (PStr ''z3_dsl/v1'') = PStr ''z3_dsl/v1''"
  let ?k = "dkeys d \<subseteq> {''version'', ''symbols'', ''constraints''}"
  show ?thesis
  proof (cases "\<exists>decls cs. dget d ''symbols'' = PList decls \<and> dget d ''constraints'' = PList cs")
    case False
    then have "\<forall>syms. validate_dsl dsl \<noteq> Inr syms"
      using PDict by (auto simp: validate_dsl_def Let_def split: pyval.splits if_splits)
    then show ?thesis using False PDict by auto
  next
    case True
    then obtain decls cs where l: "dget d ''symbols'' = PList decls" "dget d ''constraints'' = PList cs" by blast
    have "validate_dsl dsl = Inr syms \<longleftrightarrow>
        ?k \<and> ?v \<and> length decls \<le> MAX_SYMBOLS \<and> cs \<noteq> [] \<and> length cs \<le> MAX_CONSTRAINTS \<and>
        validate_symbols decls [] = Inr syms \<and> (\<exists>n. validate_constraints cs syms 0 = Inr n)"
      using extra [of "[''version'', ''symbols'', ''constraints'']"]
      by (simp add: PDict l validate_dsl_def Let_def sbind_Inr_iff not_less)
    then show ?thesis
      unfolding validate_symbols_Inr [of "[]", simplified] validate_constraints_Inr PDict
      using l by simp blast
  qed
qed (simp_all add: validate_dsl_def)

section \<open>Properties\<close>


text \<open>
  C2: type soundness. On every binding with Z3's sort discipline a validated description compiles:
  no lookup fails, no index is out of range, no constructor raises, and every constraint becomes a
  Boolean term.
\<close>

theorem validated_dsl_compiles:
  assumes "z3_backend z sort_of" "validate_dsl dsl = Inr syms"
  shows "\<exists>es. compile_dsl z syms dsl = Inr es \<and> length es = length (dsl_constraints dsl) \<and>
    (\<forall>e \<in> set es. sort_of e = SBool)"
proof -
  have env: "z3_backend.env_ok sort_of (compile_symbols z syms) syms"
    by (rule z3_backend.env_ok_symbols [OF assms(1)])
  have "\<exists>es. compile_exprs z (compile_symbols z syms) cs = Inr es \<and> length es = length cs \<and> (\<forall>e \<in> set es. sort_of e = SBool)"
    if "\<forall>c \<in> set cs. has_sort syms c SBool" for cs
    using that
  proof (induction cs)
    case (Cons c cs)
    then have "yields sort_of (compile_expr z (compile_symbols z syms) c) SBool"
      by (intro z3_backend.compile_expr_sort [OF assms(1) env]) simp
    with Cons show ?case by (auto simp: yields_def)
  qed simp
  moreover have "\<forall>c \<in> set (dsl_constraints dsl). has_sort syms c SBool"
    using assms(2) by (auto simp: validate_dsl_Inr dsl_constraints_def)
  ultimately show ?thesis by (simp add: compile_dsl_def)
qed

text \<open>
  A receipt is replayable only when the solver itself answered sat or unsat on the compiled
  constraints of a validated description, and marked replay-verified exactly when that answer is the expected one.
  Rejected, unavailable and undecided runs never are.
\<close>

theorem z3_receipt_sound:
  assumes "evaluate_z3_dsl hash binding solver dsl expected fingerprint formal_kind = Inr r"
  shows "(vs_replayable r \<longleftrightarrow>
      (\<exists>syms z es. validate_dsl dsl = Inr syms \<and> binding = Inr z \<and> compile_dsl z syms dsl = Inr es \<and>
         (solver es = Inr ZSat \<or> solver es = Inr ZUnsat))) \<and>
    (dget (vs_metadata r) ''replay_verified'' = PBool True \<longleftrightarrow>
      (\<exists>syms z es. validate_dsl dsl = Inr syms \<and> binding = Inr z \<and> compile_dsl z syms dsl = Inr es \<and>
         (solver es = Inr ZSat \<and> expected = ''sat'' \<or> solver es = Inr ZUnsat \<and> expected = ''unsat'')))"
proof -
  have ans: "fst (answer_status a) = ''sat'' \<longleftrightarrow> a = ZSat" "fst (answer_status a) = ''unsat'' \<longleftrightarrow> a = ZUnsat" for a
    by (cases a; simp add: Let_def)+
  have rec: "vs_replayable (z3_receipt hash status sha expected fingerprint formal_kind reason) \<longleftrightarrow>
      status = ''sat'' \<or> status = ''unsat''"
    "dget (vs_metadata (z3_receipt hash status sha expected fingerprint formal_kind reason)) ''replay_verified'' = PBool True \<longleftrightarrow>
      status = expected \<and> (status = ''sat'' \<or> status = ''unsat'')" for status sha reason
    by (simp_all add: z3_receipt_def Let_def dget_def)
  show ?thesis
  proof (cases "validate_dsl dsl")
    case (Inl e)
    with assms show ?thesis by (cases e) (auto simp: evaluate_z3_dsl_def Let_def rec)
  next
    case (Inr syms)
    show ?thesis
    proof (cases "\<exists>z es ans. binding = Inr z \<and> compile_dsl z syms dsl = Inr es \<and> solver es = Inr ans")
      case True
      then obtain z es ans where b: "binding = Inr z" "compile_dsl z syms dsl = Inr es" "solver es = Inr ans" by blast
      have r: "r = z3_receipt hash (fst (answer_status ans)) (hash dsl) expected fingerprint formal_kind (snd (answer_status ans))"
        using assms Inr b by (simp add: evaluate_z3_dsl_def Let_def split_beta)
      show ?thesis
        using Inr b ans [of ans] unfolding r rec by auto
    next
      case False
      then have "\<exists>reason. r = z3_receipt hash ''unavailable'' (hash dsl) expected fingerprint formal_kind reason"
        using assms Inr by (auto simp: evaluate_z3_dsl_def Let_def split: sum.splits)
      then obtain reason where r: "r = z3_receipt hash ''unavailable'' (hash dsl) expected fingerprint formal_kind reason" ..
      show ?thesis using False Inr unfolding r rec by auto
    qed
  qed
qed

text \<open>
  A declaration whose sort is an array or object is not rejected: the set membership test of the
  validator raises TypeError, which is not the exception \<open>evaluate_z3_dsl\<close> handles, so the evaluation raises.
\<close>

theorem z3_unhashable_sort_escapes:
  assumes "dget d ''name'' = PStr n" "symbol_name_ok n" "dget d ''sort'' = PList xs"
  shows "evaluate_z3_dsl hash binding solver
      (PDict [(''symbols'', PList [PDict d]), (''constraints'', PList [c])]) expected fingerprint formal_kind = Inl PyTypeError"
  using assms
  by (simp add: evaluate_z3_dsl_def Let_def validate_dsl_def dget_or_def dget_def [of _ "''symbols''"]
      dget_def [of _ "''constraints''"] validate_symbol_declaration_def MAX_SYMBOLS_def MAX_CONSTRAINTS_def)

section \<open>Witnesses\<close>

text \<open>One integer below three.\<close>

definition demo_dsl :: pyval where
  "demo_dsl = PDict
     [(''symbols'', PList [PDict [(''name'', PStr ''x''), (''sort'', PStr ''Int'')]]),
      (''constraints'', PList [PDict [(''op'', PStr ''lt''), (''args'', PList
         [PDict [(''op'', PStr ''symbol''), (''name'', PStr ''x'')], PDict [(''op'', PStr ''int''), (''value'', PInt 3)]])]])]"

text \<open>A solver that tries the value 0 for every symbol.\<close>

definition demo_solver :: "z3term list \<Rightarrow> string + z3_answer" where
  "demo_solver es = Inr (if list_all (\<lambda>e. vb (zt_eval e (\<lambda>n. VI 0))) es then ZSat else ZUnknown [])"

lemma demo_dsl_valid: "validate_dsl demo_dsl = Inr [(''x'', SInt)]"
  by code_simp

theorem validated_dsl_compiles_witness:
  "\<exists>es. compile_dsl eval_ops [(''x'', SInt)] demo_dsl = Inr es \<and> length es = 1 \<and> (\<forall>e \<in> set es. zt_sort e = SBool)"
proof -
  have "length (dsl_constraints demo_dsl) = 1" by (simp add: demo_dsl_def dsl_constraints_def dget_def)
  with validated_dsl_compiles [OF eval_backend.z3_backend_axioms demo_dsl_valid] show ?thesis by simp
qed

theorem z3_receipt_sound_witness:
  "\<exists>r. evaluate_z3_dsl (\<lambda>v. ''00'') (Inr eval_ops) demo_solver demo_dsl ''sat'' [] ''satisfiability'' = Inr r \<and> vs_replayable r"
proof -
  have "map_sum (\<lambda>_. ()) vs_replayable
      (evaluate_z3_dsl (\<lambda>v. ''00'') (Inr eval_ops) demo_solver demo_dsl ''sat'' [] ''satisfiability'') = Inr True"
    by code_simp
  then obtain r where r: "evaluate_z3_dsl (\<lambda>v. ''00'') (Inr eval_ops) demo_solver demo_dsl ''sat'' [] ''satisfiability'' = Inr r"
      "vs_replayable r"
    by (cases "evaluate_z3_dsl (\<lambda>v. ''00'') (Inr eval_ops) demo_solver demo_dsl ''sat'' [] ''satisfiability''") simp_all
  from z3_receipt_sound [OF r(1)] r show ?thesis by blast
qed

theorem z3_unhashable_sort_escapes_witness:
  "evaluate_z3_dsl (\<lambda>v. ''00'') (Inr eval_ops) demo_solver
     (PDict [(''symbols'', PList [PDict [(''name'', PStr ''x''), (''sort'', PList [])]]), (''constraints'', PList [PNone])])
     ''sat'' [] ''satisfiability'' = Inl PyTypeError"
  by (rule z3_unhashable_sort_escapes [where n = "''x''" and xs = "[]"]) (simp_all add: dget_def symbol_name_ok_def is_alpha_def is_lower_def)


end
