(* ===== verification/Honesty.thy ===== *)
theory Honesty
  imports VerificationTypes Genome
begin

text \<open>
  verification/honesty_core.py, strength.py, grading.py and replay_runner.py: the engine's own
  measurements of a verifier, the strength they allow, the strength of a candidate as the best of its
  measured results, and the final grading gate. \<open>stable_hash\<close> is the argument \<open>hash\<close>.
\<close>

section \<open>Probes, regimes, measurements\<close>

record probe_case =
  pb_probe_id :: string
  pb_content :: string
  pb_provenance :: string
  pb_expected_flip :: bool
  pb_template_id :: string
  pb_parameters :: pydict

definition probe_case_to_dict :: "probe_case \<Rightarrow> pydict" where
  "probe_case_to_dict p =
     [(''probe_id'', PStr (pb_probe_id p)), (''content'', PStr (pb_content p)), (''provenance'', PStr (pb_provenance p)),
      (''expected_verdict_flip'', PBool (pb_expected_flip p)), (''template_id'', PStr (pb_template_id p)),
      (''parameters'', PDict (pb_parameters p))]"

record regime =
  rg_regime_id :: string
  rg_probes :: "probe_case list"
  rg_adversarial_budget :: int
  rg_isolation_enforced :: bool
  rg_artifact_hash :: string
  rg_fingerprint :: string
  rg_oracle_kind :: string
  rg_probe_signature :: string

definition regime_to_dict :: "regime \<Rightarrow> pydict" where
  "regime_to_dict g =
     [(''regime_id'', PStr (rg_regime_id g)), (''probes'', PList (map (\<lambda>p. PDict (probe_case_to_dict p)) (rg_probes g))),
      (''adversarial_budget'', PInt (rg_adversarial_budget g)), (''isolation_enforced'', PBool (rg_isolation_enforced g)),
      (''replay_artifact_hash'', PStr (rg_artifact_hash g)), (''verifier_fingerprint'', PStr (rg_fingerprint g)),
      (''oracle_kind'', PStr (rg_oracle_kind g)), (''probe_signature'', PStr (rg_probe_signature g))]"

record measurements =
  hm_exogeneity :: rat
  hm_variety :: rat
  hm_falsification :: rat
  hm_replay :: rat
  hm_diagnostics :: "string list"

definition measurements_to_dict :: "measurements \<Rightarrow> pydict" where
  "measurements_to_dict m =
     [(''exogeneity_score'', PFloat (hm_exogeneity m)), (''variety_score'', PFloat (hm_variety m)),
      (''falsification_score'', PFloat (hm_falsification m)), (''replay_score'', PFloat (hm_replay m)),
      (''diagnostics'', PList (map PStr (hm_diagnostics m)))]"

definition TRUSTED_PROVENANCES :: "string list" where
  "TRUSTED_PROVENANCES = [''archive'', ''user'', ''tool'', ''engine_counterexample'', ''engine'']"

definition trusted_probes :: "regime \<Rightarrow> probe_case list" where
  "trusted_probes g = filter (\<lambda>p. pb_provenance p \<in> set TRUSTED_PROVENANCES) (rg_probes g)"

text \<open>The verdict an observation reports for a probe.\<close>

definition observed_flip :: "pyval \<Rightarrow> bool" where
  "observed_flip v =
     (case v of
        PDict d \<Rightarrow> truthy (dget_or d ''verdict_flipped'' (dget_or d ''matched_expected_flip'' (PBool False)))
      | _ \<Rightarrow> truthy v)"

definition probe_hit :: "pydict \<Rightarrow> probe_case \<Rightarrow> bool" where
  "probe_hit observed p \<longleftrightarrow>
     pb_probe_id p \<in> dkeys observed \<and> observed_flip (dget observed (pb_probe_id p)) = pb_expected_flip p"

definition survived_count :: "pydict \<Rightarrow> int" where
  "survived_count observed = (case py_int (dget observed ''survived_count'') of Inr n \<Rightarrow> n | Inl _ \<Rightarrow> 0)"

definition measure_honesty :: "regime \<Rightarrow> pydict \<Rightarrow> pydict \<Rightarrow> measurements" where
  "measure_honesty g observed replay =
     (let trusted = trusted_probes g;
          d1 = (if rg_probes g \<noteq> [] \<and> length trusted \<noteq> length (rg_probes g)
                then [''untrusted_probe_provenance_ignored''] else []);
          missing = map (\<lambda>p. ''probe_not_observed:'' @ pb_probe_id p)
                      (filter (\<lambda>p. pb_probe_id p \<notin> dkeys observed) trusted);
          hits = length (filter (probe_hit observed) trusted);
          exo = (if trusted \<noteq> [] then of_nat hits / of_nat (max 1 (length trusted)) else 0);
          d2 = (if trusted \<noteq> [] then missing else [''no_engine_injected_probe'']);
          known = truthy (dget observed ''known_good_bad_distinguishable'');
          var = (if rg_isolation_enforced g \<and> known then 1 else 0);
          d3 = (if rg_isolation_enforced g then [] else [''isolation_not_engine_enforced'']);
          d4 = (if known then [] else [''known_good_bad_not_distinguished'']);
          budget = max 0 (rg_adversarial_budget g);
          fal = (if budget \<le> 0 then 0
                 else max 0 (min 1 (of_int (survived_count observed) / of_int (max 1 budget))));
          d5 = (if budget \<le> 0 then [''no_engine_adversarial_budget''] else []);
          artifact_match = (str_field (py_or (dget replay ''frozen_artifact_hash'') (dget replay ''artifact_sha256'')) []
                              = rg_artifact_hash g);
          fingerprint_match = (str_field (dget replay ''verifier_fingerprint'') [] = rg_fingerprint g);
          rep = (if artifact_match \<and> fingerprint_match \<and> py_is_true (dget replay ''replay_verified'') then 1 else 0);
          d6 = (if rep \<le> 0 then [''replay_record_missing_or_mismatched''] else [])
      in \<lparr>hm_exogeneity = exo, hm_variety = var, hm_falsification = fal, hm_replay = rep,
          hm_diagnostics = d1 @ d2 @ d3 @ d4 @ d5 @ d6\<rparr>)"

definition oracle_cap :: "string \<Rightarrow> strength" where
  "oracle_cap kind0 =
     (let kind = lower (strip kind0) in
      if kind = ''formal'' then SFormal
      else if kind \<in> set [''executable'', ''toolrunner'', ''tool_runner''] then SExecutable
      else if kind = ''empirical'' then SEmpirical
      else if kind = ''decomposed'' then SDecomposed
      else SAdversarial)"

definition measured_cap :: "measurements \<Rightarrow> strength" where
  "measured_cap m =
     (if hm_exogeneity m = 0 \<or> hm_variety m = 0 then SNone
      else if hm_replay m = 0 then SAdversarial
      else if hm_falsification m < 1 / 4 then SAdversarial
      else if hm_falsification m < 1 / 2 then SDecomposed
      else if hm_falsification m < 3 / 4 then SEmpirical
      else SExecutable)"

definition strength_from_measurements :: "measurements \<Rightarrow> string \<Rightarrow> strength \<Rightarrow> strength" where
  "strength_from_measurements m oracle_kind bound =
     min (min (measured_cap m) (oracle_cap oracle_kind)) bound"

record measured_result =
  mr_raw :: ver_result
  mr_measurements :: measurements
  mr_strength :: strength
  mr_regime_id :: string
  mr_replay_record :: pydict

definition measure_verification_result :: "ver_result \<Rightarrow> regime \<Rightarrow> pydict \<Rightarrow> pydict \<Rightarrow> measured_result" where
  "measure_verification_result raw g observed replay =
     (let m = measure_honesty g observed replay;
          bound = (if truthy (dget (vs_metadata raw) ''diagnostics_only'') \<or> truthy (dget (vs_metadata raw) ''legacy'')
                      \<or> vs_strength raw = SNone
                   then strength_from_value (dget (vs_metadata raw) ''certification_upper_bound'')
                   else vs_strength raw)
      in \<lparr>mr_raw = raw, mr_measurements = m,
          mr_strength = strength_from_measurements m (rg_oracle_kind g) bound,
          mr_regime_id = rg_regime_id g, mr_replay_record = replay\<rparr>)"

definition to_verification_result :: "measured_result \<Rightarrow> ver_result" where
  "to_verification_result mr =
     (let raw = mr_raw mr; m = mr_measurements mr;
          md0 = vs_metadata raw;
          diag_only = truthy (dget md0 ''diagnostics_only'');
          legacy = truthy (dget md0 ''legacy'')
      in \<lparr> vs_passed = vs_passed raw,
           vs_score = vs_score raw,
           vs_strength = mr_strength mr,
           vs_evidence_ref = vs_evidence_ref raw,
           vs_replayable = (vs_replayable raw \<and> hm_replay m \<ge> 1),
           vs_diagnostics = dedupe (filter (\<lambda>s. s \<noteq> []) (vs_diagnostics raw @ hm_diagnostics m)),
           vs_metadata = dupdate md0
             [(''measured_strength'', PStr (strength_name (mr_strength mr))),
              (''measured_strength_value'', PInt (strength_value (mr_strength mr))),
              (''honesty_measurements'', PDict (measurements_to_dict m)),
              (''grounding_regime_id'', PStr (mr_regime_id mr)),
              (''replay_record'', PDict (mr_replay_record mr)),
              (''diagnostics_only'', PBool diag_only),
              (''legacy'', PBool legacy),
              (''raw_diagnostics_only'', PBool diag_only),
              (''raw_legacy'', PBool legacy)] \<rparr>)"

section \<open>Replay records\<close>

definition VERIFIER_KEYS :: "string list" where
  "VERIFIER_KEYS = [''verification_command'', ''z3_dsl'', ''z3_formula'', ''required_claims'', ''empirical_score'']"

definition candidate_artifact_hash :: "(pyval \<Rightarrow> string) \<Rightarrow> candidate \<Rightarrow> string" where
  "candidate_artifact_hash hash c =
     (let md = cg_metadata c;
          relevant = map (\<lambda>k. (k, dget md k)) (filter (\<lambda>k. k \<in> dkeys md) VERIFIER_KEYS)
      in ''artifact-'' @ take 24 (hash (PDict
           [(''artifact'', cg_artifact c), (''artifact_type'', PStr (cg_artifact_type c)),
            (''verifier_metadata'', PDict relevant)])))"

definition REPLAYABLE_ORACLES :: "string list" where
  "REPLAYABLE_ORACLES = [''formal'', ''executable'', ''toolrunner'', ''tool_runner'', ''empirical'']"

definition build_replay_record ::
  "(pyval \<Rightarrow> string) \<Rightarrow> candidate \<Rightarrow> ver_result \<Rightarrow> string \<Rightarrow> string \<Rightarrow> string \<Rightarrow> pydict" where
  "build_replay_record hash c raw fingerprint cache_key oracle_kind =
     (let sha = candidate_artifact_hash hash c; md = vs_metadata raw;
          kind = lower (str_field (py_or (PStr oracle_kind) (dget md ''oracle_kind'')) []);
          verified = (vs_replayable raw \<and> kind \<in> set REPLAYABLE_ORACLES \<and> \<not> py_is_true (dget md ''diagnostics_only'') \<and>
             (py_is_true (dget md ''replay_verified'') \<or> py_is_true (dget md ''engine_replay_verified'')))
      in [(''frozen_artifact_hash'', PStr sha), (''artifact_sha256'', PStr sha),
          (''verifier_fingerprint'', PStr (str_field
             (py_or (py_or (PStr fingerprint) (dget md ''verifier_fingerprint'')) (dget md ''fingerprint'')) [])),
          (''verification_cache_key'', PStr cache_key), (''oracle_kind'', PStr kind),
          (''replay_verified'', PBool verified),
          (''replay_scope'', PStr (if verified then ''verifier_on_frozen_artifact'' else ''not_replay_certified''))])"

section \<open>Strength of a candidate\<close>

definition result_items :: "candidate \<Rightarrow> pyval list" where
  "result_items c =
     map PDict (cg_verification_trace c) @
     (if cg_verification_result c \<noteq> [] then [PDict (cg_verification_result c)] else []) @
     (case dget (cg_metadata c) ''verification_results'' of PList xs \<Rightarrow> xs | _ \<Rightarrow> [])"

definition result_data :: "pyval \<Rightarrow> pydict" where
  "result_data item =
     (case item of
        PDict d \<Rightarrow>
          (case py_or (dget d ''preliminary_result'') (dget d ''verification_result'') of
             PDict n \<Rightarrow> n
           | _ \<Rightarrow> d)
      | _ \<Rightarrow> [])"

definition candidate_verification_results :: "candidate \<Rightarrow> pyexn + ver_result list" where
  "candidate_verification_results c =
     list_all_ok (\<lambda>d. ver_result_from_dict (PDict d)) (filter (\<lambda>d. d \<noteq> []) (map result_data (result_items c)))"

definition measured_strength_from_result :: "ver_result \<Rightarrow> strength" where
  "measured_strength_from_result r =
     (let md = vs_metadata r in
      if truthy (dget md ''diagnostics_only'') \<or> truthy (dget md ''legacy'') then SNone
      else if \<not> is_PDict (dget md ''honesty_measurements'') then SNone
      else strength_from_value (py_or (dget md ''measured_strength'') (dget md ''measured_strength_value'')))"

definition candidate_verification_strength :: "candidate \<Rightarrow> pyexn + strength" where
  "candidate_verification_strength c =
     sbind (candidate_verification_results c) (\<lambda>rs.
       Inr (fold (\<lambda>r acc.
         if vs_passed r \<and> vs_replayable r \<and> measured_strength_from_result r > SNone
         then max acc (measured_strength_from_result r) else acc) rs SNone))"

definition better_result :: "ver_result \<Rightarrow> ver_result option \<Rightarrow> ver_result option" where
  "better_result r best =
     (let s = measured_strength_from_result r in
      if \<not> (vs_passed r \<and> vs_replayable r) \<or> s \<le> SNone then best
      else case best of
        None \<Rightarrow> Some r
      | Some b \<Rightarrow>
          (if s > measured_strength_from_result b \<or> s = measured_strength_from_result b \<and> vs_score r > vs_score b
           then Some r else Some b))"

definition strongest_passed_replayable_result :: "candidate \<Rightarrow> pyexn + ver_result option" where
  "strongest_passed_replayable_result c =
     sbind (candidate_verification_results c) (\<lambda>rs. Inr (fold better_result rs None))"

section \<open>The grading gate\<close>

definition certificate_allows :: "pydict option \<Rightarrow> strength \<Rightarrow> bool" where
  "certificate_allows certificate threshold =
     (let cert = (case certificate of Some c \<Rightarrow> c | None \<Rightarrow> []) in
      \<not> strength_from_value (py_or (dget cert ''measured_strength'') (dget cert ''measured_strength_value'')) < threshold \<and>
      str_field (dget cert ''frozen_artifact_hash'') [] \<noteq> [] \<and>
      str_field (dget cert ''verifier_fingerprint'') [] \<noteq> [] \<and>
      (case dget cert ''honesty_measurements'' of
         PDict m \<Rightarrow> list_all (\<lambda>k. dget m k \<noteq> PNone)
                     [''exogeneity_score'', ''variety_score'', ''falsification_score'', ''replay_score'']
       | _ \<Rightarrow> False))"

definition dict_field :: "pydict \<Rightarrow> string \<Rightarrow> pydict option" where
  "dict_field d k = (case dget d k of PDict m \<Rightarrow> Some m | _ \<Rightarrow> None)"

definition grade_direction :: "pydict \<Rightarrow> pyexn + direction" where
  "grade_direction =
     direction_of ''direction'' ''provide a stronger verifier or counterexample''
       ''kept because verification is below FORMAL''"

definition grade :: "pydict \<Rightarrow> graded_error + graded" where
  "grade cs =
     (let strength = strength_from_value (py_or (dget cs ''verification_strength'') (dget cs ''verification_strength_value''));
          result_data = (case dict_field cs ''preliminary_result'' of Some d \<Rightarrow> Some d | None \<Rightarrow> dict_field cs ''verified_result'');
          certificate = dict_field cs ''replay_certificate''
      in if result_data \<noteq> None \<and> result_data \<noteq> Some [] \<and> certificate_allows certificate SFormal then
           (let cert = the certificate in
            graded_make ''preliminary_result''
              (strength_from_value (py_or (dget cert ''measured_strength'') (dget cert ''measured_strength_value'')))
              (Some (verified_of (the result_data))) [] [] certificate)
         else
           sbind (lift_py (object_items (dget_or cs ''portfolio'' (PList [])))) (\<lambda>items.
           sbind (lift_py (list_all_ok grade_direction items)) (\<lambda>portfolio.
           sbind (lift_py (iter_items (py_or (dget cs ''ruled_out_map'') (PList [])))) (\<lambda>ruled.
             graded_make ''graded_portfolio'' strength None portfolio ruled certificate))))"

section \<open>Lemmas\<close>

lemma strength_bounds [simp]: "SNone \<le> s" "s \<le> SExecutable"
  by (cases s; simp add: less_eq_strength_def)+

lemma formal_le: "SFormal \<le> s \<longleftrightarrow> s = SFormal \<or> s = SExecutable"
  by (cases s) (simp_all add: less_eq_strength_def)

lemma measured_cap_formal:
  "SFormal \<le> measured_cap m \<longleftrightarrow>
     hm_exogeneity m \<noteq> 0 \<and> hm_variety m \<noteq> 0 \<and> hm_replay m \<noteq> 0 \<and> hm_falsification m \<ge> 3 / 4"
  by (auto simp: measured_cap_def formal_le)

lemma oracle_cap_formal:
  "SFormal \<le> oracle_cap k \<longleftrightarrow> lower (strip k) \<in> set [''formal'', ''executable'', ''toolrunner'', ''tool_runner'']"
  by (auto simp: oracle_cap_def Let_def formal_le)

lemma exogeneity_nonzero:
  "hm_exogeneity (measure_honesty g obs rep) \<noteq> 0 \<longleftrightarrow> (\<exists>p \<in> set (trusted_probes g). probe_hit obs p)"
proof -
  have "hm_exogeneity (measure_honesty g obs rep) =
      of_nat (length (filter (probe_hit obs) (trusted_probes g))) / of_nat (max 1 (length (trusted_probes g)))"
    by (simp add: measure_honesty_def Let_def)
  then show ?thesis by (auto simp: filter_empty_conv)
qed

lemma variety_nonzero:
  "hm_variety (measure_honesty g obs rep) \<noteq> 0 \<longleftrightarrow>
     rg_isolation_enforced g \<and> truthy (dget obs ''known_good_bad_distinguishable'')"
  by (simp add: measure_honesty_def Let_def)

lemma replay_nonzero:
  "hm_replay (measure_honesty g obs rep) \<noteq> 0 \<longleftrightarrow>
     str_field (py_or (dget rep ''frozen_artifact_hash'') (dget rep ''artifact_sha256'')) [] = rg_artifact_hash g \<and>
     str_field (dget rep ''verifier_fingerprint'') [] = rg_fingerprint g \<and> dget rep ''replay_verified'' = PBool True"
  by (simp add: measure_honesty_def Let_def py_is_true_def)

lemma falsification_ge:
  "hm_falsification (measure_honesty g obs rep) \<ge> 3 / 4 \<longleftrightarrow>
     0 < rg_adversarial_budget g \<and> 3 * rg_adversarial_budget g \<le> 4 * survived_count obs"
proof (cases "0 < rg_adversarial_budget g")
  case True
  let ?b = "rg_adversarial_budget g" and ?s = "survived_count obs"
  have "hm_falsification (measure_honesty g obs rep) \<ge> 3 / 4 \<longleftrightarrow> (3 / 4 :: rat) \<le> of_int ?s / of_int ?b"
  proof -
    have "hm_falsification (measure_honesty g obs rep) = max 0 (min 1 (of_int ?s / of_int ?b))"
      using True by (simp add: measure_honesty_def Let_def)
    moreover have "(3 / 4 :: rat) \<le> max 0 (min 1 x) \<longleftrightarrow> 3 / 4 \<le> x" for x
      by (simp add: max_def min_def)
    ultimately show ?thesis by simp
  qed
  also have "\<dots> \<longleftrightarrow> (of_int (3 * ?b) :: rat) \<le> of_int (4 * ?s)"
    using True by (simp add: field_simps)
  finally show ?thesis using True by (simp only: of_int_le_iff) simp
qed (simp add: measure_honesty_def Let_def)

section \<open>Properties\<close>

text \<open>
  C23: what a measured strength of FORMAL or more means. The engine observed at least one probe of
  trusted provenance with the expected verdict, isolation was enforced and known good and bad were told
  apart, at least three quarters of a positive adversarial budget survived, the replay record is verified
  and names this artifact and this verifier, and the oracle is formal or executable. Nothing the verifier
  reports about itself can replace one of these; it can only lower the strength.
\<close>

theorem measured_formal_iff:
  "SFormal \<le> mr_strength (measure_verification_result raw g obs rep) \<longleftrightarrow>
     (\<exists>p \<in> set (rg_probes g). pb_provenance p \<in> set TRUSTED_PROVENANCES \<and> probe_hit obs p) \<and>
     rg_isolation_enforced g \<and> truthy (dget obs ''known_good_bad_distinguishable'') \<and>
     0 < rg_adversarial_budget g \<and> 3 * rg_adversarial_budget g \<le> 4 * survived_count obs \<and>
     str_field (py_or (dget rep ''frozen_artifact_hash'') (dget rep ''artifact_sha256'')) [] = rg_artifact_hash g \<and>
     str_field (dget rep ''verifier_fingerprint'') [] = rg_fingerprint g \<and> dget rep ''replay_verified'' = PBool True \<and>
     lower (strip (rg_oracle_kind g)) \<in> set [''formal'', ''executable'', ''toolrunner'', ''tool_runner''] \<and>
     (if truthy (dget (vs_metadata raw) ''diagnostics_only'') \<or> truthy (dget (vs_metadata raw) ''legacy'') \<or>
         vs_strength raw = SNone
      then SFormal \<le> strength_from_value (dget (vs_metadata raw) ''certification_upper_bound'')
      else SFormal \<le> vs_strength raw)"
proof -
  have "SFormal \<le> mr_strength (measure_verification_result raw g obs rep) \<longleftrightarrow>
      SFormal \<le> measured_cap (measure_honesty g obs rep) \<and> SFormal \<le> oracle_cap (rg_oracle_kind g) \<and>
      (if truthy (dget (vs_metadata raw) ''diagnostics_only'') \<or> truthy (dget (vs_metadata raw) ''legacy'') \<or>
         vs_strength raw = SNone
       then SFormal \<le> strength_from_value (dget (vs_metadata raw) ''certification_upper_bound'')
       else SFormal \<le> vs_strength raw)"
    by (simp add: measure_verification_result_def Let_def strength_from_measurements_def)
  then show ?thesis
    unfolding measured_cap_formal oracle_cap_formal exogeneity_nonzero variety_nonzero replay_nonzero falsification_ge
    by (auto simp: trusted_probes_def)
qed

text \<open>
  The strength of a candidate is never claimed: it is the strongest measured strength among its
  results that passed and are replayable, NONE without one, and the strongest result found attains it.
\<close>

theorem candidate_strength_attained:
  assumes "candidate_verification_results c = Inr rs"
  shows "\<exists>s. candidate_verification_strength c = Inr s \<and>
    (\<forall>r \<in> set rs. vs_passed r \<and> vs_replayable r \<longrightarrow> measured_strength_from_result r \<le> s) \<and>
    (case strongest_passed_replayable_result c of
       Inr (Some r) \<Rightarrow> r \<in> set rs \<and> vs_passed r \<and> vs_replayable r \<and> measured_strength_from_result r = s \<and>
         (\<forall>q \<in> set rs. vs_passed q \<and> vs_replayable q \<and> measured_strength_from_result q = s \<longrightarrow> vs_score q \<le> vs_score r)
     | Inr None \<Rightarrow> s = SNone
     | Inl e \<Rightarrow> False)"
proof -
  let ?m = measured_strength_from_result
  let ?f = "\<lambda>r acc. if vs_passed r \<and> vs_replayable r \<and> ?m r > SNone then max acc (?m r) else acc"
  define ok where "ok = (\<lambda>s best xs. (\<forall>r \<in> set xs. vs_passed r \<and> vs_replayable r \<longrightarrow> ?m r \<le> s) \<and>
     (case best of
        Some r \<Rightarrow> r \<in> set xs \<and> vs_passed r \<and> vs_replayable r \<and> ?m r = s \<and> s \<noteq> SNone \<and>
          (\<forall>q \<in> set xs. vs_passed q \<and> vs_replayable q \<and> ?m q = s \<longrightarrow> vs_score q \<le> vs_score r)
      | None \<Rightarrow> s = SNone))"
  have none: "\<not> SNone < x \<longleftrightarrow> x = SNone" "x \<le> SNone \<longleftrightarrow> x = SNone" for x
    by (cases x; simp add: strength_order)+
  have "ok (fold ?f xs SNone) (fold better_result xs None) xs" for xs
  proof (induction xs rule: rev_induct)
    case (snoc x xs)
    show ?case
    proof (cases "vs_passed x \<and> vs_replayable x \<and> ?m x \<noteq> SNone")
      case True
      then have "SNone < ?m x" using none(1) by blast
      with True snoc show ?thesis
        unfolding ok_def
        by (cases "fold better_result xs None")
          (auto simp: better_result_def Let_def none max_def intro: order.trans split: if_splits)
    next
      case False
      with snoc show ?thesis
        unfolding ok_def
        by (auto simp: better_result_def Let_def none split: option.splits)
    qed
  qed (simp add: ok_def)
  from this [of rs] assms show ?thesis
    unfolding candidate_verification_strength_def strongest_passed_replayable_result_def ok_def
    by (auto split: option.splits)
qed


text \<open>What a certificate says: the artifact, the verifier, and the four measurements.\<close>

definition complete_certificate :: "pydict \<Rightarrow> bool" where
  "complete_certificate cert \<longleftrightarrow>
     str_field (dget cert ''frozen_artifact_hash'') [] \<noteq> [] \<and> str_field (dget cert ''verifier_fingerprint'') [] \<noteq> [] \<and>
     (\<exists>m. dget cert ''honesty_measurements'' = PDict m \<and> dget m ''exogeneity_score'' \<noteq> PNone \<and>
       dget m ''variety_score'' \<noteq> PNone \<and> dget m ''falsification_score'' \<noteq> PNone \<and> dget m ''replay_score'' \<noteq> PNone)"

lemma certificate_complete: "certificate_allows (Some cert) th \<Longrightarrow> complete_certificate cert"
  by (auto simp: certificate_allows_def complete_certificate_def split: pyval.splits)

text \<open>
  C4: the final gate. A preliminary result leaves \<open>grade\<close> only with a certificate that names a frozen
  artifact and a verifier, carries all four honesty measurements and a measured strength of FORMAL or
  more, which is the strength reported; the result is the recorded one and replayable. Everything else
  is graded as a portfolio without a result.
\<close>

theorem grade_sound:
  assumes "grade cs = Inr g"
  shows "(case gr_result g of
      None \<Rightarrow> gr_mode g = ''graded_portfolio''
    | Some r \<Rightarrow> (\<exists>cert d. dget cs ''replay_certificate'' = PDict cert \<and> complete_certificate cert \<and>
        (dget cs ''preliminary_result'' = PDict d \<or> dget cs ''verified_result'' = PDict d) \<and> r = verified_of d \<and>
        vd_replayable r \<and> SFormal \<le> gr_strength g \<and>
        gr_strength g = strength_from_value (py_or (dget cert ''measured_strength'') (dget cert ''measured_strength_value''))))"
proof (cases "gr_result g")
  case None
  with assms show ?thesis
    by (auto simp: grade_def Let_def sbind_Inr_iff graded_make_def split: if_splits)
next
  case (Some r)
  have g: "graded_ok g"
    using assms by (auto simp: grade_def Let_def sbind_Inr_iff intro: graded_make_ok split: if_splits)
  obtain cert where cert: "dict_field cs ''replay_certificate'' = Some cert" "certificate_allows (Some cert) SFormal"
    using assms Some
    by (cases "dict_field cs ''replay_certificate''")
      (auto simp: grade_def Let_def sbind_Inr_iff graded_make_def certificate_allows_def dget_def split: if_splits)
  obtain d where d: "(case dict_field cs ''preliminary_result'' of Some d \<Rightarrow> Some d | None \<Rightarrow> dict_field cs ''verified_result'') = Some d"
    and st: "r = verified_of d"
      "gr_strength g = strength_from_value (py_or (dget cert ''measured_strength'') (dget cert ''measured_strength_value''))"
    using assms Some cert
    by (auto simp: grade_def Let_def sbind_Inr_iff graded_make_def split: if_splits)
  have "dget cs ''preliminary_result'' = PDict d \<or> dget cs ''verified_result'' = PDict d"
    using d by (auto simp: dict_field_def split: option.splits pyval.splits)
  moreover have "dget cs ''replay_certificate'' = PDict cert"
    using cert(1) by (simp add: dict_field_def split: pyval.splits)
  ultimately show ?thesis
    using g Some st certificate_complete [OF cert(2)] by (auto simp: graded_ok_def)
qed

text \<open>
  With a valid FORMAL certificate a result that is not replayable does not fall back to a
  portfolio: the gate raises the constructor's AssertionError.
\<close>

theorem grade_unreplayable_raises:
  assumes "dget cs ''preliminary_result'' = PDict d" "d \<noteq> []" "\<not> truthy (dget d ''replayable'')"
    and "dget cs ''replay_certificate'' = PDict cert" "certificate_allows (Some cert) SFormal"
  shows "grade cs = Inl (GradedAssertion [])"
  using assms by (simp add: grade_def Let_def dict_field_def graded_make_def verified_of_def)

section \<open>Witnesses\<close>

definition demo_cert :: pydict where
  "demo_cert = [(''measured_strength'', PStr ''FORMAL''), (''frozen_artifact_hash'', PStr ''a''),
     (''verifier_fingerprint'', PStr ''f''),
     (''honesty_measurements'', PDict [(''exogeneity_score'', PInt 1), (''variety_score'', PInt 1),
        (''falsification_score'', PInt 1), (''replay_score'', PInt 1)])]"

definition demo_campaign :: "bool \<Rightarrow> pydict" where
  "demo_campaign b = [(''preliminary_result'', PDict [(''answer'', PInt 1), (''replayable'', PBool b)]),
     (''replay_certificate'', PDict demo_cert)]"

lemma demo_cert_allows: "certificate_allows (Some demo_cert) SFormal"
  by code_simp

theorem grade_sound_witness: "\<exists>g. grade (demo_campaign True) = Inr g \<and> SFormal \<le> gr_strength g"
proof -
  have r: "map_sum (\<lambda>_. ()) (map_option vd_replayable \<circ> gr_result) (grade (demo_campaign True)) = Inr (Some True)"
    by code_simp
  then obtain g where g: "grade (demo_campaign True) = Inr g" by (cases "grade (demo_campaign True)") simp_all
  with r have "gr_result g \<noteq> None" by auto
  with grade_sound [OF g] g show ?thesis by (auto split: option.splits)
qed

theorem grade_unreplayable_raises_witness: "grade (demo_campaign False) = Inl (GradedAssertion [])"
  by (rule grade_unreplayable_raises [where d = "[(''answer'', PInt 1), (''replayable'', PBool False)]" and cert = demo_cert])
    (simp_all add: demo_campaign_def dget_def demo_cert_allows)

definition demo_candidate :: candidate where
  "demo_candidate = (sample_candidate ''C1'' [])\<lparr>cg_verification_trace :=
     [[(''passed'', PBool True), (''replayable'', PBool True),
       (''measured_strength'', PStr ''EMPIRICAL''), (''honesty_measurements'', PDict [])]]\<rparr>"

theorem candidate_strength_attained_witness:
  "\<exists>rs s. candidate_verification_results demo_candidate = Inr rs \<and>
     candidate_verification_strength demo_candidate = Inr s \<and>
     (\<forall>r \<in> set rs. vs_passed r \<and> vs_replayable r \<longrightarrow> measured_strength_from_result r \<le> s)"
proof -
  have ok: "\<exists>r. ver_result_from_dict (PDict d) = Inr r" if "dget_or d ''diagnostics'' (PList []) = PList []" for d
    using that by (simp add: ver_result_from_dict_def Let_def truthy_texts_def)
  have "\<exists>rs. candidate_verification_results demo_candidate = Inr rs"
    using ok [of "[(''passed'', PBool True), (''replayable'', PBool True),
         (''measured_strength'', PStr ''EMPIRICAL''), (''honesty_measurements'', PDict [])]"]
    by (auto simp: candidate_verification_results_def result_items_def demo_candidate_def sample_candidate_def result_data_def dget_def
        dget_or_def py_or_def)
  then obtain rs where rs: "candidate_verification_results demo_candidate = Inr rs" ..
  note spec = candidate_strength_attained [OF rs]
  show ?thesis by (rule exE [OF spec]) (use rs in \<open>intro exI [of _ rs]; simp\<close>)
qed

end
