(* ===== verification/Regime.thy ===== *)
theory Regime
  imports Honesty
begin

text \<open>
  verification/regime.py: semantic hints of obligations, plans and candidates are compiled into a grounding
  regime whose probes, budget, isolation flag, hashes and fingerprint the engine controls. The model's
  parameterized cases become probes of their own provenance, which the honesty measurement does not trust.
\<close>

definition ARTIFACT_TEMPLATE :: string where "ARTIFACT_TEMPLATE = ''artifact_assertion/v1''"
definition TYPED_TEMPLATE :: string where "TYPED_TEMPLATE = ''artifact_json_relation/v2''"
definition METAMORPHIC_TEMPLATE :: string where "METAMORPHIC_TEMPLATE = ''metamorphic_json_relation/v1''"
definition METAMORPHIC_RELATIONS :: "string list" where
  "METAMORPHIC_RELATIONS = [''dict_numeric_summary_permutation_invariance/v1'']"
definition ASSERTION_OPERATORS :: "string list" where
  "ASSERTION_OPERATORS = [''exists'', ''not_exists'', ''equal'', ''not_equal'', ''contains'', ''not_contains'',
     ''lt'', ''lte'', ''gt'', ''gte'', ''between'']"
definition UNSUPPORTED_FIELDS :: "string list" where
  "UNSUPPORTED_FIELDS = [''args'', ''command'', ''cwd'', ''executable'', ''expression'', ''file'', ''file_path'',
     ''module'', ''python'', ''python_expression'', ''shell'']"

text \<open>A JSON pointer that is not empty starts with a slash.\<close>

definition bad_pointer :: "string \<Rightarrow> bool" where
  "bad_pointer p \<longleftrightarrow> p \<noteq> [] \<and> \<not> starts_with ''/'' p"

definition is_number :: "pyval \<Rightarrow> bool" where
  "is_number v = (is_PInt v \<or> is_PFloat v)"

text \<open>\<open>_typed_relation_value\<close>; every modelled value is JSON without NaN or infinity.\<close>

definition typed_relation_value :: "string \<Rightarrow> pyval \<Rightarrow> bool" where
  "typed_relation_value op expected =
     (if op \<in> set [''exists'', ''not_exists''] then True
      else if op \<in> set [''lt'', ''lte'', ''gt'', ''gte''] then is_number expected
      else if op = ''between'' then
        (case expected of PList xs \<Rightarrow> length xs = 2 \<and> list_all is_number xs | _ \<Rightarrow> False)
      else True)"

text \<open>The compiled fields of a case: template, parameters, and the reason it is unsupported (empty when it is not).\<close>

record case_fields =
  cf_template :: string
  cf_parameters :: pydict
  cf_reason :: string

definition typed_fields :: "string \<Rightarrow> string \<Rightarrow> string \<Rightarrow> pyval \<Rightarrow> string \<Rightarrow> case_fields" where
  "typed_fields assertion_id path op expected reason =
     \<lparr>cf_template = TYPED_TEMPLATE,
      cf_parameters = [(''assertion_id'', PStr assertion_id), (''path'', PStr path), (''operator'', PStr op), (''expected'', expected)],
      cf_reason = reason\<rparr>"

definition compile_typed_relation :: "(pyval \<Rightarrow> string) \<Rightarrow> pydict \<Rightarrow> case_fields" where
  "compile_typed_relation hash raw =
     (let unsupported = sort (filter (\<lambda>k. k \<notin> set [''probe_template_id'', ''args'', ''expected_relation'']) (map fst raw)) in
      if unsupported \<noteq> [] then typed_fields [] [] [] PNone (''unsupported_fields:'' @ join_with '','' unsupported)
      else case dget raw ''args'' of
        PDict args \<Rightarrow>
          (if dkeys args \<noteq> {''path''} \<or> \<not> is_PStr (dget args ''path'') then typed_fields [] [] [] PNone ''invalid_typed_args''
           else case dget raw ''expected_relation'' of
             PDict relation \<Rightarrow>
               (let op = str_field (dget relation ''operator'') [];
                    required = (if op \<in> set [''exists'', ''not_exists''] then {''operator''} else {''operator'', ''value''})
                in if dkeys relation \<noteq> required then typed_fields [] [] op PNone ''invalid_expected_relation_fields''
                   else
                     let pointer = str_of (dget args ''path''); expected = dget relation ''value'';
                         reason = (if bad_pointer pointer then ''invalid_json_pointer''
                                   else if length pointer > 512 then ''json_pointer_exceeds_limit''
                                   else if op \<notin> set ASSERTION_OPERATORS then ''unsupported_operator''
                                   else if \<not> typed_relation_value op expected then ''invalid_expected_relation_value''
                                   else [])
                     in typed_fields
                          (''relation-'' @ take 12 (hash (PDict [(''args'', PDict args), (''expected_relation'', PDict relation)])))
                          pointer op expected reason)
           | _ \<Rightarrow> typed_fields [] [] [] PNone ''expected_relation_must_be_object'')
      | _ \<Rightarrow> typed_fields [] [] [] PNone ''invalid_typed_args'')"

definition metamorphic_fields :: "string \<Rightarrow> string \<Rightarrow> string \<Rightarrow> string \<Rightarrow> string \<Rightarrow> case_fields" where
  "metamorphic_fields assertion_id relation_id mapping summary reason =
     \<lparr>cf_template = METAMORPHIC_TEMPLATE,
      cf_parameters = [(''assertion_id'', PStr assertion_id), (''relation_id'', PStr relation_id),
                       (''mapping_path'', PStr mapping), (''summary_path'', PStr summary)],
      cf_reason = reason\<rparr>"

definition compile_metamorphic_relation :: "(pyval \<Rightarrow> string) \<Rightarrow> pydict \<Rightarrow> case_fields" where
  "compile_metamorphic_relation hash raw =
     (let unsupported = sort (filter (\<lambda>k. k \<notin> set [''probe_template_id'', ''relation_id'', ''args'']) (map fst raw));
          rid = str_field (dget raw ''relation_id'') [] in
      if unsupported \<noteq> [] then metamorphic_fields [] rid [] [] (''unsupported_fields:'' @ join_with '','' unsupported)
      else if rid \<notin> set METAMORPHIC_RELATIONS then metamorphic_fields [] rid [] [] ''unsupported_relation''
      else case dget raw ''args'' of
        PDict args \<Rightarrow>
          (if dkeys args \<noteq> {''mapping_path'', ''summary_path''} \<or>
              \<not> is_PStr (dget args ''mapping_path'') \<or> \<not> is_PStr (dget args ''summary_path'')
           then metamorphic_fields [] rid [] [] ''invalid_typed_args''
           else
             let mapping = str_of (dget args ''mapping_path''); summary = str_of (dget args ''summary_path'');
                 reason = (if \<not> starts_with ''/'' mapping \<or> \<not> starts_with ''/'' summary then ''invalid_json_pointer''
                           else if length mapping > 512 \<or> length summary > 512 then ''json_pointer_exceeds_limit''
                           else if mapping = summary then ''metamorphic_paths_must_differ''
                           else [])
             in metamorphic_fields
                  (''metamorphic-'' @ take 12 (hash (PDict [(''relation_id'', PStr rid), (''args'', PDict args)])))
                  rid mapping summary reason)
      | _ \<Rightarrow> metamorphic_fields [] rid [] [] ''invalid_typed_args'')"

definition compile_plain_assertion :: "string \<Rightarrow> pydict \<Rightarrow> case_fields" where
  "compile_plain_assertion template raw =
     (let aid = str_field (dget raw ''assertion_id'') []; pointer = str_field (dget raw ''path'') [];
          op = str_field (dget raw ''operator'') [];
          forbidden = sort (filter (\<lambda>k. k \<in> set UNSUPPORTED_FIELDS) (map fst raw))
      in \<lparr>cf_template = template,
          cf_parameters = [(''assertion_id'', PStr aid), (''path'', PStr pointer), (''operator'', PStr op),
                           (''expected'', dget raw ''expected'')],
          cf_reason =
            (if template \<noteq> ARTIFACT_TEMPLATE then ''unsupported_template''
             else if forbidden \<noteq> [] then ''unsupported_fields:'' @ join_with '','' forbidden
             else if aid = [] then ''assertion_id_required''
             else if bad_pointer pointer then ''invalid_json_pointer''
             else if op \<notin> set ASSERTION_OPERATORS then ''unsupported_operator''
             else [])\<rparr>)"

definition compile_case_fields :: "(pyval \<Rightarrow> string) \<Rightarrow> pydict \<Rightarrow> case_fields" where
  "compile_case_fields hash raw =
     (let declared = str_field (py_or (dget raw ''probe_template_id'') (dget raw ''template'')) [] in
      if declared = METAMORPHIC_TEMPLATE then compile_metamorphic_relation hash raw
      else if declared = TYPED_TEMPLATE then compile_typed_relation hash raw
      else compile_plain_assertion declared raw)"

definition compile_assertion_case :: "(pyval \<Rightarrow> string) \<Rightarrow> string \<Rightarrow> string \<Rightarrow> nat \<Rightarrow> pydict \<Rightarrow> probe_case" where
  "compile_assertion_case hash cid oid index raw =
     (let f = compile_case_fields hash raw;
          params = (if cf_reason f \<noteq> [] then dset ''unsupported_reason'' (PStr (cf_reason f)) (cf_parameters f) else cf_parameters f);
          identity = PDict [(''candidate_id'', PStr cid), (''obligation_id'', PStr oid), (''case_index'', PInt (int index)),
                            (''template_id'', PStr (cf_template f)), (''parameters'', PDict params)]
      in \<lparr>pb_probe_id = ''probe-'' @ take 12 (hash identity),
          pb_content = ''engine_template:'' @ cf_template f @ '':'' @ take 24 (hash identity),
          pb_provenance = ''engine_template_model_parameters'', pb_expected_flip = False,
          pb_template_id = cf_template f, pb_parameters = params\<rparr>)"

text \<open>\<open>enumerate\<close>, and the objects among the items with their index.\<close>

definition indexed :: "'a list \<Rightarrow> (nat \<times> 'a) list" where
  "indexed xs = zip [0..<length xs] xs"

definition indexed_dicts :: "pyval list \<Rightarrow> (nat \<times> pydict) list" where
  "indexed_dicts xs = map (\<lambda>(i, v). (i, dict_of v)) (filter (\<lambda>(i, v). is_PDict v) (indexed xs))"

definition source_cases :: "(pyval \<Rightarrow> string) \<Rightarrow> string \<Rightarrow> pydict \<Rightarrow> nat \<times> pydict \<Rightarrow> probe_case list" where
  "source_cases hash cid obligation isrc =
     (let (i, source) = isrc in
      case dget source ''probe_cases'' of
        PList cases \<Rightarrow>
          (let oid = str_field (py_or (dget source ''id'') (dget obligation ''id'')) (''obligation-'' @ nat_digits i)
           in map (\<lambda>(j, raw). compile_assertion_case hash cid oid j raw) (indexed_dicts cases))
      | _ \<Rightarrow> [])"

definition hints_of :: "pyval \<Rightarrow> pydict list" where
  "hints_of v = (case v of PDict d \<Rightarrow> [d] | PList xs \<Rightarrow> map dict_of (filter is_PDict xs) | _ \<Rightarrow> [])"

definition hint_probe :: "(pyval \<Rightarrow> string) \<Rightarrow> string \<Rightarrow> nat \<times> pydict \<Rightarrow> probe_case" where
  "hint_probe hash cid ihint =
     (let (i, hint) = ihint;
          label = str_field (py_or (dget hint ''kind'') (dget hint ''label'')) ''verification_probe'';
          h = hash (PDict [(''candidate_id'', PStr cid), (''index'', PInt (int i)), (''label'', PStr label)])
      in \<lparr>pb_probe_id = ''probe-'' @ take 12 h, pb_content = ''engine_probe:'' @ take 24 h, pb_provenance = ''engine'',
          pb_expected_flip = truthy (dget_or hint ''expected_verdict_flip'' (PBool False)),
          pb_template_id = [], pb_parameters = []\<rparr>)"

text \<open>\<open>list({probe.probe_id: probe ...}.values())\<close>.\<close>

definition by_probe_id :: "probe_case list \<Rightarrow> probe_case list" where
  "by_probe_id ps = map snd (fold (\<lambda>p d. dset (pb_probe_id p) p d) ps [])"

definition compile_probes ::
  "(pyval \<Rightarrow> string) \<Rightarrow> candidate option \<Rightarrow> string \<Rightarrow> pydict \<Rightarrow> pydict \<Rightarrow> probe_case list" where
  "compile_probes hash c cid obligation plan =
     (let sources = obligation # (case c of None \<Rightarrow> [] | Some g \<Rightarrow> cg_proof_obligations g);
          parameterized = concat (map (source_cases hash cid obligation) (indexed sources));
          hints = concat (map hints_of [dget obligation ''exogeneity_probe'', dget obligation ''variety_probe'',
                                        dget plan ''probe_requirements''])
      in if hints = [] \<and> obligation = [] \<and> plan = [] \<and> parameterized = [] then []
         else
           let hints1 = (if hints = [] \<and> parameterized = []
                         then [[(''kind'', PStr ''default_counterfactual''), (''expected_verdict_flip'', PBool False)]] else hints)
           in by_probe_id (parameterized @ map (hint_probe hash cid) (indexed hints1)))"

definition count_field :: "pydict \<Rightarrow> pyval" where
  "count_field d = py_or (dget d ''count'') (dget d ''budget'')"

definition falsification_budget :: "pydict \<Rightarrow> pydict \<Rightarrow> string \<Rightarrow> int" where
  "falsification_budget obligation plan oracle_kind =
     (let raw = py_or (dget obligation ''falsification_budget'') (dget obligation ''adversarial_budget'');
          c0 = (case raw of PDict d \<Rightarrow> count_field d | _ \<Rightarrow> PNone);
          c1 = (case (c0, dget plan ''falsification_budget'') of (PNone, PDict d) \<Rightarrow> count_field d | _ \<Rightarrow> c0);
          c2 = (case (c1, dget plan ''adversarial_budget'') of (PNone, PDict d) \<Rightarrow> count_field d | _ \<Rightarrow> c1);
          c3 = (if c2 = PNone \<and> \<not> is_PDict (dget plan ''adversarial_budget'') then dget plan ''adversarial_budget'' else c2);
          value = (case py_int c3 of Inr n \<Rightarrow> n
                   | Inl _ \<Rightarrow> (if oracle_kind \<in> set [''formal'', ''executable'', ''toolrunner'', ''empirical'', ''decomposed'']
                               then 1 else 0))
      in max 0 (min value 32))"

definition compile_grounding_regime ::
  "(pyval \<Rightarrow> string) \<Rightarrow> candidate option \<Rightarrow> string \<Rightarrow> string \<Rightarrow> pydict \<Rightarrow> pydict \<Rightarrow> string \<Rightarrow> int option \<Rightarrow> regime" where
  "compile_grounding_regime hash c fingerprint artifact_hash obligation plan oracle_kind override =
     (let cid = (case c of None \<Rightarrow> [] | Some g \<Rightarrow> cg_id g);
          fp = str_field (py_or (PStr fingerprint) (dget obligation ''verifier_fingerprint'')) [];
          kind = lower (strip (str_field (py_or (py_or (PStr oracle_kind) (dget obligation ''oracle_kind'')) (dget plan ''modality'')) []));
          probes = compile_probes hash c cid obligation plan;
          budget = (case override of None \<Rightarrow> falsification_budget obligation plan kind | Some n \<Rightarrow> max 0 n);
          sig = ''probe-'' @ take 24 (hash (PDict
            [(''artifact_hash'', PStr artifact_hash), (''adversarial_budget'', PInt budget),
             (''probes'', PList (map (\<lambda>p. PDict (probe_case_to_dict p)) probes)),
             (''template_version'', PStr ARTIFACT_TEMPLATE), (''verifier_fingerprint'', PStr fp)]));
          rid = ''regime-'' @ take 16 (hash (PDict
            [(''candidate_id'', PStr cid), (''artifact_hash'', PStr artifact_hash), (''verifier_fingerprint'', PStr fp),
             (''obligation_id'', dget obligation ''id''), (''oracle_kind'', PStr kind),
             (''adversarial_budget'', PInt budget), (''probe_signature'', PStr sig)]))
      in \<lparr>rg_regime_id = rid, rg_probes = probes, rg_adversarial_budget = budget,
          rg_isolation_enforced = (probes \<noteq> [] \<and> budget > 0), rg_artifact_hash = artifact_hash, rg_fingerprint = fp,
          rg_oracle_kind = kind, rg_probe_signature = sig\<rparr>)"

section \<open>Lemmas\<close>

lemma by_probe_id_spec:
  "distinct (map pb_probe_id (by_probe_id ps)) \<and> set (by_probe_id ps) \<subseteq> set ps \<and>
   pb_probe_id ` set (by_probe_id ps) = pb_probe_id ` set ps"
proof -
  let ?d = "fold (\<lambda>p d. dset (pb_probe_id p) p d) ps []"
  have keyed: "\<forall>(k, p) \<in> set (fold (\<lambda>p d. dset (pb_probe_id p) p d) qs d). pb_probe_id p = k \<and> p \<in> S"
    if "\<forall>(k, p) \<in> set d. pb_probe_id p = k \<and> p \<in> S" "set qs \<subseteq> S" for qs d S
    using that
  proof (induction qs arbitrary: d)
    case (Cons q qs)
    have "\<forall>(k, p) \<in> set (dset (pb_probe_id q) q d). pb_probe_id p = k \<and> p \<in> S"
    proof (rule ballI)
      fix x assume "x \<in> set (dset (pb_probe_id q) q d)"
      then have "x = (pb_probe_id q, q) \<or> x \<in> set d" using set_dset [of "pb_probe_id q" q d] by blast
      then show "case x of (k, p) \<Rightarrow> pb_probe_id p = k \<and> p \<in> S" using Cons.prems by auto
    qed
    from Cons.IH [OF this] Cons.prems(2) show ?case by simp
  qed simp
  have k: "\<forall>(k, p) \<in> set ?d. pb_probe_id p = k \<and> p \<in> set ps"
    by (rule keyed) simp_all
  then have ids: "map pb_probe_id (map snd ?d) = map fst ?d"
    by (auto intro!: map_cong simp: comp_def)
  have "distinct (map fst ?d)" by (intro distinct_fold_dset) simp
  moreover have "fst ` set ?d = pb_probe_id ` set ps"
    using dkeys_fold_dset [of pb_probe_id id ps "[]"] by (simp add: dkeys_def)
  moreover have "set (map snd ?d) \<subseteq> set ps" using k by auto
  ultimately show ?thesis
    unfolding by_probe_id_def by (metis ids list.set_map)
qed

lemma assertion_provenance [simp]:
  "pb_provenance (compile_assertion_case hash cid oid i raw) = ''engine_template_model_parameters''"
  by (simp only: compile_assertion_case_def Let_def probe_case.select_convs)

lemma source_cases_provenance:
  assumes "p \<in> set (source_cases hash cid obligation src)"
  shows "pb_provenance p = ''engine_template_model_parameters''"
proof -
  obtain i source where src: "src = (i, source)" by force
  obtain cases where "dget source ''probe_cases'' = PList cases"
    using assms by (cases "dget source ''probe_cases''") (simp_all add: source_cases_def src)
  with assms have "p \<in> set (map (\<lambda>(j, raw). compile_assertion_case hash cid
      (str_field (py_or (dget source ''id'') (dget obligation ''id'')) (''obligation-'' @ nat_digits i)) j raw) (indexed_dicts cases))"
    by (simp only: source_cases_def src Let_def prod.case pyval.case)
  then obtain j raw where "p = compile_assertion_case hash cid
      (str_field (py_or (dget source ''id'') (dget obligation ''id'')) (''obligation-'' @ nat_digits i)) j raw"
    by auto
  then show ?thesis by (simp only: assertion_provenance)
qed

text \<open>The probes are the cases and the engine's own ones, one per id.\<close>

lemma compile_probes_form:
  "\<exists>ps hints. compile_probes hash c cid obligation plan = by_probe_id (ps @ map (hint_probe hash cid) (indexed hints)) \<and>
     (\<forall>p \<in> set ps. pb_provenance p = ''engine_template_model_parameters'')"
proof -
  define ps where "ps = concat (map (source_cases hash cid obligation)
      (indexed (obligation # (case c of None \<Rightarrow> [] | Some g \<Rightarrow> cg_proof_obligations g))))"
  have p: "\<forall>p \<in> set ps. pb_provenance p = ''engine_template_model_parameters''"
    by (auto simp only: ps_def set_concat set_map dest: source_cases_provenance)
  have e: "by_probe_id ([] @ map (hint_probe hash cid) (indexed [])) = []"
    by (simp add: by_probe_id_def indexed_def)
  show ?thesis
  proof (cases "compile_probes hash c cid obligation plan = []")
    case True
    then show ?thesis by (intro exI [of _ "[]"] exI [of _ "[]"] conjI) (simp_all only: e list.set ball_empty)
  next
    case False
    then have "\<exists>hints. compile_probes hash c cid obligation plan = by_probe_id (ps @ map (hint_probe hash cid) (indexed hints))"
      by (auto simp only: compile_probes_def Let_def ps_def split: if_split_asm)
    with p show ?thesis by blast
  qed
qed

lemma compile_probes_distinct: "distinct (map pb_probe_id (compile_probes hash c cid obligation plan))"
  using compile_probes_form [of hash c cid obligation plan] by_probe_id_spec by fastforce

lemma compile_probes_members:
  assumes "p \<in> set (compile_probes hash c cid obligation plan)"
  shows "pb_provenance p = ''engine_template_model_parameters'' \<or> (\<exists>i hint. p = hint_probe hash cid (i, hint))"
proof -
  obtain ps hints where f: "compile_probes hash c cid obligation plan = by_probe_id (ps @ map (hint_probe hash cid) (indexed hints))"
    "\<forall>p \<in> set ps. pb_provenance p = ''engine_template_model_parameters''"
    using compile_probes_form by blast
  have "p \<in> set (ps @ map (hint_probe hash cid) (indexed hints))"
    using assms f(1) by_probe_id_spec [of "ps @ map (hint_probe hash cid) (indexed hints)"] by auto
  with f(2) show ?thesis by auto
qed

lemma regime_probes:
  "rg_probes (compile_grounding_regime hash c fp ah obligation plan kind override) =
     compile_probes hash c (case c of None \<Rightarrow> [] | Some g \<Rightarrow> cg_id g) obligation plan"
  by (simp only: compile_grounding_regime_def Let_def regime.select_convs)

lemma regime_isolation:
  "rg_isolation_enforced (compile_grounding_regime hash c fp ah obligation plan kind override) \<longleftrightarrow>
     rg_probes (compile_grounding_regime hash c fp ah obligation plan kind override) \<noteq> [] \<and>
     0 < rg_adversarial_budget (compile_grounding_regime hash c fp ah obligation plan kind override)"
  by (simp only: compile_grounding_regime_def Let_def regime.select_convs)

lemma regime_budget:
  "\<exists>k. rg_adversarial_budget (compile_grounding_regime hash c fp ah obligation plan kind None) = falsification_budget obligation plan k"
  by (rule exI) (simp only: compile_grounding_regime_def Let_def regime.select_convs option.case)

lemma clamp32: "0 \<le> max 0 (min x (32 :: int)) \<and> max 0 (min x 32) \<le> 32"
  by simp

lemma falsification_budget_bounds: "0 \<le> falsification_budget obligation plan k \<and> falsification_budget obligation plan k \<le> 32"
  unfolding falsification_budget_def Let_def by (rule clamp32)

lemma compiled_regime:
  fixes obligation plan :: pydict and hash :: "pyval \<Rightarrow> string" and c :: "candidate option" and fingerprint artifact_hash kind :: string
  defines "g \<equiv> compile_grounding_regime hash c fingerprint artifact_hash obligation plan kind None"
  shows "distinct (map pb_probe_id (rg_probes g)) \<and> 0 \<le> rg_adversarial_budget g \<and> rg_adversarial_budget g \<le> 32 \<and>
    (rg_isolation_enforced g \<longleftrightarrow> rg_probes g \<noteq> [] \<and> 0 < rg_adversarial_budget g) \<and>
    (\<forall>p \<in> set (trusted_probes g). pb_provenance p = ''engine'' \<and> pb_template_id p = [] \<and> pb_parameters p = [] \<and>
       (\<exists>i label. let h = hash (PDict [(''candidate_id'', PStr (case c of None \<Rightarrow> [] | Some g \<Rightarrow> cg_id g)),
            (''index'', PInt (int i)), (''label'', PStr label)])
          in pb_probe_id p = ''probe-'' @ take 12 h \<and> pb_content p = ''engine_probe:'' @ take 24 h))"
proof -
  let ?cid = "case c of None \<Rightarrow> [] | Some g \<Rightarrow> cg_id g"
  have probes: "rg_probes g = compile_probes hash c ?cid obligation plan"
    unfolding g_def by (rule regime_probes)
  have 1: "distinct (map pb_probe_id (rg_probes g))"
    unfolding probes by (rule compile_probes_distinct)
  have 2: "0 \<le> rg_adversarial_budget g \<and> rg_adversarial_budget g \<le> 32"
    using regime_budget [of hash c fingerprint artifact_hash obligation plan kind] falsification_budget_bounds
    unfolding g_def by metis
  have 3: "rg_isolation_enforced g \<longleftrightarrow> rg_probes g \<noteq> [] \<and> 0 < rg_adversarial_budget g"
    unfolding g_def by (rule regime_isolation)
  have 4: "\<exists>i hint. p = hint_probe hash ?cid (i, hint)" if "p \<in> set (trusted_probes g)" for p
    using that compile_probes_members [of p hash c ?cid obligation plan]
    by (auto simp: trusted_probes_def probes TRUSTED_PROVENANCES_def)
  show ?thesis
  proof (intro conjI ballI)
    fix p assume "p \<in> set (trusted_probes g)"
    with 4 obtain i hint where p: "p = hint_probe hash ?cid (i, hint)" by blast
    show "pb_provenance p = ''engine''" "pb_template_id p = []" "pb_parameters p = []"
      by (simp_all add: p hint_probe_def Let_def)
    show "\<exists>i label. let h = hash (PDict [(''candidate_id'', PStr ?cid), (''index'', PInt (int i)), (''label'', PStr label)])
          in pb_probe_id p = ''probe-'' @ take 12 h \<and> pb_content p = ''engine_probe:'' @ take 24 h"
      unfolding p
      by (rule exI [of _ i], rule exI [of _ "str_field (py_or (dget hint ''kind'') (dget hint ''label'')) ''verification_probe''"])
        (simp add: hint_probe_def Let_def)
  qed (use 1 2 3 in simp_all)
qed

section \<open>Properties\<close>


text \<open>
  A model's parameterized cases alone never certify. When every trusted probe is missing from a
  compiled regime, the measured strength is NONE whatever was observed and whatever the verifier says.
\<close>

theorem parameterized_probes_never_certify:
  assumes "trusted_probes (compile_grounding_regime hash c fingerprint artifact_hash obligation plan kind override) = []"
  shows "mr_strength (measure_verification_result raw
      (compile_grounding_regime hash c fingerprint artifact_hash obligation plan kind override) observed replay) = SNone"
proof -
  let ?g = "compile_grounding_regime hash c fingerprint artifact_hash obligation plan kind override"
  have "hm_exogeneity (measure_honesty ?g observed replay) = 0"
    using assms exogeneity_nonzero [of ?g observed replay] by simp
  then have "measured_cap (measure_honesty ?g observed replay) = SNone" by (simp add: measured_cap_def)
  then show ?thesis
    by (simp add: measure_verification_result_def Let_def strength_from_measurements_def min_def)
qed

definition demo_obligation :: pydict where
  "demo_obligation = [(''id'', PStr ''o1''), (''probe_cases'', PList [PDict
     [(''template'', PStr ''artifact_assertion/v1''), (''assertion_id'', PStr ''a''), (''path'', PStr ''/x''),
      (''operator'', PStr ''exists'')]])]"

theorem parameterized_probes_never_certify_witness:
  "mr_strength (measure_verification_result
      \<lparr>vs_passed = True, vs_score = 1, vs_strength = SExecutable, vs_evidence_ref = [], vs_replayable = True,
       vs_diagnostics = [], vs_metadata = []\<rparr>
      (compile_grounding_regime (\<lambda>v. ''0123456789abcdef'') None ''f'' ''a'' demo_obligation [] ''formal'' None)
      [(''probe-0123456789ab'', PBool False)] []) = SNone"
proof (rule parameterized_probes_never_certify)
  show "trusted_probes (compile_grounding_regime (\<lambda>v. ''0123456789abcdef'') None ''f'' ''a'' demo_obligation [] ''formal'' None) = []"
    by code_simp
qed


end
