(* ===== verification/Minimax.thy ===== *)
theory Minimax
  imports Honesty
begin

text \<open>
  verification/minimax_budget.py: the probe budget is shared among the candidates in proportion to their
  verification strength, in whole probes, by largest remainders above a floor for each. The quotients
  are exact here; the code computes them as floats, which agree below 2 to the 53 unless a quotient
  rounds to a whole number.
\<close>

section \<open>Allocation\<close>

type_synonym allocation = "(string \<times> int) list"

text \<open>\<open>out[cid] += 1\<close>.\<close>

definition bump :: "string \<Rightarrow> allocation \<Rightarrow> allocation" where
  "bump k out = dset k ((case map_of out k of Some v \<Rightarrow> v | None \<Rightarrow> 0) + 1) out"

definition allocation_total :: "allocation \<Rightarrow> int" where
  "allocation_total out = sum_list (map snd out)"

definition uniform_budget :: "string list \<Rightarrow> int \<Rightarrow> int \<Rightarrow> allocation" where
  "uniform_budget ids budget least =
     (if ids = [] then []
      else
        let base = max least (budget div int (length ids));
            out = fold (\<lambda>cid. dset cid base) ids [];
            residue = max 0 (budget - allocation_total out)
        in fold bump (take (nat residue) (sort ids)) out)"

text \<open>The exact share of a candidate, and the key that orders the remainders.\<close>

definition quota :: "int \<Rightarrow> int \<Rightarrow> int \<Rightarrow> rat" where
  "quota remaining score_sum v = (if score_sum \<noteq> 0 then of_int (remaining * v) / of_int score_sum else 0)"

definition remainder_key :: "int \<Rightarrow> int \<Rightarrow> string \<times> int \<Rightarrow> rat \<times> int \<times> string" where
  "remainder_key remaining score_sum p =
     (let q = quota remaining score_sum (snd p) in (q - of_int (rat_trunc q), snd p, fst p))"

text \<open>\<open>sorted(..., reverse=True)\<close>, which keeps the order of equal keys.\<close>

definition remainder_order :: "int \<Rightarrow> int \<Rightarrow> allocation \<Rightarrow> string list" where
  "remainder_order remaining score_sum scores =
     map fst (rev (sort_key (remainder_key remaining score_sum) (rev scores)))"

definition proportional_budget :: "allocation \<Rightarrow> int \<Rightarrow> int \<Rightarrow> int \<Rightarrow> allocation" where
  "proportional_budget scores n budget least =
     (let remaining = max 0 (budget - least * n);
          score_sum = allocation_total scores;
          out = map (\<lambda>(cid, v). (cid, least + rat_trunc (quota remaining score_sum v))) scores;
          residue = budget - allocation_total out
      in fold bump (take (nat residue) (remainder_order remaining score_sum scores)) out)"

definition candidate_scores :: "candidate list \<Rightarrow> pyexn + allocation" where
  "candidate_scores cs =
     sbind (list_all_ok (\<lambda>c. sbind (candidate_verification_strength c) (\<lambda>s. Inr (cg_id c, strength_value s))) cs)
       (\<lambda>ps. Inr (fold (\<lambda>(k, v). dset k v) ps []))"

text \<open>\<open>min_budget\<close> is the floor of the configuration, \<open>override\<close> the caller's total.\<close>

definition allocate_adversarial_budget :: "candidate list \<Rightarrow> int \<Rightarrow> int \<Rightarrow> int option \<Rightarrow> pyexn + allocation" where
  "allocate_adversarial_budget candidates base_budget min_budget override =
     (let ordered = filter (\<lambda>c. cg_id c \<noteq> []) candidates;
          n = int (length ordered);
          least = max 0 min_budget;
          budget = max (case override of Some t \<Rightarrow> t | None \<Rightarrow> max least base_budget * n) (least * n)
      in if ordered = [] then Inr []
         else sbind (candidate_scores ordered) (\<lambda>scores.
           if \<not> list_ex (\<lambda>p. snd p \<noteq> 0) scores then Inr (uniform_budget (map cg_id ordered) budget least)
           else Inr (proportional_budget scores n budget least)))"

definition allocation_summary :: "allocation \<Rightarrow> int \<Rightarrow> int option \<Rightarrow> pydict" where
  "allocation_summary allocation base_budget override =
     [(''base_budget'', PInt base_budget),
      (''total_override'', (case override of None \<Rightarrow> PNone | Some t \<Rightarrow> PInt t)),
      (''allocated_total'', PInt (allocation_total allocation)),
      (''candidate_count'', PInt (int (length allocation))),
      (''candidate_budgets'', PDict (map (map_prod id PInt) allocation))]"

section \<open>Lemmas\<close>

lemma rat_trunc_nonneg: "0 \<le> q \<Longrightarrow> rat_trunc q = \<lfloor>q\<rfloor>"
  by (simp add: rat_trunc_def)

lemma bump_map:
  assumes "distinct (map fst d)" "k \<in> fst ` set d"
  shows "bump k d = map (\<lambda>(k', w). (k', w + (if k' = k then 1 else 0))) d"
proof -
  obtain w where w: "map_of d k = Some w" using assms(2) map_of_fst_Some by metis
  have "bump k d = map (\<lambda>(k', w'). (k', if k' = k then w + 1 else w')) d"
    using w by (simp add: bump_def dset_present [OF assms])
  moreover have "w' = w" if "(k, w') \<in> set d" for w'
    using that w assms(1) by (metis map_of_is_SomeI option.inject)
  ultimately show ?thesis by auto
qed

lemma fold_bump:
  "distinct (map fst d) \<Longrightarrow> distinct ks \<Longrightarrow> set ks \<subseteq> fst ` set d \<Longrightarrow>
     fold bump ks d = map (\<lambda>(k, w). (k, w + (if k \<in> set ks then 1 else 0))) d"
proof (induction ks arbitrary: d)
  case Nil
  show ?case by (simp add: case_prod_unfold)
next
  case (Cons k ks)
  let ?d = "map (\<lambda>(k', w). (k', w + (if k' = k then 1 else 0))) d"
  have 1: "map fst ?d = map fst d" by (simp add: case_prod_unfold)
  then have 2: "fst ` set ?d = fst ` set d" by (metis list.set_map)
  have "fold bump (k # ks) d = fold bump ks ?d"
    using Cons.prems by (simp add: bump_map)
  also have "\<dots> = map (\<lambda>(k, w). (k, w + (if k \<in> set ks then 1 else 0))) ?d"
    by (rule Cons.IH) (use Cons.prems in \<open>simp_all only: 1 2, auto\<close>)
  also have "\<dots> = map (\<lambda>(k', w). (k', w + (if k' \<in> set (k # ks) then 1 else 0))) d"
    using Cons.prems(2) by auto
  finally show ?case .
qed

lemma sum_indicator:
  assumes "distinct (map fst d)" "distinct ks" "set ks \<subseteq> fst ` set d"
  shows "(\<Sum>p\<leftarrow>d. if fst p \<in> set ks then 1 else (0 :: int)) = int (length ks)"
proof -
  have "(\<Sum>p\<leftarrow>d. if fst p \<in> set ks then 1 else (0 :: int)) = (\<Sum>x\<leftarrow>map fst d. if x \<in> set ks then 1 else 0)"
    by (simp add: comp_def)
  also have "\<dots> = (\<Sum>x \<in> set (map fst d). if x \<in> set ks then 1 else 0)"
    by (rule sum_list_distinct_conv_sum_set) (rule assms(1))
  also have "\<dots> = int (card (set (map fst d) \<inter> set ks))"
    by (simp add: sum.If_cases)
  also have "set (map fst d) \<inter> set ks = set ks" using assms(3) by auto
  also have "int (card (set ks)) = int (length ks)" using assms(2) by (simp add: distinct_card)
  finally show ?thesis .
qed

lemma total_fold_bump:
  assumes "distinct (map fst d)" "distinct ks" "set ks \<subseteq> fst ` set d"
  shows "allocation_total (fold bump ks d) = allocation_total d + int (length ks)"
proof -
  have "allocation_total (fold bump ks d) = (\<Sum>p\<leftarrow>d. snd p + (if fst p \<in> set ks then 1 else 0))"
    by (simp add: fold_bump [OF assms] allocation_total_def comp_def case_prod_unfold)
  also have "\<dots> = allocation_total d + int (length ks)"
    using sum_indicator [OF assms] by (simp add: sum_list_addf allocation_total_def)
  finally show ?thesis .
qed


subsection \<open>Shares\<close>

lemma quota_sum:
  assumes "S \<noteq> 0"
  shows "(\<Sum>p\<leftarrow>d. quota m S (snd p)) = of_int (m * allocation_total d) / of_int S"
  by (induction d) (simp_all add: allocation_total_def quota_def assms field_simps)

lemma quota_nonneg: "0 \<le> m \<Longrightarrow> 0 \<le> S \<Longrightarrow> 0 \<le> v \<Longrightarrow> 0 \<le> quota m S v"
  by (simp add: quota_def)

lemma quota_mono: "0 \<le> m \<Longrightarrow> 0 \<le> S \<Longrightarrow> v \<le> w \<Longrightarrow> quota m S v \<le> quota m S w"
  unfolding quota_def by (simp add: divide_right_mono mult_left_mono flip: of_int_mult)

lemma floor_sum_bounds:
  "(\<Sum>p\<leftarrow>d. \<lfloor>f p\<rfloor>) \<le> \<lfloor>\<Sum>p\<leftarrow>d. f p\<rfloor> \<and> (\<Sum>p\<leftarrow>d. f p) \<le> of_int (\<Sum>p\<leftarrow>d. \<lfloor>f p\<rfloor>) + of_nat (length d)"
  for f :: "'a \<Rightarrow> rat"
proof -
  have "of_int (\<Sum>p\<leftarrow>d. \<lfloor>f p\<rfloor>) \<le> (\<Sum>p\<leftarrow>d. f p) \<and> (\<Sum>p\<leftarrow>d. f p) \<le> of_int (\<Sum>p\<leftarrow>d. \<lfloor>f p\<rfloor>) + of_nat (length d)"
  proof (induction d)
    case (Cons p d)
    have "of_int \<lfloor>f p\<rfloor> \<le> f p" "f p \<le> of_int \<lfloor>f p\<rfloor> + 1" by linarith+
    then show ?case using Cons.IH
      unfolding list.map sum_list.Cons of_int_add length_Cons of_nat_Suc by linarith
  qed simp
  then show ?thesis by (simp add: le_floor_iff)
qed

lemma remainder_order_perm:
  "length (remainder_order m S d) = length d" "set (remainder_order m S d) = fst ` set d"
  by (simp_all add: remainder_order_def)

lemma remainder_order_distinct:
  assumes "distinct (map fst d)"
  shows "distinct (remainder_order m S d)"
proof -
  show ?thesis using assms by (simp add: remainder_order_def distinct_map)
qed

lemma remainder_order_prefix:
  assumes "a \<in> set (take r (remainder_order m S d))" "b \<notin> set (take r (remainder_order m S d))"
    and "(a, v) \<in> set d" "(b, w) \<in> set d" "distinct (map fst d)"
  shows "remainder_key m S (b, w) \<le> remainder_key m S (a, v)"
proof -
  define L where "L = rev (sort_key (remainder_key m S) (rev d))"
  have o: "remainder_order m S d = map fst L" by (simp add: remainder_order_def L_def)
  have "sorted_wrt (\<lambda>x y. remainder_key m S y \<le> remainder_key m S x) L"
    using sorted_sort_key [of "remainder_key m S" "rev d"]
    by (simp add: L_def sorted_wrt_rev sorted_map)
  then have le: "\<forall>x \<in> set (take r L). \<forall>y \<in> set (drop r L). remainder_key m S y \<le> remainder_key m S x"
    by (metis append_take_drop_id sorted_wrt_append)
  have sL: "set L = set d" by (simp add: L_def)
  have uniq: "(k, x) \<in> set d \<Longrightarrow> (k, y) \<in> set d \<Longrightarrow> x = y" for k x y
    using assms(5) by (metis map_of_is_SomeI option.inject)
  have "\<exists>v'. (a, v') \<in> set (take r L)" using assms(1) by (auto simp: o take_map)
  moreover have "(a, v') \<in> set (take r L) \<Longrightarrow> v' = v" for v'
    using uniq assms(3) sL by (metis in_set_takeD)
  ultimately have 1: "(a, v) \<in> set (take r L)" by auto
  have "(b, w) \<notin> set (take r L)" using assms(2) by (force simp: o take_map)
  then have "(b, w) \<in> set (drop r L)"
    using assms(4) sL by (metis Un_iff append_take_drop_id set_append)
  with le 1 show ?thesis by blast
qed

lemma proportional_facts:
  assumes "distinct (map fst d)" "\<forall>p \<in> set d. 0 \<le> snd p" "\<exists>p \<in> set d. snd p \<noteq> 0"
    and "n = int (length d)" "least * n \<le> budget"
  defines "m \<equiv> max 0 (budget - least * n)" and "S \<equiv> allocation_total d"
  obtains r where "r \<le> length d"
    and "proportional_budget d n budget least =
      map (\<lambda>(k, v). (k, least + \<lfloor>quota m S v\<rfloor> + (if k \<in> set (take r (remainder_order m S d)) then 1 else 0))) d"
    and "allocation_total (proportional_budget d n budget least) = budget" "0 < S" "0 \<le> m"
proof -
  have "snd ` set d \<subseteq> {0..}" using assms(2) by auto
  then have "0 \<le> S" unfolding S_def allocation_total_def by (intro sum_list_nonneg) auto
  moreover have "S \<noteq> 0" using assms(2,3) unfolding S_def allocation_total_def
    by (subst sum_list_nonneg_eq_0_iff) auto
  ultimately have S: "0 < S" by simp
  have m: "0 \<le> m" "m = budget - least * n" using assms(5) by (simp_all add: m_def)
  let ?out = "map (\<lambda>(k, v). (k, least + rat_trunc (quota m S v))) d"
  have tr: "rat_trunc (quota m S (snd p)) = \<lfloor>quota m S (snd p)\<rfloor>" if "p \<in> set d" for p
    using that assms(2) m(1) S by (intro rat_trunc_nonneg quota_nonneg) auto
  have tot: "allocation_total ?out = least * n + (\<Sum>p\<leftarrow>d. \<lfloor>quota m S (snd p)\<rfloor>)"
    using tr by (simp add: allocation_total_def comp_def case_prod_unfold sum_list_addf sum_list_triv assms(4)
        mult.commute cong: map_cong)
  have q: "(\<Sum>p\<leftarrow>d. quota m S (snd p)) = of_int m"
    using quota_sum [of S m d] S by (simp add: S_def)
  define r where "r = nat (budget - allocation_total ?out)"
  have r: "0 \<le> budget - allocation_total ?out" "budget - allocation_total ?out \<le> int (length d)"
  proof -
    let ?F = "\<Sum>p\<leftarrow>d. \<lfloor>quota m S (snd p)\<rfloor>"
    have "?F \<le> m \<and> rat_of_int m \<le> of_int (?F + int (length d))"
      using floor_sum_bounds [of "\<lambda>p. quota m S (snd p)" d] unfolding q by simp
    then have "?F \<le> m" "m \<le> ?F + int (length d)" by (simp_all only: of_int_le_iff)
    then show "0 \<le> budget - allocation_total ?out" "budget - allocation_total ?out \<le> int (length d)"
      unfolding tot using m(2) by simp_all
  qed
  then have rl: "r \<le> length d" by (simp add: r_def)
  let ?ks = "take r (remainder_order m S d)"
  have fst_out: "map fst ?out = map fst d" "fst ` set ?out = fst ` set d" by (auto simp: case_prod_unfold image_image)
  have ks: "distinct (map fst ?out)" "distinct ?ks" "set ?ks \<subseteq> fst ` set ?out"
    using assms(1) remainder_order_distinct [OF assms(1)] remainder_order_perm(2) [of m S d] set_take_subset
    unfolding fst_out by (auto, fastforce)
  have p: "proportional_budget d n budget least = fold bump ?ks ?out"
    by (simp add: proportional_budget_def Let_def r_def m_def S_def)
  have "allocation_total (fold bump ?ks ?out) = allocation_total ?out + int (length ?ks)"
    by (rule total_fold_bump [OF ks])
  also have "length ?ks = r" using rl by (simp add: remainder_order_perm)
  finally have "allocation_total (fold bump ?ks ?out) = budget" using r by (simp add: r_def)
  moreover have "fold bump ?ks ?out =
      map (\<lambda>(k, v). (k, least + \<lfloor>quota m S v\<rfloor> + (if k \<in> set ?ks then 1 else 0))) d"
    unfolding fold_bump [OF ks] using tr by auto
  ultimately show ?thesis using that [OF rl] S m(1) p by simp
qed


lemma strength_value_nonneg: "0 \<le> strength_value s"
  by (cases s) simp_all

lemma candidate_scores_keys:
  assumes "candidate_scores cs = Inr scores" "distinct (map cg_id cs)"
  shows "map fst scores = map cg_id cs" "\<forall>p \<in> set scores. 0 \<le> snd p"
proof -
  obtain ps where ps: "list_all_ok (\<lambda>c. sbind (candidate_verification_strength c) (\<lambda>s. Inr (cg_id c, strength_value s))) cs = Inr ps"
    "scores = fold (\<lambda>(k, v). dset k v) ps []"
    using assms(1) by (auto simp: candidate_scores_def sbind_Inr_iff)
  have all: "list_all2 (\<lambda>c p. \<exists>s. p = (cg_id c, strength_value s)) cs ps"
    using ps(1) unfolding list_all_ok_Inr by (rule list_all2_mono) (auto simp: sbind_Inr_iff)
  then have k: "map fst ps = map cg_id cs"
    by (induction rule: list_all2_induct) auto
  have "scores = ps" using fold_dset_pairs [of "[]" ps] assms(2) ps(2) k by simp
  moreover have "\<forall>p \<in> set ps. 0 \<le> snd p"
    using all by (induction rule: list_all2_induct) (auto simp: strength_value_nonneg)
  ultimately show "map fst scores = map cg_id cs" "\<forall>p \<in> set scores. 0 \<le> snd p" using k by simp_all
qed

lemma uniform_facts:
  assumes "distinct ids" "ids \<noteq> []" "least * int (length ids) \<le> budget"
  obtains r where "uniform_budget ids budget least =
      map (\<lambda>k. (k, budget div int (length ids) + (if k \<in> set (take r (sort ids)) then 1 else 0))) ids"
    and "allocation_total (uniform_budget ids budget least) = budget" "least \<le> budget div int (length ids)"
proof -
  let ?n = "int (length ids)" and ?b = "budget div int (length ids)"
  have n: "0 < ?n" using assms(2) by simp
  have b: "least \<le> ?b" using assms(3) n by (simp add: zdiv_mono1 order_trans [OF _ zdiv_mono1 [OF assms(3) n]])
  have out: "fold (\<lambda>cid. dset cid ?b) ids [] = map (\<lambda>k. (k, ?b)) ids"
  proof -
    have "fold (\<lambda>cid. dset cid ?b) ids [] = fold (\<lambda>(k, v). dset k v) (map (\<lambda>k. (k, ?b)) ids) []"
      by (simp add: fold_map comp_def)
    also have "\<dots> = map (\<lambda>k. (k, ?b)) ids"
      using fold_dset_pairs [of "[]" "map (\<lambda>k. (k, ?b)) ids"] assms(1) by (simp add: comp_def)
    finally show ?thesis .
  qed
  have tot: "allocation_total (map (\<lambda>k. (k, ?b)) ids) = ?n * ?b"
    by (simp add: allocation_total_def comp_def sum_list_triv)
  define r where "r = nat (max 0 (budget - ?n * ?b))"
  have m: "budget - ?n * ?b = budget mod ?n" by (simp add: minus_mult_div_eq_mod)
  have r: "int r = budget mod ?n" "r \<le> length ids"
    using n pos_mod_bound [OF n, of budget] pos_mod_sign [OF n, of budget] unfolding r_def m
    by (simp_all add: nat_le_iff del: pos_mod_sign pos_mod_bound)
  let ?ks = "take r (sort ids)"
  have ks: "distinct (map fst (map (\<lambda>k. (k, ?b)) ids))" "distinct ?ks" "set ?ks \<subseteq> fst ` set (map (\<lambda>k. (k, ?b)) ids)"
    using assms(1) set_take_subset [of r "sort ids"] by (auto simp: comp_def image_image)
  have u: "uniform_budget ids budget least = fold bump ?ks (map (\<lambda>k. (k, ?b)) ids)"
    using assms(2) b by (simp add: uniform_budget_def Let_def out tot r_def max_absorb2)
  have "allocation_total (uniform_budget ids budget least) = ?n * ?b + int r"
    unfolding u total_fold_bump [OF ks] tot using r(2) by simp
  also have "\<dots> = budget" using r(1) m by simp
  finally have "allocation_total (uniform_budget ids budget least) = budget" .
  moreover have "uniform_budget ids budget least = map (\<lambda>k. (k, ?b + (if k \<in> set ?ks then 1 else 0))) ids"
    unfolding u fold_bump [OF ks] by simp
  ultimately show ?thesis using that b by blast
qed

lemma proportional_order:
  assumes "distinct (map fst d)" "(a, v) \<in> set d" "(b, w) \<in> set d" "v \<le> w" "0 \<le> m" "0 < S" "0 \<le> v"
  shows "\<lfloor>quota m S v\<rfloor> + (if a \<in> set (take r (remainder_order m S d)) then 1 else 0)
    \<le> \<lfloor>quota m S w\<rfloor> + (if b \<in> set (take r (remainder_order m S d)) then 1 else (0 :: int)) + (if v < w then 0 else 1)"
proof -
  let ?T = "set (take r (remainder_order m S d))"
  have q: "quota m S v \<le> quota m S w" "0 \<le> quota m S v" "0 \<le> quota m S w"
    using assms by (auto intro: quota_mono quota_nonneg)
  have fl: "\<lfloor>quota m S v\<rfloor> \<le> \<lfloor>quota m S w\<rfloor>" using q(1) by (rule floor_mono)
  show ?thesis
  proof (cases "a \<in> ?T \<and> b \<notin> ?T \<and> v < w \<and> \<lfloor>quota m S v\<rfloor> = \<lfloor>quota m S w\<rfloor>")
    case True
    then have "remainder_key m S (b, w) \<le> remainder_key m S (a, v)"
      using remainder_order_prefix assms(1-3) by blast
    with True q show ?thesis by (auto simp: remainder_key_def Let_def rat_trunc_nonneg)
  next
    case False
    with fl show ?thesis by auto
  qed
qed

section \<open>Properties\<close>

definition named_candidates :: "candidate list \<Rightarrow> candidate list" where
  "named_candidates cs = filter (\<lambda>c. cg_id c \<noteq> []) cs"

definition requested_total :: "candidate list \<Rightarrow> int \<Rightarrow> int \<Rightarrow> int option \<Rightarrow> int" where
  "requested_total cs base_budget min_budget override =
     (let n = int (length (named_candidates cs)) in
      case override of Some t \<Rightarrow> max t (max 0 min_budget * n) | None \<Rightarrow> max (max 0 min_budget) base_budget * n)"

text \<open>
  C27: the probe budget is spent exactly. Every named candidate gets a share, no share is below the floor
  of the configuration, and the shares add up to the requested total (raised to the floor of all).
\<close>

theorem minimax_budget_exact:
  assumes "distinct (map cg_id (named_candidates cs))" "candidate_scores (named_candidates cs) = Inr scores"
    and "named_candidates cs \<noteq> []"
  shows "\<exists>out. allocate_adversarial_budget cs base_budget min_budget override = Inr out \<and>
    map fst out = map cg_id (named_candidates cs) \<and>
    list_all (\<lambda>p. max 0 min_budget \<le> snd p) out \<and>
    allocation_total out = requested_total cs base_budget min_budget override"
proof -
  let ?o = "named_candidates cs" and ?f = "max 0 min_budget"
  let ?n = "int (length ?o)" and ?t = "requested_total cs base_budget min_budget override"
  have t: "?f * ?n \<le> ?t" "max (case override of Some t \<Rightarrow> t | None \<Rightarrow> max ?f base_budget * ?n) (?f * ?n) = ?t"
    by (auto simp: requested_total_def Let_def mult_right_mono max_absorb1 split: option.split)
  note keys = candidate_scores_keys [OF assms(2,1)]
  have len: "int (length scores) = ?n" using keys(1) by (metis length_map)
  have alloc: "allocate_adversarial_budget cs base_budget min_budget override =
      Inr (if list_ex (\<lambda>p. snd p \<noteq> 0) scores then proportional_budget scores ?n ?t ?f
           else uniform_budget (map cg_id ?o) ?t ?f)"
    using assms(2,3) t(2) by (simp add: allocate_adversarial_budget_def Let_def flip: named_candidates_def)
  show ?thesis
  proof (cases "list_ex (\<lambda>p. snd p \<noteq> 0) scores")
    case True
    then have ex: "\<exists>p \<in> set scores. snd p \<noteq> 0" by (simp add: list_ex_iff)
    have d: "distinct (map fst scores)" using keys(1) assms(1) by simp
    obtain r where "proportional_budget scores ?n ?t ?f =
        map (\<lambda>(k, v). (k, ?f + \<lfloor>quota (max 0 (?t - ?f * ?n)) (allocation_total scores) v\<rfloor> +
          (if k \<in> set (take r (remainder_order (max 0 (?t - ?f * ?n)) (allocation_total scores) scores)) then 1 else 0))) scores"
      "allocation_total (proportional_budget scores ?n ?t ?f) = ?t" "0 < allocation_total scores" "0 \<le> max 0 (?t - ?f * ?n)"
      by (rule proportional_facts [OF d keys(2) ex len [symmetric] t(1)])
    moreover from this have "0 \<le> \<lfloor>quota (max 0 (?t - ?f * ?n)) (allocation_total scores) (snd p)\<rfloor>" if "p \<in> set scores" for p
      using that keys(2) unfolding zero_le_floor by (intro quota_nonneg) auto
    ultimately show ?thesis using True keys(1) alloc
      by (simp add: list_all_iff comp_def case_prod_unfold add_increasing2)
  next
    case False
    have n: "?f * int (length (map cg_id ?o)) \<le> ?t" "map cg_id ?o \<noteq> []" using t(1) assms(3) by simp_all
    obtain r where "uniform_budget (map cg_id ?o) ?t ?f =
        map (\<lambda>k. (k, ?t div int (length (map cg_id ?o)) + (if k \<in> set (take r (sort (map cg_id ?o))) then 1 else 0))) (map cg_id ?o)"
      "allocation_total (uniform_budget (map cg_id ?o) ?t ?f) = ?t" "?f \<le> ?t div int (length (map cg_id ?o))"
      by (rule uniform_facts [OF assms(1) n(2,1)])
    then show ?thesis using False alloc by (auto simp: list_all_iff comp_def)
  qed
qed

text \<open>
  A stronger candidate is never probed less. When one candidate's verification strength is above
  another's, its share is at least as large; on equal strengths the shares differ by one probe at most.
\<close>

theorem minimax_budget_order:
  assumes "distinct (map cg_id (named_candidates cs))" "candidate_scores (named_candidates cs) = Inr scores"
    and "allocate_adversarial_budget cs base_budget min_budget override = Inr out"
    and "map_of scores a = Some v" "map_of scores b = Some w" "v \<le> w"
  shows "\<exists>x y. map_of out a = Some x \<and> map_of out b = Some y \<and> x \<le> y + (if v < w then 0 else 1)"
proof -
  let ?o = "named_candidates cs" and ?f = "max 0 min_budget"
  let ?n = "int (length ?o)" and ?t = "requested_total cs base_budget min_budget override"
  have t: "?f * ?n \<le> ?t" "max (case override of Some t \<Rightarrow> t | None \<Rightarrow> max ?f base_budget * ?n) (?f * ?n) = ?t"
    by (auto simp: requested_total_def Let_def mult_right_mono max_absorb1 split: option.split)
  note keys = candidate_scores_keys [OF assms(2,1)]
  have len: "int (length scores) = ?n" using keys(1) by (metis length_map)
  have ab: "(a, v) \<in> set scores" "(b, w) \<in> set scores" using assms(4,5) by (auto dest: map_of_SomeD)
  then have ne: "?o \<noteq> []" using keys(1) by auto
  have alloc: "out = (if list_ex (\<lambda>p. snd p \<noteq> 0) scores then proportional_budget scores ?n ?t ?f
           else uniform_budget (map cg_id ?o) ?t ?f)"
    using assms(2,3) ne t(2) by (simp add: allocate_adversarial_budget_def Let_def split: if_splits flip: named_candidates_def)
  have d: "distinct (map fst scores)" using keys(1) assms(1) by simp
  show ?thesis
  proof (cases "list_ex (\<lambda>p. snd p \<noteq> 0) scores")
    case True
    then have ex: "\<exists>p \<in> set scores. snd p \<noteq> 0" by (simp add: list_ex_iff)
    let ?m = "max 0 (?t - ?f * ?n)" and ?S = "allocation_total scores"
    obtain r where r: "proportional_budget scores ?n ?t ?f =
        map (\<lambda>(k, v). (k, ?f + \<lfloor>quota ?m ?S v\<rfloor> + (if k \<in> set (take r (remainder_order ?m ?S scores)) then 1 else 0))) scores"
      "0 < ?S" "0 \<le> ?m"
      by (rule proportional_facts [OF d keys(2) ex len [symmetric] t(1)])
    have lookup: "map_of out k = map_option (\<lambda>x. ?f + \<lfloor>quota ?m ?S x\<rfloor> +
        (if k \<in> set (take r (remainder_order ?m ?S scores)) then 1 else 0)) (map_of scores k)" for k
      unfolding alloc r(1) by (simp only: True if_True map_of_map_values)
    have "0 \<le> v" using keys(2) ab(1) by auto
    from proportional_order [OF d ab assms(6) r(3,2) this, of r] show ?thesis
      unfolding lookup assms(4,5) by simp
  next
    case False
    have n: "?f * int (length (map cg_id ?o)) \<le> ?t" "map cg_id ?o \<noteq> []" using t(1) ne by simp_all
    let ?b = "?t div int (length (map cg_id ?o))"
    obtain r where r: "uniform_budget (map cg_id ?o) ?t ?f =
        map (\<lambda>k. (k, ?b + (if k \<in> set (take r (sort (map cg_id ?o))) then 1 else 0))) (map cg_id ?o)"
      by (rule uniform_facts [OF assms(1) n(2,1)])
    have lookup: "map_of out k = Some (?b + (if k \<in> set (take r (sort (map cg_id ?o))) then 1 else 0))"
      if "k \<in> set (map cg_id ?o)" for k
      using that unfolding alloc r by (simp only: False if_False map_of_map_restrict restrict_map_def if_True comp_def)
    have "a \<in> set (map cg_id ?o)" "b \<in> set (map cg_id ?o)" using ab keys(1) by (metis fst_conv image_eqI list.set_map)+
    moreover have "v = 0" "w = 0" using False ab by (force simp: list_ex_iff)+
    then have "\<not> v < w" by simp
    ultimately show ?thesis by (simp only: lookup) simp
  qed
qed

section \<open>Witnesses\<close>

definition demo_pair :: "candidate list" where
  "demo_pair = [demo_candidate\<lparr>cg_id := ''C2'', cg_verification_trace := []\<rparr>, demo_candidate]"

lemma demo_pair_named: "named_candidates demo_pair = demo_pair" "map cg_id demo_pair = [''C2'', ''C1'']"
  by (simp_all add: named_candidates_def demo_pair_def demo_candidate_def sample_candidate_def)

lemma demo_pair_scores: "\<exists>w. candidate_scores demo_pair = Inr [(''C2'', 0), (''C1'', w)] \<and> 0 \<le> w"
proof -
  have ok: "\<exists>r. ver_result_from_dict (PDict d) = Inr r" if "dget_or d ''diagnostics'' (PList []) = PList []" for d
    using that by (simp add: ver_result_from_dict_def Let_def truthy_texts_def)
  have 1: "\<exists>s. candidate_verification_strength demo_candidate = Inr s"
    using ok [of "[(''passed'', PBool True), (''replayable'', PBool True),
         (''measured_strength'', PStr ''EMPIRICAL''), (''honesty_measurements'', PDict [])]"]
    by (auto simp: candidate_verification_strength_def candidate_verification_results_def result_items_def demo_candidate_def sample_candidate_def
        result_data_def dget_def dget_or_def py_or_def)
  have 2: "candidate_verification_strength (demo_candidate\<lparr>cg_id := ''C2'', cg_verification_trace := []\<rparr>) = Inr SNone"
    by (simp add: candidate_verification_strength_def candidate_verification_results_def result_items_def demo_candidate_def sample_candidate_def dget_def)
  have i: "cg_id demo_candidate = ''C1''" by (simp add: demo_candidate_def sample_candidate_def)
  from 1 obtain s where "candidate_verification_strength demo_candidate = Inr s" ..
  with 2 i show ?thesis by (simp add: candidate_scores_def demo_pair_def strength_value_nonneg)
qed

theorem minimax_budget_exact_witness:
  "\<exists>out. allocate_adversarial_budget demo_pair 5 1 None = Inr out \<and> map fst out = [''C2'', ''C1''] \<and> allocation_total out = 10"
proof -
  obtain w where w: "candidate_scores demo_pair = Inr [(''C2'', 0), (''C1'', w)]" using demo_pair_scores by blast
  have "length demo_pair = 2" "demo_pair \<noteq> []" by (simp_all add: demo_pair_def)
  then show ?thesis
    using minimax_budget_exact [of demo_pair "[(''C2'', 0), (''C1'', w)]" 5 1 None] w
    by (auto simp: demo_pair_named requested_total_def)
qed

theorem minimax_budget_order_witness:
  "\<exists>out x y. allocate_adversarial_budget demo_pair 5 1 None = Inr out \<and> map_of out ''C2'' = Some x \<and> map_of out ''C1'' = Some y \<and> x \<le> y + 1"
proof -
  obtain w where w: "candidate_scores demo_pair = Inr [(''C2'', 0), (''C1'', w)]" "0 \<le> w" using demo_pair_scores by blast
  have "\<exists>out. allocate_adversarial_budget demo_pair 5 1 None = Inr out"
    using w(1) by (simp add: allocate_adversarial_budget_def Let_def flip: named_candidates_def) (simp add: demo_pair_named)
  then obtain out where "allocate_adversarial_budget demo_pair 5 1 None = Inr out" ..
  moreover from minimax_budget_order [OF _ _ this, of "[(''C2'', 0), (''C1'', w)]" "''C2''" 0 "''C1''" w] w
  obtain x y where "map_of out ''C2'' = Some x" "map_of out ''C1'' = Some y" "x \<le> y + (if 0 < w then 0 else 1)"
    by (auto simp: demo_pair_named)
  moreover have "x \<le> y + 1" using \<open>x \<le> y + (if 0 < w then 0 else 1)\<close> by (simp split: if_splits)
  ultimately show ?thesis by blast
qed

end
