(* ===== verification/LatentArchive.thy ===== *)
theory LatentArchive
  imports Genome
begin

text \<open>
  archives/latent_pareto.py: the archive lane of latent-intent candidates. It keeps the JSON form of each
  candidate under its id, the intents it stands for, when it was seen, and for each intent a bucket
  of candidates with the best representative first. Adding prunes and then enforces a quota per intent.
  \<open>clock n\<close> is the time at which removal number \<open>n\<close> is recorded.
\<close>

section \<open>Reading candidate data\<close>

definition optional_int :: "pyval \<Rightarrow> int option \<Rightarrow> int option" where
  "optional_int v dflt =
     (if v = PNone then dflt else case py_int v of Inr i \<Rightarrow> Some i | Inl _ \<Rightarrow> dflt)"

text \<open>Every float of the model is finite.\<close>

definition finite_float :: "pyval \<Rightarrow> rat option \<Rightarrow> rat option" where
  "finite_float v dflt = (case py_float v of Inr q \<Rightarrow> Some q | Inl _ \<Rightarrow> dflt)"

definition float_or_zero :: "pyval \<Rightarrow> rat" where
  "float_or_zero v = (case finite_float v (Some 0) of Some q \<Rightarrow> q | None \<Rightarrow> 0)"

definition int_policy :: "pyval \<Rightarrow> int option \<Rightarrow> int option" where
  "int_policy v dflt =
     (case v of
        PStr s \<Rightarrow> (if lower (strip s) \<in> set ['''', ''auto'', ''adaptive'', ''model''] then dflt else optional_int v dflt)
      | _ \<Rightarrow> optional_int v dflt)"

definition opt_int_val :: "int option \<Rightarrow> pyval" where
  "opt_int_val r = (case r of None \<Rightarrow> PNone | Some i \<Rightarrow> PInt i)"

definition or_else :: "'a list \<Rightarrow> 'a list \<Rightarrow> 'a list" where
  "or_else xs ys = (if xs \<noteq> [] then xs else ys)"

definition intent_scores :: "pydict \<Rightarrow> (string \<times> rat) list" where
  "intent_scores data =
     (let md = coerce_dict (dget data ''metadata'');
          raw = coerce_dict (py_or (dget md ''latent_intent_scores'') (dget data ''latent_intent_scores''))
      in fold (\<lambda>(intent, v) acc. case finite_float v None of None \<Rightarrow> acc | Some q \<Rightarrow> dset intent q acc) raw [])"

definition intents_from_data :: "pydict \<Rightarrow> string list" where
  "intents_from_data data =
     (let md = coerce_dict (dget data ''metadata'');
          explicit = coerce_str_list (py_or (py_or (dget md ''latent_intent_ids'') (dget md ''target_intent_ids''))
            (dget md ''latent_target_intent_ids''));
          single = strip (str_field (py_or (py_or (dget md ''latent_intent_id'') (dget md ''latent_intent'')) (dget md ''intent_id'')) []);
          scores = intent_scores data;
          stored = coerce_str_list (dget (coerce_dict (dget data ''latent_archive_governance'')) ''intents'')
      in if explicit \<noteq> [] then explicit
         else if single \<noteq> [] then [single]
         else if scores \<noteq> [] then
           (let best_score = Max (set (map snd scores))
            in map fst (filter (\<lambda>p. snd p = best_score) (sort_key fst scores)))
         else or_else stored [''unknown_intent''])"

definition archive_round :: "candidate \<Rightarrow> int option" where
  "archive_round c =
     (case dropWhile (\<lambda>r. r = None) (map (\<lambda>k. optional_int (dget (cg_metadata c) k) None)
             [''latent_archive_round'', ''latent_round'', ''created_in_round'', ''generation_plan_round'']) of
        r # _ \<Rightarrow> r
      | [] \<Rightarrow> Some (cg_generation c))"

type_synonym rep_key = "rat \<times> rat \<times> rat \<times> int \<times> string"

definition representative_key :: "pydict \<Rightarrow> string \<Rightarrow> rep_key" where
  "representative_key data intent =
     (let md = coerce_dict (dget data ''metadata'');
          scores = coerce_dict (dget data ''multihead_scores'');
          intent_score = (case map_of (intent_scores data) intent of
              Some q \<Rightarrow> q
            | None \<Rightarrow> float_or_zero (dget md ''latent_representative_score''));
          signal = max (float_or_zero (dget scores ''latent_reproductive_signal''))
            (max (float_or_zero (dget scores ''novelty'')) (float_or_zero (dget scores ''rarity'')));
          quality = sum_list (map (\<lambda>axis. float_or_zero (dget scores axis))
            [''objective_alignment'', ''answer_likelihood'', ''verifiability'', ''tool_progress'', ''proof_progress'',
             ''evidence_progress'']) / 6;
          governance = coerce_dict (dget data ''latent_archive_governance'');
          last_seen = (case optional_int (dget governance ''last_seen_round'') (optional_int (dget data ''generation'') (Some 0)) of
              Some i \<Rightarrow> i | None \<Rightarrow> 0)
      in (intent_score, signal, quality, last_seen, str_field (dget data ''id'') []))"

definition representative_score :: "pydict \<Rightarrow> string \<Rightarrow> rat" where
  "representative_score data intent = fst (representative_key data intent)"

section \<open>The archive\<close>

record latent_archive =
  la_candidates :: "(string \<times> pydict) list"
  la_buckets :: "(string \<times> string list) list"
  la_intents :: "(string \<times> string list) list"
  la_observed :: "(string \<times> pydict) list"
  la_quota :: int
  la_stale :: int
  la_removed :: int
  la_reasons :: "(string \<times> int) list"
  la_log :: "pydict list"

definition new_archive :: "int \<Rightarrow> int \<Rightarrow> latent_archive" where
  "new_archive quota stale =
     \<lparr>la_candidates = [], la_buckets = [], la_intents = [], la_observed = [], la_quota = quota, la_stale = stale,
      la_removed = 0, la_reasons = [], la_log = []\<rparr>"

definition lookup_list :: "('k \<times> 'v list) list \<Rightarrow> 'k \<Rightarrow> 'v list" where
  "lookup_list d k = (case map_of d k of Some xs \<Rightarrow> xs | None \<Rightarrow> [])"

definition record_removal :: "(int \<Rightarrow> string) \<Rightarrow> string \<Rightarrow> string \<Rightarrow> latent_archive \<Rightarrow> latent_archive" where
  "record_removal clock cid reason a =
     (let normalized = str_or reason ''removed'' in
      a\<lparr>la_removed := la_removed a + 1,
        la_reasons := dset normalized ((case map_of (la_reasons a) normalized of Some n \<Rightarrow> n | None \<Rightarrow> 0) + 1) (la_reasons a),
        la_log := last_n 50 (la_log a @
          [[(''candidate_id'', PStr cid), (''reason'', PStr normalized), (''at'', PStr (clock (la_removed a)))]])\<rparr>)"

text \<open>\<open>discard\<close>; the caller may ask not to record the removal.\<close>

definition discard :: "(int \<Rightarrow> string) \<Rightarrow> string \<Rightarrow> string \<Rightarrow> bool \<Rightarrow> latent_archive \<Rightarrow> latent_archive" where
  "discard clock cid reason rec a =
     (let existed = cid \<in> dkeys (la_candidates a);
          a1 = a\<lparr>la_candidates := ddel cid (la_candidates a), la_intents := ddel cid (la_intents a),
                 la_observed := ddel cid (la_observed a),
                 la_buckets := filter (\<lambda>p. snd p \<noteq> []) (map (\<lambda>(i, ids). (i, filter (\<lambda>x. x \<noteq> cid) ids)) (la_buckets a))\<rparr>
      in if existed \<and> rec then record_removal clock cid reason a1 else a1)"

text \<open>\<open>_rebuild_intent_buckets\<close>; the model stores only objects, so no entry is dropped here.\<close>

definition rebuilt_intents :: "latent_archive \<Rightarrow> string \<Rightarrow> pydict \<Rightarrow> string list" where
  "rebuilt_intents a cid data =
     or_else (filter (\<lambda>s. s \<noteq> []) (lookup_list (la_intents a) cid)) (intents_from_data data)"

definition rebuilt_observation :: "latent_archive \<Rightarrow> string \<Rightarrow> pydict \<Rightarrow> pydict" where
  "rebuilt_observation a cid data =
     (let observation = (case map_of (la_observed a) cid of Some o' \<Rightarrow> o' | None \<Rightarrow> []);
          governance = coerce_dict (dget data ''latent_archive_governance'');
          last_seen = optional_int (dget observation ''last_seen_round'') (optional_int (dget governance ''last_seen_round'') None);
          added = optional_int (dget observation ''added_round'') (optional_int (dget governance ''added_round'') last_seen)
      in [(''added_round'', opt_int_val added), (''last_seen_round'', opt_int_val last_seen)])"

definition add_to_bucket :: "string \<Rightarrow> string \<Rightarrow> (string \<times> string list) list \<Rightarrow> (string \<times> string list) list" where
  "add_to_bucket cid intent buckets = dset intent (lookup_list buckets intent @ [cid]) buckets"

definition data_of :: "latent_archive \<Rightarrow> string \<Rightarrow> pydict" where
  "data_of a cid = (case map_of (la_candidates a) cid of Some d \<Rightarrow> d | None \<Rightarrow> [])"

definition rank_bucket :: "latent_archive \<Rightarrow> string \<Rightarrow> string list \<Rightarrow> string list" where
  "rank_bucket a intent ids = rev (sort_key (\<lambda>cid. representative_key (data_of a cid) intent) (rev ids))"

definition rebuild :: "latent_archive \<Rightarrow> latent_archive" where
  "rebuild a =
     (let intents = fold (\<lambda>(cid, data). dset cid (rebuilt_intents a cid data)) (la_candidates a) (la_intents a);
          observed = fold (\<lambda>(cid, data). dset cid (rebuilt_observation a cid data)) (la_candidates a) (la_observed a);
          buckets = fold (\<lambda>(cid, data). fold (add_to_bucket cid) (rebuilt_intents a cid data)) (la_candidates a) []
      in a\<lparr>la_intents := intents, la_observed := observed,
           la_buckets := map (\<lambda>(intent, ids). (intent, rank_bucket a intent ids)) buckets\<rparr>)"

definition enforce_quotas :: "(int \<Rightarrow> string) \<Rightarrow> latent_archive \<Rightarrow> latent_archive" where
  "enforce_quotas clock a =
     (let quota = max 1 (la_quota a);
          keep = concat (map (\<lambda>(_, ids). take (nat quota) ids) (la_buckets a))
      in rebuild (fold (\<lambda>cid a. if cid \<in> set keep then a else discard clock cid ''intent_quota'' True a)
           (map fst (la_candidates a)) a))"

text \<open>Why \<open>prune\<close> removes a candidate; empty when it stays.\<close>

definition TERMINAL_FAILURE_FATES :: "string list" where
  "TERMINAL_FAILURE_FATES = [''Culled'', ''Failed'']"

definition prune_reason :: "latent_archive \<Rightarrow> int option \<Rightarrow> string \<Rightarrow> pydict \<Rightarrow> string" where
  "prune_reason a rnd cid data =
     (if normalize_fate (dget data ''current_fate'') None \<in> set TERMINAL_FAILURE_FATES then ''terminal_fate''
      else if dget (coerce_dict (dget data ''metadata'')) ''latent_pareto_frontier'' \<noteq> PBool True then ''stale_not_frontier''
      else
        let observation = (case map_of (la_observed a) cid of Some o' \<Rightarrow> o' | None \<Rightarrow> [])
        in case (rnd, optional_int (dget observation ''last_seen_round'') None) of
             (Some r, Some last_seen) \<Rightarrow> (if r - last_seen > la_stale a then ''stale_age'' else [])
           | _ \<Rightarrow> [])"

definition prune :: "(int \<Rightarrow> string) \<Rightarrow> int option \<Rightarrow> latent_archive \<Rightarrow> string list \<times> latent_archive" where
  "prune clock rnd a =
     fold (\<lambda>(cid, data) (removed, a).
         let reason = prune_reason a rnd cid data
         in if reason \<noteq> [] then (removed @ [cid], discard clock cid reason True a) else (removed, a))
       (la_candidates (rebuild a)) ([], rebuild a)"

definition archive_add :: "(int \<Rightarrow> string) \<Rightarrow> candidate \<Rightarrow> latent_archive \<Rightarrow> latent_archive" where
  "archive_add clock c a =
     (let rnd = archive_round c;
          a1 = snd (prune clock rnd a);
          intents = intents_from_data (candidate_to_dict c);
          previous = (case map_of (la_observed a1) (cg_id c) of Some o' \<Rightarrow> o' | None \<Rightarrow> []);
          added = optional_int (dget previous ''added_round'') rnd;
          data = candidate_to_dict c;
          governance = [(''intents'', PList (map PStr intents)), (''added_round'', opt_int_val added),
             (''last_seen_round'', opt_int_val rnd), (''stale_after_rounds'', PInt (la_stale a1)),
             (''representative_scores'', PDict (fold (\<lambda>i. dset i (PFloat (representative_score data i))) intents []))];
          a2 = a1\<lparr>la_candidates := dset (cg_id c) (dset ''latent_archive_governance'' (PDict governance) data) (la_candidates a1),
                  la_intents := dset (cg_id c) intents (la_intents a1),
                  la_observed := dset (cg_id c) [(''added_round'', opt_int_val added), (''last_seen_round'', opt_int_val rnd)]
                    (la_observed a1)\<rparr>
      in enforce_quotas clock (rebuild a2))"

section \<open>Reports and storage\<close>

definition latest_observed_round :: "latent_archive \<Rightarrow> int option" where
  "latest_observed_round a =
     (let present = concat (map (\<lambda>(_, o'). case optional_int (dget o' ''last_seen_round'') None of None \<Rightarrow> [] | Some r \<Rightarrow> [r])
            (la_observed a))
      in if present = [] then None else Some (Max (set present)))"

definition stale_count :: "latent_archive \<Rightarrow> int" where
  "stale_count a =
     (case latest_observed_round a of
        None \<Rightarrow> 0
      | Some latest \<Rightarrow> int (length (filter (\<lambda>(cid, _).
          case optional_int (dget (case map_of (la_observed a) cid of Some o' \<Rightarrow> o' | None \<Rightarrow> []) ''last_seen_round'') None of
            None \<Rightarrow> False | Some r \<Rightarrow> latest - r > la_stale a) (la_candidates a))))"

definition archive_summary :: "latent_archive \<Rightarrow> pydict" where
  "archive_summary a0 =
     (let a = rebuild a0;
          buckets = sort_key fst (la_buckets a);
          n = length (la_buckets a)
      in [(''candidates'', PInt (int (length (la_candidates a)))),
          (''intent_count'', PInt (int n)),
          (''intent_counts'', PDict (map (\<lambda>(i, ids). (i, PInt (int (length ids)))) buckets)),
          (''intent_buckets'', PDict (map (\<lambda>(i, ids). (i, PList (map PStr ids))) buckets)),
          (''max_representatives_per_intent'', PInt (la_quota a)),
          (''stale_after_rounds'', PInt (la_stale a)),
          (''latest_observed_round'', opt_int_val (latest_observed_round a)),
          (''stale_candidates'', PInt (stale_count a)),
          (''removed_total'', PInt (la_removed a)),
          (''removal_reasons'', PDict (map (map_prod id PInt) (sort_key fst (la_reasons a)))),
          (''intent_selection_weights'', PDict (map (\<lambda>(i, _). (i, PFloat (1 / of_nat n))) buckets)),
          (''desirability_basis'', PStr ''intent_bucket_uniform_not_archive_frequency'')])"

definition archive_to_dict :: "latent_archive \<Rightarrow> pydict" where
  "archive_to_dict a0 =
     (let a = rebuild a0
      in [(''candidates'', PDict (map (map_prod id PDict) (la_candidates a))),
          (''intent_buckets'', PDict (map (\<lambda>(i, ids). (i, PList (map PStr ids))) (la_buckets a))),
          (''candidate_intents'', PDict (map (\<lambda>(i, xs). (i, PList (map PStr xs))) (la_intents a))),
          (''candidate_observations'', PDict (map (map_prod id PDict) (la_observed a))),
          (''max_representatives_per_intent'', PInt (la_quota a)),
          (''stale_after_rounds'', PInt (la_stale a)),
          (''removed_total'', PInt (la_removed a)),
          (''removal_reasons'', PDict (map (map_prod id PInt) (la_reasons a))),
          (''removal_log'', PList (map PDict (la_log a))),
          (''governance_summary'', PDict (archive_summary a))])"

text \<open>\<open>_int_policy(v, default=d) or d\<close>.\<close>

definition policy_or :: "pyval \<Rightarrow> int \<Rightarrow> int" where
  "policy_or v d = (case int_policy v (Some d) of None \<Rightarrow> d | Some i \<Rightarrow> (if i = 0 then d else i))"

definition archive_from_dict :: "pydict \<Rightarrow> pyexn + latent_archive" where
  "archive_from_dict data =
     (let governance = coerce_dict (dget data ''governance_summary'');
          stored = (\<lambda>k. dget_or data k (dget governance k));
          items = (\<lambda>k. coerce_dict (dget data k))
      in sbind (iter_items (dget_or data ''removal_log'' (PList []))) (\<lambda>logged.
         Inr (rebuild
           \<lparr>la_candidates = fold (\<lambda>(k, v) acc. case v of PDict d \<Rightarrow> dset k d acc | _ \<Rightarrow> acc) (items ''candidates'') [],
            la_buckets = fold (\<lambda>(k, v). dset k (coerce_str_list v)) (items ''intent_buckets'') [],
            la_intents = fold (\<lambda>(k, v). dset k (coerce_str_list v)) (items ''candidate_intents'') [],
            la_observed = fold (\<lambda>(k, v). dset k (coerce_dict v)) (items ''candidate_observations'') [],
            la_quota = max 1 (policy_or (stored ''max_representatives_per_intent'') 3),
            la_stale = max 0 (case int_policy (stored ''stale_after_rounds'') (Some 6) of Some i \<Rightarrow> i | None \<Rightarrow> 0),
            la_removed = max 0 (policy_or (stored ''removed_total'') 0),
            la_reasons = fold (\<lambda>(k, v). dset k (max 0 (policy_or v 0))) (coerce_dict (stored ''removal_reasons'')) [],
            la_log = last_n 50 (concat (map (\<lambda>v. case v of PDict d \<Rightarrow> [d] | _ \<Rightarrow> []) logged))\<rparr>)))"

section \<open>Lemmas\<close>

subsection \<open>Buckets\<close>

lemma lookup_list_dset: "lookup_list (dset k xs d) i = (if i = k then xs else lookup_list d i)"
  by (simp add: lookup_list_def)

lemma lookup_add_to_bucket: "lookup_list (add_to_bucket cid k b) i = lookup_list b i @ (if i = k then [cid] else [])"
  by (simp add: add_to_bucket_def lookup_list_dset)

lemma lookup_fold_add:
  "set (lookup_list (fold (add_to_bucket cid) xs b) i) = set (lookup_list b i) \<union> (if i \<in> set xs then {cid} else {})"
  by (induction xs arbitrary: b) (auto simp: lookup_add_to_bucket)

lemma lookup_fold_buckets:
  "set (lookup_list (fold (\<lambda>(cid, data). fold (add_to_bucket cid) (g cid data)) cs b) i) =
     set (lookup_list b i) \<union> {cid. \<exists>data. (cid, data) \<in> set cs \<and> i \<in> set (g cid data)}"
  by (induction cs arbitrary: b) (auto simp: lookup_fold_add split: if_splits)

definition buckets_wf :: "(string \<times> string list) list \<Rightarrow> bool" where
  "buckets_wf b \<longleftrightarrow> distinct (map fst b) \<and> (\<forall>p \<in> set b. snd p \<noteq> [])"

lemma buckets_wf_add: "buckets_wf b \<Longrightarrow> buckets_wf (add_to_bucket cid k b)"
  using set_dset [of k "lookup_list b k @ [cid]" b]
  by (auto simp: buckets_wf_def add_to_bucket_def distinct_dset)

lemma buckets_wf_fold: "buckets_wf b \<Longrightarrow> buckets_wf (fold (\<lambda>(cid, data). fold (add_to_bucket cid) (g cid data)) cs b)"
proof (induction cs arbitrary: b)
  case (Cons p cs)
  have "buckets_wf (fold (add_to_bucket c) xs b)" if "buckets_wf b" for c xs b
    using that by (induction xs arbitrary: b) (auto intro: buckets_wf_add)
  then show ?case using Cons by (cases p) simp
qed simp

lemma set_rank_bucket [simp]: "set (rank_bucket a i ids) = set ids"
  by (simp add: rank_bucket_def)

lemma rank_bucket_Nil [simp]: "rank_bucket a i ids = [] \<longleftrightarrow> ids = []"
  by (metis set_empty set_rank_bucket)

text \<open>One candidate goes before another in the bucket of an intent.\<close>

definition outranks :: "latent_archive \<Rightarrow> string \<Rightarrow> string \<Rightarrow> string \<Rightarrow> bool" where
  "outranks a intent x y \<longleftrightarrow> representative_key (data_of a y) intent \<le> representative_key (data_of a x) intent"

lemma rank_bucket_sorted: "sorted_wrt (outranks a i) (rank_bucket a i ids)"
  using sorted_sort_key [of "\<lambda>cid. representative_key (data_of a cid) i" "rev ids"]
  by (simp add: rank_bucket_def outranks_def sorted_wrt_rev sorted_map)

lemma lookup_list_map:
  assumes "\<And>i. f i [] = []"
  shows "lookup_list (map (\<lambda>(i, ids). (i, f i ids)) b) i = f i (lookup_list b i)"
  by (simp add: lookup_list_def map_of_map_values assms split: option.split)

lemma lookup_list_filter:
  assumes "distinct (map fst b)"
  shows "lookup_list (filter (\<lambda>p. snd p \<noteq> []) b) i = lookup_list b i"
  using assms
proof (induction b)
  case (Cons p b)
  obtain k xs where p: "p = (k, xs)" by force
  have "k \<notin> fst ` set b" using Cons.prems by (simp add: p)
  then have "map_of b k = None" by (simp add: map_of_eq_None_iff)
  then show ?case using Cons by (auto simp: p lookup_list_def split: option.split)
qed simp

lemma lookup_list_in: "distinct (map fst b) \<Longrightarrow> (i, ids) \<in> set b \<Longrightarrow> lookup_list b i = ids"
  by (simp add: lookup_list_def)

subsection \<open>The invariant\<close>

definition counts_ok :: "latent_archive \<Rightarrow> bool" where
  "counts_ok a \<longleftrightarrow> distinct (map fst (la_reasons a)) \<and> la_removed a = sum_list (map snd (la_reasons a)) \<and>
     (\<forall>p \<in> set (la_reasons a). 0 \<le> snd p) \<and> 0 \<le> la_removed a \<and> int (length (la_log a)) = min 50 (la_removed a)"

definition tables_ok :: "latent_archive \<Rightarrow> bool" where
  "tables_ok a \<longleftrightarrow> distinct (map fst (la_candidates a)) \<and> distinct (map fst (la_intents a)) \<and>
     distinct (map fst (la_observed a)) \<and> dkeys (la_intents a) = dkeys (la_candidates a) \<and>
     dkeys (la_observed a) = dkeys (la_candidates a)"

text \<open>A bucket holds, best first, exactly the candidates that stand for its intent.\<close>

definition buckets_ok :: "latent_archive \<Rightarrow> bool" where
  "buckets_ok a \<longleftrightarrow> buckets_wf (la_buckets a) \<and>
     (\<forall>i. set (lookup_list (la_buckets a) i) = {cid \<in> dkeys (la_candidates a). i \<in> set (lookup_list (la_intents a) cid)}) \<and>
     (\<forall>i. sorted_wrt (outranks a i) (lookup_list (la_buckets a) i))"

definition archive_ok :: "latent_archive \<Rightarrow> bool" where
  "archive_ok a \<longleftrightarrow> tables_ok a \<and> buckets_ok a \<and> counts_ok a"

lemma sum_dset:
  "distinct (map fst d) \<Longrightarrow>
     sum_list (map snd (dset k v d)) = sum_list (map snd d) - (case map_of d k of Some n \<Rightarrow> n | None \<Rightarrow> 0) + (v :: int)"
proof (induction d)
  case (Cons p d)
  have "fst p \<notin> fst ` set d" using Cons.prems by simp
  then have "map_of d (fst p) = None" by (simp add: map_of_eq_None_iff)
  then show ?case using Cons by (cases p) auto
qed simp

lemma counts_record:
  assumes "counts_ok a"
  shows "counts_ok (record_removal clock cid reason a)"
proof -
  let ?n = "case map_of (la_reasons a) (str_or reason ''removed'') of Some n \<Rightarrow> n | None \<Rightarrow> 0"
  have "0 \<le> ?n" using assms by (auto simp: counts_ok_def dest: map_of_SomeD split: option.split)
  then have "\<forall>p \<in> set (dset (str_or reason ''removed'') (?n + 1) (la_reasons a)). 0 \<le> snd p"
    using assms set_dset [of "str_or reason ''removed''" "?n + 1" "la_reasons a"] unfolding counts_ok_def by fastforce
  then show ?thesis using assms
    by (auto simp: counts_ok_def record_removal_def Let_def distinct_dset sum_dset)
qed

lemma record_removal_simps [simp]:
  "la_candidates (record_removal clock cid r a) = la_candidates a" "la_intents (record_removal clock cid r a) = la_intents a"
  "la_observed (record_removal clock cid r a) = la_observed a" "la_buckets (record_removal clock cid r a) = la_buckets a"
  "la_quota (record_removal clock cid r a) = la_quota a" "la_stale (record_removal clock cid r a) = la_stale a"
  "la_removed (record_removal clock cid r a) = la_removed a + 1"
  by (simp_all add: record_removal_def Let_def)

lemma discard_simps [simp]:
  "la_candidates (discard clock cid r b a) = ddel cid (la_candidates a)"
  "la_intents (discard clock cid r b a) = ddel cid (la_intents a)"
  "la_observed (discard clock cid r b a) = ddel cid (la_observed a)"
  "la_buckets (discard clock cid r b a) =
     filter (\<lambda>p. snd p \<noteq> []) (map (\<lambda>(i, ids). (i, filter (\<lambda>x. x \<noteq> cid) ids)) (la_buckets a))"
  "la_quota (discard clock cid r b a) = la_quota a" "la_stale (discard clock cid r b a) = la_stale a"
  "la_removed (discard clock cid r b a) = la_removed a + (if cid \<in> dkeys (la_candidates a) \<and> b then 1 else 0)"
  by (simp_all add: discard_def Let_def)

lemma discard_counts: "counts_ok a \<Longrightarrow> counts_ok (discard clock cid r b a)"
proof -
  assume a: "counts_ok a"
  have "counts_ok a1" if "la_reasons a1 = la_reasons a" "la_removed a1 = la_removed a" "la_log a1 = la_log a" for a1 :: latent_archive
    using a that by (simp add: counts_ok_def)
  then show ?thesis unfolding discard_def Let_def by (auto intro!: counts_record)
qed

lemma lookup_ddel: "lookup_list (ddel k d) i = (if i = k then [] else lookup_list d i)"
  by (simp add: lookup_list_def AList.delete_conv')

lemma data_of_discard: "cid' \<noteq> cid \<Longrightarrow> data_of (discard clock cid r b a) cid' = data_of a cid'"
  by (simp add: data_of_def)

lemma discard_ok:
  assumes "archive_ok a"
  shows "archive_ok (discard clock cid r b a)"
proof -
  let ?a = "discard clock cid r b a"
  have wf: "buckets_wf (la_buckets a)" "tables_ok a" "counts_ok a" "buckets_ok a"
    using assms by (simp_all add: archive_ok_def buckets_ok_def)
  have d: "distinct (map fst (map (\<lambda>(i, ids). (i, filter (\<lambda>x. x \<noteq> cid) ids)) (la_buckets a)))"
    using wf(1) by (simp add: buckets_wf_def comp_def case_prod_unfold)
  have look: "lookup_list (la_buckets ?a) i = filter (\<lambda>x. x \<noteq> cid) (lookup_list (la_buckets a) i)" for i
    by (simp add: lookup_list_filter [OF d] lookup_list_map)
  have "buckets_wf (la_buckets ?a)"
    using distinct_map_filter [OF d] by (simp add: buckets_wf_def)
  moreover have "sorted_wrt (outranks ?a i) (lookup_list (la_buckets ?a) i)" for i
  proof -
    have "sorted_wrt (outranks a i) (filter (\<lambda>x. x \<noteq> cid) (lookup_list (la_buckets a) i))"
      using wf(4) by (simp add: buckets_ok_def sorted_wrt_filter)
    then show ?thesis unfolding look
      by (rule sorted_wrt_mono_rel [rotated]) (simp add: outranks_def data_of_discard)
  qed
  ultimately have "buckets_ok ?a"
    using wf(4) unfolding buckets_ok_def look by (auto simp: lookup_ddel)
  moreover have "tables_ok ?a" using wf(2) by (auto simp: tables_ok_def distinct_ddel)
  ultimately show ?thesis using discard_counts [OF wf(3)] by (simp add: archive_ok_def)
qed

subsection \<open>Rebuilding\<close>

lemma rebuild_simps [simp]:
  "la_candidates (rebuild a) = la_candidates a" "la_quota (rebuild a) = la_quota a" "la_stale (rebuild a) = la_stale a"
  "la_removed (rebuild a) = la_removed a" "la_reasons (rebuild a) = la_reasons a" "la_log (rebuild a) = la_log a"
  by (simp_all add: rebuild_def Let_def)

lemma lookup_list_fold_values:
  "distinct (map fst d) \<Longrightarrow> lookup_list (fold (\<lambda>(k, v). dset k (f k v)) d m) x =
     (case map_of d x of Some v \<Rightarrow> f x v | None \<Rightarrow> lookup_list m x)"
  by (simp add: lookup_list_def map_of_fold_values split: option.split)

lemma rebuild_ok:
  assumes "distinct (map fst (la_candidates a))" "distinct (map fst (la_intents a))" "distinct (map fst (la_observed a))"
    and "dkeys (la_intents a) \<subseteq> dkeys (la_candidates a)" "dkeys (la_observed a) \<subseteq> dkeys (la_candidates a)" "counts_ok a"
  shows "archive_ok (rebuild a)"
proof -
  let ?c = "la_candidates a"
  let ?B = "fold (\<lambda>(cid, data). fold (add_to_bucket cid) (rebuilt_intents a cid data)) ?c []"
  have t: "tables_ok (rebuild a)"
    using assms by (auto simp: tables_ok_def rebuild_def Let_def distinct_fold_values dkeys_fold_values)
  have wf: "buckets_wf ?B" by (rule buckets_wf_fold) (simp add: buckets_wf_def)
  have look: "lookup_list (la_buckets (rebuild a)) i = rank_bucket a i (lookup_list ?B i)" for i
    by (simp add: rebuild_def Let_def lookup_list_map)
  have int: "lookup_list (la_intents (rebuild a)) cid = rebuilt_intents a cid data" if "(cid, data) \<in> set ?c" for cid data
    using that assms(1) by (simp add: rebuild_def Let_def lookup_list_fold_values)
  have "set (lookup_list ?B i) = {cid. \<exists>data. (cid, data) \<in> set ?c \<and> i \<in> set (rebuilt_intents a cid data)}" for i
    unfolding lookup_fold_buckets by (simp add: lookup_list_def)
  then have "set (lookup_list ?B i) = {cid \<in> dkeys ?c. i \<in> set (lookup_list (la_intents (rebuild a)) cid)}" for i
    using int unfolding dkeys_def by force
  moreover have "buckets_wf (la_buckets (rebuild a))"
    using wf by (auto simp: buckets_wf_def rebuild_def Let_def comp_def case_prod_unfold)
  moreover have "sorted_wrt (outranks (rebuild a) i) (lookup_list (la_buckets (rebuild a)) i)" for i
  proof -
    have e: "outranks (rebuild a) i = outranks a i" by (simp add: outranks_def data_of_def fun_eq_iff)
    show ?thesis unfolding look e by (rule rank_bucket_sorted)
  qed
  ultimately have "buckets_ok (rebuild a)" by (simp add: buckets_ok_def look)
  moreover have "counts_ok (rebuild a)" using assms(6) by (simp add: counts_ok_def)
  ultimately show ?thesis using t by (simp add: archive_ok_def)
qed

lemma rebuild_ok_again: "archive_ok a \<Longrightarrow> archive_ok (rebuild a)"
  by (rule rebuild_ok) (simp_all add: archive_ok_def tables_ok_def)

subsection \<open>Removing several candidates\<close>

lemma fold_discard:
  assumes "archive_ok a" "distinct ids" "set ids \<subseteq> dkeys (la_candidates a)"
  shows "archive_ok (fold (\<lambda>cid a. if P cid then a else discard clock cid r True a) ids a) \<and>
    la_candidates (fold (\<lambda>cid a. if P cid then a else discard clock cid r True a) ids a) =
      filter (\<lambda>p. \<not> (fst p \<in> set ids \<and> \<not> P (fst p))) (la_candidates a) \<and>
    la_removed (fold (\<lambda>cid a. if P cid then a else discard clock cid r True a) ids a) =
      la_removed a + int (length (filter (\<lambda>c. \<not> P c) ids))"
  using assms
proof (induction ids arbitrary: a)
  case (Cons c ids)
  let ?a = "if P c then a else discard clock c r True a"
  have ok: "archive_ok ?a" using Cons.prems(1) by (simp add: discard_ok)
  have sub: "set ids \<subseteq> dkeys (la_candidates ?a)" using Cons.prems(2,3) by auto
  from Cons.IH [OF ok _ sub] Cons.prems(2,3) show ?case
    by (auto simp: ddel_filter intro: filter_cong)
qed simp

lemma fold_prune:
  assumes "archive_ok a" "distinct (map fst ps)" "fst ` set ps \<subseteq> dkeys (la_candidates a)"
    and "\<forall>p \<in> set ps. prune_reason a rnd (fst p) (snd p) = f p"
  shows "\<exists>a'. fold (\<lambda>(cid, data) (removed, a).
         let reason = prune_reason a rnd cid data
         in if reason \<noteq> [] then (removed @ [cid], discard clock cid reason True a) else (removed, a)) ps (rs, a) =
      (rs @ map fst (filter (\<lambda>p. f p \<noteq> []) ps), a') \<and> archive_ok a' \<and>
      la_candidates a' = filter (\<lambda>p. fst p \<notin> fst ` set (filter (\<lambda>p. f p \<noteq> []) ps)) (la_candidates a) \<and>
      la_removed a' = la_removed a + int (length (filter (\<lambda>p. f p \<noteq> []) ps)) \<and> la_quota a' = la_quota a \<and>
      la_stale a' = la_stale a"
  using assms
proof (induction ps arbitrary: a rs)
  case (Cons p ps)
  obtain cid data where p: "p = (cid, data)" by force
  let ?r = "f p"
  let ?a = "if ?r \<noteq> [] then discard clock cid ?r True a else a"
  have r: "prune_reason a rnd cid data = ?r" using Cons.prems(4) by (simp add: p)
  have ok: "archive_ok ?a" using Cons.prems(1) by (simp add: discard_ok)
  have sub: "fst ` set ps \<subseteq> dkeys (la_candidates ?a)" using Cons.prems(2,3) by (auto simp: p)
  have "prune_reason ?a rnd (fst q) (snd q) = f q" if "q \<in> set ps" for q
  proof -
    have "fst q \<noteq> cid" using that Cons.prems(2) by (auto simp: p)
    then have obs: "map_of (la_observed ?a) (fst q) = map_of (la_observed a) (fst q)" by (simp add: AList.delete_conv')
    have st: "la_stale ?a = la_stale a" by simp
    have "prune_reason ?a rnd (fst q) (snd q) = prune_reason a rnd (fst q) (snd q)"
      unfolding prune_reason_def obs st ..
    then show ?thesis using that Cons.prems(4) by simp
  qed
  then have same: "\<forall>q \<in> set ps. prune_reason ?a rnd (fst q) (snd q) = f q" by blast
  have d: "distinct (map fst ps)" using Cons.prems(2) by simp
  have e: "cid \<in> dkeys (la_candidates a)" using Cons.prems(3) by (simp add: p)
  show ?case
  proof (cases "?r = []")
    case True
    then show ?thesis using Cons.IH [OF ok d sub same, of rs] r by (simp add: p Let_def)
  next
    case False
    then show ?thesis using Cons.IH [OF ok d sub same, of "rs @ [cid]"] r e
      by (auto simp: p Let_def ddel_filter conj_commute)
  qed
qed simp

lemma prune_spec:
  fixes a :: latent_archive and rnd :: "int option"
  assumes "archive_ok a"
  defines "gone \<equiv> filter (\<lambda>p. prune_reason (rebuild a) rnd (fst p) (snd p) \<noteq> []) (la_candidates a)"
  shows "\<exists>a'. prune clock rnd a = (map fst gone, a') \<and> archive_ok a' \<and>
    la_candidates a' = filter (\<lambda>p. prune_reason (rebuild a) rnd (fst p) (snd p) = []) (la_candidates a) \<and>
    la_removed a' = la_removed a + int (length gone) \<and> la_quota a' = la_quota a \<and> la_stale a' = la_stale a"
proof -
  let ?f = "\<lambda>p. prune_reason (rebuild a) rnd (fst p) (snd p)"
  have d: "distinct (map fst (la_candidates a))" using assms(1) by (simp add: archive_ok_def tables_ok_def)
  have "fst p \<in> fst ` set gone \<longleftrightarrow> ?f p \<noteq> []" if "p \<in> set (la_candidates a)" for p
  proof
    assume "fst p \<in> fst ` set gone"
    then obtain q where "q \<in> set (la_candidates a)" "?f q \<noteq> []" "fst q = fst p" by (auto simp: gone_def)
    moreover from this that d have "q = p" by (metis eq_key_imp_eq_value prod.collapse)
    ultimately show "?f p \<noteq> []" by simp
  qed (use that in \<open>auto simp: gone_def\<close>)
  then have "filter (\<lambda>p. fst p \<notin> fst ` set gone) (la_candidates a) = filter (\<lambda>p. ?f p = []) (la_candidates a)"
    by (intro filter_cong) auto
  then show ?thesis
    using fold_prune [OF rebuild_ok_again [OF assms(1)], of "la_candidates a" rnd ?f clock "[]"] d
    by (simp add: prune_def gone_def dkeys_def)
qed

subsection \<open>Quotas, additions and histories\<close>

definition represented :: "latent_archive \<Rightarrow> string \<Rightarrow> bool" where
  "represented a cid \<longleftrightarrow> (\<exists>p \<in> set (la_buckets a). cid \<in> set (take (nat (max 1 (la_quota a))) (snd p)))"

lemma enforce_spec:
  assumes "archive_ok a"
  shows "archive_ok (enforce_quotas clock a) \<and>
    la_candidates (enforce_quotas clock a) = filter (\<lambda>p. represented a (fst p)) (la_candidates a) \<and>
    la_removed (enforce_quotas clock a) =
      la_removed a + int (length (filter (\<lambda>p. \<not> represented a (fst p)) (la_candidates a)))"
proof -
  let ?keep = "concat (map (\<lambda>(_, ids). take (nat (max 1 (la_quota a))) ids) (la_buckets a))"
  have k: "cid \<in> set ?keep \<longleftrightarrow> represented a cid" for cid by (simp add: represented_def case_prod_unfold)
  have d: "distinct (map fst (la_candidates a))" "set (map fst (la_candidates a)) \<subseteq> dkeys (la_candidates a)"
    using assms by (simp_all add: archive_ok_def tables_ok_def dkeys_def)
  have e: "enforce_quotas clock a = rebuild (fold (\<lambda>cid a. if cid \<in> set ?keep then a else discard clock cid ''intent_quota'' True a)
      (map fst (la_candidates a)) a)"
    by (simp only: enforce_quotas_def Let_def)
  note f = fold_discard [OF assms d, of "\<lambda>cid. cid \<in> set ?keep" clock "''intent_quota''"]
  have "filter (\<lambda>p. \<not> (fst p \<in> set (map fst (la_candidates a)) \<and> fst p \<notin> set ?keep)) (la_candidates a) =
      filter (\<lambda>p. represented a (fst p)) (la_candidates a)"
    unfolding k by (intro filter_cong) auto
  moreover have "length (filter (\<lambda>c. c \<notin> set ?keep) (map fst (la_candidates a))) =
      length (filter (\<lambda>p. \<not> represented a (fst p)) (la_candidates a))"
    unfolding k by (simp add: filter_map comp_def)
  ultimately show ?thesis using f rebuild_ok_again unfolding e by (auto simp only: rebuild_simps)
qed

lemma add_ok:
  assumes "archive_ok a"
  shows "archive_ok (archive_add clock c a)"
proof -
  obtain gone a1 where p: "prune clock (archive_round c) a = (gone, a1)" "archive_ok a1"
    using prune_spec [OF assms] by blast
  have "archive_ok (rebuild (a1\<lparr>la_candidates := dset k d (la_candidates a1), la_intents := dset k is (la_intents a1),
      la_observed := dset k ob (la_observed a1)\<rparr>))" for k d "is" ob
    by (rule rebuild_ok) (use p(2) in \<open>auto simp: archive_ok_def tables_ok_def counts_ok_def distinct_dset\<close>)
  then show ?thesis
    unfolding archive_add_def p(1) Let_def snd_conv using enforce_spec by blast
qed

datatype archive_op = AddCandidate candidate | Discard string string bool | Prune "int option"

fun archive_step :: "(int \<Rightarrow> string) \<Rightarrow> archive_op \<Rightarrow> latent_archive \<Rightarrow> latent_archive" where
  "archive_step clock (AddCandidate c) a = archive_add clock c a"
| "archive_step clock (Discard cid reason rec) a = discard clock cid reason rec a"
| "archive_step clock (Prune rnd) a = snd (prune clock rnd a)"

definition archive_run :: "(int \<Rightarrow> string) \<Rightarrow> archive_op list \<Rightarrow> latent_archive \<Rightarrow> latent_archive" where
  "archive_run clock ops a = fold (archive_step clock) ops a"

lemma step_ok: "archive_ok a \<Longrightarrow> archive_ok (archive_step clock op a)"
proof (cases op)
  case (Prune rnd)
  assume "archive_ok a"
  with Prune show ?thesis using prune_spec [of a clock rnd] by auto
qed (simp_all add: add_ok discard_ok)

lemma new_archive_ok: "archive_ok (new_archive q s)"
  by (simp add: archive_ok_def tables_ok_def buckets_ok_def buckets_wf_def counts_ok_def new_archive_def lookup_list_def dkeys_def)

lemma run_ok: "archive_ok a \<Longrightarrow> archive_ok (archive_run clock ops a)"
  unfolding archive_run_def by (induction ops arbitrary: a) (simp_all add: step_ok)

subsection \<open>Storage\<close>

lemma rebuild_congr:
  assumes "la_candidates b = la_candidates a" "la_observed b = la_observed a" "la_quota b = la_quota a" "la_stale b = la_stale a"
    and "la_removed b = la_removed a" "la_reasons b = la_reasons a" "la_log b = la_log a"
    and "la_intents b = map (\<lambda>(k, xs). (k, filter (\<lambda>s. s \<noteq> []) xs)) (la_intents a)" "tables_ok a"
  shows "rebuild b = rebuild a"
proof -
  have i: "rebuilt_intents b = rebuilt_intents a"
    by (intro ext) (simp add: rebuilt_intents_def assms(8) lookup_list_map)
  have o': "rebuilt_observation b = rebuilt_observation a"
    by (intro ext) (simp add: rebuilt_observation_def assms(2))
  have r: "rank_bucket b = rank_bucket a"
    by (intro ext) (simp add: rank_bucket_def data_of_def assms(1))
  have keys: "fst ` set (la_candidates a) = fst ` set (la_intents a)" "distinct (map fst (la_intents a))"
    "distinct (map fst (la_candidates a))"
    using assms(9) by (simp_all add: tables_ok_def dkeys_def)
  have m: "map fst (la_intents b) = map fst (la_intents a)" unfolding assms(8) by (simp add: case_prod_unfold)
  have f: "fold (\<lambda>(cid, data). dset cid (rebuilt_intents a cid data)) (la_candidates a) t =
      map (\<lambda>(k, w). (k, case map_of (la_candidates a) k of Some v \<Rightarrow> rebuilt_intents a k v | None \<Rightarrow> w)) t"
    if "map fst t = map fst (la_intents a)" for t
  proof (rule fold_dset_present)
    have "set (map fst t) = set (map fst (la_intents a))" by (simp only: that)
    then show "fst ` set (la_candidates a) \<subseteq> fst ` set t" using keys(1) by (simp only: set_map order_refl)
  qed (simp_all only: that keys)
  have some: "\<exists>v. map_of (la_candidates a) k = Some v" if "(k, w) \<in> set (la_intents a)" for k w
  proof -
    have "k \<in> fst ` set (la_candidates a)" unfolding keys(1) using that by force
    then show ?thesis by (simp only: map_of_fst_Some)
  qed
  have "map (\<lambda>(k, w). (k, case map_of (la_candidates a) k of Some v \<Rightarrow> rebuilt_intents a k v | None \<Rightarrow> w)) (la_intents b) =
      map (\<lambda>(k, w). (k, case map_of (la_candidates a) k of Some v \<Rightarrow> rebuilt_intents a k v | None \<Rightarrow> w)) (la_intents a)"
    unfolding assms(8) map_map by (intro map_cong refl) (clarsimp, drule some, clarsimp)
  then have "fold (\<lambda>(cid, data). dset cid (rebuilt_intents a cid data)) (la_candidates a) (la_intents b) =
      fold (\<lambda>(cid, data). dset cid (rebuilt_intents a cid data)) (la_candidates a) (la_intents a)"
    by (simp only: f [OF m] f [OF refl])
  then show ?thesis
    unfolding rebuild_def Let_def i o' r assms(1,2)
    by (intro latent_archive.equality) (use assms(1-7) in simp_all)
qed

lemma fold_decode: "distinct (map fst d) \<Longrightarrow> fold (\<lambda>(k, v). dset k (f v)) (map (map_prod id g) d) [] = map (\<lambda>(k, v). (k, f (g v))) d"
  using fold_dset_pairs [of "[]" "map (\<lambda>(k, v). (k, f (g v))) d"]
  by (simp add: fold_map comp_def case_prod_unfold map_prod_def)

subsection \<open>The settings never change\<close>

definition same_settings :: "latent_archive \<Rightarrow> latent_archive \<Rightarrow> bool" where
  "same_settings a b \<longleftrightarrow> la_quota b = la_quota a \<and> la_stale b = la_stale a"

lemma prune_settings: "archive_ok a \<Longrightarrow> same_settings a (snd (prune clock rnd a))"
  using prune_spec [of a clock rnd] by (auto simp: same_settings_def)

lemma enforce_settings: "same_settings a (enforce_quotas clock a)"
proof -
  have "same_settings b (fold (\<lambda>cid a. if P cid then a else discard clock cid r True a) ids b)" for P r ids b
    by (induction ids arbitrary: b) (auto simp: same_settings_def)
  then show ?thesis unfolding enforce_quotas_def Let_def by (simp add: same_settings_def)
qed

lemma add_settings: "archive_ok a \<Longrightarrow> same_settings a (archive_add clock c a)"
  using prune_settings [of a clock "archive_round c"]
  by (simp add: archive_add_def Let_def same_settings_def enforce_settings [unfolded same_settings_def])

lemma step_settings: "archive_ok a \<Longrightarrow> same_settings a (archive_step clock op a)"
  by (cases op) (simp_all add: add_settings prune_settings, simp add: same_settings_def)

lemma run_settings: "archive_ok a \<Longrightarrow> same_settings a (archive_run clock ops a)"
  unfolding archive_run_def
proof (induction ops arbitrary: a)
  case (Cons op ops)
  then show ?case using step_settings [of a clock op] step_ok [of a clock op]
    by (auto simp: same_settings_def)
qed (simp add: same_settings_def)

section \<open>Properties\<close>

text \<open>
  C33: the archive stays consistent. After any sequence of additions, discards and prunings of a new
  archive, the candidate, intent and observation tables have the same keys, the bucket of every intent holds exactly
  the candidates that stand for it with the best representative first, no bucket is empty, the removal
  counter is the sum over the reasons, and the log holds the last 50 removals.
\<close>

theorem latent_archive_consistent:
  "let a = archive_run clock ops (new_archive quota stale) in
    tables_ok a \<and> buckets_wf (la_buckets a) \<and>
    set (lookup_list (la_buckets a) i) = {cid \<in> dkeys (la_candidates a). i \<in> set (lookup_list (la_intents a) cid)} \<and>
    sorted_wrt (outranks a i) (lookup_list (la_buckets a) i) \<and>
    la_removed a = sum_list (map snd (la_reasons a)) \<and> int (length (la_log a)) = min 50 (la_removed a)"
  using run_ok [OF new_archive_ok, of clock ops quota stale]
  by (simp add: Let_def archive_ok_def buckets_ok_def counts_ok_def)

text \<open>
  Pruning removes, counts and reports, in order, exactly the candidates that are terminal, no longer
  marked as frontier, or not seen for more rounds than allowed; the others keep their data.
\<close>

theorem latent_prune_exact:
  assumes "archive_ok a" "prune clock rnd a = (removed, a')"
  shows "removed = map fst (filter (\<lambda>p. prune_reason (rebuild a) rnd (fst p) (snd p) \<noteq> []) (la_candidates a)) \<and>
    la_candidates a' = filter (\<lambda>p. prune_reason (rebuild a) rnd (fst p) (snd p) = []) (la_candidates a) \<and>
    la_removed a' = la_removed a + int (length removed) \<and> archive_ok a'"
  using prune_spec [OF assms(1), of clock rnd] assms(2) by simp

text \<open>
  The quota. A candidate stays exactly when it is among the first entries, as many as the quota
  allows, of some bucket; the others are removed and counted, and each of them is outranked by that
  many entries in every intent it stands for.
\<close>

theorem latent_quota_exact:
  assumes "archive_ok a"
  shows "la_candidates (enforce_quotas clock a) = filter (\<lambda>p. represented a (fst p)) (la_candidates a) \<and>
    la_removed (enforce_quotas clock a) =
      la_removed a + int (length (filter (\<lambda>p. \<not> represented a (fst p)) (la_candidates a))) \<and>
    (\<forall>cid i. cid \<in> dkeys (la_candidates a) \<and> \<not> represented a cid \<and> i \<in> set (lookup_list (la_intents a) cid) \<longrightarrow>
       (let top = take (nat (max 1 (la_quota a))) (lookup_list (la_buckets a) i)
        in int (length top) = max 1 (la_quota a) \<and> list_all (\<lambda>x. outranks a i x cid) top))"
proof -
  have "let top = take (nat (max 1 (la_quota a))) (lookup_list (la_buckets a) i)
        in int (length top) = max 1 (la_quota a) \<and> list_all (\<lambda>x. outranks a i x cid) top"
    if c: "cid \<in> dkeys (la_candidates a)" "\<not> represented a cid" "i \<in> set (lookup_list (la_intents a) cid)" for cid i
  proof -
    let ?q = "nat (max 1 (la_quota a))" and ?ids = "lookup_list (la_buckets a) i"
    have b: "buckets_ok a" using assms by (simp add: archive_ok_def)
    have m: "cid \<in> set ?ids" using b c(1,3) by (simp add: buckets_ok_def)
    then obtain ids where "map_of (la_buckets a) i = Some ids"
      by (cases "map_of (la_buckets a) i") (simp_all add: lookup_list_def)
    then have ids: "(i, ids) \<in> set (la_buckets a)" "?ids = ids"
      by (simp_all add: lookup_list_def map_of_SomeD)
    have n: "cid \<notin> set (take ?q ?ids)" using c(2) ids by (auto simp: represented_def)
    then have "cid \<in> set (drop ?q ?ids)" using m by (metis Un_iff append_take_drop_id set_append)
    moreover have "sorted_wrt (outranks a i) (take ?q ?ids @ drop ?q ?ids)" using b by (simp add: buckets_ok_def)
    ultimately have "list_all (\<lambda>x. outranks a i x cid) (take ?q ?ids)"
      unfolding sorted_wrt_append list_all_iff by blast
    moreover have "?q < length ?ids" using \<open>cid \<in> set (drop ?q ?ids)\<close> by (cases "?q < length ?ids") auto
    ultimately show ?thesis by (simp add: Let_def)
  qed
  then show ?thesis using enforce_spec [OF assms, of clock] by blast
qed

text \<open>
  Storing and loading. Decoding the JSON form of a consistent archive gives the archive back,
  with its buckets rebuilt.
\<close>

theorem latent_archive_roundtrip:
  assumes "archive_ok a" "1 \<le> la_quota a" "0 \<le> la_stale a"
  shows "archive_from_dict (archive_to_dict a) = Inr (rebuild (rebuild a))"
proof -
  let ?a = "rebuild a"
  let ?d = "archive_to_dict a"
  have ok: "archive_ok ?a" by (rule rebuild_ok_again [OF assms(1)])
  then have t: "distinct (map fst (la_candidates ?a))" "distinct (map fst (la_intents ?a))" "distinct (map fst (la_observed ?a))"
    "distinct (map fst (la_reasons ?a))" "0 \<le> la_removed ?a" "length (la_log ?a) \<le> 50"
    by (auto simp: archive_ok_def tables_ok_def counts_ok_def)
  have look: "dget_or ?d ''removal_log'' (PList []) = PList (map PDict (la_log ?a))"
    "dget ?d ''candidates'' = PDict (map (map_prod id PDict) (la_candidates ?a))"
    "dget ?d ''candidate_intents'' = PDict (map (\<lambda>(i, xs). (i, PList (map PStr xs))) (la_intents ?a))"
    "dget ?d ''candidate_observations'' = PDict (map (map_prod id PDict) (la_observed ?a))"
    "dget_or ?d ''max_representatives_per_intent'' v = PInt (la_quota ?a)"
    "dget_or ?d ''stale_after_rounds'' v = PInt (la_stale ?a)"
    "dget_or ?d ''removed_total'' v = PInt (la_removed ?a)"
    "dget_or ?d ''removal_reasons'' v = PDict (map (map_prod id PInt) (la_reasons ?a))" for v
    by (simp_all add: archive_to_dict_def Let_def dget_def dget_or_def)
  have pol: "int_policy (PInt i) x = Some i" "policy_or (PInt i) n = (if i = 0 then n else i)" for i x n
    by (simp_all add: int_policy_def policy_or_def optional_int_def py_int_def)
  have c: "fold (\<lambda>(k, v) acc. case v of PDict d \<Rightarrow> dset k d acc | _ \<Rightarrow> acc) (map (map_prod id PDict) (la_candidates ?a)) [] =
      la_candidates ?a"
    using fold_dset_pairs [of "[]" "la_candidates ?a"] t(1) by (simp add: fold_map comp_def case_prod_unfold)
  have i: "fold (\<lambda>(k, v). dset k (coerce_str_list v)) (map (\<lambda>(i, xs). (i, PList (map PStr xs))) (la_intents ?a)) [] =
      map (\<lambda>(k, xs). (k, filter (\<lambda>s. s \<noteq> []) xs)) (la_intents ?a)"
    using fold_decode [OF t(2), of coerce_str_list "\<lambda>xs. PList (map PStr xs)"] by (simp add: map_prod_def)
  have ob: "fold (\<lambda>(k, v). dset k (coerce_dict v)) (map (map_prod id PDict) (la_observed ?a)) [] = la_observed ?a"
    using fold_decode [OF t(3), of coerce_dict PDict] by (simp add: case_prod_unfold)
  have r: "fold (\<lambda>(k, v). dset k (max 0 (policy_or v 0))) (map (map_prod id PInt) (la_reasons ?a)) [] = la_reasons ?a"
  proof -
    have "map (\<lambda>(k, v). (k, max 0 (if v = 0 then 0 else v))) (la_reasons ?a) = la_reasons ?a"
      using assms(1) by (intro map_idI) (auto simp: archive_ok_def counts_ok_def)
    then show ?thesis using fold_decode [OF t(4), of "\<lambda>v. max 0 (policy_or v 0)" PInt] by (simp only: pol)
  qed
  have l: "last_n 50 (concat (map (\<lambda>v. case v of PDict d \<Rightarrow> [d] | _ \<Rightarrow> []) (map PDict (la_log ?a)))) = la_log ?a"
    using t(6) by (simp add: comp_def last_n_def)
  have q: "max 1 (policy_or (PInt (la_quota ?a)) 3) = la_quota ?a" "max 0 (la_stale ?a) = la_stale ?a"
    "max 0 (policy_or (PInt (la_removed ?a)) 0) = la_removed ?a"
    using assms(2,3) t(5) by (simp_all add: pol)
  show ?thesis
    unfolding archive_from_dict_def Let_def look iter_items_PList sbind_simps pol(1) option.case coerce_dict_PDict c i ob r l q
    by (rule arg_cong [where f = Inr], rule rebuild_congr) (use ok in \<open>simp_all add: archive_ok_def\<close>)
qed

section \<open>Witnesses\<close>

definition demo_lane :: "string \<Rightarrow> candidate" where
  "demo_lane cid = sample_candidate cid [(''latent_pareto_frontier'', PBool True), (''latent_intent_id'', PStr ''i'')]"

definition demo_archive :: latent_archive where
  "demo_archive = archive_run (\<lambda>n. ''t'') [AddCandidate (demo_lane ''C1''), AddCandidate (demo_lane ''C2'')] (new_archive 1 6)"

lemma demo_archive_ok: "archive_ok demo_archive" "la_quota demo_archive = 1" "la_stale demo_archive = 6"
proof -
  show "archive_ok demo_archive" unfolding demo_archive_def by (rule run_ok [OF new_archive_ok])
  have "same_settings (new_archive 1 6) demo_archive" unfolding demo_archive_def by (rule run_settings [OF new_archive_ok])
  then show "la_quota demo_archive = 1" "la_stale demo_archive = 6" by (simp_all add: same_settings_def new_archive_def)
qed

theorem latent_prune_exact_witness:
  "fst (prune (\<lambda>n. ''t'') (Some 9) demo_archive) =
     map fst (filter (\<lambda>p. prune_reason (rebuild demo_archive) (Some 9) (fst p) (snd p) \<noteq> []) (la_candidates demo_archive))"
  using latent_prune_exact [OF demo_archive_ok(1) prod.collapse [symmetric], of "\<lambda>n. ''t''" "Some 9"] by blast

theorem latent_quota_exact_witness:
  "la_candidates (enforce_quotas (\<lambda>n. ''t'') demo_archive) = filter (\<lambda>p. represented demo_archive (fst p)) (la_candidates demo_archive)"
  using latent_quota_exact [OF demo_archive_ok(1), of "\<lambda>n. ''t''"] by blast

theorem latent_archive_roundtrip_witness:
  "archive_from_dict (archive_to_dict demo_archive) = Inr (rebuild (rebuild demo_archive))"
  by (rule latent_archive_roundtrip) (simp_all add: demo_archive_ok)

end
