(* ===== verification/Evidence.thy ===== *)
theory Evidence
  imports Genome
begin

text \<open>
  core/scalars.py, evaluators/evidence.py and evaluators/evidence_authority.py: evidence records, how the
  records of a candidate are aggregated into its evidence state (authority, transfer between artifacts,
  revocation of a final verdict), and the key that selects the preliminary incumbent. \<open>sha v\<close> stands for the
  hexadecimal digest of the JSON text of \<open>v\<close>.
\<close>

section \<open>Scalars and texts\<close>

definition bounded_score :: "pyval \<Rightarrow> rat" where
  "bounded_score v = (case py_float v of Inl _ \<Rightarrow> 0 | Inr q \<Rightarrow> max 0 (min 1 q))"

abbreviation bounded :: "rat \<Rightarrow> rat" where
  "bounded q \<equiv> bounded_score (PFloat q)"

definition stripped_texts :: "pyval \<Rightarrow> string list" where
  "stripped_texts v =
     (case v of PList xs \<Rightarrow> map py_str (filter (\<lambda>x. strip (str_field x []) \<noteq> []) xs) | _ \<Rightarrow> [])"

definition sensitive_key :: "string \<Rightarrow> bool" where
  "sensitive_key k \<longleftrightarrow> list_ex (\<lambda>t. infix_of t (lower k)) [''key'', ''secret'', ''token'', ''password'', ''prompt'']"

definition safe_metadata :: "pyval \<Rightarrow> pydict" where
  "safe_metadata v = filter (\<lambda>p. \<not> sensitive_key (fst p)) (coerce_dict v)"

section \<open>Records\<close>

record evidence =
  ev_candidate :: string
  ev_source :: string
  ev_stage :: string
  ev_score :: rat
  ev_confidence :: rat
  ev_cost :: pydict
  ev_final_blocked :: bool
  ev_parent_blocked :: bool
  ev_terminal_reject :: bool
  ev_repair_value :: rat
  ev_continuation_value :: rat
  ev_novelty_value :: rat
  ev_targets :: "string list"
  ev_resolved :: "string list"
  ev_emitted :: "string list"
  ev_diagnostics :: "string list"
  ev_hints :: "string list"
  ev_metadata :: pydict
  ev_created_at :: string

definition texts :: "string list \<Rightarrow> pyval" where
  "texts ss = PList (map PStr ss)"

definition evidence_to_dict :: "evidence \<Rightarrow> pydict" where
  "evidence_to_dict r =
     [(''candidate_id'', PStr (ev_candidate r)), (''source'', PStr (ev_source r)), (''stage'', PStr (ev_stage r)),
      (''score'', PFloat (bounded (ev_score r))), (''confidence'', PFloat (bounded (ev_confidence r))),
      (''cost'', PDict (ev_cost r)), (''final_blocked'', PBool (ev_final_blocked r)),
      (''parent_blocked'', PBool (ev_parent_blocked r)), (''terminal_reject'', PBool (ev_terminal_reject r)),
      (''repair_value'', PFloat (bounded (ev_repair_value r))),
      (''continuation_value'', PFloat (bounded (ev_continuation_value r))),
      (''novelty_value'', PFloat (bounded (ev_novelty_value r))), (''target_challenge_ids'', texts (ev_targets r)),
      (''resolved_challenge_ids'', texts (ev_resolved r)), (''emitted_challenge_ids'', texts (ev_emitted r)),
      (''diagnostics'', texts (ev_diagnostics r)), (''hints'', texts (ev_hints r)), (''metadata'', PDict (ev_metadata r)),
      (''created_at'', PStr (ev_created_at r))]"

definition evidence_from_dict :: "string \<Rightarrow> pyval \<Rightarrow> evidence option" where
  "evidence_from_dict now v =
     (case v of
        PDict d \<Rightarrow>
          (if str_field (dget d ''candidate_id'') [] = [] then None
           else Some
            \<lparr>ev_candidate = str_field (dget d ''candidate_id'') [],
             ev_source = str_field (dget d ''source'') ''progressive_evaluator'',
             ev_stage = str_field (py_or (dget d ''stage'') (dget d ''level'')) ''probe'',
             ev_score = bounded_score (dget_or d ''score'' (PFloat 0)),
             ev_confidence = bounded_score (dget_or d ''confidence'' (PFloat (1 / 2))),
             ev_cost = coerce_dict (dget d ''cost''),
             ev_final_blocked = truthy (dget_or d ''final_blocked'' (PBool (\<not> truthy (dget d ''final_eligible'')))),
             ev_parent_blocked = truthy (dget_or d ''parent_blocked'' (dget_or d ''hard_reject'' (PBool False))),
             ev_terminal_reject = truthy (dget_or d ''terminal_reject'' (dget_or d ''hard_reject'' (PBool False))),
             ev_repair_value = bounded_score (dget_or d ''repair_value'' (PFloat 0)),
             ev_continuation_value =
               bounded_score (dget_or d ''continuation_value'' (dget_or d ''repair_value'' (PFloat 0))),
             ev_novelty_value = bounded_score (dget_or d ''novelty_value'' (PFloat 0)),
             ev_targets = stripped_texts (dget d ''target_challenge_ids''),
             ev_resolved = stripped_texts (dget d ''resolved_challenge_ids''),
             ev_emitted = stripped_texts (dget d ''emitted_challenge_ids''),
             ev_diagnostics = stripped_texts (dget d ''diagnostics''),
             ev_hints = stripped_texts (py_or (dget d ''hints'') (dget d ''repair_hints'')),
             ev_metadata = safe_metadata (dget d ''metadata''),
             ev_created_at = str_field (dget d ''created_at'') now\<rparr>)
      | _ \<Rightarrow> None)"

definition repair_value_from_record :: "evidence \<Rightarrow> rat" where
  "repair_value_from_record r =
     (if ev_terminal_reject r then 0
      else if \<not> ev_final_blocked r then 1 / 10
      else bounded (max (ev_repair_value r)
        (max (min 1 (1 / 5 + 3 / 25 * of_nat (length (ev_emitted r)) + 2 / 25 * of_nat (length (ev_hints r))))
          (ev_score r * 3 / 5))))"

section \<open>Authority and artifact\<close>

definition AUTHORITY_ORDER :: "(string \<times> nat) list" where
  "AUTHORITY_ORDER =
     [(''probe'', 10), (''verifier'', 20), (''frontier'', 30), (''final'', 40), (''certificate'', 50), (''human_review'', 60)]"

definition AUTHORITY_ALIASES :: "(string \<times> string) list" where
  "AUTHORITY_ALIASES =
     [(''l4'', ''final''), (''certification'', ''certificate''), (''certified'', ''certificate''),
      (''external_evaluator'', ''verifier''), (''progressive_evaluator'', ''probe'')]"

definition HIGH_AUTHORITIES :: "string list" where
  "HIGH_AUTHORITIES = [''final'', ''certificate'', ''human_review'']"

definition evidence_authority :: "evidence \<Rightarrow> string" where
  "evidence_authority r =
     (let raw0 = lower (strip (py_str (py_or (dget (ev_metadata r) ''authority'') (py_or (PStr (ev_stage r)) (PStr ''probe'')))));
          raw = (case map_of AUTHORITY_ALIASES raw0 of Some x \<Rightarrow> x | None \<Rightarrow> raw0)
      in if raw \<in> dkeys AUTHORITY_ORDER then raw else ''probe'')"

definition authority_rank :: "evidence \<Rightarrow> nat" where
  "authority_rank r = (case map_of AUTHORITY_ORDER (evidence_authority r) of Some n \<Rightarrow> n | None \<Rightarrow> 0)"

definition FINAL_RANK :: nat where "FINAL_RANK = 40"

definition sorted_texts :: "pyval \<Rightarrow> pyval" where
  "sorted_texts v =
     (case v of PList xs \<Rightarrow> texts (sort (map py_str (filter (\<lambda>x. strip (str_field x []) \<noteq> []) xs))) | _ \<Rightarrow> PList [])"

definition sorted_table :: "pyval \<Rightarrow> pyval" where
  "sorted_table v = PDict (sort_key fst (map (\<lambda>(k, x). (k, PStr (py_str x))) (coerce_dict v)))"

definition artifact_identity_payload :: "pydict \<Rightarrow> pydict \<Rightarrow> pydict" where
  "artifact_identity_payload st pol =
     [(''artifact_type'', PStr (str_field (py_or (dget st ''artifact_type'') (dget pol ''artifact_type'')) [])),
      (''normalized_artifact'', dget st ''normalized_artifact''),
      (''schema_status'', PStr (str_field (dget st ''status'') [])),
      (''final_eligible'', PBool (truthy (dget_or st ''final_eligible'' (PBool False)))),
      (''missing_required_fields'', sorted_texts (dget st ''missing_required_fields'')),
      (''policy'', PDict
        [(''artifact_type'', PStr (str_field (dget pol ''artifact_type'') [])),
         (''required_fields'', sorted_texts (dget pol ''required_fields'')),
         (''artifact_type_aliases'', sorted_table (dget pol ''artifact_type_aliases'')),
         (''field_aliases'', sorted_table (dget pol ''field_aliases'')),
         (''machine_readable_required'',
           PBool (truthy (py_or (dget pol ''machine_readable_required'') (dget pol ''machine_artifact_required'')))),
         (''allow_refold_for_final'', PBool (truthy (dget pol ''allow_refold_for_final''))),
         (''final_requires_clean_schema'', PBool (truthy (dget_or pol ''final_requires_clean_schema'' (PBool True)))),
         (''schema_version'', PStr (str_field (py_or (dget pol ''schema_version'') (dget pol ''version'')) []))])]"

definition stable_artifact_hash :: "(pyval \<Rightarrow> string) \<Rightarrow> pyval \<Rightarrow> string" where
  "stable_artifact_hash sha v = ''artifact:'' @ take 24 (sha v)"

definition first_text :: "pyval list \<Rightarrow> string" where
  "first_text vs = (case dropWhile (\<lambda>s. s = []) (map (\<lambda>v. strip (str_field v [])) vs) of [] \<Rightarrow> [] | s # _ \<Rightarrow> s)"

definition evidence_artifact_hash :: "(pyval \<Rightarrow> string) \<Rightarrow> evidence \<Rightarrow> string" where
  "evidence_artifact_hash sha r =
     (let md = ev_metadata r;
          st = coerce_dict (dget md ''artifact_state''); pol = coerce_dict (dget md ''artifact_policy'');
          named = first_text [dget md ''artifact_identity_hash'', dget md ''artifact_hash'',
                              dget st ''artifact_identity_hash'', dget st ''artifact_hash'']
      in if named \<noteq> [] then named
         else if dget st ''normalized_artifact'' \<noteq> PNone
         then stable_artifact_hash sha (PDict (artifact_identity_payload st pol))
         else strip (str_field (py_or (dget md ''normalized_artifact_hash'') (dget st ''normalized_artifact_hash'')) []))"

definition revokes_final :: "evidence \<Rightarrow> bool" where
  "revokes_final r \<longleftrightarrow> truthy (dget (ev_metadata r) ''revokes_final'')"

section \<open>Aggregation\<close>

text \<open>The records with a mark on the latest one, which the code compares by identity.\<close>

definition tagged :: "evidence list \<Rightarrow> (evidence \<times> bool) list" where
  "tagged rs = map (\<lambda>r. (r, False)) (butlast rs) @ [(last rs, True)]"

definition same_artifact :: "(pyval \<Rightarrow> string) \<Rightarrow> string \<Rightarrow> evidence \<times> bool \<Rightarrow> bool" where
  "same_artifact sha latest_hash p \<longleftrightarrow>
     snd p \<or> latest_hash \<noteq> [] \<and> evidence_artifact_hash sha (fst p) \<noteq> [] \<and> evidence_artifact_hash sha (fst p) = latest_hash"

text \<open>One turn of the loop over the records: what a record counts as for the final verdict.\<close>

datatype final_role = FinalRecord | Blocker | NoRole

definition final_role_of :: "(pyval \<Rightarrow> string) \<Rightarrow> string \<Rightarrow> evidence \<times> bool \<Rightarrow> final_role" where
  "final_role_of sha latest_hash p =
     (let r = fst p; high = evidence_authority r \<in> set HIGH_AUTHORITIES; same = same_artifact sha latest_hash p
      in if \<not> same \<and> high then NoRole
         else if revokes_final r \<and> FINAL_RANK \<le> authority_rank r then Blocker
         else if \<not> ev_final_blocked r \<and> high \<and> same then FinalRecord
         else if ev_final_blocked r \<and> FINAL_RANK \<le> authority_rank r \<and> same then Blocker
         else NoRole)"

definition records_of_role :: "(pyval \<Rightarrow> string) \<Rightarrow> final_role \<Rightarrow> evidence list \<Rightarrow> evidence list" where
  "records_of_role sha role rs =
     map fst (filter (\<lambda>p. final_role_of sha (evidence_artifact_hash sha (last rs)) p = role) (tagged rs))"

definition latest_artifact_records :: "(pyval \<Rightarrow> string) \<Rightarrow> evidence list \<Rightarrow> evidence list" where
  "latest_artifact_records sha rs =
     map fst (filter (same_artifact sha (evidence_artifact_hash sha (last rs))) (tagged rs))"

definition aggregate_terminal :: "(pyval \<Rightarrow> string) \<Rightarrow> evidence list \<Rightarrow> bool" where
  "aggregate_terminal sha rs =
     (let ls = latest_artifact_records sha rs
      in fold (\<lambda>r t. if revokes_final r \<and> FINAL_RANK \<le> authority_rank r then ev_terminal_reject r else t) ls
           (list_ex ev_terminal_reject ls))"

definition aggregate_blocked :: "(pyval \<Rightarrow> string) \<Rightarrow> evidence list \<Rightarrow> bool" where
  "aggregate_blocked sha rs =
     (let finals = records_of_role sha FinalRecord rs; blockers = records_of_role sha Blocker rs;
          b0 = ev_final_blocked (last rs);
          b1 = (if finals \<noteq> [] \<and> blockers = [] then False else b0);
          b2 = (if blockers \<noteq> [] then True else b1)
      in if authority_rank (last rs) < FINAL_RANK \<and> finals \<noteq> [] \<and> blockers = [] then False else b2)"

definition max_score :: "rat list \<Rightarrow> rat" where
  "max_score qs = (case qs of [] \<Rightarrow> 0 | q # r \<Rightarrow> fold max r q)"

definition aggregate_final_score :: "(pyval \<Rightarrow> string) \<Rightarrow> evidence list \<Rightarrow> rat" where
  "aggregate_final_score sha rs =
     max_score (map (\<lambda>r. bounded (ev_score r * ev_confidence r)) (records_of_role sha FinalRecord rs))"

fun unique_texts :: "string list \<Rightarrow> string list \<Rightarrow> string list" where
  "unique_texts out [] = out"
| "unique_texts out (s # ss) =
     (let t = strip s in unique_texts (if t \<noteq> [] \<and> t \<notin> set out then out @ [t] else out) ss)"

text \<open>Python's \<open>max(xs, key=...)\<close>: the first of the largest.\<close>

definition first_max :: "('a \<Rightarrow> 'k :: linorder) \<Rightarrow> 'a list \<Rightarrow> 'a" where
  "first_max key xs = fold (\<lambda>x best. if key best < key x then x else best) (tl xs) (hd xs)"

definition empty_evidence_state :: pydict where
  "empty_evidence_state =
     [(''search_score'', PFloat 0), (''final_score'', PFloat 0), (''final_blocked'', PBool False),
      (''parent_blocked'', PBool False), (''terminal_reject'', PBool False), (''repair_value'', PFloat 0),
      (''continuation_value'', PFloat 0), (''target_challenge_ids'', PList []), (''resolved_challenge_ids'', PList []),
      (''emitted_challenge_ids'', PList []), (''challenge_resolution'', PFloat 0), (''confidence'', PFloat 0),
      (''authority'', PStr ''probe''), (''artifact_hash'', PStr [])]"

definition aggregate_evidence_state :: "(pyval \<Rightarrow> string) \<Rightarrow> evidence list \<Rightarrow> pydict" where
  "aggregate_evidence_state sha rs =
     (if rs = [] then empty_evidence_state
      else
        let targets = unique_texts [] (concat (map ev_targets rs));
            resolved = unique_texts [] (concat (map ev_resolved rs));
            emitted = unique_texts [] (concat (map ev_emitted rs));
            resolution = (if targets \<noteq> []
              then of_nat (card (set resolved \<inter> set targets)) / of_nat (max 1 (card (set targets)))
              else bounded (of_nat (length resolved) / of_nat (max 1 (length emitted))));
            best = (\<lambda>f. max_score (map (\<lambda>r. bounded (f r)) rs))
        in [(''search_score'', PFloat (best ev_score)),
            (''final_score'', PFloat (aggregate_final_score sha rs)),
            (''final_blocked'', PBool (aggregate_blocked sha rs)),
            (''parent_blocked'', PBool (ev_parent_blocked (last rs))),
            (''terminal_reject'', PBool (aggregate_terminal sha rs)),
            (''repair_value'', PFloat (best ev_repair_value)),
            (''continuation_value'', PFloat (best ev_continuation_value)),
            (''target_challenge_ids'', texts targets), (''resolved_challenge_ids'', texts resolved),
            (''emitted_challenge_ids'', texts emitted),
            (''challenge_resolution'', PFloat (bounded resolution)),
            (''confidence'', PFloat (best ev_confidence)),
            (''stage'', PStr (str_or (ev_stage (last rs)) ''probe'')),
            (''source'', PStr (ev_source (last rs))),
            (''authority'', PStr (evidence_authority (first_max authority_rank (latest_artifact_records sha rs)))),
            (''artifact_hash'', PStr (evidence_artifact_hash sha (last rs)))])"

section \<open>The evidence of a candidate\<close>

text \<open>The reader of older snapshots: one record from \<open>progressive_evidence\<close>.\<close>

definition legacy_records :: "string \<Rightarrow> pydict \<Rightarrow> string \<Rightarrow> pyexn + evidence list" where
  "legacy_records now md cid =
     (let raw = coerce_dict (dget md ''progressive_evidence'')
      in if raw = [] then Inr []
         else sbind (iter_items (dget_or raw ''challenge_cases'' (PList []))) (\<lambda>cases.
           let items = concat (map (\<lambda>v. case v of PDict d \<Rightarrow> [d] | _ \<Rightarrow> []) cases);
               repair = bounded_score (dget_or md ''repair_value'' (PFloat 0))
           in Inr [\<lparr>ev_candidate = str_field (dget raw ''candidate_id'') cid,
                ev_source = ''legacy_progressive_evidence_migration'',
                ev_stage = str_field (py_or (dget raw ''stage'') (dget raw ''level'')) ''probe'',
                ev_score = bounded_score (dget_or raw ''score'' (PFloat 0)), ev_confidence = 1 / 2, ev_cost = [],
                ev_final_blocked = (\<not> truthy (dget raw ''final_eligible'') \<or> \<not> truthy (dget raw ''passed'')),
                ev_parent_blocked = truthy (dget raw ''hard_reject''), ev_terminal_reject = truthy (dget raw ''hard_reject''),
                ev_repair_value = repair, ev_continuation_value = repair, ev_novelty_value = 0,
                ev_targets = stripped_texts (dget md ''target_challenge_ids''),
                ev_resolved = stripped_texts (py_or (dget raw ''resolved_challenge_ids'') (dget md ''resolved_challenge_ids'')),
                ev_emitted = map (\<lambda>d. py_str (dget d ''id'')) (filter (\<lambda>d. truthy (dget d ''id'')) items),
                ev_diagnostics = stripped_texts (dget raw ''diagnostics''),
                ev_hints = stripped_texts (dget raw ''repair_hints''),
                ev_metadata = [(''artifact_state'', PDict (coerce_dict (dget raw ''artifact_view''))),
                  (''challenge_items'', PList (map PDict items)), (''legacy_status'', PStr (str_field (dget raw ''status'') [])),
                  (''metrics'', PDict (coerce_dict (dget raw ''metrics'')))],
                ev_created_at = str_field (dget raw ''created_at'') now\<rparr>]))"

definition stored_records :: "string \<Rightarrow> pydict \<Rightarrow> pyexn + evidence list" where
  "stored_records now md =
     sbind (iter_items (dget_or md ''evidence_records'' (PList []))) (\<lambda>xs.
       Inr (concat (map (\<lambda>v. case evidence_from_dict now v of Some r \<Rightarrow> [r] | None \<Rightarrow> []) xs)))"

definition evidence_records :: "string \<Rightarrow> candidate \<Rightarrow> pyexn + evidence list" where
  "evidence_records now c =
     sbind (stored_records now (cg_metadata c)) (\<lambda>rs.
       if rs \<noteq> [] then Inr rs else legacy_records now (cg_metadata c) (cg_id c))"

definition latest_evidence_record :: "string \<Rightarrow> candidate \<Rightarrow> pyexn + evidence option" where
  "latest_evidence_record now c =
     sbind (evidence_records now c) (\<lambda>rs. Inr (if rs = [] then None else Some (last rs)))"

definition evidence_state :: "(pyval \<Rightarrow> string) \<Rightarrow> string \<Rightarrow> candidate \<Rightarrow> pyexn + pydict" where
  "evidence_state sha now c =
     (let st = coerce_dict (dget (cg_metadata c) ''evidence_state'')
      in if st \<noteq> [] then Inr st
         else sbind (evidence_records now c) (\<lambda>rs. Inr (aggregate_evidence_state sha rs)))"

definition record_identity :: "(pyval \<Rightarrow> string) \<Rightarrow> evidence \<Rightarrow> string" where
  "record_identity sha r = ''pressure-'' @ take 16 (sha (PDict
     [(''candidate_id'', PStr (ev_candidate r)), (''source'', PStr (ev_source r)), (''stage'', PStr (ev_stage r)),
      (''created_at'', PStr (ev_created_at r)), (''diagnostics'', texts (ev_diagnostics r))]))"

fun dedupe_records :: "(pyval \<Rightarrow> string) \<Rightarrow> string list \<Rightarrow> evidence list \<Rightarrow> evidence list" where
  "dedupe_records sha seen [] = []"
| "dedupe_records sha seen (r # rs) =
     (let k = record_identity sha r
      in if k \<in> set seen then dedupe_records sha seen rs else r # dedupe_records sha (k # seen) rs)"

definition evidence_scores :: "(string \<times> rat) list \<Rightarrow> pydict \<Rightarrow> evidence \<Rightarrow> (string \<times> rat) list" where
  "evidence_scores scores st r =
     (let b = (\<lambda>k. bounded_score (dget_or st k (PFloat 0)));
          old = (\<lambda>k d. PFloat (case map_of scores k of Some q \<Rightarrow> q | None \<Rightarrow> d));
          art = coerce_dict (dget (ev_metadata r) ''artifact_state'')
      in fold (\<lambda>(k, q). dset k q)
           [(''frontier_score'', b ''search_score''), (''repair_value'', b ''repair_value''),
            (''continuation_value'', b ''continuation_value''), (''final_confidence'', b ''final_score''),
            (''challenge_resolution'', b ''challenge_resolution''),
            (''schema_cleanliness'', bounded_score (dget_or art ''schema_cleanliness'' (old ''schema_cleanliness'' 0))),
            (''evaluator_score'', bounded_score (dget_or (ev_metadata r) ''evaluator_score'' (PFloat (ev_score r)))),
            (''challenge_pass_rate'', bounded_score (dget_or (ev_metadata r) ''challenge_pass_rate''
               (old ''challenge_pass_rate'' (if \<not> ev_final_blocked r then 1 else 0)))),
            (''final_verification'', if truthy (dget st ''final_blocked'') then 0 else b ''final_score'')]
           scores)"

definition apply_evidence_record :: "(pyval \<Rightarrow> string) \<Rightarrow> string \<Rightarrow> candidate \<Rightarrow> evidence \<Rightarrow> pyexn + candidate" where
  "apply_evidence_record sha now c r =
     (let md = cg_metadata c in
      sbind (legacy_records now md (cg_id c)) (\<lambda>migrated.
      sbind (stored_records now md) (\<lambda>existing.
        let rs = dedupe_records sha [] (migrated @ existing @ [r]);
            st = aggregate_evidence_state sha rs;
            md' = fold (\<lambda>(k, v). dset k v)
              [(''evidence_records'', PList (map (\<lambda>x. PDict (evidence_to_dict x)) rs)), (''evidence_state'', PDict st),
               (''target_challenge_ids'', dget_or st ''target_challenge_ids'' (PList [])),
               (''resolved_challenge_ids'', dget_or st ''resolved_challenge_ids'' (PList [])),
               (''terminal_failure'', PBool (truthy (dget st ''terminal_reject''))),
               (''repair_value'', PFloat (bounded_score (dget_or st ''repair_value'' (PFloat 0))))]
              (ddel ''challenge_failures'' (ddel ''progressive_evidence'' md))
        in Inr (c\<lparr>cg_metadata := md', cg_multihead_scores := evidence_scores (cg_multihead_scores c) st r\<rparr>))))"

definition evidence_flag :: "string \<Rightarrow> (pyval \<Rightarrow> string) \<Rightarrow> string \<Rightarrow> candidate \<Rightarrow> pyexn + bool" where
  "evidence_flag k sha now c = sbind (evidence_state sha now c) (\<lambda>st. Inr (truthy (dget_or st k (PBool False))))"

definition evidence_terminal_reject :: "(pyval \<Rightarrow> string) \<Rightarrow> string \<Rightarrow> candidate \<Rightarrow> pyexn + bool" where
  "evidence_terminal_reject = evidence_flag ''terminal_reject''"

definition evidence_final_blocked :: "(pyval \<Rightarrow> string) \<Rightarrow> string \<Rightarrow> candidate \<Rightarrow> pyexn + bool" where
  "evidence_final_blocked = evidence_flag ''final_blocked''"

definition evidence_parent_blocked :: "(pyval \<Rightarrow> string) \<Rightarrow> string \<Rightarrow> candidate \<Rightarrow> pyexn + bool" where
  "evidence_parent_blocked = evidence_flag ''parent_blocked''"

definition evidence_repair_value :: "(pyval \<Rightarrow> string) \<Rightarrow> string \<Rightarrow> candidate \<Rightarrow> pyexn + rat" where
  "evidence_repair_value sha now c =
     sbind (evidence_state sha now c) (\<lambda>st. Inr (bounded_score (dget_or st ''repair_value'' (PFloat 0))))"

definition evidence_search_score :: "(pyval \<Rightarrow> string) \<Rightarrow> string \<Rightarrow> candidate \<Rightarrow> pyexn + rat" where
  "evidence_search_score sha now c =
     sbind (evidence_state sha now c) (\<lambda>st. Inr (bounded_score (dget_or st ''search_score'' (PFloat 0))))"

definition has_repair_value :: "(pyval \<Rightarrow> string) \<Rightarrow> string \<Rightarrow> candidate \<Rightarrow> pyexn + bool" where
  "has_repair_value sha now c = sbind (evidence_repair_value sha now c) (\<lambda>q. Inr (0 < q))"

section \<open>Selection by the external evaluator\<close>

text \<open>\<open>a or b\<close> on dictionaries.\<close>

definition or_dict :: "pydict \<Rightarrow> pydict \<Rightarrow> pydict" where
  "or_dict a b = (if a \<noteq> [] then a else b)"

definition evaluator_payload :: "candidate \<Rightarrow> pydict" where
  "evaluator_payload c = coerce_dict (dget (cg_metadata c) ''evaluator'')"

definition evaluator_tier :: "pydict \<Rightarrow> int" where
  "evaluator_tier payload =
     (let status = lower (strip (str_field (dget payload ''status'') []))
      in if dget payload ''passed'' = PBool True \<or> status \<in> set [''passed'', ''pass'', ''ok'', ''success''] then 2
         else if dget payload ''passed'' = PBool False \<or> status \<in> set [''failed'', ''fail'', ''error'', ''invalid'', ''rejected'']
         then 0 else 1)"

definition value_matches_type :: "pyval \<Rightarrow> string \<Rightarrow> bool" where
  "value_matches_type v t =
     (if t = ''boolean'' then (case v of PBool _ \<Rightarrow> True | _ \<Rightarrow> False)
      else if t = ''integer'' then (case v of PInt _ \<Rightarrow> True | _ \<Rightarrow> False)
      else (case v of PInt _ \<Rightarrow> True | PFloat _ \<Rightarrow> True | _ \<Rightarrow> False))"

definition evaluator_selection_key :: "candidate \<Rightarrow> pyval \<Rightarrow> int \<times> rat \<times> string" where
  "evaluator_selection_key c binding =
     (let payload = evaluator_payload c;
          tier = evaluator_tier payload;
          metrics = coerce_dict (dget payload ''metrics'');
          bound = or_dict (coerce_dict binding) (coerce_dict (dget payload ''selection_binding''));
          metric = strip (str_field (dget bound ''metric'') []);
          dir = lower (strip (str_field (dget bound ''direction'') []));
          vt = lower (strip (str_field (dget bound ''value_type'') []))
      in if bound \<noteq> [] then
           (if metric = [] \<or> dir \<notin> set [''maximize'', ''minimize'', ''pass''] \<or>
               vt \<notin> set [''number'', ''integer'', ''boolean''] \<or> \<not> value_matches_type (dget metrics metric) vt
            then (-1, 0, cg_id c)
            else case py_float (dget metrics metric) of
                Inl _ \<Rightarrow> (-1, 0, cg_id c)
              | Inr q \<Rightarrow> (tier, if dir = ''minimize'' then - q else q, cg_id c))
         else
           (let raw0 = dget metrics ''score'';
                raw1 = (if raw0 = PNone
                        then (case map_of (cg_multihead_scores c) ''objective_score'' of Some q \<Rightarrow> PFloat q | None \<Rightarrow> PNone)
                        else raw0);
                raw = (if raw1 = PNone then PFloat (if tier = 2 then 1 else 0) else raw1)
            in case py_float raw of Inl _ \<Rightarrow> (tier, 0, cg_id c) | Inr q \<Rightarrow> (tier, q, cg_id c)))"

definition int_or_zero :: "pyval \<Rightarrow> int" where
  "int_or_zero v = (case py_int (py_or v (PInt 0)) of Inr i \<Rightarrow> i | Inl _ \<Rightarrow> 0)"

definition incumbent_key :: "candidate \<Rightarrow> int \<times> rat \<times> int \<times> int \<times> int \<times> string" where
  "incumbent_key c =
     (case evaluator_selection_key c PNone of (tier, score, _) \<Rightarrow>
        let md = cg_metadata c;
            initial = truthy (py_or (py_or (dget md ''initial_candidate'') (dget md ''initial_incumbent''))
              (dget md ''operator_provided_incumbent''))
        in (tier, score, if initial then 1 else 0, - cg_generation c, - int_or_zero (dget md ''created_in_round''), cg_id c))"

definition select_preliminary_incumbent :: "candidate list \<Rightarrow> candidate option" where
  "select_preliminary_incumbent cs =
     (let evaluated = filter (\<lambda>c. evaluator_payload c \<noteq> []) cs
      in if evaluated = [] then None else Some (first_max incumbent_key evaluated))"

section \<open>Lemmas\<close>

lemma high_rank: "evidence_authority r \<in> set HIGH_AUTHORITIES \<longleftrightarrow> FINAL_RANK \<le> authority_rank r"
proof -
  have "evidence_authority r \<in> set [''probe'', ''verifier'', ''frontier'', ''final'', ''certificate'', ''human_review'']"
    by (simp add: evidence_authority_def Let_def AUTHORITY_ORDER_def dkeys_def)
  then show ?thesis
    by (auto simp: authority_rank_def HIGH_AUTHORITIES_def AUTHORITY_ORDER_def FINAL_RANK_def)
qed

lemma other_artifact_no_role: "\<not> same_artifact sha lh p \<Longrightarrow> final_role_of sha lh p = NoRole"
  by (auto simp: final_role_of_def Let_def high_rank)

lemma blocker_iff:
  "final_role_of sha lh p = Blocker \<longleftrightarrow> same_artifact sha lh p \<and> FINAL_RANK \<le> authority_rank (fst p) \<and>
     (revokes_final (fst p) \<or> ev_final_blocked (fst p))"
  by (auto simp: final_role_of_def Let_def high_rank)

lemma final_iff:
  "final_role_of sha lh p = FinalRecord \<longleftrightarrow> same_artifact sha lh p \<and> FINAL_RANK \<le> authority_rank (fst p) \<and>
     \<not> revokes_final (fst p) \<and> \<not> ev_final_blocked (fst p)"
  by (auto simp: final_role_of_def Let_def high_rank)

lemma tagged_snoc [simp]: "tagged (rs @ [r]) = map (\<lambda>r. (r, False)) rs @ [(r, True)]"
  by (simp add: tagged_def)

text \<open>The records that speak about the artifact of the latest one.\<close>

definition about_latest :: "(pyval \<Rightarrow> string) \<Rightarrow> evidence list \<Rightarrow> evidence list" where
  "about_latest sha rs =
     filter (\<lambda>r. evidence_artifact_hash sha r \<noteq> [] \<and> evidence_artifact_hash sha r = evidence_artifact_hash sha (last rs))
       (butlast rs) @ [last rs]"

lemma latest_records_about: "rs \<noteq> [] \<Longrightarrow> latest_artifact_records sha rs = about_latest sha rs"
  unfolding latest_artifact_records_def about_latest_def tagged_def
  by (auto simp: same_artifact_def filter_map comp_def intro!: filter_cong)

lemma role_split:
  "records_of_role sha role rs =
     map fst (filter (\<lambda>p. final_role_of sha (evidence_artifact_hash sha (last rs)) p = role)
       (filter (same_artifact sha (evidence_artifact_hash sha (last rs))) (tagged rs)))"
  if "role \<noteq> NoRole"
  unfolding records_of_role_def filter_filter
  using other_artifact_no_role that by (intro arg_cong [where f = "map fst"] filter_cong) auto

lemma records_about:
  assumes "rs \<noteq> []"
  shows "records_of_role sha FinalRecord rs = filter (\<lambda>r. FINAL_RANK \<le> authority_rank r \<and> \<not> revokes_final r \<and> \<not> ev_final_blocked r)
      (about_latest sha rs)"
    and "records_of_role sha Blocker rs = filter (\<lambda>r. FINAL_RANK \<le> authority_rank r \<and> (revokes_final r \<or> ev_final_blocked r))
      (about_latest sha rs)"
proof -
  let ?same = "filter (same_artifact sha (evidence_artifact_hash sha (last rs))) (tagged rs)"
  have s: "map fst ?same = about_latest sha rs" using latest_records_about [OF assms] by (simp add: latest_artifact_records_def)
  have 1: "filter (\<lambda>p. final_role_of sha (evidence_artifact_hash sha (last rs)) p = FinalRecord) ?same =
      filter (\<lambda>p. FINAL_RANK \<le> authority_rank (fst p) \<and> \<not> revokes_final (fst p) \<and> \<not> ev_final_blocked (fst p)) ?same"
    by (rule filter_cong) (auto simp: final_iff)
  have 2: "filter (\<lambda>p. final_role_of sha (evidence_artifact_hash sha (last rs)) p = Blocker) ?same =
      filter (\<lambda>p. FINAL_RANK \<le> authority_rank (fst p) \<and> (revokes_final (fst p) \<or> ev_final_blocked (fst p))) ?same"
    by (rule filter_cong) (auto simp: blocker_iff)
  have r1: "records_of_role sha FinalRecord rs =
      map fst (filter (\<lambda>p. final_role_of sha (evidence_artifact_hash sha (last rs)) p = FinalRecord) ?same)"
    by (rule role_split) simp
  have r2: "records_of_role sha Blocker rs =
      map fst (filter (\<lambda>p. final_role_of sha (evidence_artifact_hash sha (last rs)) p = Blocker) ?same)"
    by (rule role_split) simp
  show "records_of_role sha FinalRecord rs = filter (\<lambda>r. FINAL_RANK \<le> authority_rank r \<and> \<not> revokes_final r \<and> \<not> ev_final_blocked r)
      (about_latest sha rs)"
    "records_of_role sha Blocker rs = filter (\<lambda>r. FINAL_RANK \<le> authority_rank r \<and> (revokes_final r \<or> ev_final_blocked r))
      (about_latest sha rs)"
    by (simp_all only: r1 r2 1 2 filter_map comp_def s [symmetric])
qed

lemma aggregate_fields:
  assumes "rs \<noteq> []"
  shows "dget (aggregate_evidence_state sha rs) ''final_blocked'' = PBool (aggregate_blocked sha rs)"
    and "dget (aggregate_evidence_state sha rs) ''final_score'' = PFloat (aggregate_final_score sha rs)"
    and "dget (aggregate_evidence_state sha rs) ''terminal_reject'' = PBool (aggregate_terminal sha rs)"
  using assms by (simp_all add: aggregate_evidence_state_def Let_def dget_def)

text \<open>The three verdicts depend on the records about the latest artifact only.\<close>

lemma verdicts_about:
  assumes "rs \<noteq> []" "rs' \<noteq> []" "about_latest sha rs = about_latest sha rs'"
  shows "aggregate_blocked sha rs = aggregate_blocked sha rs'" "aggregate_final_score sha rs = aggregate_final_score sha rs'"
    "aggregate_terminal sha rs = aggregate_terminal sha rs'"
proof -
  have l: "last rs = last rs'" using assms(3) by (metis about_latest_def last_snoc)
  show "aggregate_blocked sha rs = aggregate_blocked sha rs'" "aggregate_final_score sha rs = aggregate_final_score sha rs'"
    "aggregate_terminal sha rs = aggregate_terminal sha rs'"
    unfolding aggregate_blocked_def aggregate_final_score_def aggregate_terminal_def records_about [OF assms(1)]
      records_about [OF assms(2)] latest_records_about [OF assms(1)] latest_records_about [OF assms(2)] assms(3) l
    by (rule refl)+
qed

lemma first_max_spec:
  assumes "xs \<noteq> []"
  shows "first_max key xs \<in> set xs \<and> (\<forall>x \<in> set xs. key x \<le> key (first_max key xs))"
proof -
  have "fold (\<lambda>x best. if key best < key x then x else best) ys b \<in> insert b (set ys) \<and>
      (\<forall>x \<in> insert b (set ys). key x \<le> key (fold (\<lambda>x best. if key best < key x then x else best) ys b))" for ys b
  proof (induction ys arbitrary: b)
    case (Cons y ys)
    show ?case using Cons [of "if key b < key y then y else b"] by (auto split: if_splits dest: order_trans)
  qed simp
  from this [of "tl xs" "hd xs"] assms show ?thesis
    unfolding first_max_def by (cases xs) simp_all
qed

lemma final_gate:
  assumes "rs \<noteq> []"
  shows "aggregate_blocked sha rs \<longleftrightarrow>
      list_ex (\<lambda>r. FINAL_RANK \<le> authority_rank r \<and> (revokes_final r \<or> ev_final_blocked r)) (about_latest sha rs) \<or>
      \<not> list_ex (\<lambda>r. FINAL_RANK \<le> authority_rank r \<and> \<not> revokes_final r \<and> \<not> ev_final_blocked r) (about_latest sha rs) \<and>
      ev_final_blocked (last rs)"
  unfolding aggregate_blocked_def Let_def records_about [OF assms]
  by (auto simp: filter_empty_conv list_ex_iff)

section \<open>Properties\<close>

text \<open>
  C30: the final gate of the evidence plane. A candidate is blocked from being final exactly when a record of
  final authority or more about the latest artifact blocks or revokes it, or when no such record clears it
  and the latest record, whatever its authority, is blocked.
\<close>

theorem evidence_final_gate:
  assumes "rs \<noteq> []"
  shows "dget (aggregate_evidence_state sha rs) ''final_blocked'' =
    PBool (list_ex (\<lambda>r. FINAL_RANK \<le> authority_rank r \<and> (revokes_final r \<or> ev_final_blocked r)) (about_latest sha rs) \<or>
      \<not> list_ex (\<lambda>r. FINAL_RANK \<le> authority_rank r \<and> \<not> revokes_final r \<and> \<not> ev_final_blocked r) (about_latest sha rs) \<and>
      ev_final_blocked (last rs))"
  by (simp only: aggregate_fields(1) [OF assms] final_gate [OF assms])

text \<open>
  C31: verdicts never transfer between artifacts. A record about another artifact than the latest one,
  of whatever authority, changes neither the final block nor the final score nor the terminal rejection.
\<close>

theorem evidence_no_transfer:
  assumes "evidence_artifact_hash sha r \<noteq> evidence_artifact_hash sha (last ys)" "ys \<noteq> []"
    and "k \<in> set [''final_blocked'', ''final_score'', ''terminal_reject'']"
  shows "dget (aggregate_evidence_state sha (xs @ r # ys)) k = dget (aggregate_evidence_state sha (xs @ ys)) k"
proof -
  have about: "about_latest sha (xs @ r # ys) = about_latest sha (xs @ ys)"
    using assms(1,2) by (simp add: about_latest_def butlast_append)
  have "aggregate_blocked sha (xs @ r # ys) = aggregate_blocked sha (xs @ ys)"
    "aggregate_final_score sha (xs @ r # ys) = aggregate_final_score sha (xs @ ys)"
    "aggregate_terminal sha (xs @ r # ys) = aggregate_terminal sha (xs @ ys)"
    using verdicts_about [OF _ _ about] assms(2) by simp_all
  moreover have "xs @ r # ys \<noteq> []" "xs @ ys \<noteq> []" using assms(2) by simp_all
  ultimately show ?thesis
    using assms(3) by (simp only: set_simps insert_iff empty_iff) (elim disjE; simp add: aggregate_fields)
qed

text \<open>
  A fresh probe cannot downgrade a certificate. Once a record of final authority clears the latest artifact
  and none blocks it, a later record of lower authority about the same artifact leaves the candidate cleared
  with the same final score, whatever it says.
\<close>

theorem evidence_probe_cannot_downgrade:
  assumes "rs \<noteq> []" "evidence_artifact_hash sha (last rs) \<noteq> []"
    and "evidence_artifact_hash sha r = evidence_artifact_hash sha (last rs)" "authority_rank r < FINAL_RANK"
    and "list_ex (\<lambda>r. FINAL_RANK \<le> authority_rank r \<and> \<not> revokes_final r \<and> \<not> ev_final_blocked r) (about_latest sha rs)"
    and "dget (aggregate_evidence_state sha rs) ''final_blocked'' = PBool False"
  shows "dget (aggregate_evidence_state sha (rs @ [r])) ''final_blocked'' = PBool False \<and>
    dget (aggregate_evidence_state sha (rs @ [r])) ''final_score'' = dget (aggregate_evidence_state sha rs) ''final_score''"
proof -
  obtain xs l where rs: "rs = xs @ [l]" using assms(1) by (metis rev_exhaust)
  have a: "about_latest sha (rs @ [r]) = about_latest sha rs @ [r]"
    using assms(2,3) by (simp add: about_latest_def rs butlast_append)
  have n: "\<not> list_ex (\<lambda>r. FINAL_RANK \<le> authority_rank r \<and> (revokes_final r \<or> ev_final_blocked r)) (about_latest sha rs)"
    using assms(6) by (simp add: aggregate_fields(1) [OF assms(1)] final_gate [OF assms(1)])
  have "dget (aggregate_evidence_state sha (rs @ [r])) ''final_blocked'' = PBool False"
    using n assms(4,5) unfolding aggregate_fields(1) [of "rs @ [r]", simplified] final_gate [of "rs @ [r]", simplified] a
    by auto
  moreover have "aggregate_final_score sha (rs @ [r]) = aggregate_final_score sha rs"
    using assms(1,4) by (simp add: aggregate_final_score_def records_about a)
  ultimately show ?thesis using assms(1) by (simp add: aggregate_fields)
qed

text \<open>
  The preliminary incumbent is the best candidate the external evaluator measured: none without a
  measurement, and otherwise one whose key no measured candidate exceeds. A candidate that passed is never displaced
  by one that failed, whatever the scores, and no candidate with an unusable selection metric wins over one that
  has a usable one.
\<close>

theorem incumbent_is_best:
  "(select_preliminary_incumbent cs = None \<longleftrightarrow> list_all (\<lambda>c. evaluator_payload c = []) cs) \<and>
   (\<forall>c. select_preliminary_incumbent cs = Some c \<longrightarrow> c \<in> set cs \<and> evaluator_payload c \<noteq> [] \<and>
     list_all (\<lambda>d. evaluator_payload d \<noteq> [] \<longrightarrow>
       fst (evaluator_selection_key d PNone) \<le> fst (evaluator_selection_key c PNone) \<and>
       incumbent_key d \<le> incumbent_key c) cs)"
proof -
  let ?ev = "filter (\<lambda>c. evaluator_payload c \<noteq> []) cs"
  have tier: "fst (evaluator_selection_key d PNone) \<le> fst (evaluator_selection_key c PNone)"
    if "incumbent_key d \<le> incumbent_key c" for c d
    using that by (auto simp: incumbent_key_def Let_def split: prod.splits)
  have "c \<in> set cs \<and> evaluator_payload c \<noteq> [] \<and>
     list_all (\<lambda>d. evaluator_payload d \<noteq> [] \<longrightarrow>
       fst (evaluator_selection_key d PNone) \<le> fst (evaluator_selection_key c PNone) \<and>
       incumbent_key d \<le> incumbent_key c) cs" if "select_preliminary_incumbent cs = Some c" for c
  proof -
    have c: "?ev \<noteq> []" "c = first_max incumbent_key ?ev"
      using that by (simp_all add: select_preliminary_incumbent_def Let_def split: if_splits)
    have m: "c \<in> set ?ev" and k: "\<forall>d \<in> set ?ev. incumbent_key d \<le> incumbent_key c"
      using first_max_spec [OF c(1), of incumbent_key] unfolding c(2) by blast+
    have "incumbent_key d \<le> incumbent_key c" if "d \<in> set cs" "evaluator_payload d \<noteq> []" for d
      using k that by simp
    with m tier show ?thesis unfolding list_all_iff by simp
  qed
  moreover have "select_preliminary_incumbent cs = None \<longleftrightarrow> list_all (\<lambda>c. evaluator_payload c = []) cs"
    by (simp add: select_preliminary_incumbent_def Let_def filter_empty_conv list_all_iff)
  ultimately show ?thesis by blast
qed

text \<open>
  Decoding the JSON form of an evidence record gives the record back, when its scores are between 0 and 1, its
  lists hold no blank text, its metadata has no sensitive key and its mandatory texts are not empty.
\<close>

theorem evidence_roundtrip:
  assumes "list_all (\<lambda>f. 0 \<le> f r \<and> f r \<le> 1) [ev_score, ev_confidence, ev_repair_value, ev_continuation_value, ev_novelty_value]"
    and "list_all (\<lambda>f. list_all (\<lambda>s. strip s \<noteq> []) (f r)) [ev_targets, ev_resolved, ev_emitted, ev_diagnostics, ev_hints]"
    and "list_all (\<lambda>f. f r \<noteq> []) [ev_candidate, ev_source, ev_stage, ev_created_at]"
    and "list_all (\<lambda>p. \<not> sensitive_key (fst p)) (ev_metadata r)"
  shows "evidence_from_dict now (PDict (evidence_to_dict r)) = Some r"
proof -
  have b: "bounded_score (PFloat (bounded (f r))) = f r"
    if "f \<in> set [ev_score, ev_confidence, ev_repair_value, ev_continuation_value, ev_novelty_value]" for f
    using assms(1) that unfolding list_all_iff by (auto simp: bounded_score_def py_float_def)
  have t: "stripped_texts (texts (f r)) = f r"
    if "f \<in> set [ev_targets, ev_resolved, ev_emitted, ev_diagnostics, ev_hints]" for f
  proof -
    have "strip s \<noteq> []" if "s \<in> set (f r)" for s
      using assms(2) \<open>f \<in> _\<close> that unfolding list_all_iff by blast
    moreover have "strip [] = []" by (simp add: strip_def)
    ultimately show ?thesis
      by (auto simp: stripped_texts_def texts_def filter_map comp_def intro!: filter_True map_idI)
  qed
  have h: "py_or (texts (ev_hints r)) PNone = texts (ev_hints r) \<or> ev_hints r = []"
    by (auto simp: py_or_def texts_def)
  have "safe_metadata (PDict (ev_metadata r)) = ev_metadata r"
    using assms(4) by (auto simp: safe_metadata_def list_all_iff intro: filter_True)
  moreover have "stripped_texts (py_or (texts (ev_hints r)) PNone) = ev_hints r"
    using h t [of ev_hints] by (auto simp: py_or_def texts_def stripped_texts_def)
  ultimately show ?thesis using assms(3) b t
    by (simp add: evidence_from_dict_def evidence_to_dict_def dget_def dget_or_def py_or_def)
qed

text \<open>
  A rejection is lost behind an older revocation. When a record of final authority that does not
  reject revoked the final verdict, the terminal rejection by the latest record about the same artifact does
  not reach the state: the loop over the revocations overwrites the disjunction of all records.
\<close>

theorem revocation_hides_rejection:
  assumes "revokes_final v" "FINAL_RANK \<le> authority_rank v" "\<not> ev_terminal_reject v"
    and "evidence_artifact_hash sha v = evidence_artifact_hash sha r" "evidence_artifact_hash sha r \<noteq> []"
    and "\<not> revokes_final r" "ev_terminal_reject r"
  shows "dget (aggregate_evidence_state sha [v, r]) ''terminal_reject'' = PBool False"
proof -
  have "latest_artifact_records sha [v, r] = [v, r]"
    using assms(4,5) by (simp add: latest_records_about about_latest_def)
  then have "\<not> aggregate_terminal sha [v, r]"
    using assms by (simp add: aggregate_terminal_def Let_def)
  then show ?thesis by (simp add: aggregate_fields)
qed

section \<open>Witnesses\<close>

definition demo_evidence :: "string \<Rightarrow> bool \<Rightarrow> bool \<Rightarrow> pydict \<Rightarrow> evidence" where
  "demo_evidence stage blocked reject md =
     \<lparr>ev_candidate = ''C1'', ev_source = ''s'', ev_stage = stage, ev_score = 1, ev_confidence = 1 / 2, ev_cost = [],
      ev_final_blocked = blocked, ev_parent_blocked = False, ev_terminal_reject = reject, ev_repair_value = 0,
      ev_continuation_value = 0, ev_novelty_value = 0, ev_targets = [''c1''], ev_resolved = [], ev_emitted = [],
      ev_diagnostics = [], ev_hints = [], ev_metadata = md, ev_created_at = ''now''\<rparr>"

definition demo_art :: "string \<Rightarrow> pydict" where
  "demo_art h = [(''artifact_hash'', PStr h)]"

lemma demo_art_hash: "strip h = h \<Longrightarrow> h \<noteq> [] \<Longrightarrow> evidence_artifact_hash sha (demo_evidence st b t (demo_art h)) = h"
  by (simp add: evidence_artifact_hash_def demo_evidence_def demo_art_def first_text_def dget_def Let_def coerce_dict_def strip_def)

lemma demo_rank: "authority_rank (demo_evidence ''probe'' b t (demo_art h)) = 10"
  "authority_rank (demo_evidence ''certificate'' b t (demo_art h)) = 50"
proof -
  have "map_of AUTHORITY_ALIASES ''probe'' = None" "map_of AUTHORITY_ALIASES ''certificate'' = None"
    "lower (strip ''probe'') = ''probe''" "lower (strip ''certificate'') = ''certificate''"
    by code_simp+
  then show "authority_rank (demo_evidence ''probe'' b t (demo_art h)) = 10"
    "authority_rank (demo_evidence ''certificate'' b t (demo_art h)) = 50"
    by (simp_all add: authority_rank_def evidence_authority_def demo_evidence_def demo_art_def dget_def py_or_def Let_def
        AUTHORITY_ORDER_def dkeys_def)
qed

lemma demo_strip: "strip ''h1'' = ''h1''" "strip ''h2'' = ''h2''"
  by code_simp+

lemma demo_not_revoking: "\<not> revokes_final (demo_evidence st b t (demo_art h))"
  by (simp add: revokes_final_def demo_evidence_def demo_art_def dget_def)

theorem evidence_final_gate_witness:
  "\<exists>b. dget (aggregate_evidence_state (\<lambda>v. []) [demo_evidence ''probe'' True False (demo_art ''h1'')]) ''final_blocked'' = PBool b"
  using evidence_final_gate [of "[demo_evidence ''probe'' True False (demo_art ''h1'')]" "\<lambda>v. []"] by blast

theorem evidence_no_transfer_witness:
  "dget (aggregate_evidence_state (\<lambda>v. [])
      [demo_evidence ''certificate'' False False (demo_art ''h2''), demo_evidence ''probe'' True False (demo_art ''h1'')]) ''final_blocked'' =
   dget (aggregate_evidence_state (\<lambda>v. []) [demo_evidence ''probe'' True False (demo_art ''h1'')]) ''final_blocked''"
  using evidence_no_transfer [of "\<lambda>v. []" "demo_evidence ''certificate'' False False (demo_art ''h2'')"
      "[demo_evidence ''probe'' True False (demo_art ''h1'')]" "''final_blocked''" "[]"]
  by (simp add: demo_art_hash demo_strip)

theorem evidence_probe_cannot_downgrade_witness:
  "dget (aggregate_evidence_state (\<lambda>v. []) ([demo_evidence ''certificate'' False False (demo_art ''h1'')] @
      [demo_evidence ''probe'' True False (demo_art ''h1'')])) ''final_blocked'' = PBool False"
proof (rule evidence_probe_cannot_downgrade [THEN conjunct1])
  let ?c = "demo_evidence ''certificate'' False False (demo_art ''h1'')"
  have a: "about_latest (\<lambda>v. []) [?c] = [?c]" by (simp add: about_latest_def)
  have u: "\<not> ev_final_blocked ?c" by (simp add: demo_evidence_def)
  show "list_ex (\<lambda>r. FINAL_RANK \<le> authority_rank r \<and> \<not> revokes_final r \<and> \<not> ev_final_blocked r) (about_latest (\<lambda>v. []) [?c])"
    unfolding a using u by (simp add: demo_rank demo_not_revoking FINAL_RANK_def)
  show "dget (aggregate_evidence_state (\<lambda>v. []) [?c]) ''final_blocked'' = PBool False"
    using u by (simp add: aggregate_fields final_gate a demo_rank demo_not_revoking FINAL_RANK_def)
qed (simp_all add: demo_art_hash demo_strip demo_rank FINAL_RANK_def)

definition measured_candidate :: candidate where
  "measured_candidate = sample_candidate ''C1'' [(''evaluator'', PDict [(''passed'', PBool True)])]"

theorem incumbent_is_best_witness:
  "select_preliminary_incumbent [measured_candidate] = Some measured_candidate \<and> evaluator_payload measured_candidate \<noteq> []"
proof -
  have "evaluator_payload measured_candidate \<noteq> []"
    by (simp add: evaluator_payload_def measured_candidate_def sample_candidate_def dget_def)
  with incumbent_is_best [of "[measured_candidate]"] show ?thesis
    by (cases "select_preliminary_incumbent [measured_candidate]") simp_all
qed

theorem evidence_roundtrip_witness:
  "evidence_from_dict ''now'' (PDict (evidence_to_dict (demo_evidence ''probe'' True False [(''a'', PInt 1)]))) =
     Some (demo_evidence ''probe'' True False [(''a'', PInt 1)])"
proof (rule evidence_roundtrip)
  have "strip ''c1'' \<noteq> []" "\<not> sensitive_key ''a''" by code_simp+
  then show "list_all (\<lambda>f. list_all (\<lambda>s. strip s \<noteq> []) (f (demo_evidence ''probe'' True False [(''a'', PInt 1)])))
      [ev_targets, ev_resolved, ev_emitted, ev_diagnostics, ev_hints]"
    "list_all (\<lambda>p. \<not> sensitive_key (fst p)) (ev_metadata (demo_evidence ''probe'' True False [(''a'', PInt 1)]))"
    by (simp_all add: demo_evidence_def)
qed (simp_all add: demo_evidence_def)

theorem revocation_hides_rejection_witness:
  "dget (aggregate_evidence_state (\<lambda>v. [])
      [demo_evidence ''certificate'' True False ((''revokes_final'', PBool True) # demo_art ''h1''),
       demo_evidence ''probe'' True True (demo_art ''h1'')]) ''terminal_reject'' = PBool False"
proof (rule revocation_hides_rejection)
  have "map_of AUTHORITY_ALIASES ''certificate'' = None" "lower (strip ''certificate'') = ''certificate''" by code_simp+
  then show "FINAL_RANK \<le> authority_rank (demo_evidence ''certificate'' True False ((''revokes_final'', PBool True) # demo_art ''h1''))"
    by (simp add: authority_rank_def evidence_authority_def demo_evidence_def demo_art_def dget_def py_or_def Let_def
        AUTHORITY_ORDER_def dkeys_def FINAL_RANK_def)
  show "evidence_artifact_hash (\<lambda>v. []) (demo_evidence ''certificate'' True False ((''revokes_final'', PBool True) # demo_art ''h1'')) =
      evidence_artifact_hash (\<lambda>v. []) (demo_evidence ''probe'' True True (demo_art ''h1''))"
    by (simp add: evidence_artifact_hash_def demo_evidence_def demo_art_def first_text_def dget_def Let_def coerce_dict_def)
qed (simp_all add: demo_art_hash demo_strip demo_not_revoking, simp_all add: revokes_final_def demo_evidence_def dget_def)

end
