(* ===== verification/StopDecision.thy ===== *)
theory StopDecision
  imports Evidence
begin

text \<open>
  When the evolution loop stops: nexus/stop_reasons.py, nexus/stop_decision.py, nexus/loop/adaptive_stop.py, the
  round budget of nexus/loop/budget.py with its constructors in nexus/budget_factory.py, the diagnosis record of
  nexus/diagnosis.py and the quota test of nexus/model_errors.py. The model's \<open>should_stop\<close> is an argument: what it
  returned or raised for this round, or that there is no such model.
\<close>

section \<open>Stop reasons\<close>

abbreviation READY :: string where "READY \<equiv> ''candidate_ready_for_external_review''"
abbreviation DIMINISHING :: string where "DIMINISHING \<equiv> ''diminishing_returns_checkpoint''"
abbreviation UNSOLVED :: string where "UNSOLVED \<equiv> ''model_stop_unsolved_needs_continuation''"

definition EXTERNAL_REVIEW_REASONS :: "string list" where
  "EXTERNAL_REVIEW_REASONS = [READY, DIMINISHING]"

definition SOLVED_REASONS :: "string list" where
  "SOLVED_REASONS =
     [''objective_solved'', ''verified_solution'', ''self_observed_convergence'', ''self_observed_stable_best_candidate'']"

definition REVIEW_ALIASES :: "(string \<times> string) list" where
  "REVIEW_ALIASES =
     [(''ready_for_external_review'', READY), (''candidate_ready'', READY), (''external_review_ready'', READY),
      (''human_review_ready'', READY), (''diminishing_returns'', DIMINISHING),
      (''low_marginal_gain_checkpoint'', DIMINISHING), (''low_expected_gain_checkpoint'', DIMINISHING)]"

definition underscored :: "string \<Rightarrow> string" where
  "underscored s = replace_char (CHR '' '') (CHR ''_'') (replace_char (CHR ''-'') (CHR ''_'') s)"

definition normalize_review_reason :: "pyval \<Rightarrow> string" where
  "normalize_review_reason v =
     (let t0 = underscored (lower (strip (str_field v [])));
          t = (case map_of REVIEW_ALIASES t0 of Some x \<Rightarrow> x | None \<Rightarrow> t0)
      in if t \<in> set EXTERNAL_REVIEW_REASONS then t else [])"

definition is_external_review_reason :: "pyval \<Rightarrow> bool" where
  "is_external_review_reason v \<longleftrightarrow> normalize_review_reason v \<noteq> []"

definition is_solved_reason :: "pyval \<Rightarrow> bool" where
  "is_solved_reason v \<longleftrightarrow> lower (strip (str_field v [])) \<in> set SOLVED_REASONS"

definition stop_reason_class :: "pyval \<Rightarrow> string" where
  "stop_reason_class v =
     (let reason = lower (strip (str_field v []))
      in if reason = READY then ''goal_reached''
         else if reason \<in> set [DIMINISHING, ''adaptive_safety_checkpoint'', ''max_rounds''] then ''stagnation_exhausted''
         else [])"

section \<open>The diagnosis\<close>

definition STAGNATION_TYPES :: "string list" where
  "STAGNATION_TYPES =
     [''None'', ''LocalOptimum'', ''AuxiliaryCollapse'', ''SemanticDrift'', ''VerificationBottleneck'',
      ''KnowledgeBottleneck'', ''DiversityCollapse'', ''PrematureCulling'', ''ToolOverfitting'', ''ProofObjectAbsence'',
      ''ObligationBottleneck'', ''SemanticLooping'', ''RouteIncomplete'', ''QuotaPaused'', ''Cancelled'',
      ''ModelSchemaQuotaOrTransport'']"

record diagnosis =
  dg_detected :: bool
  dg_type :: string
  dg_over :: "string list"
  dg_under :: "string list"
  dg_culled :: "string list"
  dg_auxiliary_risk :: rat
  dg_drift_risk :: rat
  dg_actions :: "string list"
  dg_notes :: string
  dg_gain :: pydict
  dg_metadata :: pydict
  dg_created_at :: string

definition setdefault :: "string \<Rightarrow> pyval \<Rightarrow> pydict \<Rightarrow> pydict" where
  "setdefault k v d = (if k \<in> dkeys d then d else dset k v d)"

definition diagnosis_init :: "diagnosis \<Rightarrow> diagnosis" where
  "diagnosis_init d =
     (let raw = str_or (dg_type d) ''None'';
          retired = raw \<in> set [''ProofObjectAbsence'', ''ObligationBottleneck'', ''VerificationBottleneck''];
          md = (if retired
                then setdefault ''answer_first_repair'' (PStr ''proof/source/verification bottlenecks are advisory only'')
                  (setdefault ''raw_retired_stagnation_type'' (PStr raw) (dg_metadata d))
                else dg_metadata d);
          t0 = (if retired then (if dg_detected d then ''DiversityCollapse'' else ''None'') else dg_type d);
          t = (if t0 \<notin> set STAGNATION_TYPES then (if \<not> dg_detected d then ''None'' else t0) else t0);
          strs = filter (\<lambda>s. s \<noteq> []);
          acts = filter (\<lambda>x. x \<notin> set [''instantiate_formal_artifact'', ''discharge_obligation'', ''tool_ground'',
             ''return_failure_report'']) (if strs (dg_actions d) \<noteq> [] then strs (dg_actions d) else [''continue''])
      in d\<lparr>dg_metadata := md, dg_type := t, dg_over := strs (dg_over d), dg_under := strs (dg_under d),
           dg_culled := strs (dg_culled d), dg_actions := (if acts \<noteq> [] then acts else [''continue''])\<rparr>)"

definition diagnosis_from_dict :: "string \<Rightarrow> pydict \<Rightarrow> pyexn + diagnosis" where
  "diagnosis_from_dict now d =
     sbind (py_float (py_or (dget_or d ''auxiliary_collapse_risk'' (PFloat 0)) (PFloat 0))) (\<lambda>aux.
     sbind (py_float (py_or (dget_or d ''semantic_drift_risk'' (PFloat 0)) (PFloat 0))) (\<lambda>drift.
       Inr (diagnosis_init
         \<lparr>dg_detected = truthy (dget_or d ''stagnation_detected'' (PBool False)),
          dg_type = str_field (dget d ''stagnation_type'') ''None'',
          dg_over = coerce_str_list (dget d ''over_explored_families''),
          dg_under = coerce_str_list (dget d ''under_explored_families''),
          dg_culled = coerce_str_list (dget d ''prematurely_culled_genes''),
          dg_auxiliary_risk = aux, dg_drift_risk = drift,
          dg_actions = coerce_str_list (dget d ''recommended_actions''),
          dg_notes = str_field (dget d ''notes'') [],
          dg_gain = coerce_dict (dget d ''grounded_information_gain''),
          dg_metadata = coerce_dict (dget d ''metadata''),
          dg_created_at = str_field (dget d ''created_at'') now\<rparr>)))"

definition diagnosis_to_dict :: "diagnosis \<Rightarrow> pydict" where
  "diagnosis_to_dict d =
     [(''stagnation_detected'', PBool (dg_detected d)), (''stagnation_type'', PStr (dg_type d)),
      (''over_explored_families'', texts (dg_over d)), (''under_explored_families'', texts (dg_under d)),
      (''prematurely_culled_genes'', texts (dg_culled d)), (''auxiliary_collapse_risk'', PFloat (dg_auxiliary_risk d)),
      (''semantic_drift_risk'', PFloat (dg_drift_risk d)), (''recommended_actions'', texts (dg_actions d)),
      (''notes'', PStr (dg_notes d)), (''grounded_information_gain'', PDict (dg_gain d)),
      (''metadata'', PDict (dg_metadata d)), (''created_at'', PStr (dg_created_at d))]"

section \<open>The round budget\<close>

record evo_budget =
  eb_max_rounds :: int
  eb_history :: "pyval list"
  eb_current_round :: int
  eb_branch_factor :: int
  eb_initial_count :: int
  eb_recover_errors :: bool
  eb_stop_policy :: string
  eb_min_rounds :: int
  eb_stop_reason :: string
  eb_adaptive :: bool
  eb_safety_limit :: int
  eb_requires_signal :: bool
  eb_status :: string
  eb_phase :: string

definition SEARCH_PHASES :: "string list" where
  "SEARCH_PHASES = [''explore'', ''exit_sweep'']"

definition budget_init :: "evo_budget \<Rightarrow> pyexn + evo_budget" where
  "budget_init b =
     (let phase = lower (strip (str_or (eb_phase b) ''explore''))
      in if phase \<notin> set SEARCH_PHASES then Inl PyValueError else Inr (b\<lparr>eb_phase := phase\<rparr>))"

definition default_budget :: evo_budget where
  "default_budget =
     \<lparr>eb_max_rounds = 1, eb_history = [], eb_current_round = 0, eb_branch_factor = 0, eb_initial_count = 0,
      eb_recover_errors = True, eb_stop_policy = ''llm_after_minimum'', eb_min_rounds = 1, eb_stop_reason = [],
      eb_adaptive = False, eb_safety_limit = 0, eb_requires_signal = False, eb_status = ''running'', eb_phase = ''explore''\<rparr>"

definition int_or :: "int \<Rightarrow> int \<Rightarrow> int" where
  "int_or a b = (if a \<noteq> 0 then a else b)"

definition round_limit :: "evo_budget \<Rightarrow> int" where
  "round_limit b =
     (if eb_adaptive b then max 1 (int_or (int_or (eb_safety_limit b) (eb_max_rounds b)) 1)
      else max 1 (int_or (eb_max_rounds b) 1))"

definition budget_remaining :: "evo_budget \<Rightarrow> bool" where
  "budget_remaining b \<longleftrightarrow> eb_current_round b < round_limit b"

definition budget_step :: "evo_budget \<Rightarrow> int \<times> evo_budget" where
  "budget_step b = (eb_current_round b + 1, b\<lparr>eb_current_round := eb_current_round b + 1\<rparr>)"

definition budget_to_dict :: "evo_budget \<Rightarrow> pydict" where
  "budget_to_dict b =
     [(''max_rounds'', PInt (eb_max_rounds b)), (''history'', PList (eb_history b)),
      (''current_round'', PInt (eb_current_round b)), (''branch_factor'', PInt (eb_branch_factor b)),
      (''initial_candidate_count'', PInt (eb_initial_count b)), (''recover_model_errors'', PBool (eb_recover_errors b)),
      (''stop_policy'', PStr (eb_stop_policy b)), (''min_rounds_before_stop'', PInt (eb_min_rounds b)),
      (''stop_reason'', PStr (eb_stop_reason b)), (''adaptive'', PBool (eb_adaptive b)),
      (''round_safety_limit'', PInt (eb_safety_limit b)),
      (''completion_requires_stop_signal'', PBool (eb_requires_signal b)),
      (''completion_status'', PStr (eb_status b)), (''search_phase'', PStr (eb_phase b))]"

text \<open>\<open>positive_int_or_default\<close>: a positive integer, or the default.\<close>

definition positive_int_or :: "pyval \<Rightarrow> int \<Rightarrow> int" where
  "positive_int_or v d = (case py_int v of Inr i \<Rightarrow> (if 0 < i then i else d) | Inl _ \<Rightarrow> d)"

definition int_field :: "pyval \<Rightarrow> int \<Rightarrow> pyexn + int" where
  "int_field v d = py_int (py_or v (PInt d))"

definition budget_from_params :: "pyval \<Rightarrow> pyval \<Rightarrow> pyval \<Rightarrow> string \<Rightarrow> pyval \<Rightarrow> pyexn + evo_budget" where
  "budget_from_params max_rounds branch_factor initial_count stop_policy min_rounds =
     sbind (int_field branch_factor 0) (\<lambda>bf. sbind (int_field initial_count 0) (\<lambda>ic.
       budget_init (default_budget\<lparr>eb_max_rounds := positive_int_or max_rounds 1, eb_branch_factor := max 0 bf,
         eb_initial_count := max 0 ic, eb_stop_policy := str_or stop_policy ''llm_after_minimum'',
         eb_min_rounds := positive_int_or min_rounds 1\<rparr>)))"

text \<open>The checkpointed counters are integers; \<open>override\<close> is the caller's \<open>max_rounds\<close>, if any.\<close>

definition resume_budget :: "int \<Rightarrow> int \<Rightarrow> pydict \<Rightarrow> int option \<Rightarrow> pyexn + evo_budget" where
  "resume_budget checkpoint_round checkpoint_max d override =
     (let current = checkpoint_round; adaptive = truthy (dget d ''adaptive'') in
      sbind (case override of
          Some m \<Rightarrow> Inr (max m (current + 1))
        | None \<Rightarrow>
            if adaptive
            then sbind (py_int (py_or (dget d ''round_safety_limit'') (PInt (int_or checkpoint_max 1))))
              (\<lambda>limit. Inr (current + max 1 limit))
            else Inr (max (int_or (int_or checkpoint_max current) 1) current)) (\<lambda>target.
      sbind (int_field (dget d ''branch_factor'') 0) (\<lambda>bf.
      sbind (int_field (dget d ''initial_candidate_count'') 0) (\<lambda>ic.
      sbind (if adaptive then Inr target
             else sbind (int_field (dget d ''round_safety_limit'') target) (\<lambda>l. Inr (max 0 l))) (\<lambda>safety.
        budget_init (default_budget\<lparr>eb_max_rounds := target, eb_current_round := current, eb_branch_factor := max 0 bf,
          eb_initial_count := max 0 ic, eb_stop_policy := str_field (dget d ''stop_policy'') ''llm_after_minimum'',
          eb_min_rounds := positive_int_or (dget d ''min_rounds_before_stop'') 1, eb_adaptive := adaptive,
          eb_safety_limit := safety, eb_requires_signal := truthy (dget d ''completion_requires_stop_signal''),
          eb_phase := str_field (dget d ''search_phase'') ''explore''\<rparr>))))))"

section \<open>Adaptive stagnation\<close>

text \<open>The part of the policy the stop reads.\<close>

record evo_policy =
  ep_metadata :: pydict
  ep_stagnation_actions :: "string list"

definition candidate_quality_key :: "candidate option \<Rightarrow> rat list" where
  "candidate_quality_key co =
     (case co of
        None \<Rightarrow> []
      | Some c \<Rightarrow>
          (case evaluator_selection_key c PNone of (tier, score, _) \<Rightarrow>
             let head = (\<lambda>k. case map_of (cg_multihead_scores c) k of Some q \<Rightarrow> q | None \<Rightarrow> 0)
             in [of_int tier, score, head ''answer_likelihood'', head ''objective_score'']))"

definition quality_key :: "pyval \<Rightarrow> rat list" where
  "quality_key v =
     (case v of
        PList xs \<Rightarrow> (case list_all_ok py_float xs of Inr qs \<Rightarrow> qs | Inl _ \<Rightarrow> [])
      | _ \<Rightarrow> [])"

definition diagnosis_actions :: "pyval \<Rightarrow> pyexn + string list" where
  "diagnosis_actions v =
     (case v of
        PDict d \<Rightarrow> sbind (iter_items (dget_or d ''recommended_actions'' (PList []))) (\<lambda>xs.
          Inr (filter (\<lambda>s. s \<noteq> []) (map py_str xs)))
      | _ \<Rightarrow> Inr [])"

type_synonym observation = "string \<times> rat list \<times> string list"

definition ranking_of :: "pydict \<Rightarrow> pydict option" where
  "ranking_of item = (case dget item ''ranking'' of PDict r \<Rightarrow> Some r | _ \<Rightarrow> None)"

definition history_observations :: "pydict list \<Rightarrow> pyexn + observation list" where
  "history_observations history =
     list_all_ok (\<lambda>(item, r). sbind (diagnosis_actions (dget item ''diagnosis'')) (\<lambda>acts.
         Inr (str_field (dget r ''best_final_answer_id'') [], quality_key (dget item ''best_quality_key''), acts)))
       (concat (map (\<lambda>item. case ranking_of item of Some r \<Rightarrow> [(item, r)] | None \<Rightarrow> []) history))"

text \<open>The loop over the reversed observations, with its two breaks.\<close>

fun stagnation_tail :: "string \<Rightarrow> rat list \<Rightarrow> observation list \<Rightarrow> observation list \<Rightarrow> observation list" where
  "stagnation_tail best latest tail [] = tail"
| "stagnation_tail best latest tail ((b, quality, acts) # rest) =
     (if b \<noteq> best then tail
      else if tail \<noteq> [] \<and> quality \<noteq> [] \<and> latest \<noteq> [] \<and> quality < latest then tail
      else stagnation_tail best (if quality \<noteq> [] then quality else latest) (tail @ [(b, quality, acts)]) rest)"

definition required_interventions :: "evo_policy \<Rightarrow> string list" where
  "required_interventions p =
     filter (\<lambda>s. s \<noteq> [] \<and> s \<noteq> ''continue'')
       (case dget (ep_metadata p) ''stagnation_interventions'' of
          PList xs \<Rightarrow> map py_str xs
        | _ \<Rightarrow> ep_stagnation_actions p)"

definition adaptive_stagnation_exhausted ::
  "bool \<Rightarrow> string \<Rightarrow> pydict list \<Rightarrow> diagnosis \<Rightarrow> evo_policy option \<Rightarrow> candidate list \<Rightarrow> pyexn + bool" where
  "adaptive_stagnation_exhausted adaptive best history diag pol candidates =
     (case pol of
        None \<Rightarrow> Inr False
      | Some p \<Rightarrow>
          if \<not> adaptive \<or> best = [] then Inr False
          else case py_int (dget (ep_metadata p) ''adaptive_stagnation_patience'') of
            Inl _ \<Rightarrow> Inr False
          | Inr patience \<Rightarrow>
              if patience \<le> 0 then Inr False
              else sbind (history_observations history) (\<lambda>obs.
                let current = find (\<lambda>c. cg_id c = best) candidates;
                    all_obs = obs @ [(best, candidate_quality_key current, dg_actions diag)];
                    tail = stagnation_tail best (fst (snd (last all_obs))) [] (rev all_obs)
                in if int (length tail) < patience then Inr False
                   else
                     let required = required_interventions p;
                         applied = concat (map (\<lambda>(_, _, acts). acts) tail)
                     in Inr (required \<noteq> [] \<and> set required \<subseteq> set applied)))"

section \<open>The stop decision\<close>

text \<open>An exception of the model boundary: class name, text and the two codes as \<open>repr\<close> prints them.\<close>

record model_error =
  me_class :: string
  me_text :: string
  me_status :: string
  me_code :: string

definition QUOTA_TOKENS :: "string list" where
  "QUOTA_TOKENS =
     [''resource_exhausted'', ''resource exhausted'', ''429'', ''quota'', ''rate limit'', ''rate_limit'', ''ratelimit'',
      ''too many requests'', ''insufficient_quota'', ''provider quota'', ''usage limit'']"

definition is_quota_error :: "model_error \<Rightarrow> bool" where
  "is_quota_error e =
     (let text = lower (join_with '' '' (filter (\<lambda>s. s \<noteq> []) [me_class e, me_text e, me_status e, me_code e]))
      in list_ex (\<lambda>t. infix_of t text) QUOTA_TOKENS)"

datatype model_answer = NoStopModel | Answered pyval | BoundaryError model_error | Raised pyexn

datatype stop_error = Quota model_error | Escaped pyexn

text \<open>\<open>_model_stop_decision\<close>: a boundary error that is no quota error counts as no stop.\<close>

definition model_stop_decision :: "model_answer \<Rightarrow> stop_error + pyval" where
  "model_stop_decision m =
     (case m of
        Answered v \<Rightarrow> Inr v
      | BoundaryError e \<Rightarrow> (if is_quota_error e then Inl (Quota e) else Inr (PBool False))
      | Raised x \<Rightarrow> Inl (Escaped x)
      | NoStopModel \<Rightarrow> Inr (PBool False))"

definition external_review_reason :: "pydict \<Rightarrow> string \<Rightarrow> string" where
  "external_review_reason d best =
     (if strip best = [] then []
      else case filter (\<lambda>r. r \<noteq> []) (map (\<lambda>k. normalize_review_reason (dget d k))
             [''stop_reason'', ''stop_kind'', ''reason'', ''status'']) of
        r # _ \<Rightarrow> r
      | [] \<Rightarrow>
          (if truthy (dget d ''stop'') \<and> dget d ''solved'' \<noteq> PBool True \<and> dget d ''continuation_needed'' = PBool False
           then (if dget d ''confidence'' = PNone then []
                 else case py_float (dget d ''confidence'') of
                   Inl _ \<Rightarrow> []
                 | Inr q \<Rightarrow> (if 7 / 10 \<le> q then READY else []))
           else []))"

text \<open>The decision on an answer that asks to stop, shared by the two model-driven policies.\<close>

definition stop_answer :: "pydict \<Rightarrow> string \<Rightarrow> string" where
  "stop_answer d best =
     (let review = external_review_reason d best
      in if review \<noteq> [] then review
         else if dget d ''solved'' = PBool True then (if best \<noteq> [] then READY else UNSOLVED)
         else UNSOLVED)"

definition self_observed_convergence :: "pydict list \<Rightarrow> diagnosis \<Rightarrow> string \<Rightarrow> string" where
  "self_observed_convergence history diag best =
     (let t = lower (dg_type diag); notes = lower (dg_notes diag);
          recent = last_n 2 history;
          recent_best = map (\<lambda>item. case ranking_of item of Some r \<Rightarrow> str_field (dget r ''best_final_answer_id'') [] | None \<Rightarrow> []) recent;
          recent_diag = map (\<lambda>item. case dget item ''diagnosis'' of PDict d \<Rightarrow> str_field (dget d ''stagnation_type'') [] | _ \<Rightarrow> []) recent
      in if best \<noteq> [] \<and> list_ex (\<lambda>k. infix_of k t \<or> infix_of k notes)
            [''diminishing_returns'', ''diminishing returns'', ''low marginal gain'', ''low expected gain'']
         then DIMINISHING
         else if best \<noteq> [] \<and> (infix_of ''converged'' t \<or> infix_of ''converged'' notes) then READY
         else if best = [] \<or> length history < 2 then []
         else if \<not> dg_detected diag \<and> list_all (\<lambda>x. x = best) recent_best \<and>
                 list_all (\<lambda>x. lower x \<in> set [''none'', ''converged'']) recent_diag
         then READY
         else [])"

definition history_dicts :: "evo_budget \<Rightarrow> pydict list" where
  "history_dicts b = concat (map (\<lambda>v. case v of PDict d \<Rightarrow> [d] | _ \<Rightarrow> []) (eb_history b))"

definition current_best :: "candidate list \<Rightarrow> string \<Rightarrow> string" where
  "current_best candidates best = (case select_preliminary_incumbent candidates of Some c \<Rightarrow> cg_id c | None \<Rightarrow> best)"

definition lift_escape :: "pyexn + 'a \<Rightarrow> stop_error + 'a" where
  "lift_escape r = map_sum Escaped id r"

text \<open>The last part: the stop policies, once neither stagnation nor convergence was observed.\<close>

definition until_solved_answer :: "string \<Rightarrow> pyval \<Rightarrow> string" where
  "until_solved_answer best v =
     (case v of
        PDict d \<Rightarrow> (if truthy (dget d ''stop'') then stop_answer d best else [])
      | _ \<Rightarrow> (if v = PBool True then (if best \<noteq> [] then READY else UNSOLVED) else []))"

definition after_minimum_answer :: "string \<Rightarrow> pyval \<Rightarrow> string" where
  "after_minimum_answer best v =
     (case v of
        PDict d \<Rightarrow> (if truthy (dget d ''stop'') then stop_answer d best else [])
      | _ \<Rightarrow> (if truthy v then ''model_stop_after_minimum'' else []))"

definition stop_by_policy :: "string \<Rightarrow> string \<Rightarrow> diagnosis \<Rightarrow> model_answer \<Rightarrow> stop_error + string" where
  "stop_by_policy mode best diag model =
     (if mode = ''adaptive_until_solved'' then
        (if model = NoStopModel then Inr []
         else sbind (model_stop_decision model) (\<lambda>v. Inr (until_solved_answer best v)))
      else if mode = ''convergence_or_max_rounds'' then
        Inr (if best \<noteq> [] \<and> \<not> dg_detected diag then ''converged_after_minimum'' else [])
      else if mode = ''llm_after_minimum'' \<and> model \<noteq> NoStopModel then
        sbind (model_stop_decision model) (\<lambda>v. Inr (after_minimum_answer best v))
      else Inr [])"

definition stop_past_minimum ::
  "evo_budget \<Rightarrow> string \<Rightarrow> string \<Rightarrow> diagnosis \<Rightarrow> candidate list \<Rightarrow> model_answer \<Rightarrow> evo_policy option \<Rightarrow> stop_error + string" where
  "stop_past_minimum b mode best diag candidates model pol =
     sbind (lift_escape (adaptive_stagnation_exhausted (eb_adaptive b) best (history_dicts b) diag pol candidates)) (\<lambda>exhausted.
       let convergence = self_observed_convergence (history_dicts b) diag best
       in if exhausted then Inr DIMINISHING
          else if convergence \<noteq> [] then Inr convergence
          else stop_by_policy mode best diag model)"

definition stop_reason_after_round ::
  "evo_budget \<Rightarrow> int \<Rightarrow> diagnosis \<Rightarrow> string \<Rightarrow> candidate list \<Rightarrow> model_answer \<Rightarrow> evo_policy option \<Rightarrow> stop_error + string" where
  "stop_reason_after_round b completed diag best_answer candidates model pol =
     (let mode = lower (strip (str_or (eb_stop_policy b) ''llm_after_minimum''))
      in if mode = ''route_incomplete_single_diagnostic'' then Inr ''route_incomplete_single_diagnostic''
         else if completed < max 1 (int_or (eb_min_rounds b) 1) then Inr []
         else if mode = ''max_rounds'' then Inr []
         else stop_past_minimum b mode (current_best candidates best_answer) diag candidates model pol)"

section \<open>Lemmas\<close>

lemma normalize_cases: "normalize_review_reason v \<in> set [[], READY, DIMINISHING]"
  unfolding normalize_review_reason_def Let_def EXTERNAL_REVIEW_REASONS_def by (simp only: set_simps split: if_split) blast

lemma filter_hd_in: "filter P xs = y # ys \<Longrightarrow> y \<in> set xs \<and> P y"
  by (metis filter_eq_Cons_iff in_set_conv_decomp)

lemma review_reason_cases: "external_review_reason d best \<in> set [[], READY, DIMINISHING]"
proof -
  let ?rs = "map (\<lambda>k. normalize_review_reason (dget d k)) [''stop_reason'', ''stop_kind'', ''reason'', ''status'']"
  have "r \<in> set [[], READY, DIMINISHING]" if "filter (\<lambda>r. r \<noteq> []) ?rs = r # rest" for r rest
  proof -
    have "r \<in> set ?rs" using filter_hd_in [OF that] by blast
    then show ?thesis using normalize_cases by (simp only: set_map) blast
  qed
  moreover have "[] \<in> set [[], READY, DIMINISHING]" "READY \<in> set [[], READY, DIMINISHING]"
    by (simp_all only: set_simps) blast+
  ultimately show ?thesis
    unfolding external_review_reason_def by (simp only: split: if_split list.split option.split sum.split) blast
qed

lemma review_reason_needs_best: "external_review_reason d best \<noteq> [] \<Longrightarrow> best \<noteq> []"
  by (cases "best = []") (simp_all add: external_review_reason_def strip_def)

lemma stop_answer_cases:
  "stop_answer d best \<in> set [READY, DIMINISHING, UNSOLVED] \<and> (stop_answer d best \<noteq> UNSOLVED \<longrightarrow> best \<noteq> [])"
proof (cases "external_review_reason d best = []")
  case True
  then show ?thesis by (simp only: stop_answer_def Let_def set_simps split: if_split) blast
next
  case False
  then have "stop_answer d best = external_review_reason d best" by (simp only: stop_answer_def Let_def if_True simp_thms)
  with False show ?thesis
    using review_reason_cases [of d best] review_reason_needs_best [OF False] by (simp only: set_simps) blast
qed

lemma convergence_cases:
  "self_observed_convergence h diag best \<in> set [[], READY, DIMINISHING] \<and>
     (self_observed_convergence h diag best \<noteq> [] \<longrightarrow> best \<noteq> [])"
  unfolding self_observed_convergence_def Let_def by (simp only: set_simps split: if_split) blast

lemma exhausted_needs_best: "adaptive_stagnation_exhausted ad best h diag pol cs = Inr True \<Longrightarrow> best \<noteq> []"
  by (cases "best = []") (simp_all add: adaptive_stagnation_exhausted_def split: option.splits)

subsection \<open>The tail of equal observations\<close>

abbreviation qualities :: "observation list \<Rightarrow> rat list list" where
  "qualities os \<equiv> filter (\<lambda>q. q \<noteq> []) (map (\<lambda>x. fst (snd x)) os)"

lemma sorted_le_last: "sorted xs \<Longrightarrow> x \<in> set xs \<Longrightarrow> x \<le> last xs"
  by (induction xs) auto

lemma stagnation_tail_spec:
  assumes "sorted (qualities tail)" "\<forall>x \<in> set tail. fst x = best"
    and "if qualities tail = [] then latest = [] \<or> tail = [] \<and> (xs \<noteq> [] \<longrightarrow> fst (snd (hd xs)) = latest)
         else latest = last (qualities tail)"
  shows "\<exists>n \<le> length xs. stagnation_tail best latest tail xs = tail @ take n xs \<and>
    (\<forall>x \<in> set (tail @ take n xs). fst x = best) \<and> sorted (qualities (tail @ take n xs))"
  using assms
proof (induction best latest tail xs rule: stagnation_tail.induct)
  case (1 best latest tail)
  then show ?case by auto
next
  case (2 best latest tail b q acts rest)
  show ?case
  proof (cases "b \<noteq> best \<or> tail \<noteq> [] \<and> q \<noteq> [] \<and> latest \<noteq> [] \<and> q < latest")
    case True
    then have "stagnation_tail best latest tail ((b, q, acts) # rest) = tail @ take 0 ((b, q, acts) # rest)" by auto
    moreover have "\<forall>x \<in> set (tail @ take 0 ((b, q, acts) # rest)). fst x = best"
      "sorted (qualities (tail @ take 0 ((b, q, acts) # rest)))" using 2(2,3) by simp_all
    ultimately show ?thesis by blast
  next
    case False
    let ?t = "tail @ [(b, q, acts)]" and ?l = "if q \<noteq> [] then q else latest"
    have "\<forall>x \<in> set (qualities tail). x \<le> q" if "q \<noteq> []"
    proof (cases "qualities tail = []")
      case False2: False
      then have l: "latest = last (qualities tail)" using 2(4) by simp
      then have "latest \<noteq> []" using False2 last_in_set by fastforce
      then have "latest \<le> q" using False False2 that by auto
      moreover have "x \<le> latest" if "x \<in> set (qualities tail)" for x
        using sorted_le_last [OF 2(2) that] l by simp
      ultimately show ?thesis by (meson order_trans)
    qed simp
    then have s: "sorted (qualities ?t)" using 2(2) by (auto simp: sorted_append)
    have a: "\<forall>x \<in> set ?t. fst x = best" using 2(3) False by auto
    have c: "if qualities ?t = [] then ?l = [] \<or> ?t = [] \<and> (rest \<noteq> [] \<longrightarrow> fst (snd (hd rest)) = ?l)
        else ?l = last (qualities ?t)"
      using 2(4) by (auto split: if_splits)
    have "\<exists>n \<le> length rest. stagnation_tail best ?l ?t rest = ?t @ take n rest \<and>
        (\<forall>x \<in> set (?t @ take n rest). fst x = best) \<and> sorted (qualities (?t @ take n rest))"
      using 2(1) [OF _ _ s a c] False by auto
    then obtain n where "n \<le> length rest" "stagnation_tail best ?l ?t rest = ?t @ take n rest"
      "\<forall>x \<in> set (?t @ take n rest). fst x = best" "sorted (qualities (?t @ take n rest))" by blast
    then show ?thesis using False
      by (intro exI [of _ "Suc n"]) auto
  qed
qed

section \<open>Properties\<close>

definition stop_outcomes :: "string list" where
  "stop_outcomes =
     [[], ''route_incomplete_single_diagnostic'', READY, DIMINISHING, UNSOLVED, ''converged_after_minimum'',
      ''model_stop_after_minimum'']"

text \<open>The reasons that claim something about an answer.\<close>

definition answer_claims :: "string list" where
  "answer_claims = [READY, DIMINISHING, ''converged_after_minimum'']"

definition stop_ok :: "evo_budget \<Rightarrow> int \<Rightarrow> string \<Rightarrow> string \<Rightarrow> bool" where
  "stop_ok b completed best r \<longleftrightarrow> r \<in> set stop_outcomes \<and> (r \<in> set answer_claims \<longrightarrow> best \<noteq> []) \<and>
     (r \<notin> set [[], ''route_incomplete_single_diagnostic''] \<longrightarrow> max 1 (int_or (eb_min_rounds b) 1) \<le> completed)"

lemma stop_ok_none: "stop_ok b k best []" "stop_ok b k best ''route_incomplete_single_diagnostic''"
  by (simp_all add: stop_ok_def stop_outcomes_def answer_claims_def)

lemma stop_ok_claim:
  "max 1 (int_or (eb_min_rounds b) 1) \<le> k \<Longrightarrow> best \<noteq> [] \<Longrightarrow> r \<in> set [READY, DIMINISHING, ''converged_after_minimum''] \<Longrightarrow>
     stop_ok b k best r"
  by (simp only: set_simps insert_iff empty_iff, elim disjE) (simp_all add: stop_ok_def stop_outcomes_def)

lemma stop_ok_model:
  "max 1 (int_or (eb_min_rounds b) 1) \<le> k \<Longrightarrow> stop_ok b k best UNSOLVED"
  "max 1 (int_or (eb_min_rounds b) 1) \<le> k \<Longrightarrow> stop_ok b k best ''model_stop_after_minimum''"
  by (simp_all add: stop_ok_def stop_outcomes_def answer_claims_def)

lemma stop_ok_answer: "max 1 (int_or (eb_min_rounds b) 1) \<le> k \<Longrightarrow> stop_ok b k best (stop_answer d best)"
  using stop_answer_cases [of d best] stop_ok_claim [of b k best "stop_answer d best"] stop_ok_model(1) [of b k best]
  by (cases "stop_answer d best = UNSOLVED") (simp_all only: set_simps, blast)

lemma model_answers_ok:
  assumes k: "max 1 (int_or (eb_min_rounds b) 1) \<le> k"
  shows "stop_ok b k best (until_solved_answer best v)" "stop_ok b k best (after_minimum_answer best v)"
proof -
  have ready: "stop_ok b k best READY" if "best \<noteq> []"
    using stop_ok_claim [OF k that] by (simp only: set_simps) blast
  have u: "until_solved_answer best v = [] \<or> (\<exists>d. until_solved_answer best v = stop_answer d best) \<or>
      until_solved_answer best v = READY \<and> best \<noteq> [] \<or> until_solved_answer best v = UNSOLVED"
    unfolding until_solved_answer_def by (cases v) (simp_all only: pyval.case split: if_split, blast+)
  have a: "after_minimum_answer best v = [] \<or> (\<exists>d. after_minimum_answer best v = stop_answer d best) \<or>
      after_minimum_answer best v = ''model_stop_after_minimum''"
    unfolding after_minimum_answer_def by (cases v) (simp_all only: pyval.case split: if_split, blast+)
  show "stop_ok b k best (until_solved_answer best v)"
    using u by (elim disjE exE conjE) (simp_all only: stop_ok_none(1) stop_ok_answer [OF k] ready stop_ok_model(1) [OF k] simp_thms)
  show "stop_ok b k best (after_minimum_answer best v)"
    using a by (elim disjE exE) (simp_all only: stop_ok_none(1) stop_ok_answer [OF k] stop_ok_model(2) [OF k])
qed

lemma if_cases: "(if c then x else y) = z \<Longrightarrow> (c \<Longrightarrow> x = z \<Longrightarrow> P) \<Longrightarrow> (\<not> c \<Longrightarrow> y = z \<Longrightarrow> P) \<Longrightarrow> P"
  by (cases c) simp_all

lemma stop_by_policy_ok:
  assumes k: "max 1 (int_or (eb_min_rounds b) 1) \<le> k" and r: "stop_by_policy mode best diag model = Inr r"
  shows "stop_ok b k best r"
proof -
  have "r = [] \<or> (\<exists>v. r = until_solved_answer best v) \<or> (\<exists>v. r = after_minimum_answer best v) \<or>
      r = ''converged_after_minimum'' \<and> best \<noteq> []"
    using r unfolding stop_by_policy_def
    by (simp only: sbind_Inr_iff sum.inject split: if_split_asm) blast+
  moreover have "best \<noteq> [] \<Longrightarrow> stop_ok b k best ''converged_after_minimum''"
    using stop_ok_claim [OF k] by (simp only: set_simps) blast
  ultimately show ?thesis
    by (elim disjE exE conjE) (simp_all only: stop_ok_none(1) model_answers_ok [OF k] simp_thms)
qed

lemma stop_past_minimum_ok:
  assumes k: "max 1 (int_or (eb_min_rounds b) 1) \<le> k" and r: "stop_past_minimum b mode best diag cs model pol = Inr r"
  shows "stop_ok b k best r"
proof -
  let ?c = "self_observed_convergence (history_dicts b) diag best"
  obtain ex where ex: "adaptive_stagnation_exhausted (eb_adaptive b) best (history_dicts b) diag pol cs = Inr ex"
    using r by (cases "adaptive_stagnation_exhausted (eb_adaptive b) best (history_dicts b) diag pol cs")
      (simp_all add: stop_past_minimum_def lift_escape_def)
  have body: "(if ex then Inr DIMINISHING else if ?c \<noteq> [] then Inr ?c else stop_by_policy mode best diag model) = Inr r"
    using r unfolding stop_past_minimum_def ex lift_escape_def map_sum.simps id_apply sbind_simps Let_def .
  from body show ?thesis
  proof (elim if_cases)
    assume "ex" and r': "Inr DIMINISHING = (Inr r :: stop_error + string)"
    have r: "r = DIMINISHING" using r' unfolding sum.inject by (rule sym)
    have "best \<noteq> []" using exhausted_needs_best [of "eb_adaptive b" best "history_dicts b" diag pol cs] ex \<open>ex\<close> by simp
    then show ?thesis unfolding r by (rule stop_ok_claim [OF k]) (simp only: set_simps insert_iff simp_thms)
  next
    assume c: "?c \<noteq> []" and r': "Inr ?c = (Inr r :: stop_error + string)"
    have r: "r = ?c" using r' unfolding sum.inject by (rule sym)
    have "?c \<in> set [READY, DIMINISHING, ''converged_after_minimum'']"
      using convergence_cases [of "history_dicts b" diag best, THEN conjunct1] c
      by (simp only: set_simps insert_iff empty_iff simp_thms) (elim disjE; simp only: simp_thms)
    then show ?thesis unfolding r
      using convergence_cases [of "history_dicts b" diag best] c by (intro stop_ok_claim [OF k]) (simp_all only: simp_thms)
  next
    assume "stop_by_policy mode best diag model = Inr r"
    then show ?thesis by (rule stop_by_policy_ok [OF k])
  qed
qed

text \<open>
  C32: what a stop can say. Whatever the model answers, the decision after a round is one of seven known
  outcomes; it never stops before the minimum number of rounds (the single route diagnostic aside); and a
  reason that claims an answer, ready for review, diminishing returns or converged, is only given when there is a
  current best answer.
\<close>

theorem stop_reason_sound:
  assumes "stop_reason_after_round b completed diag best_answer cs model pol = Inr r"
  shows "r \<in> set stop_outcomes \<and> (r \<in> set answer_claims \<longrightarrow> current_best cs best_answer \<noteq> []) \<and>
    (r \<notin> set [[], ''route_incomplete_single_diagnostic''] \<longrightarrow> max 1 (int_or (eb_min_rounds b) 1) \<le> completed)"
proof -
  let ?mode = "lower (strip (str_or (eb_stop_policy b) ''llm_after_minimum''))"
  have body: "(if ?mode = ''route_incomplete_single_diagnostic'' then Inr ''route_incomplete_single_diagnostic''
      else if completed < max 1 (int_or (eb_min_rounds b) 1) then Inr []
      else if ?mode = ''max_rounds'' then Inr []
      else stop_past_minimum b ?mode (current_best cs best_answer) diag cs model pol) = Inr r"
    using assms unfolding stop_reason_after_round_def Let_def .
  then have "stop_ok b completed (current_best cs best_answer) r"
  proof (elim if_cases)
    assume "\<not> completed < max 1 (int_or (eb_min_rounds b) 1)"
      "stop_past_minimum b ?mode (current_best cs best_answer) diag cs model pol = Inr r"
    then show ?thesis by (intro stop_past_minimum_ok) (simp_all only: not_less)
  qed (simp_all only: sum.inject, (drule sym, simp only: stop_ok_none)+)
  then show ?thesis unfolding stop_ok_def .
qed

text \<open>
  What adaptive stagnation means. When the adaptive stop fires, the last observations, at least as
  many as the configured patience and the current one included, all name the current best answer, their known
  quality never improved, and every required intervention was recommended in one of them.
\<close>

theorem adaptive_stagnation_sound:
  assumes "adaptive_stagnation_exhausted adaptive best history diag (Some p) cs = Inr True"
  shows "\<exists>obs patience n. history_observations history = Inr obs \<and>
    py_int (dget (ep_metadata p) ''adaptive_stagnation_patience'') = Inr patience \<and> 0 < patience \<and> patience \<le> int n \<and>
    (let seen = take n (rev (obs @ [(best, candidate_quality_key (find (\<lambda>c. cg_id c = best) cs), dg_actions diag)])) in
       length seen = n \<and> list_all (\<lambda>x. fst x = best) seen \<and> sorted (qualities seen) \<and> required_interventions p \<noteq> [] \<and>
       list_all (\<lambda>r. list_ex (\<lambda>x. r \<in> set (snd (snd x))) seen) (required_interventions p))"
proof -
  obtain patience obs where o':
    "py_int (dget (ep_metadata p) ''adaptive_stagnation_patience'') = Inr patience" "0 < patience"
    "history_observations history = Inr obs"
    using assms
    by (auto simp: adaptive_stagnation_exhausted_def sbind_Inr_iff not_le split: if_splits sum.splits)
  let ?cur = "(best, candidate_quality_key (find (\<lambda>c. cg_id c = best) cs), dg_actions diag)"
  let ?all = "rev (obs @ [?cur])"
  let ?tail = "stagnation_tail best (fst (snd (last (obs @ [?cur])))) [] ?all"
  have r: "patience \<le> int (length ?tail)" "required_interventions p \<noteq> []"
    "set (required_interventions p) \<subseteq> set (concat (map (\<lambda>(_, _, acts). acts) ?tail))"
    using assms o' by (auto simp: adaptive_stagnation_exhausted_def Let_def not_le split: if_splits)
  obtain n where n: "n \<le> length ?all" "?tail = take n ?all" "\<forall>x \<in> set (take n ?all). fst x = best" "sorted (qualities (take n ?all))"
    using stagnation_tail_spec [of "[]" best "fst (snd (last (obs @ [?cur])))" ?all] by auto
  have "length (take n ?all) = n" using n(1) by simp
  moreover have "\<forall>x \<in> set (required_interventions p). \<exists>y \<in> set (take n ?all). x \<in> set (snd (snd y))"
    using r(3) unfolding n(2) by (force simp: case_prod_unfold)
  ultimately show ?thesis
    using o' r(1,2) n(3,4) unfolding n(2) Let_def list_all_iff list_ex_iff
    by (intro exI [of _ obs] exI [of _ patience] exI [of _ n]) simp
qed

text \<open>
  Resuming. A run resumed with an explicit round count or in adaptive mode always has a round left
  to run; without either, exactly when the checkpointed limit was not reached. The round counter is that of the
  checkpoint.
\<close>

theorem resume_budget_progress:
  assumes "resume_budget current limit d override = Inr b" "0 \<le> current" "0 \<le> limit"
  shows "eb_current_round b = current \<and>
    (budget_remaining b \<longleftrightarrow> override \<noteq> None \<or> truthy (dget d ''adaptive'') \<or> current < max 1 limit)"
proof -
  let ?ad = "truthy (dget d ''adaptive'')"
  obtain target bf ic safety where
    t: "(case override of
          Some m \<Rightarrow> Inr (max m (current + 1))
        | None \<Rightarrow>
            if ?ad
            then sbind (py_int (py_or (dget d ''round_safety_limit'') (PInt (int_or limit 1)))) (\<lambda>l. Inr (current + max 1 l))
            else Inr (max (int_or (int_or limit current) 1) current)) = Inr target"
    and sf: "(if ?ad then Inr target
             else sbind (int_field (dget d ''round_safety_limit'') target) (\<lambda>l. Inr (max 0 l))) = Inr safety"
    and init: "budget_init (default_budget\<lparr>eb_max_rounds := target, eb_current_round := current, eb_branch_factor := max 0 bf,
          eb_initial_count := max 0 ic, eb_stop_policy := str_field (dget d ''stop_policy'') ''llm_after_minimum'',
          eb_min_rounds := positive_int_or (dget d ''min_rounds_before_stop'') 1, eb_adaptive := ?ad,
          eb_safety_limit := safety, eb_requires_signal := truthy (dget d ''completion_requires_stop_signal''),
          eb_phase := str_field (dget d ''search_phase'') ''explore''\<rparr>) = Inr b"
    using assms(1) unfolding resume_budget_def Let_def sbind_Inr_iff by blast
  have b: "eb_current_round b = current" "eb_max_rounds b = target" "eb_safety_limit b = safety" "eb_adaptive b = ?ad"
    using init by (auto simp: budget_init_def Let_def split: if_split_asm)
  have s: "?ad \<Longrightarrow> safety = target" using sf by simp
  have t': "override = Some m \<Longrightarrow> target = max m (current + 1)"
    "override = None \<Longrightarrow> ?ad \<Longrightarrow> current < target"
    "override = None \<Longrightarrow> \<not> ?ad \<Longrightarrow> target = max (int_or (int_or limit current) 1) current" for m
    using t by (auto simp: sbind_Inr_iff)
  have "round_limit b = max 1 target" using b s by (cases ?ad) (simp_all add: round_limit_def int_or_def)
  then have r: "budget_remaining b \<longleftrightarrow> current < max 1 target" using b(1) by (simp add: budget_remaining_def)
  show ?thesis
  proof (cases override)
    case (Some m)
    then show ?thesis using t'(1) [OF Some] r b(1) by simp
  next
    case None
    then show ?thesis using t'(2,3) r b(1) assms(2,3) by (cases ?ad) (auto simp: int_or_def split: if_splits)
  qed
qed

section \<open>Witnesses\<close>

definition demo_diagnosis :: diagnosis where
  "demo_diagnosis =
     \<lparr>dg_detected = False, dg_type = ''None'', dg_over = [], dg_under = [], dg_culled = [], dg_auxiliary_risk = 0,
      dg_drift_risk = 0, dg_actions = [''cross_archives''], dg_notes = [], dg_gain = [], dg_metadata = [],
      dg_created_at = ''now''\<rparr>"

definition demo_policy :: evo_policy where
  "demo_policy = \<lparr>ep_metadata = [(''adaptive_stagnation_patience'', PInt 1)], ep_stagnation_actions = [''cross_archives'']\<rparr>"

lemma demo_stop:
  "stop_reason_after_round (default_budget\<lparr>eb_stop_policy := ''convergence_or_max_rounds''\<rparr>) 1 demo_diagnosis ''A'' [] NoStopModel None =
     Inr ''converged_after_minimum''"
proof -
  have m: "lower (strip ''convergence_or_max_rounds'') = ''convergence_or_max_rounds''" by code_simp
  have l: "lower ''None'' = ''none''" "lower [] = []" by code_simp+
  have i: "infix_of ''diminishing_returns'' ''none'' = False" "infix_of ''diminishing returns'' ''none'' = False"
    "infix_of ''low marginal gain'' ''none'' = False" "infix_of ''low expected gain'' ''none'' = False"
    "infix_of ''converged'' ''none'' = False" by code_simp+
  have "self_observed_convergence [] demo_diagnosis ''A'' = []"
    by (simp add: self_observed_convergence_def demo_diagnosis_def l i)
  then show ?thesis
    by (simp add: stop_reason_after_round_def stop_past_minimum_def stop_by_policy_def default_budget_def str_or_def m int_or_def
        current_best_def select_preliminary_incumbent_def adaptive_stagnation_exhausted_def lift_escape_def history_dicts_def
        demo_diagnosis_def)
qed

theorem stop_reason_sound_witness:
  "''converged_after_minimum'' \<in> set stop_outcomes \<and> current_best [] ''A'' \<noteq> []"
proof -
  have "current_best [] ''A'' = ''A''" by (simp add: current_best_def select_preliminary_incumbent_def)
  then show ?thesis using stop_reason_sound [OF demo_stop, THEN conjunct1] by simp
qed

theorem adaptive_stagnation_sound_witness:
  "adaptive_stagnation_exhausted True ''A'' [] demo_diagnosis (Some demo_policy) [] = Inr True \<and>
   required_interventions demo_policy \<noteq> []"
proof -
  have h: "adaptive_stagnation_exhausted True ''A'' [] demo_diagnosis (Some demo_policy) [] = Inr True"
    by (simp add: adaptive_stagnation_exhausted_def demo_policy_def demo_diagnosis_def dget_def py_int_def
        history_observations_def required_interventions_def candidate_quality_key_def)
  with adaptive_stagnation_sound [OF h] show ?thesis by (auto simp: Let_def)
qed

theorem resume_budget_progress_witness:
  "\<exists>b. resume_budget 3 10 [] (Some 2) = Inr b \<and> budget_remaining b"
proof -
  have "lower (strip ''explore'') = ''explore''" by code_simp
  then have "\<exists>b. resume_budget 3 10 [] (Some 2) = Inr b"
    by (simp add: resume_budget_def budget_init_def dget_def int_field_def py_or_def py_int_def SEARCH_PHASES_def
        str_field_def str_or_def)
  then obtain b where "resume_budget 3 10 [] (Some 2) = Inr b" ..
  with resume_budget_progress [OF this] show ?thesis by simp
qed

end
