(* ===== verification/Executor.thy ===== *)
theory Executor
  imports Prelude
begin

text \<open>
  api/executor.py: the bounded executor of the API. A semaphore of workers plus queue places is acquired when
  a job is submitted and released when the job's function ends. The thread pool and the semaphore
  are those of the standard library: a first-in first-out queue of futures, workers that take its
  head, and futures that can be cancelled while they wait, which the API does when a queued job is deleted or a
  stream is closed (api/jobs.py, api/streaming.py). A job is the identity of its future.
\<close>

section \<open>The executor\<close>

datatype submit_result = Accepted | QueueFull | ShutDown | PoolRefused

record 'j executor =
  ex_max_workers :: nat
  ex_max_queue :: nat
  ex_permits :: nat
  ex_shutdown :: bool
  ex_pending :: "('j \<times> bool) list"
  ex_running :: "'j list"

definition executor_init :: "pyval \<Rightarrow> pyval \<Rightarrow> pyexn + 'j executor" where
  "executor_init max_workers max_queue =
     sbind (py_int (py_or max_workers (PInt 1))) (\<lambda>w.
     sbind (py_int (py_or max_queue (PInt 0))) (\<lambda>q.
       let workers = nat (max 1 w); places = nat (max 0 q)
       in Inr \<lparr>ex_max_workers = workers, ex_max_queue = places, ex_permits = workers + places,
               ex_shutdown = False, ex_pending = [], ex_running = []\<rparr>))"

text \<open>\<open>submit\<close>; \<open>pool_accepts\<close> is False when the pool itself raises.\<close>

definition exec_submit :: "bool \<Rightarrow> 'j \<Rightarrow> 'j executor \<Rightarrow> submit_result \<times> 'j executor" where
  "exec_submit pool_accepts j e =
     (if ex_permits e = 0 then (QueueFull, e)
      else
        let acquired = e\<lparr>ex_permits := ex_permits e - 1\<rparr>;
            released = acquired\<lparr>ex_permits := ex_permits acquired + 1\<rparr>
        in if ex_shutdown e then (ShutDown, released)
           else if \<not> pool_accepts then (PoolRefused, released)
           else (Accepted, acquired\<lparr>ex_pending := ex_pending e @ [(j, False)]\<rparr>))"

text \<open>A free worker of the pool takes the head of the queue; a cancelled future is dropped without running.\<close>

definition pool_take :: "'j executor \<Rightarrow> 'j executor" where
  "pool_take e =
     (if length (ex_running e) < ex_max_workers e then
        (case ex_pending e of
           [] \<Rightarrow> e
         | (j, cancelled) # q \<Rightarrow>
             (if cancelled then e\<lparr>ex_pending := q\<rparr>
              else e\<lparr>ex_pending := q, ex_running := ex_running e @ [j]\<rparr>))
      else e)"

text \<open>The end of \<open>_run_and_release\<close>, after the job's function returned or raised.\<close>

definition run_and_release :: "'j \<Rightarrow> 'j executor \<Rightarrow> 'j executor" where
  "run_and_release j e =
     (if j \<in> set (ex_running e) then e\<lparr>ex_running := remove1 j (ex_running e), ex_permits := ex_permits e + 1\<rparr> else e)"

text \<open>Cancelling a future succeeds while it waits; a running or finished job is not touched.\<close>

definition future_cancel :: "'j \<Rightarrow> 'j executor \<Rightarrow> bool \<times> 'j executor" where
  "future_cancel j e =
     (j \<in> set (map fst (ex_pending e)),
      e\<lparr>ex_pending := map (\<lambda>(i, c). (i, c \<or> i = j)) (ex_pending e)\<rparr>)"

definition exec_shutdown :: "bool \<Rightarrow> 'j executor \<Rightarrow> 'j executor" where
  "exec_shutdown cancel_futures e =
     e\<lparr>ex_shutdown := True, ex_pending := (if cancel_futures then [] else ex_pending e)\<rparr>"

section \<open>Reachable states\<close>

definition live :: "'j executor \<Rightarrow> 'j list" where
  "live e = map fst (filter (\<lambda>(_, c). \<not> c) (ex_pending e))"

definition capacity :: "'j executor \<Rightarrow> nat" where
  "capacity e = ex_max_workers e + ex_max_queue e"

text \<open>The states an executor reaches before it is shut down, with the number of waiting futures cancelled so far.\<close>

inductive exec_reach :: "nat \<Rightarrow> nat \<Rightarrow> nat \<Rightarrow> 'j executor \<Rightarrow> bool" for workers places where
  reach_init: "executor_init (PInt (int workers)) (PInt (int places)) = Inr e \<Longrightarrow> exec_reach workers places 0 e"
| reach_submit: "exec_reach workers places n e \<Longrightarrow> j \<notin> set (map fst (ex_pending e)) \<union> set (ex_running e) \<Longrightarrow>
    exec_reach workers places n (snd (exec_submit ok j e))"
| reach_take: "exec_reach workers places n e \<Longrightarrow> exec_reach workers places n (pool_take e)"
| reach_finish: "exec_reach workers places n e \<Longrightarrow> exec_reach workers places n (run_and_release j e)"
| reach_cancel: "exec_reach workers places n e \<Longrightarrow>
    exec_reach workers places (n + (if j \<in> set (live e) then 1 else 0)) (snd (future_cancel j e))"

text \<open>The account of the permits: one per running and per waiting job, and one lost with every cancelled future.\<close>

definition exec_inv :: "nat \<Rightarrow> 'j executor \<Rightarrow> bool" where
  "exec_inv n e \<longleftrightarrow>
     ex_permits e + length (ex_running e) + length (live e) + n = capacity e \<and>
     length (ex_running e) \<le> ex_max_workers e \<and> 0 < ex_max_workers e \<and> \<not> ex_shutdown e \<and>
     distinct (map fst (ex_pending e) @ ex_running e)"

lemma live_Nil [simp]: "ex_pending e = [] \<Longrightarrow> live e = []"
  by (simp add: live_def)

lemma filter_cancel:
  "distinct (map fst ps) \<Longrightarrow>
   length (filter (\<lambda>(_, c). \<not> c) (map (\<lambda>(i, c). (i, c \<or> i = j)) ps)) + (if (j, False) \<in> set ps then 1 else 0) =
   length (filter (\<lambda>(_, c). \<not> c) ps)"
proof (induction ps)
  case (Cons p ps)
  obtain i c where p: "p = (i, c)" by (cases p)
  have "(j, False) \<notin> set ps" if "i = j" using Cons.prems p that by force
  with Cons p show ?case by auto
qed simp

lemma live_iff: "j \<in> set (live e) \<longleftrightarrow> (j, False) \<in> set (ex_pending e)"
  by (force simp: live_def)

lemma exec_inv_init: "executor_init (PInt (int w)) (PInt (int q)) = Inr e \<Longrightarrow> exec_inv 0 e"
  by (auto simp: executor_init_def exec_inv_def capacity_def py_or_def py_int_def Let_def live_def split: if_splits)

lemma exec_inv_submit:
  "exec_inv n e \<Longrightarrow> j \<notin> set (map fst (ex_pending e)) \<union> set (ex_running e) \<Longrightarrow> exec_inv n (snd (exec_submit ok j e))"
  by (auto simp: exec_inv_def exec_submit_def live_def capacity_def Let_def)

lemma exec_inv_take: "exec_inv n e \<Longrightarrow> exec_inv n (pool_take e)"
proof (cases "ex_pending e")
  case (Cons p q)
  assume "exec_inv n e"
  with Cons show ?thesis
    by (cases p; cases "snd p") (auto simp: exec_inv_def pool_take_def live_def capacity_def image_iff)
qed (simp add: pool_take_def)

lemma length_remove1_Suc: "j \<in> set xs \<Longrightarrow> Suc (length (remove1 j xs)) = length xs"
  by (induction xs) auto

lemma exec_inv_finish: "exec_inv n e \<Longrightarrow> exec_inv n (run_and_release j e)"
  using set_remove1_subset [of j "ex_running e"] length_remove1_Suc [of j "ex_running e"]
  by (auto simp: exec_inv_def run_and_release_def live_def capacity_def)

lemma fst_cancel [simp]: "map (fst \<circ> (\<lambda>(i, c). (i, c \<or> i = j))) ps = map fst ps"
  "fst ` (\<lambda>(i, c). (i, c \<or> i = j)) ` set ps = fst ` set ps"
  by (induction ps) auto

lemma exec_inv_cancel:
  "exec_inv n e \<Longrightarrow> exec_inv (n + (if j \<in> set (live e) then 1 else 0)) (snd (future_cancel j e))"
  using filter_cancel [of "ex_pending e" j]
  by (auto simp: exec_inv_def future_cancel_def live_iff capacity_def image_image) (auto simp: live_def)

lemma exec_reach_inv: "exec_reach w q n e \<Longrightarrow> exec_inv n e"
  by (induction rule: exec_reach.induct) (rule exec_inv_init exec_inv_submit exec_inv_take exec_inv_finish exec_inv_cancel; assumption)+

lemma exec_reach_config: "exec_reach w q n e \<Longrightarrow> ex_max_workers e = max 1 w \<and> ex_max_queue e = q"
  by (induction rule: exec_reach.induct)
    (auto simp: executor_init_def py_or_def py_int_def Let_def exec_submit_def pool_take_def run_and_release_def
      future_cancel_def split: if_splits list.splits)

text \<open>The workers at work: every turn a free worker takes the head of the queue and the job that runs longest ends.\<close>

fun drain :: "nat \<Rightarrow> 'j executor \<Rightarrow> 'j list \<times> 'j executor" where
  "drain 0 e = ([], e)"
| "drain (Suc k) e =
     (let e1 = pool_take e in
      case ex_running e1 of
        [] \<Rightarrow> drain k e1
      | j # _ \<Rightarrow> (case drain k (run_and_release j e1) of (js, e2) \<Rightarrow> (j # js, e2)))"

lemma drain_all:
  "0 < ex_max_workers e \<Longrightarrow> length (ex_pending e) + length (ex_running e) \<le> k \<Longrightarrow>
   drain k e = (ex_running e @ live e,
     e\<lparr>ex_pending := [], ex_running := [], ex_permits := ex_permits e + length (ex_running e) + length (live e)\<rparr>)"
proof (induction k arbitrary: e)
  case (Suc k)
  show ?case
  proof (cases "ex_running e")
    case Nil
    with Suc show ?thesis
      by (cases "ex_pending e") (auto simp: pool_take_def run_and_release_def live_def Let_def)
  next
    case (Cons j js)
    have step: "drain (Suc k) e = (case drain k (run_and_release j (pool_take e)) of (l, e2) \<Rightarrow> (j # l, e2))"
      using Cons by (cases "ex_pending e") (auto simp: pool_take_def Let_def)
    show ?thesis
      unfolding step using Cons Suc.prems
      by (cases "ex_pending e") (auto simp: Suc.IH pool_take_def run_and_release_def live_def)
  qed
qed simp

section \<open>Properties\<close>

text \<open>
  The executor is bounded. In every state reached before the shutdown no more jobs run than there are workers,
  no more jobs run and wait than the workers and the queue have places, and the permits never exceed the capacity, so
  that releasing the bounded semaphore never raises.
\<close>

theorem executor_bounded:
  assumes "exec_reach workers places n e"
  shows "length (ex_running e) \<le> max 1 workers \<and> length (ex_running e) + length (live e) \<le> max 1 workers + places \<and>
    ex_permits e + length (ex_running e) \<le> max 1 workers + places"
  using exec_reach_inv [OF assms] exec_reach_config [OF assms] by (simp add: exec_inv_def capacity_def)

text \<open>
  C39: when a submission is refused. A job is refused for a full queue exactly when the jobs that run, the
  jobs that wait and the waiting futures cancelled so far fill the capacity: the permit of a cancelled future is never
  given back.
\<close>

theorem submit_refused_iff:
  assumes "exec_reach workers places n e"
  shows "fst (exec_submit ok j e) = QueueFull \<longleftrightarrow>
    length (ex_running e) + length (live e) + n = max 1 workers + places"
  using exec_reach_inv [OF assms] exec_reach_config [OF assms] by (auto simp: exec_inv_def exec_submit_def Let_def capacity_def)


section \<open>Concrete instances\<close>

definition demo_executor :: "nat executor" where
  "demo_executor = \<lparr>ex_max_workers = 1, ex_max_queue = 1, ex_permits = 2, ex_shutdown = False, ex_pending = [], ex_running = []\<rparr>"

text \<open>One job runs; the job behind it is cancelled while it waits.\<close>

definition demo_cancelled :: "nat executor" where
  "demo_cancelled = snd (future_cancel 2 (snd (exec_submit True 2 (pool_take (snd (exec_submit True 1 demo_executor))))))"

lemma exec_demo_reach: "exec_reach 1 1 1 demo_cancelled"
proof -
  have init: "exec_reach 1 1 0 demo_executor"
    by (rule reach_init) (simp add: executor_init_def py_or_def py_int_def demo_executor_def)
  note one = reach_take [OF reach_submit [OF init, of 1 True]]
  note two = reach_cancel [OF reach_submit [OF one, of 2 True], of 2]
  show ?thesis
    using two by (simp add: demo_cancelled_def demo_executor_def exec_submit_def pool_take_def live_def)
qed

theorem executor_bounded_witness: "ex_permits demo_cancelled + length (ex_running demo_cancelled) \<le> 2"
  using executor_bounded [OF exec_demo_reach] by simp

theorem submit_refused_iff_witness:
  "fst (exec_submit True 3 demo_cancelled) = QueueFull \<and> live demo_cancelled = [] \<and> ex_running demo_cancelled = [1]"
proof -
  have "live demo_cancelled = []" "ex_running demo_cancelled = [1]" by code_simp+
  with submit_refused_iff [OF exec_demo_reach, of True 3] show ?thesis by simp
qed


end
