(* ===== verification/SlidingWindow.thy ===== *)
theory SlidingWindow
  imports Prelude
begin

text \<open>
  The contract of a sliding time window kept as a queue of events: the rate limiter of the API and
  the request and token windows of the model governor are its instances. The laws ask that an event
  that has left the window stays out of it and that it leaves no later than newer ones.
\<close>

text \<open>The events of a history that count at an instant.\<close>

definition in_window :: "(rat \<Rightarrow> rat \<Rightarrow> bool) \<Rightarrow> ('e \<Rightarrow> rat) \<Rightarrow> rat \<Rightarrow> 'e list \<Rightarrow> 'e list" where
  "in_window stale tm now h = filter (\<lambda>e. tm e \<le> now \<and> \<not> stale now (tm e)) h"

text \<open>A queue covers a history at an instant when only events that have left the window are missing from it.\<close>

definition covers :: "(rat \<Rightarrow> rat \<Rightarrow> bool) \<Rightarrow> ('e \<Rightarrow> rat) \<Rightarrow> rat \<Rightarrow> 'e list \<Rightarrow> 'e list \<Rightarrow> bool" where
  "covers stale tm now h w \<longleftrightarrow>
     sorted (map tm h) \<and> (\<forall>e \<in> set h. tm e \<le> now) \<and> (\<exists>d. h = d @ w \<and> (\<forall>e \<in> set d. stale now (tm e)))"

locale sliding_window =
  fixes stale :: "rat \<Rightarrow> rat \<Rightarrow> bool"
    and tm :: "'e \<Rightarrow> rat"
  assumes stale_later: "stale now t \<Longrightarrow> now \<le> now' \<Longrightarrow> stale now' t"
    and stale_earlier: "stale now t \<Longrightarrow> s \<le> t \<Longrightarrow> stale now s"
begin

lemma covers_empty: "covers stale tm now [] []"
  by (simp add: covers_def)

lemma covers_later: "covers stale tm now h w \<Longrightarrow> now \<le> now' \<Longrightarrow> covers stale tm now' h w"
  unfolding covers_def using stale_later by fastforce

lemma covers_prune:
  assumes "covers stale tm now h w"
  shows "covers stale tm now h (dropWhile (\<lambda>e. stale now (tm e)) w)"
proof -
  let ?p = "\<lambda>e. stale now (tm e)"
  from assms obtain d where d: "h = d @ w" "\<forall>e \<in> set d. ?p e" by (auto simp: covers_def)
  then have "h = (d @ takeWhile ?p w) @ dropWhile ?p w" "\<forall>e \<in> set (d @ takeWhile ?p w). ?p e"
    by (auto dest: set_takeWhileD)
  with assms show ?thesis unfolding covers_def by blast
qed

lemma covers_add: "covers stale tm now h w \<Longrightarrow> tm e = now \<Longrightarrow> covers stale tm now (h @ [e]) (w @ [e])"
  by (auto simp: covers_def sorted_append)

lemma covers_sorted: "covers stale tm now h w \<Longrightarrow> sorted (map tm w)"
  by (auto simp: covers_def sorted_append)

lemma covers_drop:
  assumes "covers stale tm now h w" "w = [] \<or> stale now (tm (last w))"
  shows "covers stale tm now h []"
proof (cases w rule: rev_cases)
  case Nil
  with assms show ?thesis by simp
next
  case (snoc ws l)
  with covers_sorted [OF assms(1)] have "\<forall>e \<in> set w. tm e \<le> tm l"
    by (auto simp: sorted_append)
  with assms(2) snoc have "\<forall>e \<in> set w. stale now (tm e)" using stale_earlier by auto
  with assms(1) show ?thesis by (auto simp: covers_def)
qed

lemma window_recent:
  assumes "covers stale tm now h w" "now \<le> t"
  shows "in_window stale tm t h = in_window stale tm t w"
proof -
  from assms obtain d where "h = d @ w" "\<forall>e \<in> set d. stale t (tm e)"
    by (auto simp: covers_def dest: stale_later)
  then show ?thesis by (auto simp: in_window_def)
qed

text \<open>A bound of the window at every instant is kept by an admission whose queue satisfies it.\<close>

lemma window_add:
  assumes "covers stale tm now h w" "tm e = now" "\<And>t. P (in_window stale tm t h)"
    and "\<And>t. P (in_window stale tm t (w @ [e]))"
  shows "P (in_window stale tm t (h @ [e]))"
proof (cases "now \<le> t")
  case True
  with window_recent [OF covers_add [OF assms(1,2)] True] assms(4) show ?thesis by simp
next
  case False
  then have "in_window stale tm t (h @ [e]) = in_window stale tm t h"
    by (simp add: in_window_def assms(2))
  with assms(3) show ?thesis by simp
qed

end

end
