(* ===== verification/ApiGuard.thy ===== *)
theory ApiGuard
  imports SlidingWindow
begin

text \<open>
  api/security.py and api/guards.py: the service keys, and the middleware that limits the rate and the body
  size of the requests under /v1/. Header values are bytes; \<open>utf8_ignore\<close> is the decoder of bytes that drops
  what is not UTF-8, and \<open>hash64\<close> the randomised hash of a key in hexadecimal. The clock is the argument
  \<open>now\<close>. A request table holds one queue of admission times per key.
\<close>

section \<open>Service keys\<close>

definition bearer_token :: "string \<Rightarrow> string" where
  "bearer_token authorization =
     (if authorization = [] then []
      else if starts_with ''Bearer '' authorization then strip (drop (length ''Bearer '') authorization)
      else strip authorization)"

definition is_ascii :: "string \<Rightarrow> bool" where
  "is_ascii s \<longleftrightarrow> list_all (\<lambda>c. (of_char c :: nat) < 128) s"

text \<open>\<open>hmac.compare_digest\<close> of two texts raises a TypeError unless both are ASCII.\<close>

definition compare_digest :: "string \<Rightarrow> string \<Rightarrow> pyexn + bool" where
  "compare_digest a b = (if is_ascii a \<and> is_ascii b then Inr (a = b) else Inl PyTypeError)"

fun match_keys :: "string \<Rightarrow> string list \<Rightarrow> bool \<Rightarrow> pyexn + bool" where
  "match_keys supplied [] matched = Inr matched"
| "match_keys supplied (key # keys) matched =
     sbind (compare_digest supplied key) (\<lambda>b. match_keys supplied keys (b \<or> matched))"

definition matches_service_api_key :: "string \<Rightarrow> string list \<Rightarrow> pyexn + bool" where
  "matches_service_api_key supplied valid_keys = match_keys supplied valid_keys False"

datatype auth_result = AuthOk | AuthUnconfigured | AuthDenied

definition require_service_api_key :: "bool \<Rightarrow> string list \<Rightarrow> string \<Rightarrow> string \<Rightarrow> pyexn + auth_result" where
  "require_service_api_key require_auth api_keys authorization x_api_key =
     (if \<not> require_auth then Inr AuthOk
      else if api_keys = [] then Inr AuthUnconfigured
      else
        sbind (matches_service_api_key (str_or x_api_key (bearer_token authorization)) api_keys) (\<lambda>ok.
          Inr (if ok then AuthOk else AuthDenied)))"

section \<open>The rate limiter\<close>

type_synonym rate_table = "(string \<times> rat list) list"

definition RATE_TTL :: rat where "RATE_TTL = 60"
definition RATE_MAX_BUCKETS :: nat where "RATE_MAX_BUCKETS = 4096"

definition outdated :: "rat \<Rightarrow> rat \<Rightarrow> bool" where
  "outdated now t \<longleftrightarrow> t < now - 60"

definition drop_stale :: "rat \<Rightarrow> rate_table \<Rightarrow> rate_table" where
  "drop_stale now ws = filter (\<lambda>(_, b). \<not> (b = [] \<or> last b < now - RATE_TTL)) ws"

text \<open>The key of the first bucket with the least last admission; the last item of an empty bucket raises.\<close>

definition older :: "string \<times> rat list \<Rightarrow> string \<times> rat list \<Rightarrow> string \<times> rat list" where
  "older p best = (if last (snd p) < last (snd best) then p else best)"

definition oldest_key :: "rate_table \<Rightarrow> pyexn + string" where
  "oldest_key ws =
     (if ws = [] then Inl PyValueError
      else if list_ex (\<lambda>(_, b). b = []) ws then Inl PyIndexError
      else Inr (fst (fold older (tl ws) (hd ws))))"

lemma fold_older_mem: "fold older ps p \<in> insert p (set ps)"
proof (induction ps arbitrary: p)
  case (Cons q ps)
  from Cons.IH [of "older q p"] show ?case by (auto simp: older_def split: if_splits)
qed simp

lemma oldest_key_mem: "oldest_key ws = Inr k \<Longrightarrow> k \<in> dkeys ws"
proof -
  assume k: "oldest_key ws = Inr k"
  then obtain p ps where ws: "ws = p # ps" by (cases ws) (auto simp: oldest_key_def)
  have "fst (fold older ps p) \<in> fst ` insert p (set ps)"
    using fold_older_mem by (rule imageI)
  with k ws show ?thesis by (auto simp: oldest_key_def dkeys_def split: if_splits)
qed

lemma length_ddel: "k \<in> dkeys ws \<Longrightarrow> length (ddel k ws) < length ws"
  by (auto simp: ddel_filter dkeys_def intro: length_filter_less)

function evict_oldest :: "rate_table \<Rightarrow> pyexn + rate_table" where
  "evict_oldest ws =
     (if length ws < RATE_MAX_BUCKETS then Inr ws
      else case oldest_key ws of Inl e \<Rightarrow> Inl e | Inr k \<Rightarrow> evict_oldest (ddel k ws))"
  by pat_completeness auto
termination
  by (relation "measure length") (auto simp: length_ddel oldest_key_mem)

declare evict_oldest.simps [simp del]

definition bucket_of :: "rate_table \<Rightarrow> string \<Rightarrow> rat list" where
  "bucket_of ws key = (case map_of ws key of Some b \<Rightarrow> b | None \<Rightarrow> [])"

definition allow_request :: "string \<Rightarrow> int \<Rightarrow> rat \<Rightarrow> rate_table \<Rightarrow> pyexn + bool \<times> rate_table" where
  "allow_request key limit now ws =
     sbind (if key \<in> dkeys ws then Inr ws else evict_oldest (drop_stale now ws)) (\<lambda>ws1.
       let bucket = dropWhile (outdated now) (bucket_of ws1 key)
       in Inr (if int (length bucket) \<ge> limit then (False, dset key bucket ws1)
               else (True, dset key (bucket @ [now]) ws1)))"

section \<open>The middleware\<close>

record http_scope =
  hs_type :: string
  hs_path :: string
  hs_method :: string
  hs_headers :: "(string \<times> string) list"
  hs_client :: "string option"

record asgi_message =
  am_type :: string
  am_body :: string
  am_more :: bool

record guard_config =
  gc_require_auth :: bool
  gc_api_keys :: "string list"
  gc_rate_limit :: int
  gc_max_bytes :: int

definition last_header :: "(string \<Rightarrow> string) \<Rightarrow> string \<Rightarrow> (string \<times> string) list \<Rightarrow> string" where
  "last_header utf8_ignore name hs = fold (\<lambda>(k, v) acc. if lower k = name then utf8_ignore v else acc) hs []"

definition rate_limit_key ::
  "(string \<Rightarrow> string) \<Rightarrow> (string \<Rightarrow> string) \<Rightarrow> http_scope \<Rightarrow> bool \<Rightarrow> string list \<Rightarrow> pyexn + string" where
  "rate_limit_key utf8_ignore hash64 scope require_auth valid_keys =
     (let auth = last_header utf8_ignore ''authorization'' (hs_headers scope);
          api_key = last_header utf8_ignore ''x-api-key'' (hs_headers scope);
          supplied = str_or api_key (bearer_token auth);
          client = ''client:'' @ (case hs_client scope of Some c \<Rightarrow> c | None \<Rightarrow> ''unknown'')
      in if require_auth \<and> supplied \<noteq> [] then
           sbind (matches_service_api_key supplied valid_keys) (\<lambda>ok.
             Inr (if ok then ''principal:'' @ hash64 supplied else client))
         else Inr client)"

fun declared_content_length :: "(string \<times> string) list \<Rightarrow> int" where
  "declared_content_length [] = 0"
| "declared_content_length ((k, v) # hs) =
     (if lower k = ''content-length'' then
        (if is_ascii v then (case int_of_string v of Some i \<Rightarrow> i | None \<Rightarrow> 0) else 0)
      else declared_content_length hs)"

text \<open>The body as the client sends it, message by message; with no message left the guard waits for the next one.\<close>

datatype body_result = BodyTooLarge | Buffered "asgi_message list" | Waiting

fun buffer_request_body :: "int \<Rightarrow> int \<Rightarrow> asgi_message list \<Rightarrow> asgi_message list \<Rightarrow> body_result" where
  "buffer_request_body max_bytes got [] messages = Waiting"
| "buffer_request_body max_bytes got (m # inbox) messages =
     (let messages1 = messages @ [m]; got1 = got + int (length (am_body m))
      in if am_type m \<noteq> ''http.request'' then Buffered messages1
         else if got1 > max_bytes then BodyTooLarge
         else if \<not> am_more m then Buffered messages1
         else buffer_request_body max_bytes got1 inbox messages1)"

definition replay_receive :: "asgi_message list \<Rightarrow> nat \<Rightarrow> asgi_message" where
  "replay_receive buffered i =
     (if i < length buffered then buffered ! i else \<lparr>am_type = ''http.request'', am_body = [], am_more = False\<rparr>)"

datatype guard_outcome = ToApp | RateLimited | TooLarge | ToAppBuffered "asgi_message list" | AwaitBody

definition guard_call ::
  "(string \<Rightarrow> string) \<Rightarrow> (string \<Rightarrow> string) \<Rightarrow> guard_config \<Rightarrow> rat \<Rightarrow> http_scope \<Rightarrow> asgi_message list \<Rightarrow> rate_table
   \<Rightarrow> pyexn + guard_outcome \<times> rate_table" where
  "guard_call utf8_ignore hash64 conf now scope inbox ws =
     (if hs_type scope \<noteq> ''http'' then Inr (ToApp, ws)
      else if \<not> starts_with ''/v1/'' (hs_path scope) then Inr (ToApp, ws)
      else
        sbind (rate_limit_key utf8_ignore hash64 scope (gc_require_auth conf) (gc_api_keys conf)) (\<lambda>key.
        sbind (if gc_rate_limit conf \<noteq> 0 then allow_request key (gc_rate_limit conf) now ws else Inr (True, ws)) (\<lambda>(ok, ws1).
          Inr (if \<not> ok then RateLimited
               else if declared_content_length (hs_headers scope) > gc_max_bytes conf then TooLarge
               else if upper (str_or (hs_method scope) ''GET'') \<notin> set [''POST'', ''PUT'', ''PATCH''] then ToApp
               else case buffer_request_body (gc_max_bytes conf) 0 inbox [] of
                 BodyTooLarge \<Rightarrow> TooLarge
               | Buffered ms \<Rightarrow> ToAppBuffered ms
               | Waiting \<Rightarrow> AwaitBody, ws1))))"

section \<open>The table of the limiter\<close>

interpretation rate_window: sliding_window outdated "\<lambda>t. t"
  by unfold_locales (auto simp: outdated_def)

text \<open>A table as the limiter leaves it: one bucket per key, none empty, at most as many as the maximum.\<close>

definition table_ok :: "rate_table \<Rightarrow> bool" where
  "table_ok ws \<longleftrightarrow> distinct (map fst ws) \<and> list_all (\<lambda>(_, b). b \<noteq> []) ws \<and> length ws \<le> RATE_MAX_BUCKETS"

lemma bucket_of_dset [simp]: "bucket_of (dset key b ws) k = (if k = key then b else bucket_of ws k)"
  by (simp add: bucket_of_def)

lemma bucket_of_filter:
  "distinct (map fst ws) \<Longrightarrow> bucket_of (filter P ws) k = (if P (k, bucket_of ws k) then bucket_of ws k else [])"
proof (induction ws)
  case (Cons p ws)
  obtain k0 b where p: "p = (k0, b)" by (cases p)
  have "map_of (filter P ws) k0 = None"
    using Cons.prems by (auto simp: p map_of_eq_None_iff)
  with Cons show ?case by (auto simp: p bucket_of_def)
qed (simp add: bucket_of_def)

lemma evict_spec:
  "distinct (map fst ws) \<Longrightarrow> list_all (\<lambda>(_, b). b \<noteq> []) ws \<Longrightarrow>
   \<exists>ws'. evict_oldest ws = Inr ws' \<and> length ws' < RATE_MAX_BUCKETS \<and> distinct (map fst ws') \<and>
     list_all (\<lambda>(_, b). b \<noteq> []) ws' \<and> set ws' \<subseteq> set ws"
proof (induction ws rule: evict_oldest.induct)
  case (1 ws)
  show ?case
  proof (cases "length ws < RATE_MAX_BUCKETS")
    case True
    with 1 show ?thesis by (subst evict_oldest.simps) simp
  next
    case False
    then have "ws \<noteq> []" by (auto simp: RATE_MAX_BUCKETS_def)
    moreover have "\<not> list_ex (\<lambda>(_, b). b = []) ws"
      using 1(3) by (auto simp: list_ex_iff list_all_iff)
    ultimately obtain k where k: "oldest_key ws = Inr k"
      by (simp add: oldest_key_def)
    have "list_all (\<lambda>(_, b). b \<noteq> []) (ddel k ws)" "set (ddel k ws) \<subseteq> set ws"
      using 1(3) by (auto simp: ddel_filter list_all_iff)
    with 1(1) [OF False k distinct_ddel [OF 1(2)]] k False show ?thesis
      by (subst evict_oldest.simps) auto
  qed
qed

lemma evict_small: "length ws < RATE_MAX_BUCKETS \<Longrightarrow> evict_oldest ws = Inr ws"
  by (subst evict_oldest.simps) simp

lemma drop_stale_ok:
  "distinct (map fst ws) \<Longrightarrow> distinct (map fst (drop_stale now ws)) \<and> list_all (\<lambda>(_, b). b \<noteq> []) (drop_stale now ws) \<and>
   set (drop_stale now ws) \<subseteq> set ws"
  by (auto simp: drop_stale_def distinct_map_filter list_all_iff)

lemma length_dset: "length (dset k v d) \<le> Suc (length d)"
  by (induction d) auto

lemma length_dset_present: "k \<in> dkeys d \<Longrightarrow> length (dset k v d) = length d"
  by (induction d) (auto simp: dkeys_def)

lemma table_dset:
  assumes "distinct (map fst ws)" "list_all (\<lambda>(_, b). b \<noteq> []) ws" "b \<noteq> []" "length (dset k b ws) \<le> RATE_MAX_BUCKETS"
  shows "table_ok (dset k b ws)"
  using assms set_dset [of k b ws] distinct_dset [OF assms(1)] by (auto simp: table_ok_def list_all_iff)

lemma allow_request_table:
  assumes "table_ok ws" "1 \<le> limit"
  shows "\<exists>ok ws'. allow_request key limit now ws = Inr (ok, ws') \<and> table_ok ws'"
proof -
  have "\<exists>ws1. (if key \<in> dkeys ws then Inr ws else evict_oldest (drop_stale now ws)) = Inr ws1 \<and>
      distinct (map fst ws1) \<and> list_all (\<lambda>(_, b). b \<noteq> []) ws1 \<and>
      (\<forall>b. length (dset key b ws1) \<le> RATE_MAX_BUCKETS)"
  proof (cases "key \<in> dkeys ws")
    case True
    with assms(1) show ?thesis by (simp add: table_ok_def length_dset_present)
  next
    case False
    note d = drop_stale_ok [of ws now]
    with assms(1) evict_spec [of "drop_stale now ws"] obtain ws1 where
      "evict_oldest (drop_stale now ws) = Inr ws1" "length ws1 < RATE_MAX_BUCKETS" "distinct (map fst ws1)"
      "list_all (\<lambda>(_, b). b \<noteq> []) ws1" by (auto simp: table_ok_def)
    with False length_dset [of key _ ws1] show ?thesis
      by (metis (no_types, lifting) Suc_leI le_trans)
  qed
  then obtain ws1 where ws1: "(if key \<in> dkeys ws then Inr ws else evict_oldest (drop_stale now ws)) = Inr ws1"
      "distinct (map fst ws1)" "list_all (\<lambda>(_, b). b \<noteq> []) ws1" "\<And>b. length (dset key b ws1) \<le> RATE_MAX_BUCKETS"
    by blast
  let ?b = "dropWhile (outdated now) (bucket_of ws1 key)"
  show ?thesis
  proof (cases "limit \<le> int (length ?b)")
    case True
    with assms(2) have "?b \<noteq> []" by (cases ?b) simp_all
    with True table_dset [OF ws1(2,3) _ ws1(4)] show ?thesis
      unfolding allow_request_def ws1(1) by (simp only: sbind_simps Let_def if_True) blast
  next
    case False
    with table_dset [OF ws1(2,3) _ ws1(4), of "?b @ [now]"] show ?thesis
      unfolding allow_request_def ws1(1) by (simp only: sbind_simps Let_def if_False) blast
  qed
qed

section \<open>Runs of the limiter\<close>

text \<open>A run of requests, each a key, a limit and a time, with the admissions it makes.\<close>

fun rate_run :: "(string \<times> int \<times> rat) list \<Rightarrow> rate_table \<Rightarrow> pyexn + (string \<times> rat) list \<times> rate_table" where
  "rate_run [] ws = Inr ([], ws)"
| "rate_run ((key, limit, now) # reqs) ws =
     sbind (allow_request key limit now ws) (\<lambda>(ok, ws1).
     sbind (rate_run reqs ws1) (\<lambda>(admitted, ws2).
       Inr ((if ok then [(key, now)] else []) @ admitted, ws2)))"

definition times_of :: "string \<Rightarrow> (string \<times> rat) list \<Rightarrow> rat list" where
  "times_of k h = map snd (filter (\<lambda>p. fst p = k) h)"

lemma times_of_append [simp]: "times_of k (h @ h') = times_of k h @ times_of k h'"
  by (simp add: times_of_def)

lemma times_of_single [simp]: "times_of k [(k', t)] = (if k' = k then [t] else [])" "times_of k [] = []"
  by (simp_all add: times_of_def)

lemma times_of_Cons: "times_of k ((k', t) # h) = (if k' = k then t # times_of k h else times_of k h)"
  by (simp add: times_of_def)

definition rate_inv :: "string set \<Rightarrow> int \<Rightarrow> rat \<Rightarrow> (string \<times> rat) list \<Rightarrow> rate_table \<Rightarrow> bool" where
  "rate_inv K L now h ws \<longleftrightarrow>
     table_ok ws \<and> dkeys ws \<subseteq> K \<and>
     (\<forall>k. covers outdated (\<lambda>t. t) now (times_of k h) (bucket_of ws k) \<and>
        (\<forall>t. int (length (in_window outdated (\<lambda>t. t) t (times_of k h))) \<le> L))"

lemma rate_inv_later:
  "rate_inv K L now h ws \<Longrightarrow> now \<le> now' \<Longrightarrow> covers outdated (\<lambda>t. t) now' (times_of k h) (bucket_of ws k)"
  by (rule rate_window.covers_later [of now]) (simp_all add: rate_inv_def)

lemma rate_inv_stale:
  assumes "rate_inv K L now h ws" "now \<le> now'"
  shows "\<forall>k. covers outdated (\<lambda>t. t) now' (times_of k h) (bucket_of (drop_stale now' ws) k)"
proof
  fix k
  let ?b = "bucket_of ws k"
  have b: "covers outdated (\<lambda>t. t) now' (times_of k h) ?b"
    by (rule rate_inv_later [OF assms])
  have d: "distinct (map fst ws)" using assms(1) by (simp add: rate_inv_def table_ok_def)
  show "covers outdated (\<lambda>t. t) now' (times_of k h) (bucket_of (drop_stale now' ws) k)"
    using b rate_window.covers_drop [OF b]
    by (auto simp: drop_stale_def bucket_of_filter [OF d] RATE_TTL_def outdated_def)
qed

lemma evict_none:
  assumes "rate_inv K L now h ws" "finite K" "card K \<le> RATE_MAX_BUCKETS" "key \<in> K" "key \<notin> dkeys ws"
  shows "evict_oldest (drop_stale now' ws) = Inr (drop_stale now' ws)"
proof (rule evict_small)
  have "length ws = card (dkeys ws)"
    using assms(1) distinct_card [of "map fst ws"] by (simp add: rate_inv_def table_ok_def dkeys_def)
  also have "\<dots> < card K"
    using assms by (intro psubset_card_mono) (auto simp: rate_inv_def)
  finally show "length (drop_stale now' ws) < RATE_MAX_BUCKETS"
    using assms(3) length_filter_le [of _ ws] unfolding drop_stale_def by (meson le_less_trans less_le_trans)
qed

lemma length_in_window: "length (in_window stale tm t h) \<le> length h"
  by (simp add: in_window_def)

lemma rate_inv_step:
  assumes "rate_inv K L now h ws" "finite K" "card K \<le> RATE_MAX_BUCKETS" "key \<in> K"
    and "now \<le> now'" "1 \<le> limit" "limit \<le> L" "allow_request key limit now' ws = Inr (ok, ws')"
  shows "rate_inv K L now' (h @ (if ok then [(key, now')] else [])) ws'"
proof -
  let ?ws1 = "if key \<in> dkeys ws then ws else drop_stale now' ws"
  have ws1: "(if key \<in> dkeys ws then Inr ws else evict_oldest (drop_stale now' ws)) = Inr ?ws1"
    using evict_none [OF assms(1-4)] by simp
  let ?b = "dropWhile (outdated now') (bucket_of ?ws1 key)"
  have res: "ok \<longleftrightarrow> int (length ?b) < limit" "ws' = dset key (if ok then ?b @ [now'] else ?b) ?ws1"
    using assms(8) unfolding allow_request_def ws1 by (auto simp: Let_def split: if_splits)
  have cov: "covers outdated (\<lambda>t. t) now' (times_of k h) (bucket_of ?ws1 k)" for k
    using rate_inv_stale [OF assms(1,5)] rate_inv_later [OF assms(1,5)] by simp
  note pruned = rate_window.covers_prune [OF cov [of key]]
  have bound: "int (length (in_window outdated (\<lambda>t. t) t (times_of k h))) \<le> L" for k t
    using assms(1) by (simp add: rate_inv_def)
  have keys: "dkeys ws' \<subseteq> K"
    using assms(1,4) unfolding res(2) dkeys_dset by (auto simp: rate_inv_def drop_stale_def dkeys_def)
  have tab: "table_ok ws'"
    using allow_request_table [of ws limit key now'] assms(1,6,8) by (auto simp: rate_inv_def)
  have add: "int (length (in_window outdated (\<lambda>t. t) t (times_of key h @ [now']))) \<le> L" if ok for t
  proof (rule rate_window.window_add [where P = "\<lambda>xs. int (length xs) \<le> L", OF pruned])
    show "int (length (in_window outdated (\<lambda>t. t) t (?b @ [now']))) \<le> L" for t
      using length_in_window [of outdated "\<lambda>t. t" t "?b @ [now']"] res(1) that assms(7) by simp
  qed (simp_all add: bound)
  show ?thesis
  proof (cases ok)
    case True
    have "covers outdated (\<lambda>t. t) now' (times_of k (h @ [(key, now')])) (bucket_of ws' k)" for k
      using cov [of k] rate_window.covers_add [OF pruned, of now'] unfolding res(2) by (simp add: True)
    moreover have "int (length (in_window outdated (\<lambda>t. t) t (times_of k (h @ [(key, now')])))) \<le> L" for k t
      using add [OF True, of t] bound [of t k] by (cases "key = k") simp_all
    ultimately show ?thesis using tab keys True by (simp add: rate_inv_def)
  next
    case False
    have "covers outdated (\<lambda>t. t) now' (times_of k h) (bucket_of ws' k)" for k
      using cov [of k] pruned unfolding res(2) by (simp add: False)
    then show ?thesis using tab keys False bound by (simp add: rate_inv_def)
  qed
qed

lemma rate_run_inv:
  assumes "finite K" "card K \<le> RATE_MAX_BUCKETS"
  shows "rate_inv K L now h ws \<Longrightarrow> sorted (now # map (\<lambda>(_, _, t). t) reqs) \<Longrightarrow>
    \<forall>(k, l, _) \<in> set reqs. k \<in> K \<and> 1 \<le> l \<and> l \<le> L \<Longrightarrow> rate_run reqs ws = Inr (admitted, ws') \<Longrightarrow>
    \<exists>now'. rate_inv K L now' (h @ admitted) ws'"
proof (induction reqs arbitrary: now h ws admitted)
  case Nil
  then show ?case by auto
next
  case (Cons r reqs)
  obtain key l t where r: "r = (key, l, t)" by (cases r)
  from Cons.prems(4) obtain ok ws1 adm where one: "allow_request key l t ws = Inr (ok, ws1)"
    and rest: "rate_run reqs ws1 = Inr (adm, ws')" and adm: "admitted = (if ok then [(key, t)] else []) @ adm"
    by (auto simp: r sbind_Inr_iff)
  have "rate_inv K L t (h @ (if ok then [(key, t)] else [])) ws1"
    by (rule rate_inv_step [OF Cons.prems(1) assms _ _ _ _ one]) (use Cons.prems(2,3) in \<open>auto simp: r\<close>)
  from Cons.IH [OF this _ _ rest] Cons.prems(2,3) show ?case by (auto simp: r adm)
qed

lemma rate_run_table:
  "table_ok ws \<Longrightarrow> \<forall>(k, l, _) \<in> set reqs. 1 \<le> l \<Longrightarrow> \<exists>admitted ws'. rate_run reqs ws = Inr (admitted, ws') \<and> table_ok ws'"
proof (induction reqs arbitrary: ws)
  case (Cons r reqs)
  obtain key l t where r: "r = (key, l, t)" by (cases r)
  from allow_request_table [OF Cons.prems(1), of l key t] Cons.prems(2) obtain ok ws1 where
    "allow_request key l t ws = Inr (ok, ws1)" "table_ok ws1" by (auto simp: r)
  with Cons.IH [of ws1] Cons.prems(2) show ?case by (auto simp: r)
qed simp

section \<open>Service keys and bodies\<close>

lemma match_keys_spec:
  "match_keys supplied keys m =
     (if keys = [] \<or> is_ascii supplied \<and> list_all is_ascii keys then Inr (m \<or> supplied \<in> set keys) else Inl PyTypeError)"
  by (induction keys arbitrary: m) (auto simp: compare_digest_def)

definition body_bytes :: "asgi_message list \<Rightarrow> int" where
  "body_bytes ms = int (sum_list (map (\<lambda>m. if am_type m = ''http.request'' then length (am_body m) else 0) ms))"

text \<open>A message that ends the body: its last part, or a message of another type, such as a disconnect.\<close>

definition ends_body :: "asgi_message \<Rightarrow> bool" where
  "ends_body m \<longleftrightarrow> am_type m \<noteq> ''http.request'' \<or> \<not> am_more m"

lemma buffer_spec:
  "buffer_request_body limit got inbox acc = Buffered ms \<Longrightarrow> got \<le> limit \<Longrightarrow>
   \<exists>pre m rest. inbox = pre @ m # rest \<and> ms = acc @ pre @ [m] \<and> list_all (\<lambda>m. \<not> ends_body m) pre \<and> ends_body m \<and>
     got + body_bytes (pre @ [m]) \<le> limit"
proof (induction inbox arbitrary: got acc)
  case (Cons x inbox)
  show ?case
  proof (cases "ends_body x")
    case True
    with Cons.prems have "ms = acc @ [x] \<and> got + body_bytes [x] \<le> limit"
      by (auto simp: ends_body_def body_bytes_def Let_def split: if_splits)
    with True show ?thesis by (intro exI [of _ "[]"] exI [of _ x] exI [of _ inbox]) simp
  next
    case False
    with Cons.prems have more: "buffer_request_body limit (got + int (length (am_body x))) inbox (acc @ [x]) = Buffered ms"
      "got + int (length (am_body x)) \<le> limit"
      by (auto simp: ends_body_def Let_def split: if_splits)
    from Cons.IH [OF this] obtain pre m rest where
      "inbox = pre @ m # rest" "ms = acc @ x # pre @ [m]" "list_all (\<lambda>m. \<not> ends_body m) pre" "ends_body m"
      "got + int (length (am_body x)) + body_bytes (pre @ [m]) \<le> limit" by auto
    with False show ?thesis
      by (intro exI [of _ "x # pre"] exI [of _ m] exI [of _ rest]) (auto simp: ends_body_def body_bytes_def)
  qed
qed simp

section \<open>Properties\<close>


text \<open>
  The limiter's memory. Whatever the keys, limits of at least one and times of a run, no request raises and the table
  never holds more than 4096 buckets, none of them empty.
\<close>

theorem rate_table_bounded:
  assumes "list_all (\<lambda>(_, limit, _). 1 \<le> limit) reqs"
  shows "\<exists>admitted ws. rate_run reqs [] = Inr (admitted, ws) \<and> length ws \<le> 4096 \<and> list_all (\<lambda>(_, b). b \<noteq> []) ws"
proof -
  have "table_ok []" by (simp add: table_ok_def)
  with rate_run_table [of "[]" reqs] assms show ?thesis
    by (fastforce simp: table_ok_def list_all_iff RATE_MAX_BUCKETS_def)
qed

text \<open>
  C36: what reaches the application. A request under /v1/ that is answered by the application was admitted by the
  limiter; its body, when the method has one, is the complete sequence of messages the client sent up to the one that
  ends it, replayed in order, and has at most the configured number of bytes.
\<close>

theorem guard_protects:
  assumes "guard_call utf8_ignore hash64 conf now scope inbox ws = Inr (out, ws')"
    and "hs_type scope = ''http''" "starts_with ''/v1/'' (hs_path scope)" "gc_rate_limit conf \<noteq> 0" "0 \<le> gc_max_bytes conf"
  shows "\<exists>key ok. rate_limit_key utf8_ignore hash64 scope (gc_require_auth conf) (gc_api_keys conf) = Inr key \<and>
    allow_request key (gc_rate_limit conf) now ws = Inr (ok, ws') \<and> (out = RateLimited \<longleftrightarrow> \<not> ok) \<and>
    (out = ToApp \<longrightarrow> upper (str_or (hs_method scope) ''GET'') \<notin> set [''POST'', ''PUT'', ''PATCH'']) \<and>
    (\<forall>ms. out = ToAppBuffered ms \<longrightarrow> body_bytes ms \<le> gc_max_bytes conf \<and>
      (\<exists>pre m rest. inbox = pre @ m # rest \<and> ms = pre @ [m] \<and> list_all (\<lambda>m. \<not> ends_body m) pre \<and> ends_body m) \<and>
      (\<forall>i < length ms. replay_receive ms i = inbox ! i))"
proof -
  have v1: "\<not> hs_type scope \<noteq> ''http''" "\<not> \<not> starts_with ''/v1/'' (hs_path scope)" using assms(2,3) by simp_all
  obtain key ok where key: "rate_limit_key utf8_ignore hash64 scope (gc_require_auth conf) (gc_api_keys conf) = Inr key"
    "allow_request key (gc_rate_limit conf) now ws = Inr (ok, ws')"
    and out: "out = (if \<not> ok then RateLimited
       else if declared_content_length (hs_headers scope) > gc_max_bytes conf then TooLarge
       else if upper (str_or (hs_method scope) ''GET'') \<notin> set [''POST'', ''PUT'', ''PATCH''] then ToApp
       else case buffer_request_body (gc_max_bytes conf) 0 inbox [] of
              BodyTooLarge \<Rightarrow> TooLarge | Buffered ms \<Rightarrow> ToAppBuffered ms | Waiting \<Rightarrow> AwaitBody)"
    using assms(1,4) unfolding guard_call_def if_not_P [OF v1(1)] if_not_P [OF v1(2)]
    by (auto simp: sbind_Inr_iff)
  have buffered: "\<exists>pre m rest. inbox = pre @ m # rest \<and> ms = pre @ [m] \<and> list_all (\<lambda>m. \<not> ends_body m) pre \<and> ends_body m \<and>
      body_bytes ms \<le> gc_max_bytes conf" if "out = ToAppBuffered ms" for ms
  proof -
    have "buffer_request_body (gc_max_bytes conf) 0 inbox [] = Buffered ms"
      using that unfolding out by (auto split: if_splits body_result.splits)
    from buffer_spec [OF this assms(5)] show ?thesis by auto
  qed
  have "replay_receive ms i = inbox ! i" if "out = ToAppBuffered ms" "i < length ms" for ms i
    using buffered [OF that(1)] that(2) by (auto simp: replay_receive_def nth_append)
  moreover have "out = RateLimited \<longleftrightarrow> \<not> ok"
    unfolding out by (auto split: body_result.splits)
  moreover have "out = ToApp \<longrightarrow> upper (str_or (hs_method scope) ''GET'') \<notin> set [''POST'', ''PUT'', ''PATCH'']"
    unfolding out by (auto split: body_result.splits)
  ultimately show ?thesis
    using key buffered by blast
qed

text \<open>
  The service key check. With authentication on and keys configured a request passes exactly when the supplied key
  is one of them; a key or a configured key outside ASCII makes the comparison raise instead of denying.
\<close>

theorem service_key_check:
  assumes "api_keys \<noteq> []"
  shows "let supplied = str_or x_api_key (bearer_token authorization);
             ascii = (is_ascii supplied \<and> list_all is_ascii api_keys)
    in require_service_api_key True api_keys authorization x_api_key =
        (if \<not> ascii then Inl PyTypeError else Inr (if supplied \<in> set api_keys then AuthOk else AuthDenied))"
  using assms by (simp add: require_service_api_key_def matches_service_api_key_def match_keys_spec Let_def)

section \<open>Concrete instances\<close>

definition demo_rate_requests :: "(string \<times> int \<times> rat) list" where
  "demo_rate_requests = [(''a'', 1, 0), (''a'', 1, 10), (''b'', 1, 20), (''a'', 1, 61)]"

lemma demo_admitted:
  "\<exists>ws. rate_run demo_rate_requests [] = Inr ([(''a'', 0), (''b'', 20), (''a'', 61)], ws)"
proof -
  have "map_sum id fst (rate_run demo_rate_requests []) = Inr [(''a'', 0), (''b'', 20), (''a'', 61)]" by code_simp
  then show ?thesis by (cases "rate_run demo_rate_requests []") auto
qed


theorem rate_table_bounded_witness: "\<exists>admitted ws. rate_run demo_rate_requests [] = Inr (admitted, ws) \<and> length ws \<le> 4096"
  using rate_table_bounded [of demo_rate_requests] by (auto simp: demo_rate_requests_def)

definition demo_scope :: http_scope where
  "demo_scope = \<lparr>hs_type = ''http'', hs_path = ''/v1/chat'', hs_method = ''POST'', hs_headers = [], hs_client = Some ''c''\<rparr>"

definition demo_config :: guard_config where
  "demo_config = \<lparr>gc_require_auth = False, gc_api_keys = [], gc_rate_limit = 120, gc_max_bytes = 1024\<rparr>"

definition demo_inbox :: "asgi_message list" where
  "demo_inbox = [\<lparr>am_type = ''http.request'', am_body = ''ab'', am_more = True\<rparr>,
     \<lparr>am_type = ''http.request'', am_body = ''c'', am_more = False\<rparr>]"

theorem guard_protects_witness:
  "\<exists>ws. guard_call id id demo_config 0 demo_scope demo_inbox [] = Inr (ToAppBuffered demo_inbox, ws) \<and>
     body_bytes demo_inbox \<le> 1024"
proof -
  have "map_sum id fst (guard_call id id demo_config 0 demo_scope demo_inbox []) = Inr (ToAppBuffered demo_inbox)" by code_simp
  then obtain ws where ws: "guard_call id id demo_config 0 demo_scope demo_inbox [] = Inr (ToAppBuffered demo_inbox, ws)"
    by (cases "guard_call id id demo_config 0 demo_scope demo_inbox []") auto
  moreover have "hs_type demo_scope = ''http''" "starts_with ''/v1/'' (hs_path demo_scope)" "gc_rate_limit demo_config \<noteq> 0"
    "0 \<le> gc_max_bytes demo_config" "gc_max_bytes demo_config = 1024"
    by (simp_all add: demo_scope_def demo_config_def)
  ultimately show ?thesis using guard_protects [OF ws] by auto
qed

theorem service_key_check_witness:
  "require_service_api_key True [''k1''] [] ''k1'' = Inr AuthOk \<and> require_service_api_key True [''k1''] [] [CHR 0xE9] = Inl PyTypeError"
  using service_key_check [of "[''k1'']" "''k1''" "[]"] service_key_check [of "[''k1'']" "[CHR 0xE9]" "[]"]
  by (simp add: Let_def is_ascii_def str_or_def)

end
