(* ===== verification/Governor.thy ===== *)
theory Governor
  imports SlidingWindow
begin

text \<open>
  llm/governor.py: the process-wide guard of upstream model calls, with a sliding window of requests and
  one of estimated tokens. Every turn of the waiting loop runs under the governor's lock and is one step here; the
  clock reading of the turn and the limits of the environment are arguments. The semaphore of concurrent calls
  belongs to the standard library and is not part of the state.
\<close>

section \<open>The governor\<close>

record governor =
  gv_requests :: "rat list"
  gv_tokens :: "(rat \<times> int) list"

definition governor_init :: governor where
  "governor_init = \<lparr>gv_requests = [], gv_tokens = []\<rparr>"

definition expired :: "rat \<Rightarrow> rat \<Rightarrow> bool" where
  "expired now t \<longleftrightarrow> t \<le> now - 60"

definition prune_locked :: "rat \<Rightarrow> governor \<Rightarrow> governor" where
  "prune_locked now g =
     g\<lparr>gv_requests := dropWhile (expired now) (gv_requests g),
       gv_tokens := dropWhile (\<lambda>e. expired now (fst e)) (gv_tokens g)\<rparr>"

definition used_tokens :: "governor \<Rightarrow> int" where
  "used_tokens g = sum_list (map snd (gv_tokens g))"

text \<open>The reasons to wait in one turn, as durations; the front of a queue is read only when it is not empty.\<close>

definition rate_waits :: "int \<Rightarrow> int \<Rightarrow> int \<Rightarrow> rat \<Rightarrow> governor \<Rightarrow> rat list" where
  "rate_waits rpm tpm tokens now g =
     (if rpm \<noteq> 0 \<and> int (length (gv_requests g)) \<ge> rpm then [max (1 / 20) (60 - (now - hd (gv_requests g)))] else []) @
     (if tpm \<noteq> 0 \<and> used_tokens g + tokens > tpm \<and> gv_tokens g \<noteq> [] then [max (1 / 20) (60 - (now - fst (hd (gv_tokens g))))] else [])"

definition estimated :: "int \<Rightarrow> int" where
  "estimated n = max 1 (if n = 0 then 1 else n)"

text \<open>One turn of \<open>_wait_for_rate_window\<close>: the time to sleep, or nothing when the call may go.\<close>

definition rate_turn :: "int \<Rightarrow> int \<Rightarrow> int \<Rightarrow> rat \<Rightarrow> governor \<Rightarrow> rat option \<times> governor" where
  "rate_turn rpm tpm n now g =
     (let g1 = prune_locked now g; tokens = estimated n; waits = rate_waits rpm tpm tokens now g1
      in if waits = [] then
           (None, g1\<lparr>gv_requests := gv_requests g1 @ [now],
                     gv_tokens := (if tpm \<noteq> 0 then gv_tokens g1 @ [(now, tokens)] else gv_tokens g1)\<rparr>)
         else (Some (min (Min (set waits)) 5), g1))"

text \<open>The loop, with the clock reading of each turn and a number of turns as fuel.\<close>

fun wait_for_rate_window :: "int \<Rightarrow> int \<Rightarrow> int \<Rightarrow> (nat \<Rightarrow> rat) \<Rightarrow> nat \<Rightarrow> nat \<Rightarrow> governor \<Rightarrow> (nat \<times> governor) option" where
  "wait_for_rate_window rpm tpm n clock i 0 g = None"
| "wait_for_rate_window rpm tpm n clock i (Suc fuel) g =
     (case rate_turn rpm tpm n (clock i) g of
        (None, g1) \<Rightarrow> Some (i, g1)
      | (Some delay, g1) \<Rightarrow> wait_for_rate_window rpm tpm n clock (Suc i) fuel g1)"

definition governor_status :: "int \<Rightarrow> int \<Rightarrow> int \<Rightarrow> rat \<Rightarrow> governor \<Rightarrow> pydict \<times> governor" where
  "governor_status max_concurrent rpm tpm now g =
     (let g1 = prune_locked now g
      in ([(''max_concurrent_env'', PStr ''COGEV_LLM_MAX_CONCURRENT''), (''max_concurrent'', PInt max_concurrent),
           (''rpm_env'', PStr ''COGEV_LLM_RPM''), (''rpm'', PInt rpm),
           (''tpm_env'', PStr ''COGEV_LLM_TPM''), (''tpm'', PInt tpm),
           (''open_request_window_count'', PInt (int (length (gv_requests g1)))),
           (''open_token_window_estimate'', PInt (used_tokens g1)),
           (''retry_after_supported'', PBool True), (''jittered_exponential_backoff'', PBool True)], g1))"

section \<open>Turns of concurrent callers\<close>

text \<open>The turns of all callers in the order of the lock, each an estimate and a time, with the calls let through.\<close>

fun rate_turns :: "int \<Rightarrow> int \<Rightarrow> (int \<times> rat) list \<Rightarrow> governor \<Rightarrow> (rat \<times> int) list \<times> governor" where
  "rate_turns rpm tpm [] g = ([], g)"
| "rate_turns rpm tpm ((n, now) # ts) g =
     (case rate_turn rpm tpm n now g of
        (None, g1) \<Rightarrow> (case rate_turns rpm tpm ts g1 of (h, g2) \<Rightarrow> ((now, estimated n) # h, g2))
      | (Some delay, g1) \<Rightarrow> rate_turns rpm tpm ts g1)"

interpretation request_window: sliding_window expired "\<lambda>t. t"
  by unfold_locales (auto simp: expired_def)

interpretation token_window: sliding_window expired "fst :: rat \<times> int \<Rightarrow> rat"
  by unfold_locales (auto simp: expired_def)

text \<open>The bound of the token window: the limit, unless a single call is alone in it.\<close>

definition tokens_within :: "int \<Rightarrow> (rat \<times> int) list \<Rightarrow> bool" where
  "tokens_within tpm es \<longleftrightarrow> sum_list (map snd es) \<le> tpm \<or> length es \<le> 1"

definition governor_inv :: "int \<Rightarrow> int \<Rightarrow> rat \<Rightarrow> (rat \<times> int) list \<Rightarrow> governor \<Rightarrow> bool" where
  "governor_inv rpm tpm now h g \<longleftrightarrow>
     covers expired (\<lambda>t. t) now (map fst h) (gv_requests g) \<and> covers expired fst now h (gv_tokens g) \<and>
     (\<forall>t. int (length (in_window expired (\<lambda>t. t) t (map fst h))) \<le> rpm) \<and>
     (\<forall>t. tokens_within tpm (in_window expired fst t h)) \<and> list_all (\<lambda>e. 1 \<le> snd e) h"

lemma sum_filter_le: "list_all (\<lambda>e. 1 \<le> (snd e :: int)) es \<Longrightarrow> sum_list (map snd (filter P es)) \<le> sum_list (map snd es)"
  by (induction es) auto

lemma tokens_filter: "list_all (\<lambda>e. 1 \<le> snd e) es \<Longrightarrow> tokens_within tpm es \<Longrightarrow> tokens_within tpm (filter P es)"
  using sum_filter_le [of es P] length_filter_le [of P es] unfolding tokens_within_def by linarith

lemma governor_prune:
  assumes "governor_inv rpm tpm now h g" "now \<le> now'"
  shows "governor_inv rpm tpm now' h (prune_locked now' g)"
proof -
  have "covers expired (\<lambda>t. t) now' (map fst h) (gv_requests g)" "covers expired fst now' h (gv_tokens g)"
    using assms request_window.covers_later token_window.covers_later unfolding governor_inv_def by blast+
  then show ?thesis
    using assms(1) request_window.covers_prune token_window.covers_prune
    unfolding governor_inv_def prune_locked_def by simp
qed

lemma governor_admit:
  assumes "governor_inv rpm tpm now h g" "0 < rpm" "0 < tpm" "rate_waits rpm tpm (estimated n) now g = []"
  shows "governor_inv rpm tpm now (h @ [(now, estimated n)])
    (g\<lparr>gv_requests := gv_requests g @ [now], gv_tokens := gv_tokens g @ [(now, estimated n)]\<rparr>)"
proof -
  let ?e = "(now, estimated n)"
  have inv: "covers expired (\<lambda>t. t) now (map fst h) (gv_requests g)" "covers expired fst now h (gv_tokens g)"
    "int (length (in_window expired (\<lambda>t. t) t (map fst h))) \<le> rpm" "tokens_within tpm (in_window expired fst t h)"
    "list_all (\<lambda>e. 1 \<le> snd e) h" for t
    using assms(1) by (simp_all add: governor_inv_def)
  have go: "int (length (gv_requests g)) < rpm" "used_tokens g + estimated n \<le> tpm \<or> gv_tokens g = []"
    using assms(2-4) by (auto simp: rate_waits_def split: if_splits)
  have "int (length (in_window expired (\<lambda>t. t) t (gv_requests g @ [now]))) \<le> rpm" for t
    using go(1) length_filter_le [of _ "gv_requests g @ [now]"] unfolding in_window_def
    by (smt (verit) length_append_singleton of_nat_Suc of_nat_mono)
  note requests = request_window.window_add [where P = "\<lambda>xs. int (length xs) \<le> rpm", OF inv(1) refl inv(3) this]
  have pos: "list_all (\<lambda>e. 1 \<le> snd e) (gv_tokens g @ [?e])"
    using inv(2,5) by (auto simp: covers_def estimated_def list_all_iff)
  have "tokens_within tpm (gv_tokens g @ [?e])"
    using go(2) by (auto simp: tokens_within_def used_tokens_def)
  then have "tokens_within tpm (in_window expired fst t (gv_tokens g @ [?e]))" for t
    unfolding in_window_def by (rule tokens_filter [OF pos])
  note tokens = token_window.window_add [where P = "tokens_within tpm", OF inv(2) _ inv(4) this]
  show ?thesis
    using request_window.covers_add [OF inv(1)] token_window.covers_add [OF inv(2)] requests tokens inv(5)
    by (simp add: governor_inv_def estimated_def)
qed

lemma rate_turns_inv:
  assumes "0 < rpm" "0 < tpm"
  shows "governor_inv rpm tpm now h g \<Longrightarrow> sorted (now # map snd ts) \<Longrightarrow> rate_turns rpm tpm ts g = (h', g') \<Longrightarrow>
    \<exists>now'. governor_inv rpm tpm now' (h @ h') g'"
proof (induction ts arbitrary: now h g h')
  case Nil
  then show ?case by auto
next
  case (Cons t ts)
  obtain n u where t: "t = (n, u)" by (cases t)
  have pruned: "governor_inv rpm tpm u h (prune_locked u g)"
    using governor_prune [OF Cons.prems(1)] Cons.prems(2) by (simp add: t)
  have sorted: "sorted (u # map snd ts)" using Cons.prems(2) by (simp add: t)
  show ?case
  proof (cases "rate_waits rpm tpm (estimated n) u (prune_locked u g) = []")
    case True
    let ?g1 = "(prune_locked u g)\<lparr>gv_requests := gv_requests (prune_locked u g) @ [u],
      gv_tokens := gv_tokens (prune_locked u g) @ [(u, estimated n)]\<rparr>"
    obtain h1 where h1: "rate_turns rpm tpm ts ?g1 = (h1, g')" "h' = (u, estimated n) # h1"
      using Cons.prems(3) True assms(2) by (auto simp: t rate_turn_def Let_def split: prod.splits)
    from Cons.IH [OF governor_admit [OF pruned assms True] sorted h1(1)] show ?thesis by (simp add: h1(2))
  next
    case False
    then have "rate_turns rpm tpm ts (prune_locked u g) = (h', g')"
      using Cons.prems(3) by (simp add: t rate_turn_def Let_def)
    from Cons.IH [OF pruned sorted this] show ?thesis .
  qed
qed

section \<open>The waiting loop\<close>

lemma turn_delay:
  assumes "fst (rate_turn rpm tpm n now g) = Some d"
  shows "1 / 20 \<le> d \<and> d \<le> 5"
proof -
  let ?w = "rate_waits rpm tpm (estimated n) now (prune_locked now g)"
  have w: "?w \<noteq> []" "d = min (Min (set ?w)) 5"
    using assms by (auto simp: rate_turn_def Let_def split: if_splits)
  have "\<forall>x \<in> set ?w. 1 / 20 \<le> x" by (auto simp: rate_waits_def max_def)
  with w show ?thesis by simp
qed

definition before :: "rat \<Rightarrow> governor \<Rightarrow> bool" where
  "before b g \<longleftrightarrow> list_all (\<lambda>t. t \<le> b) (gv_requests g) \<and> list_all (\<lambda>e. fst e \<le> b) (gv_tokens g)"

lemma before_prune: "before b g \<Longrightarrow> before b (prune_locked now g)"
  by (auto simp: before_def prune_locked_def list_all_iff dest: set_dropWhileD)

lemma prune_all: "before b g \<Longrightarrow> b + 60 \<le> now \<Longrightarrow> gv_requests (prune_locked now g) = [] \<and> gv_tokens (prune_locked now g) = []"
  by (auto simp: before_def prune_locked_def expired_def list_all_iff dest: order_trans)

lemma wait_returns:
  assumes "\<And>i. clock i + 1 / 20 \<le> clock (Suc i)" "0 \<le> rpm"
  shows "before (clock 0) g \<Longrightarrow> i \<le> 1200 \<Longrightarrow> 1200 < i + fuel \<Longrightarrow>
    \<exists>j g'. wait_for_rate_window rpm tpm n clock i fuel g = Some (j, g') \<and> j \<le> 1200"
proof (induction fuel arbitrary: i g)
  case (Suc fuel)
  have elapsed: "clock 0 + of_nat i / 20 \<le> clock i" for i
  proof (induction i)
    case (Suc i)
    with assms(1) [of i] show ?case by (simp add: field_simps)
  qed simp
  let ?g1 = "prune_locked (clock i) g"
  show ?case
  proof (cases "rate_waits rpm tpm (estimated n) (clock i) ?g1 = []")
    case True
    with Suc.prems show ?thesis by (simp add: rate_turn_def Let_def)
  next
    case False
    have "i < 1200"
    proof (rule ccontr)
      assume "\<not> i < 1200"
      with elapsed [of i] Suc.prems(2) have "clock 0 + 60 \<le> clock i" by simp
      from prune_all [OF Suc.prems(1) this] assms(2) False show False by (simp add: rate_waits_def)
    qed
    with Suc.IH [OF before_prune [OF Suc.prems(1)], of "Suc i" "clock i"] Suc.prems(3) False show ?thesis
      by (simp add: rate_turn_def Let_def)
  qed
qed simp

section \<open>Properties\<close>

text \<open>
  The governor's limits. With both limits on, whatever callers wait and in whatever order they take their turns,
  no 60 seconds see more calls than the request limit, and the estimated tokens of the calls of any 60 seconds stay within
  the token limit, except when a single call is alone in its window.
\<close>

theorem governor_limits:
  assumes "rate_turns rpm tpm ts governor_init = (admitted, g)" "sorted (map snd ts)" "0 < rpm" "0 < tpm"
  shows "int (length (filter (\<lambda>e. now - 60 < fst e \<and> fst e \<le> now) admitted)) \<le> rpm \<and>
    tokens_within tpm (filter (\<lambda>e. now - 60 < fst e \<and> fst e \<le> now) admitted)"
proof -
  define t0 where "t0 = (case ts of [] \<Rightarrow> 0 | (_, t) # _ \<Rightarrow> t)"
  have "governor_inv rpm tpm t0 [] governor_init"
    using assms(3) by (simp add: governor_inv_def governor_init_def request_window.covers_empty token_window.covers_empty
      in_window_def tokens_within_def)
  moreover have "sorted (t0 # map snd ts)"
    using assms(2) by (cases ts) (auto simp: t0_def)
  ultimately obtain now' where "governor_inv rpm tpm now' admitted g"
    using rate_turns_inv [OF assms(3,4) _ _ assms(1), of t0 "[]"] by auto
  moreover have "length (in_window expired (\<lambda>t. t) now (map fst h)) = length (filter (\<lambda>e. now - 60 < fst e \<and> fst e \<le> now) h)"
    "in_window expired fst now h = filter (\<lambda>e. now - 60 < fst e \<and> fst e \<le> now) h" for h :: "(rat \<times> int) list"
    by (induction h) (auto simp: in_window_def expired_def)
  ultimately show ?thesis unfolding governor_inv_def by metis
qed


section \<open>Concrete instances\<close>

definition demo_turns :: "(int \<times> rat) list" where
  "demo_turns = [(50, 0), (60, 1), (60, 60), (500, 120)]"

theorem governor_limits_witness:
  "fst (rate_turns 5 100 demo_turns governor_init) = [(0, 50), (60, 60), (120, 500)] \<and>
   tokens_within 100 (filter (\<lambda>e. 120 - 60 < fst e \<and> fst e \<le> 120) [(0, 50), (60, 60), (120 :: rat, 500)])"
proof -
  have run: "fst (rate_turns 5 100 demo_turns governor_init) = [(0, 50), (60, 60), (120, 500)]" by code_simp
  then obtain g where "rate_turns 5 100 demo_turns governor_init = ([(0, 50), (60, 60), (120, 500)], g)"
    by (cases "rate_turns 5 100 demo_turns governor_init") simp
  from governor_limits [OF this, of 120] run show ?thesis by (simp add: demo_turns_def)
qed


end
