(* ===== verification/CallBudget.thy ===== *)
theory CallBudget
  imports Prelude
begin

text \<open>
  llm/budget.py with the session of llm/session.py: the reservation of dollar budget around every model call and
  the budget check. The steps of concurrent calls are those the two locks make atomic: taking the
  session's call lock, the decision under the session lock (followed, for a priced call, by the release of the call
  lock), the recording of an event, and the end of the call. A running call is its identity, its
  reservation and, as a ghost, the cost recorded for it so far. Amounts are exact rationals.
\<close>

section \<open>The session\<close>

record call_event =
  ce_cost :: "rat option"
  ce_replayed :: bool
  ce_physical :: string

record call_session =
  cs_events :: "call_event list"
  cs_reserved :: rat
  cs_lock :: "nat option"
  cs_running :: "(nat \<times> rat \<times> rat) list"

definition session_init :: call_session where
  "session_init = \<lparr>cs_events = [], cs_reserved = 0, cs_lock = None, cs_running = []\<rparr>"

definition session_record :: "call_event \<Rightarrow> call_session \<Rightarrow> call_session" where
  "session_record e s = s\<lparr>cs_events := cs_events s @ [e]\<rparr>"

definition round_half_even :: "rat \<Rightarrow> int" where
  "round_half_even q =
     (let f = \<lfloor>q\<rfloor>; d = q - of_int f
      in if d < 1 / 2 then f else if d > 1 / 2 then f + 1 else if even f then f else f + 1)"

definition round6 :: "rat \<Rightarrow> rat" where
  "round6 q = of_int (round_half_even (q * 1000000)) / 1000000"

text \<open>\<open>total_estimated_cost_usd\<close>: replayed events and repeated physical calls do not count.\<close>

fun total_cost :: "call_event list \<Rightarrow> string list \<Rightarrow> rat" where
  "total_cost [] seen = 0"
| "total_cost (e # es) seen =
     (if ce_replayed e then total_cost es seen
      else if ce_physical e \<noteq> [] \<and> ce_physical e \<in> set seen then total_cost es seen
      else (case ce_cost e of Some c \<Rightarrow> c | None \<Rightarrow> 0) +
        total_cost es (if ce_physical e \<noteq> [] then ce_physical e # seen else seen))"

definition total_estimated_cost :: "call_event list \<Rightarrow> rat" where
  "total_estimated_cost es = round6 (total_cost es [])"

definition total_llm_budget :: "string \<Rightarrow> rat option" where
  "total_llm_budget raw =
     (if strip raw = [] then None
      else case py_float (PStr (strip raw)) of Inl _ \<Rightarrow> None | Inr q \<Rightarrow> Some (max 0 q))"

text \<open>\<open>enforce_budget\<close> without the stage budget: True when it raises.\<close>

definition over_budget :: "rat option \<Rightarrow> bool \<Rightarrow> call_event list \<Rightarrow> bool" where
  "over_budget budget preflight es =
     (case budget of
        None \<Rightarrow> False
      | Some b \<Rightarrow> (if preflight then total_estimated_cost es \<ge> b else total_estimated_cost es > b))"

section \<open>Reservations\<close>

definition event_costs :: "call_event list \<Rightarrow> rat list" where
  "event_costs es = map (\<lambda>e. the (ce_cost e)) (filter (\<lambda>e. \<not> ce_replayed e \<and> ce_cost e \<noteq> None) es)"

definition completed_cost :: "call_event list \<Rightarrow> rat" where
  "completed_cost es = sum_list (event_costs es)"

definition largest_cost :: "call_event list \<Rightarrow> rat" where
  "largest_cost es = (if event_costs es = [] then 0 else Max (set (event_costs es)))"

text \<open>The decision under the session lock: refused, or the amount reserved.\<close>

definition reserve_decision :: "rat \<Rightarrow> call_session \<Rightarrow> rat option" where
  "reserve_decision budget s =
     (let completed = completed_cost (cs_events s); reservation = largest_cost (cs_events s);
          committed = completed + cs_reserved s + reservation
      in if completed \<ge> budget \<or> reservation > 0 \<and> committed > budget then None else Some reservation)"

definition acquire_call_lock :: "nat \<Rightarrow> call_session \<Rightarrow> call_session" where
  "acquire_call_lock p s = s\<lparr>cs_lock := Some p\<rparr>"

definition start_call :: "rat \<Rightarrow> nat \<Rightarrow> call_session \<Rightarrow> bool \<times> call_session" where
  "start_call budget p s =
     (case reserve_decision budget s of
        None \<Rightarrow> (False, s\<lparr>cs_lock := None\<rparr>)
      | Some r \<Rightarrow>
          (True, s\<lparr>cs_reserved := cs_reserved s + r, cs_running := cs_running s @ [(p, r, 0)],
                   cs_lock := (if r > 0 then None else cs_lock s)\<rparr>))"

fun finish_call :: "nat \<times> rat \<times> rat \<Rightarrow> call_session \<Rightarrow> call_session" where
  "finish_call (p, r, c) s =
     s\<lparr>cs_reserved := max 0 (cs_reserved s - r), cs_running := remove1 (p, r, c) (cs_running s),
       cs_lock := (if r > 0 then cs_lock s else None)\<rparr>"

text \<open>The cost an event adds, and the cost of a running call beyond its reservation.\<close>

definition counted_cost :: "call_event \<Rightarrow> rat" where
  "counted_cost e = (if ce_replayed e then 0 else case ce_cost e of Some c \<Rightarrow> c | None \<Rightarrow> 0)"

definition excess :: "rat \<Rightarrow> rat \<Rightarrow> rat" where
  "excess r c = max 0 (c - r)"

text \<open>The reachable sessions of a budget, with what the calls have cost so far beyond their reservations.\<close>

inductive call_reach :: "rat \<Rightarrow> rat \<Rightarrow> call_session \<Rightarrow> bool" for budget where
  call_init: "call_reach budget 0 session_init"
| call_acquire: "call_reach budget x s \<Longrightarrow> cs_lock s = None \<Longrightarrow> p \<notin> fst ` set (cs_running s) \<Longrightarrow>
    call_reach budget x (acquire_call_lock p s)"
| call_start: "call_reach budget x s \<Longrightarrow> cs_lock s = Some p \<Longrightarrow> p \<notin> fst ` set (cs_running s) \<Longrightarrow>
    call_reach budget x (snd (start_call budget p s))"
| call_record: "call_reach budget x s \<Longrightarrow> cs_running s = before @ (p, r, c) # after \<Longrightarrow> 0 \<le> counted_cost e \<Longrightarrow>
    call_reach budget (x + (excess r (c + counted_cost e) - excess r c))
      ((session_record e s)\<lparr>cs_running := before @ (p, r, c + counted_cost e) # after\<rparr>)"
| call_finish: "call_reach budget x s \<Longrightarrow> call \<in> set (cs_running s) \<Longrightarrow> call_reach budget x (finish_call call s)"

definition budget_inv :: "rat \<Rightarrow> rat \<Rightarrow> call_session \<Rightarrow> bool" where
  "budget_inv budget x s \<longleftrightarrow>
     cs_reserved s = sum_list (map (\<lambda>(_, r, _). r) (cs_running s)) \<and>
     (\<forall>(p, r, c) \<in> set (cs_running s). 0 \<le> r \<and> 0 \<le> c \<and> (r = 0 \<longrightarrow> cs_lock s = Some p)) \<and>
     distinct (map fst (cs_running s)) \<and> (\<forall>c \<in> set (event_costs (cs_events s)). 0 \<le> c) \<and> 0 \<le> x \<and>
     completed_cost (cs_events s) + sum_list (map (\<lambda>(_, r, c). max 0 (r - c)) (cs_running s)) \<le> budget + x"

lemma event_costs_snoc: "event_costs (es @ [e]) = event_costs es @ (if ce_replayed e \<or> ce_cost e = None then [] else [the (ce_cost e)])"
  by (simp add: event_costs_def)

lemma completed_snoc: "completed_cost (es @ [e]) = completed_cost es + counted_cost e"
  by (auto simp: completed_cost_def event_costs_snoc counted_cost_def split: option.splits)

lemma costs_nonneg_snoc:
  "\<forall>c \<in> set (event_costs es). 0 \<le> c \<Longrightarrow> 0 \<le> counted_cost e \<Longrightarrow> \<forall>c \<in> set (event_costs (es @ [e])). 0 \<le> c"
  by (auto simp: event_costs_snoc counted_cost_def split: option.splits)

lemma largest_nonneg: "\<forall>c \<in> set (event_costs es). 0 \<le> c \<Longrightarrow> 0 \<le> largest_cost es"
  by (auto simp: largest_cost_def Max_ge_iff neq_Nil_conv)

lemma headroom_le: "sum_list (map (\<lambda>(_, r, c). max 0 (r - c)) xs) \<le> sum_list (map (\<lambda>(_, r, _). r) xs)"
  if "\<forall>(p, r, c) \<in> set xs. 0 \<le> r \<and> 0 \<le> (c :: rat)" for xs :: "(nat \<times> rat \<times> rat) list"
  using that by (induction xs) (auto simp: max_def intro: add_mono)

lemma call_inv_mem:
  "budget_inv budget x s \<Longrightarrow> (q, r, c) \<in> set (cs_running s) \<Longrightarrow> 0 \<le> r \<and> 0 \<le> c \<and> (r = 0 \<longrightarrow> cs_lock s = Some q)"
  by (auto simp: budget_inv_def)

lemma call_inv_init: "0 \<le> budget \<Longrightarrow> budget_inv budget 0 session_init"
  by (simp add: budget_inv_def session_init_def completed_cost_def event_costs_def)

lemma call_inv_acquire: "budget_inv budget x s \<Longrightarrow> cs_lock s = None \<Longrightarrow> budget_inv budget x (acquire_call_lock p s)"
  by (auto simp: budget_inv_def acquire_call_lock_def)

lemma call_inv_start:
  assumes "budget_inv budget x s" "cs_lock s = Some p" "p \<notin> fst ` set (cs_running s)"
  shows "budget_inv budget x (snd (start_call budget p s))"
proof (cases "reserve_decision budget s")
  case None
  have "\<forall>(q, r, c) \<in> set (cs_running s). r \<noteq> 0"
    using assms by (force simp: budget_inv_def)
  with None assms(1) show ?thesis by (auto simp: budget_inv_def start_call_def)
next
  case (Some r)
  let ?all = "sum_list (map (\<lambda>(_, r, _). r) (cs_running s))"
  have r: "r = largest_cost (cs_events s)" "completed_cost (cs_events s) < budget"
    "0 < r \<Longrightarrow> completed_cost (cs_events s) + cs_reserved s + r \<le> budget"
    using Some by (auto simp: reserve_decision_def Let_def split: if_splits)
  have run: "\<forall>(q, r', c) \<in> set (cs_running s). 0 \<le> r' \<and> 0 \<le> c" "cs_reserved s = ?all" "0 \<le> x"
    "\<forall>(q, r', c) \<in> set (cs_running s). r' \<noteq> 0" "0 \<le> r"
    using assms largest_nonneg [of "cs_events s"] unfolding r(1) by (force simp: budget_inv_def)+
  have le: "completed_cost (cs_events s) + sum_list (map (\<lambda>(_, r, c). max 0 (r - c)) (cs_running s)) + r \<le> budget + x"
  proof (cases "0 < r")
    case True
    with r(3) headroom_le [OF run(1)] run(2,3) show ?thesis by simp
  next
    case False
    with assms(1) run(5) show ?thesis by (simp add: budget_inv_def)
  qed
  show ?thesis
    using assms le run r(1) Some by (auto simp: budget_inv_def start_call_def)
qed

lemma call_inv_record:
  assumes "budget_inv budget x s" "cs_running s = before @ (p, r, c) # after" "0 \<le> counted_cost e"
  shows "budget_inv budget (x + (excess r (c + counted_cost e) - excess r c))
    ((session_record e s)\<lparr>cs_running := before @ (p, r, c + counted_cost e) # after\<rparr>)"
proof -
  let ?k = "counted_cost e"
  have step: "?k + max 0 (r - (c + ?k)) = max 0 (r - c) + (excess r (c + ?k) - excess r c)"
    by (auto simp: excess_def max_def)
  have mono: "0 \<le> excess r (c + ?k) - excess r c"
    using assms(3) by (auto simp: excess_def max_def)
  show ?thesis
    using assms(1,3) step mono costs_nonneg_snoc [of "cs_events s" e]
    unfolding budget_inv_def session_record_def assms(2) by (auto simp: completed_snoc)
qed

lemma call_inv_finish:
  assumes "budget_inv budget x s" "call \<in> set (cs_running s)"
  shows "budget_inv budget x (finish_call call s)"
proof -
  obtain p r c where call: "call = (p, r, c)" by (cases call)
  obtain before after where run: "cs_running s = before @ (p, r, c) # after" "(p, r, c) \<notin> set before"
    using split_list_first [OF assms(2)] by (auto simp: call)
  have rest: "remove1 (p, r, c) (cs_running s) = before @ after"
    using run by (simp add: remove1_append)
  have mem: "(q, r', c') \<in> set (cs_running s)" if "(q, r', c') \<in> set (before @ after)" for q r' c'
    using that by (auto simp: run(1))
  have "p \<notin> fst ` set (before @ after)"
    using assms(1) by (simp add: budget_inv_def run(1) image_Un)
  then have other: "p \<noteq> q" if "(q, r', c') \<in> set (before @ after)" for q r' c'
    using imageI [OF that, of fst] by auto
  have p: "0 \<le> r" "r = 0 \<Longrightarrow> cs_lock s = Some p"
    using call_inv_mem [OF assms(1), of p r c] by (simp_all add: run(1))
  have free: "0 < r \<or> r' \<noteq> 0" if "(q, r', c') \<in> set (before @ after)" for q r' c'
    using call_inv_mem [OF assms(1) mem [OF that]] other [OF that] p by (cases "r = 0") auto
  have sums: "0 \<le> sum_list (map (\<lambda>(_, r, _). r) (before @ after))"
    using call_inv_mem [OF assms(1) mem] by (intro sum_list_nonneg) (auto simp: image_iff)
  have inv: "cs_reserved s = sum_list (map (\<lambda>(_, r, _). r) (before @ after)) + r" "distinct (map fst (before @ after))"
    "completed_cost (cs_events s) + sum_list (map (\<lambda>(_, r, c). max 0 (r - c)) (before @ after)) + max 0 (r - c) \<le> budget + x"
    "\<forall>c \<in> set (event_costs (cs_events s)). 0 \<le> c" "0 \<le> x"
    using assms(1) by (simp_all add: budget_inv_def run(1) add.assoc add.left_commute add.commute)
  have "max 0 (cs_reserved s - r) = sum_list (map (\<lambda>(_, r, _). r) (before @ after))"
    using inv(1) sums by simp
  moreover have "\<forall>(q, r', c') \<in> set (before @ after). 0 \<le> r' \<and> 0 \<le> c' \<and> (r' = 0 \<longrightarrow> (if 0 < r then cs_lock s else None) = Some q)"
    using call_inv_mem [OF assms(1) mem] free by (smt (verit) case_prodI2)
  moreover have "completed_cost (cs_events s) + sum_list (map (\<lambda>(_, r, c). max 0 (r - c)) (before @ after)) \<le> budget + x"
    using inv(3) by linarith
  ultimately show ?thesis
    using inv(2,4,5) unfolding call finish_call.simps rest budget_inv_def by simp
qed

lemma call_reach_inv: "call_reach budget x s \<Longrightarrow> 0 \<le> budget \<Longrightarrow> budget_inv budget x s"
  by (induction rule: call_reach.induct) (blast intro: call_inv_init call_inv_acquire call_inv_start call_inv_record call_inv_finish)+

section \<open>Properties\<close>

text \<open>
  C38: the budget under concurrency. However the calls of a session interleave, the cost completed so far is at most
  the budget plus what calls have cost beyond the amounts reserved for them; so while every priced call stays
  within its reservation the budget is not exceeded, and the overshoot of the first, unpriced, call is its cost.
\<close>

theorem budget_overshoot:
  assumes "call_reach budget x s" "0 \<le> budget"
  shows "completed_cost (cs_events s) \<le> budget + x \<and> 0 \<le> x"
proof -
  note inv = call_reach_inv [OF assms]
  have "0 \<le> sum_list (map (\<lambda>(_, r, c). max 0 (r - c)) (cs_running s))"
    by (intro sum_list_nonneg) auto
  with inv show ?thesis by (simp add: budget_inv_def)
qed

text \<open>
  Nothing is leaked. In every reachable session the reserved amount is the sum over the calls still running, an
  unpriced call runs alone holding the call lock, and once no call runs and nobody holds the lock the reservation is zero.
\<close>

theorem reservations_released:
  assumes "call_reach budget x s" "0 \<le> budget"
  shows "cs_reserved s = sum_list (map (\<lambda>(_, r, _). r) (cs_running s)) \<and>
    (\<forall>(p, r, c) \<in> set (cs_running s). 0 \<le> r \<and> (r = 0 \<longrightarrow> cs_lock s = Some p)) \<and>
    (cs_running s = [] \<longrightarrow> cs_reserved s = 0)"
  using call_reach_inv [OF assms] by (fastforce simp: budget_inv_def)

section \<open>Concrete instances\<close>

definition demo_cost_event :: "rat \<Rightarrow> call_event" where
  "demo_cost_event c = \<lparr>ce_cost = Some c, ce_replayed = False, ce_physical = []\<rparr>"

text \<open>A first call costs 2; then two calls run at once, each with 2 reserved, and one of them has cost 3.\<close>

definition demo_session :: call_session where
  "demo_session = \<lparr>cs_events = [demo_cost_event 2, demo_cost_event 3], cs_reserved = 4, cs_lock = None,
     cs_running = [(2, 2, 3), (3, 2, 0)]\<rparr>"

lemmas budget_steps = acquire_call_lock_def start_call_def reserve_decision_def session_init_def session_record_def
  completed_cost_def largest_cost_def event_costs_def demo_cost_event_def counted_cost_def excess_def

lemma call_demo_reach: "call_reach 10 3 demo_session"
proof -
  let ?e = "\<lambda>c. [demo_cost_event c]"
  have s1: "call_reach 10 0 \<lparr>cs_events = [], cs_reserved = 0, cs_lock = Some 1, cs_running = [(1, 0, 0)]\<rparr>"
    using call_start [OF call_acquire [OF call_init [of 10], of 1], of 1] by (simp add: budget_steps)
  have s2: "call_reach 10 2 \<lparr>cs_events = ?e 2, cs_reserved = 0, cs_lock = None, cs_running = []\<rparr>"
    using call_finish [OF call_record [OF s1, of "[]" 1 0 0 "[]" "demo_cost_event 2"], of "(1, 0, 2)"] by (simp add: budget_steps)
  have s3: "call_reach 10 2 \<lparr>cs_events = ?e 2, cs_reserved = 2, cs_lock = None, cs_running = [(2, 2, 0)]\<rparr>"
    using call_start [OF call_acquire [OF s2, of 2], of 2] by (simp add: budget_steps)
  have s4: "call_reach 10 2 \<lparr>cs_events = ?e 2, cs_reserved = 4, cs_lock = None, cs_running = [(2, 2, 0), (3, 2, 0)]\<rparr>"
    using call_start [OF call_acquire [OF s3, of 3], of 3] by (simp add: budget_steps)
  show ?thesis
    using call_record [OF s4, of "[]" 2 2 0 "[(3, 2, 0)]" "demo_cost_event 3"] by (simp add: budget_steps demo_session_def)
qed

theorem budget_overshoot_witness: "completed_cost (cs_events demo_session) \<le> 10 + 3"
  using budget_overshoot [OF call_demo_reach] by simp

theorem reservations_released_witness: "cs_reserved demo_session = 4 \<and> cs_running demo_session = [(2, 2, 3), (3, 2, 0)]"
  using reservations_released [OF call_demo_reach] by (simp add: demo_session_def)

end
