(* ===== verification/Paths.thy ===== *)
theory Paths
  imports Prelude "HOL-Library.Sublist"
begin

text \<open>
  File paths as lists of components, and the part of the Python library on names that the modelled code uses:
  the parts of a \<open>Path\<close>, its suffix, and \<open>fnmatch\<close>.
\<close>

section \<open>Components of a path\<close>

fun split_on :: "char \<Rightarrow> string \<Rightarrow> string list" where
  "split_on c [] = [[]]"
| "split_on c (x # s) =
     (case split_on c s of
        [] \<Rightarrow> [[x]]
      | p # ps \<Rightarrow> (if x = c then [] # p # ps else (x # p) # ps))"

type_synonym fpath = "string list"

text \<open>The components of a relative \<open>Path\<close>: empty and dot components disappear.\<close>

definition path_parts :: "string \<Rightarrow> fpath" where
  "path_parts s = filter (\<lambda>p. p \<noteq> [] \<and> p \<noteq> ''.'') (split_on (CHR ''/'') s)"

lemma split_on_none: "c \<notin> set s \<Longrightarrow> split_on c s = [s]"
  by (induction s) auto

lemma split_on_sep: "c \<notin> set a \<Longrightarrow> split_on c (a @ c # b) = a # split_on c b"
proof (induction a)
  case Nil
  have "split_on c b \<noteq> []" by (cases b) (auto split: list.splits)
  then show ?case by (cases "split_on c b") auto
qed auto

lemma split_on_nonempty: "split_on c s \<noteq> []"
  by (cases s) (auto split: list.splits)

lemma join_split: "join_with [c] (split_on c s) = s"
proof (induction s)
  case (Cons x s)
  then show ?case using split_on_nonempty [of c s]
    by (cases "split_on c s"; cases "tl (split_on c s)") auto
qed simp

lemma split_parts: "p \<in> set (split_on c s) \<Longrightarrow> c \<notin> set p"
proof (induction s arbitrary: p)
  case (Cons x s)
  then show ?case using split_on_nonempty [of c s] by (cases "split_on c s") (auto split: if_splits)
qed simp

lemma split_join: "ps \<noteq> [] \<Longrightarrow> list_all (\<lambda>p. c \<notin> set p) ps \<Longrightarrow> split_on c (join_with [c] ps) = ps"
proof (induction ps)
  case (Cons p ps)
  then show ?case by (cases ps) (simp_all add: split_on_none split_on_sep)
qed simp

lemma parts_no_slash: "p \<in> set (path_parts s) \<Longrightarrow> p \<noteq> [] \<and> p \<noteq> ''.'' \<and> CHR ''/'' \<notin> set p"
  using split_parts by (auto simp: path_parts_def)

text \<open>\<open>as_posix\<close> of a relative path, \<open>is_absolute\<close>, and \<open>suffix\<close> of a name.\<close>

definition as_posix :: "fpath \<Rightarrow> string" where
  "as_posix p = (if p = [] then ''.'' else join_with ''/'' p)"

definition absolute_path :: "string \<Rightarrow> bool" where
  "absolute_path s \<longleftrightarrow> starts_with ''/'' s"

definition path_suffix :: "string \<Rightarrow> string" where
  "path_suffix name =
     (let ext = rev (takeWhile (\<lambda>c. c \<noteq> CHR ''.'') (rev name))
      in if CHR ''.'' \<in> set name \<and> ext \<noteq> [] \<and> length ext + 1 < length name then CHR ''.'' # ext else [])"

section \<open>Shell patterns\<close>

text \<open>
  \<open>fnmatch.fnmatchcase\<close>: a star stands for any text, slashes included, a question mark for one character, a
  bracket for one character of a class; a bracket that is not closed stands for itself.
\<close>

fun class_has :: "char \<Rightarrow> string \<Rightarrow> bool" where
  "class_has c (x # d # y # r) =
     (if d = CHR ''-'' then (x \<le> c \<and> c \<le> y) \<or> class_has c r else c = x \<or> class_has c (d # y # r))"
| "class_has c r = (c \<in> set r)"

definition class_split :: "string \<Rightarrow> (bool \<times> string \<times> string) option" where
  "class_split s =
     (let neg = (s \<noteq> [] \<and> hd s = CHR ''!'')
      in case (if neg then tl s else s) of
           [] \<Rightarrow> None
         | x # r \<Rightarrow>
             (case dropWhile (\<lambda>c. c \<noteq> CHR '']'') r of
                [] \<Rightarrow> None
              | _ # rest \<Rightarrow> Some (neg, x # takeWhile (\<lambda>c. c \<noteq> CHR '']'') r, rest)))"

function fnmatch :: "string \<Rightarrow> string \<Rightarrow> bool" where
  "fnmatch [] s = (s = [])"
| "fnmatch (p # ps) [] = (p = CHR ''*'' \<and> fnmatch ps [])"
| "fnmatch (p # ps) (c # s) =
     (if p = CHR ''*'' then fnmatch ps (c # s) \<or> fnmatch (p # ps) s
      else if p = CHR ''?'' then fnmatch ps s
      else if p = CHR ''['' then
        (case class_split ps of
           None \<Rightarrow> c = p \<and> fnmatch ps s
         | Some (neg, body, rest) \<Rightarrow> class_has c body \<noteq> neg \<and> fnmatch rest s)
      else c = p \<and> fnmatch ps s)"
  by pat_completeness auto
termination
  by (relation "inv_image (less_than <*lex*> less_than) (\<lambda>(p, s). (length s, length p))") auto

lemma fnmatch_star [simp]: "fnmatch (CHR ''*'' # ps) s \<longleftrightarrow> (\<exists>n \<le> length s. fnmatch ps (drop n s))"
proof (induction s)
  case (Cons c s)
  have "(\<exists>n \<le> length (c # s). fnmatch ps (drop n (c # s))) \<longleftrightarrow>
      fnmatch ps (c # s) \<or> (\<exists>n \<le> length s. fnmatch ps (drop n s))" (is "?l \<longleftrightarrow> ?r")
  proof
    assume ?l
    then obtain n where "n \<le> length (c # s)" "fnmatch ps (drop n (c # s))" by blast
    then show ?r by (cases n) auto
  next
    assume ?r
    then show ?l
    proof
      assume "fnmatch ps (c # s)"
      then show ?l by (intro exI [of _ 0]) simp
    next
      assume "\<exists>n \<le> length s. fnmatch ps (drop n s)"
      then obtain n where "n \<le> length s" "fnmatch ps (drop n s)" by blast
      then show ?l by (intro exI [of _ "Suc n"]) simp
    qed
  qed
  with Cons show ?case by simp
qed simp

end
