(* ===== verification/Snapshot.thy ===== *)
theory Snapshot
  imports EventStore Paths
begin

text \<open>
  persistence/transactional_snapshot.py: snapshots of several files published by switching one pointer. The root
  directory is its generations, the staging directories of transactions in progress, the pointer CURRENT and the flat
  files of older releases. A commit is the list of its operations on the file system, each of them
  atomic (a directory or a link is moved in one step, a file written by atomic_write_json appears complete); a
  crash leaves the state after some prefix of the list. The digest is \<open>sha\<close>, the JSON text of
  atomic_write_json is \<open>render\<close>, and \<open>loads\<close> decodes it. The sidecar locks that the writes leave behind are files
  of the staging directory, removed before publication. The links at the old flat paths are not authoritative and
  left out, and CURRENT is a symbolic link, as on every platform that has them.
\<close>

section \<open>Paths and files\<close>

type_synonym files = "(fpath \<times> string) list"

definition safe_relative_path :: "string \<Rightarrow> pyexn + string" where
  "safe_relative_path v =
     (let rel = replace_char (CHR 92) (CHR ''/'') (strip v)
      in if rel = [] \<or> starts_with ''/'' rel \<or> ''..'' \<in> set (path_parts rel) then Inl PyValueError else Inr rel)"

definition MANIFEST :: string where "MANIFEST = ''snapshot-transaction.json''"
definition GENERATIONS :: string where "GENERATIONS = ''generations''"

definition pointer_to :: "string \<Rightarrow> string" where "pointer_to txn = GENERATIONS @ ''/'' @ txn"

definition lock_name :: "fpath \<Rightarrow> fpath" where
  "lock_name p = butlast p @ [last p @ ''.lock'']"

text \<open>A file cannot be written below a file, nor where a directory is.\<close>

definition below_file :: "files \<Rightarrow> fpath \<Rightarrow> bool" where
  "below_file fs p \<longleftrightarrow> list_ex (\<lambda>(q, _). strict_prefix q p) fs"

definition is_directory :: "files \<Rightarrow> fpath \<Rightarrow> bool" where
  "is_directory fs p \<longleftrightarrow> p = [] \<or> list_ex (\<lambda>(q, _). strict_prefix p q) fs"

definition unwritable :: "files \<Rightarrow> fpath \<Rightarrow> bool" where
  "unwritable fs p \<longleftrightarrow> is_directory fs p \<or> is_directory fs (lock_name p)"

section \<open>The root directory\<close>

datatype file_op = Put fpath string | Del fpath

fun apply_file_op :: "file_op \<Rightarrow> files \<Rightarrow> files" where
  "apply_file_op (Put p b) fs = dset p b fs"
| "apply_file_op (Del p) fs = ddel p fs"

record snap_root =
  sr_generations :: "(string \<times> files) list"
  sr_staging :: "(string \<times> files) list"
  sr_current :: "string option"
  sr_flat :: files

datatype fs_op =
    MkStaging string
  | Stage string file_op
  | DropStaging string
  | PublishDir string
  | SwitchCurrent string
  | GenOp string file_op
  | DropGen string

definition dir_of :: "(string \<times> files) list \<Rightarrow> string \<Rightarrow> files" where
  "dir_of ds t = (case map_of ds t of Some fs \<Rightarrow> fs | None \<Rightarrow> [])"

fun apply_op :: "fs_op \<Rightarrow> snap_root \<Rightarrow> snap_root" where
  "apply_op (MkStaging t) st = st\<lparr>sr_staging := dset t [] (sr_staging st)\<rparr>"
| "apply_op (Stage t f) st = st\<lparr>sr_staging := dset t (apply_file_op f (dir_of (sr_staging st) t)) (sr_staging st)\<rparr>"
| "apply_op (DropStaging t) st = st\<lparr>sr_staging := ddel t (sr_staging st)\<rparr>"
| "apply_op (PublishDir t) st =
     st\<lparr>sr_generations := dset t (dir_of (sr_staging st) t) (sr_generations st), sr_staging := ddel t (sr_staging st)\<rparr>"
| "apply_op (SwitchCurrent target) st = st\<lparr>sr_current := Some target\<rparr>"
| "apply_op (GenOp t f) st = st\<lparr>sr_generations := dset t (apply_file_op f (dir_of (sr_generations st) t)) (sr_generations st)\<rparr>"
| "apply_op (DropGen t) st = st\<lparr>sr_generations := ddel t (sr_generations st)\<rparr>"

definition apply_ops :: "fs_op list \<Rightarrow> snap_root \<Rightarrow> snap_root" where
  "apply_ops ops st = fold apply_op ops st"

text \<open>\<open>resolve_snapshot_root\<close>: the current generation, or none for the flat root.\<close>

definition resolve :: "snap_root \<Rightarrow> pyexn + string option" where
  "resolve st =
     (case sr_current st of
        None \<Rightarrow> Inr None
      | Some target \<Rightarrow>
          (case path_parts target of
             [d, t] \<Rightarrow> (if starts_with ''/'' target \<or> d \<noteq> GENERATIONS \<or> \<not> starts_with ''txn-'' t then Inl PyValueError else Inr (Some t))
           | _ \<Rightarrow> Inl PyValueError))"

text \<open>The files a reader of the root finds.\<close>

definition snapshot_files :: "snap_root \<Rightarrow> pyexn + files" where
  "snapshot_files st =
     sbind (resolve st) (\<lambda>g. Inr (case g of None \<Rightarrow> sr_flat st | Some t \<Rightarrow> dir_of (sr_generations st) t))"

section \<open>Commit\<close>

record snapshot_write =
  sw_path :: string
  sw_kind :: string
  sw_payload :: pyval
  sw_sort :: bool

text \<open>One item of the loop: the bytes of the file, or the exception of its write.\<close>

definition write_bytes :: "(pyval \<Rightarrow> bool \<Rightarrow> string) \<Rightarrow> snapshot_write \<Rightarrow> pyexn + string" where
  "write_bytes render w =
     (if sw_kind w = ''json'' then
        (case sw_payload w of PDict d \<Rightarrow> Inr (render (PDict d) (sw_sort w)) | _ \<Rightarrow> Inl PyValueError)
      else if sw_kind w = ''text'' then Inr (utf8_encode (py_str (sw_payload w)))
      else Inl PyValueError)"

definition manifest_entry :: "(string \<Rightarrow> string) \<Rightarrow> string \<Rightarrow> string \<Rightarrow> pyval" where
  "manifest_entry sha kind bytes =
     PDict [(''kind'', PStr kind), (''sha256'', PStr (sha bytes)), (''bytes'', PInt (int (length bytes)))]"

text \<open>A file written atomically, with the lock file its writer leaves.\<close>

definition put_ops :: "fpath \<Rightarrow> string \<Rightarrow> file_op list" where
  "put_ops p bytes = [Put (lock_name p) [], Put p bytes]"

fun stage_writes ::
  "(string \<Rightarrow> string) \<Rightarrow> (pyval \<Rightarrow> bool \<Rightarrow> string) \<Rightarrow> snapshot_write list \<Rightarrow> file_op list \<Rightarrow> pydict
   \<Rightarrow> pyexn option \<times> file_op list \<times> pydict" where
  "stage_writes sha render [] ops man = (None, ops, man)"
| "stage_writes sha render (w # ws) ops man =
     (case safe_relative_path (sw_path w) of
        Inl e \<Rightarrow> (Some e, ops, man)
      | Inr rel \<Rightarrow>
          (let p = path_parts rel; staged = fold apply_file_op ops [] in
           if below_file staged p then (Some (PyOtherError ''OSError''), ops, man)
           else case write_bytes render w of
             Inl e \<Rightarrow> (Some e, ops, man)
           | Inr bytes \<Rightarrow>
               (if unwritable staged p then (Some (PyOtherError ''OSError''), ops, man)
                else stage_writes sha render ws (ops @ put_ops p bytes) (dset rel (manifest_entry sha (sw_kind w) bytes) man))))"

definition manifest_of :: "string \<Rightarrow> string \<Rightarrow> pydict \<Rightarrow> pydict \<Rightarrow> pydict" where
  "manifest_of txn now event_watermark man =
     [(''schema'', PStr ''cogev.nexus_snapshot_transaction.v1''), (''transaction_id'', PStr txn), (''created_at'', PStr now),
      (''event_watermark'', PDict event_watermark), (''files'', PDict man)]"

text \<open>The file operations of a complete staging directory: the writes, the manifest, and the removal of the locks.\<close>

definition stage_ops :: "(pyval \<Rightarrow> bool \<Rightarrow> string) \<Rightarrow> file_op list \<Rightarrow> pydict \<Rightarrow> pydict \<Rightarrow> file_op list" where
  "stage_ops render ops manifest man =
     ops @ put_ops [MANIFEST] (render (PDict manifest) True) @
     map (\<lambda>rel. Del (lock_name (path_parts rel))) (map fst man @ [MANIFEST])"

text \<open>\<open>_prune_generations\<close> removes a generation file by file; a crash may leave a part of it.\<close>

definition rmtree_ops :: "string \<Rightarrow> files \<Rightarrow> fs_op list" where
  "rmtree_ops t fs = map (\<lambda>(p, _). GenOp t (Del p)) fs @ [DropGen t]"

definition prune_ops :: "(string \<times> files) list \<Rightarrow> string list \<Rightarrow> fs_op list" where
  "prune_ops gens keep =
     concat (map (\<lambda>(t, fs). rmtree_ops t fs)
       (filter (\<lambda>(t, _). starts_with ''txn-'' t \<and> t \<notin> set keep) gens))"

text \<open>The published files by their relative path, or the exception, and the operations performed.\<close>

definition commit ::
  "(string \<Rightarrow> string) \<Rightarrow> (pyval \<Rightarrow> bool \<Rightarrow> string) \<Rightarrow> string \<Rightarrow> string \<Rightarrow> log_file \<Rightarrow> snapshot_write list \<Rightarrow> snap_root
   \<Rightarrow> (pyexn + pydict) \<times> fs_op list" where
  "commit sha render now txn events writes st =
     (case resolve st of
        Inl e \<Rightarrow> (Inl e, [])
      | Inr previous \<Rightarrow>
          (case stage_writes sha render writes [] [] of
             (Some e, ops, _) \<Rightarrow> (Inl e, MkStaging txn # map (Stage txn) ops @ [DropStaging txn])
           | (None, ops, man) \<Rightarrow>
               (if unwritable (fold apply_file_op ops []) [MANIFEST]
                then (Inl (PyOtherError ''OSError''), MkStaging txn # map (Stage txn) ops @ [DropStaging txn])
                else let manifest = manifest_of txn now (watermark ''events.jsonl'' events) man;
                    staged = stage_ops render ops manifest man;
                    keep = txn # (case previous of Some t \<Rightarrow> [t] | None \<Rightarrow> [])
                in (Inr man,
                    (MkStaging txn # map (Stage txn) staged @ [PublishDir txn]) @
                    SwitchCurrent (pointer_to txn) #
                    prune_ops (dset txn (fold apply_file_op staged []) (sr_generations st)) keep))))"

section \<open>Reading\<close>

definition read_snapshot_json ::
  "(string \<Rightarrow> string) \<Rightarrow> (string \<Rightarrow> pyval option) \<Rightarrow> bool \<Rightarrow> files \<Rightarrow> string \<Rightarrow> pyexn + pyval" where
  "read_snapshot_json sha loads published fs path =
     sbind (safe_relative_path path) (\<lambda>rel.
       case map_of fs (path_parts rel) of
         None \<Rightarrow> Inl (PyOtherError ''FileNotFoundError'')
       | Some payload \<Rightarrow>
           (let decoded = (case loads payload of Some v \<Rightarrow> Inr v | None \<Rightarrow> Inl PyValueError) in
            case map_of fs [MANIFEST] of
              None \<Rightarrow> (if published then Inl PyValueError else decoded)
            | Some raw \<Rightarrow>
                (case loads raw of
                   None \<Rightarrow> Inl PyValueError
                 | Some manifest \<Rightarrow>
                     (let table = (case manifest of PDict m \<Rightarrow> dget m ''files'' | _ \<Rightarrow> PNone);
                          entry = (case table of PDict t \<Rightarrow> dget t rel | _ \<Rightarrow> PNone);
                          expected = (case entry of PDict e \<Rightarrow> str_field (dget e ''sha256'') [] | _ \<Rightarrow> [])
                      in if expected = [] \<or> sha payload \<noteq> expected then Inl PyValueError else decoded))))"

section \<open>Crashes\<close>

text \<open>Operations that a reader of a pointer and of one generation does not see.\<close>

fun unseen :: "string option \<Rightarrow> fs_op \<Rightarrow> bool" where
  "unseen g (PublishDir t) = (g \<noteq> Some t)"
| "unseen g (SwitchCurrent target) = False"
| "unseen g (GenOp t f) = (g \<noteq> Some t)"
| "unseen g (DropGen t) = (g \<noteq> Some t)"
| "unseen g (MkStaging t) = True"
| "unseen g (Stage t f) = True"
| "unseen g (DropStaging t) = True"

lemma dir_of_simps [simp]:
  "dir_of (dset t fs ds) u = (if u = t then fs else dir_of ds u)"
  "dir_of (ddel t ds) u = (if u = t then [] else dir_of ds u)"
  by (simp_all add: dir_of_def delete_conv)

definition seen :: "string option \<Rightarrow> snap_root \<Rightarrow> string option \<times> files" where
  "seen g st = (sr_current st, case g of None \<Rightarrow> sr_flat st | Some t \<Rightarrow> dir_of (sr_generations st) t)"

lemma seen_op: "unseen g op \<Longrightarrow> seen g (apply_op op st) = seen g st"
  by (cases op) (auto simp: seen_def split: option.splits)

lemma seen_ops: "list_all (unseen g) ops \<Longrightarrow> seen g (apply_ops ops st) = seen g st"
  by (induction ops arbitrary: st) (auto simp: apply_ops_def seen_op)

lemma apply_ops_append: "apply_ops (xs @ ys) st = apply_ops ys (apply_ops xs st)"
  by (simp add: apply_ops_def)

lemma resolve_current: "sr_current st' = sr_current st \<Longrightarrow> resolve st' = resolve st"
  by (simp add: resolve_def)

lemma snapshot_seen:
  "resolve st = Inr g \<Longrightarrow> snapshot_files st = Inr (snd (seen g st))"
  by (simp add: snapshot_files_def seen_def split: option.splits)

lemma staged_dir:
  "dir_of (sr_staging (apply_ops (MkStaging t # map (Stage t) ops) st)) t = fold apply_file_op ops []"
proof (induction ops rule: rev_induct)
  case (snoc f ops)
  have "MkStaging t # map (Stage t) (ops @ [f]) = (MkStaging t # map (Stage t) ops) @ [Stage t f]" by simp
  then show ?case using snoc by (simp only: apply_ops_append) (simp add: apply_ops_def)
qed (simp add: apply_ops_def dir_of_def)

lemma resolve_new:
  assumes "starts_with ''txn-'' txn" "CHR ''/'' \<notin> set txn" "sr_current st = Some (pointer_to txn)"
  shows "resolve st = Inr (Some txn)"
proof -
  have "split_on (CHR ''/'') (GENERATIONS @ (CHR ''/'') # txn) = [GENERATIONS, txn]"
    using assms(2) by (subst split_on_sep) (auto simp: GENERATIONS_def split_on_none)
  moreover have "txn \<noteq> [] \<and> txn \<noteq> ''.''" using assms(1) by auto
  ultimately have "path_parts (GENERATIONS @ ''/'' @ txn) = [GENERATIONS, txn]"
    by (simp add: path_parts_def GENERATIONS_def)
  then show ?thesis
    using assms(1,3) by (simp add: resolve_def pointer_to_def GENERATIONS_def)
qed

lemma unseen_prune: "t \<in> set keep \<Longrightarrow> list_all (unseen (Some t)) (prune_ops gens keep)"
  by (auto simp: prune_ops_def rmtree_ops_def list_all_iff)

lemma unseen_stage: "g \<noteq> Some txn \<Longrightarrow> list_all (unseen g) (MkStaging txn # map (Stage txn) ops @ [PublishDir txn])"
  "list_all (unseen g) (MkStaging txn # map (Stage txn) ops @ [DropStaging txn])"
  by (auto simp: list_all_iff)

lemma list_all_take: "list_all P xs \<Longrightarrow> list_all P (take k xs)"
  by (auto simp: list_all_iff dest: in_set_takeD)

lemma prefix_around: "take k (xs @ y # ys) = (if k \<le> length xs then take k xs else xs @ y # take (k - length xs - 1) ys)"
  by (auto simp: take_Cons' not_le)

text \<open>The operations of a commit: one that fails stages and cleans up, one that succeeds publishes, switches and prunes.\<close>

abbreviation commit_manifest where
  "commit_manifest txn now events man \<equiv> manifest_of txn now (watermark ''events.jsonl'' events) man"

abbreviation kept_generations where
  "kept_generations txn prev \<equiv> txn # (case prev of Some t \<Rightarrow> [t] | None \<Rightarrow> [])"

lemma commit_cases:
  assumes "commit sha render now txn events writes st = (r, ops)" "resolve st = Inr prev"
  obtains (failed) e fops where "r = Inl e" "ops = MkStaging txn # map (Stage txn) fops @ [DropStaging txn]"
  | (published) man fops staged where "r = Inr man" "stage_writes sha render writes [] [] = (None, fops, man)"
      "staged = stage_ops render fops (commit_manifest txn now events man) man"
      "ops = (MkStaging txn # map (Stage txn) staged @ [PublishDir txn]) @ SwitchCurrent (pointer_to txn) #
         prune_ops (dset txn (fold apply_file_op staged []) (sr_generations st)) (kept_generations txn prev)"
proof (cases "stage_writes sha render writes [] []")
  case (fields err fops man)
  show thesis
  proof (cases err)
    case (Some e)
    with fields assms show thesis by (intro failed [of e fops]) (simp_all add: commit_def)
  next
    case None
    show thesis
    proof (cases "unwritable (fold apply_file_op fops []) [MANIFEST]")
      case True
      with None fields assms show thesis
        by (intro failed [of "PyOtherError ''OSError''" fops]) (simp_all add: commit_def)
    next
      case False
      with None fields assms show thesis
        by (intro published [of man fops "stage_ops render fops (commit_manifest txn now events man) man"])
          (simp_all add: commit_def Let_def)
    qed
  qed
qed

lemma commit_shape:
  assumes "commit sha render now txn events writes st = (r, ops)" "resolve st = Inr prev" "prev \<noteq> Some txn"
  obtains (failed) e where "r = Inl e" "list_all (unseen prev) ops"
  | (published) man pre rest where "r = Inr man" "list_all (unseen prev) pre" "list_all (unseen (Some txn)) rest"
      "ops = pre @ SwitchCurrent (pointer_to txn) # rest"
  using assms(1,2)
proof (cases rule: commit_cases)
  case failed
  then show thesis using that(1) unseen_stage(2) by blast
next
  case (published man fops staged)
  then show thesis
    by (intro that(2) [OF published(1) unseen_stage(1) [OF assms(3)] unseen_prune published(4)]) simp
qed

lemma commit_current:
  assumes "commit sha render now txn events writes st = (Inr man, ops)" "resolve st = Inr prev" "prev \<noteq> Some txn"
    and "starts_with ''txn-'' txn" "CHR ''/'' \<notin> set txn"
  shows "resolve (apply_ops ops st) = Inr (Some txn)"
  using assms(1-3)
proof (cases rule: commit_shape)
  case (published man' pre rest)
  let ?mid = "apply_op (SwitchCurrent (pointer_to txn)) (apply_ops pre st)"
  have "seen (Some txn) (apply_ops rest ?mid) = seen (Some txn) ?mid" by (rule seen_ops [OF published(3)])
  then have "sr_current (apply_ops ops st) = Some (pointer_to txn)"
    by (simp add: seen_def published(4) apply_ops_def)
  with assms(4,5) show ?thesis by (rule resolve_new)
qed simp

text \<open>
  C13: crash atomicity. Whatever prefix of the operations of a commit has reached the disk, a reader finds either
  the snapshot that was current before, unchanged, or the new one, complete and as it is after the whole commit; the new
  one only when the commit succeeds. A commit that raises leaves the old snapshot.
\<close>

theorem snapshot_crash_atomic:
  assumes "commit sha render now txn events writes st = (r, ops)" "resolve st = Inr prev" "prev \<noteq> Some txn"
    and "starts_with ''txn-'' txn" "CHR ''/'' \<notin> set txn"
  shows "let st' = apply_ops (take k ops) st in
    resolve st' = Inr prev \<and> snapshot_files st' = snapshot_files st \<or>
    (\<exists>man. r = Inr man) \<and> resolve st' = Inr (Some txn) \<and> snapshot_files st' = snapshot_files (apply_ops ops st)"
proof -
  have old: "resolve (apply_ops os st) = Inr prev \<and> snapshot_files (apply_ops os st) = snapshot_files st"
    if "list_all (unseen prev) os" for os
  proof -
    have same: "seen prev (apply_ops os st) = seen prev st" by (rule seen_ops [OF that])
    then have "resolve (apply_ops os st) = Inr prev"
      using assms(2) resolve_current by (metis prod.inject seen_def)
    with same assms(2) show ?thesis by (simp add: snapshot_seen)
  qed
  from assms(1-3) show ?thesis
  proof (cases rule: commit_shape)
    case failed
    from old [OF list_all_take [OF failed(2)], of k] show ?thesis by (simp add: Let_def)
  next
    case (published man pre rest)
    let ?mid = "apply_op (SwitchCurrent (pointer_to txn)) (apply_ops pre st)"
    have new: "resolve (apply_ops os ?mid) = Inr (Some txn) \<and> snd (seen (Some txn) (apply_ops os ?mid)) = snd (seen (Some txn) ?mid)"
      if "list_all (unseen (Some txn)) os" for os
    proof -
      have same: "seen (Some txn) (apply_ops os ?mid) = seen (Some txn) ?mid" by (rule seen_ops [OF that])
      then have "sr_current (apply_ops os ?mid) = Some (pointer_to txn)"
        by (simp add: seen_def)
      from resolve_new [OF assms(4,5) this] same show ?thesis by simp
    qed
    have split: "apply_ops (pre @ SwitchCurrent (pointer_to txn) # os) st = apply_ops os ?mid" for os
      by (simp add: apply_ops_def)
    show ?thesis
    proof (cases "k \<le> length pre")
      case True
      with old [OF list_all_take [OF published(2)], of k] show ?thesis
        unfolding published(4) prefix_around by (simp add: Let_def)
    next
      case False
      have all: "list_all (unseen (Some txn)) (take (k - length pre - 1) rest)"
        by (rule list_all_take [OF published(3)])
      have "snapshot_files (apply_ops (take (k - length pre - 1) rest) ?mid) = snapshot_files (apply_ops rest ?mid)"
        using new [OF all] new [OF published(3)] by (simp only: snapshot_seen)
      then show ?thesis
        using new [OF all] False unfolding published(4) prefix_around split Let_def
        by (simp add: split published(1) del: One_nat_def)
    qed
  qed
qed

section \<open>Retention\<close>

lemma prune_generation:
  "map_of (sr_generations (apply_ops (rmtree_ops t fs) st)) u =
     (if u = t then None else map_of (sr_generations st) u)"
proof (induction fs arbitrary: st)
  case Nil
  then show ?case by (simp add: rmtree_ops_def apply_ops_def delete_conv)
next
  case (Cons x fs)
  obtain p b where x: "x = (p, b)" by (cases x)
  show ?case using Cons.IH [of "apply_op (GenOp t (Del p)) st"] by (simp add: x rmtree_ops_def apply_ops_def)
qed

lemma pruned_generations:
  "map_of (sr_generations (apply_ops (concat (map (\<lambda>(t, fs). rmtree_ops t fs) gens)) st)) u =
     (if u \<in> fst ` set gens then None else map_of (sr_generations st) u)"
proof (induction gens arbitrary: st)
  case Nil
  then show ?case by (simp add: apply_ops_def)
next
  case (Cons g gens)
  obtain t fs where g: "g = (t, fs)" by (cases g)
  show ?case
    using Cons.IH [of "apply_ops (rmtree_ops t fs) st"] by (simp add: g apply_ops_append prune_generation)
qed

lemma prune_elsewhere:
  "sr_staging (apply_ops (prune_ops gens keep) st) = sr_staging st"
  "sr_flat (apply_ops (prune_ops gens keep) st) = sr_flat st"
proof -
  have "sr_staging (apply_ops os st') = sr_staging st' \<and> sr_flat (apply_ops os st') = sr_flat st'"
    if "\<forall>f\<in>set os. case f of GenOp _ _ \<Rightarrow> True | DropGen _ \<Rightarrow> True | _ \<Rightarrow> False" for os st'
    using that by (induction os arbitrary: st') (auto simp: apply_ops_def split: fs_op.splits)
  then show "sr_staging (apply_ops (prune_ops gens keep) st) = sr_staging st"
    "sr_flat (apply_ops (prune_ops gens keep) st) = sr_flat st"
    by (simp_all add: prune_ops_def rmtree_ops_def case_prod_beta image_iff split: fs_op.splits)
qed

lemma del_dset: "ddel t (dset t fs ds) = ddel t ds"
  by (induction ds) auto

lemma stage_generations:
  "sr_generations (apply_ops (MkStaging t # map (Stage t) ops) st) = sr_generations st"
  "ddel t (sr_staging (apply_ops (MkStaging t # map (Stage t) ops) st)) = ddel t (sr_staging st)"
  "sr_current (apply_ops (MkStaging t # map (Stage t) ops) st) = sr_current st"
  "sr_flat (apply_ops (MkStaging t # map (Stage t) ops) st) = sr_flat st"
  by (induction ops rule: rev_induct) (simp_all add: apply_ops_def del_dset)

lemma stage_dropped:
  "apply_op (DropStaging t) (apply_ops (MkStaging t # map (Stage t) ops) st) = st\<lparr>sr_staging := ddel t (sr_staging st)\<rparr>"
  by (rule snap_root.equality) (simp_all add: stage_generations)

lemma pruned:
  "map_of (sr_generations (apply_ops (prune_ops (sr_generations st) keep) st)) t =
     (if starts_with ''txn-'' t \<and> t \<notin> set keep then None else map_of (sr_generations st) t)"
proof -
  have "t \<in> fst ` set (filter (\<lambda>(t, _). starts_with ''txn-'' t \<and> t \<notin> set keep) gens) \<longleftrightarrow>
      (starts_with ''txn-'' t \<and> t \<notin> set keep) \<and> t \<in> fst ` set gens" for gens :: "(string \<times> files) list"
    by force
  then show ?thesis
    unfolding prune_ops_def pruned_generations by (auto simp: map_of_fst_Some)
qed

text \<open>The state after a commit that publishes.\<close>

lemma commit_published_state:
  assumes "ops = (MkStaging txn # map (Stage txn) staged @ [PublishDir txn]) @ SwitchCurrent (pointer_to txn) #
    prune_ops (dset txn (fold apply_file_op staged []) (sr_generations st)) keep"
  shows "map_of (sr_generations (apply_ops ops st)) t =
      (if starts_with ''txn-'' t \<and> t \<notin> set keep then None
       else ((map_of (sr_generations st))(txn \<mapsto> fold apply_file_op staged [])) t)"
    and "sr_staging (apply_ops ops st) = ddel txn (sr_staging st)"
    and "sr_flat (apply_ops ops st) = sr_flat st"
proof -
  let ?pre = "apply_ops (MkStaging txn # map (Stage txn) staged) st"
  let ?gens = "dset txn (fold apply_file_op staged []) (sr_generations st)"
  let ?mid = "apply_op (SwitchCurrent (pointer_to txn)) (apply_op (PublishDir txn) ?pre)"
  have state: "apply_ops ops st = apply_ops (prune_ops ?gens keep) ?mid"
    unfolding assms by (simp add: apply_ops_def)
  have gens: "sr_generations ?mid = ?gens"
    by (simp add: staged_dir stage_generations)
  have "sr_staging ?mid = ddel txn (sr_staging st)"
    by (simp add: stage_generations)
  then show "sr_staging (apply_ops ops st) = ddel txn (sr_staging st)" by (simp add: state prune_elsewhere)
  show "sr_flat (apply_ops ops st) = sr_flat st" by (simp add: state prune_elsewhere stage_generations)
  show "map_of (sr_generations (apply_ops ops st)) t =
      (if starts_with ''txn-'' t \<and> t \<notin> set keep then None
       else ((map_of (sr_generations st))(txn \<mapsto> fold apply_file_op staged [])) t)"
    using pruned [of ?mid keep t] unfolding state gens by simp
qed

text \<open>
  Retention and clean failure. A commit that raises leaves the generations, the pointer and the flat files
  alone and removes its staging directory. One that succeeds keeps of the published generations exactly the one it wrote
  and, unchanged, the one that was current before; whatever else lies in the directory stays.
\<close>

theorem snapshot_retention:
  assumes "commit sha render now txn events writes st = (r, ops)" "resolve st = Inr prev" "prev \<noteq> Some txn"
    and "starts_with ''txn-'' txn"
  shows "let st' = apply_ops ops st in
    case r of
      Inl e \<Rightarrow> st' = st\<lparr>sr_staging := ddel txn (sr_staging st)\<rparr>
    | Inr man \<Rightarrow> sr_staging st' = ddel txn (sr_staging st) \<and> sr_flat st' = sr_flat st \<and>
        map_of (sr_generations st') txn \<noteq> None \<and>
        (t \<noteq> txn \<longrightarrow> map_of (sr_generations st') t =
           (if prev = Some t \<or> \<not> starts_with ''txn-'' t then map_of (sr_generations st) t else None))"
  using assms(1,2)
proof (cases rule: commit_cases)
  case (failed e' fops)
  have "apply_ops ops st = apply_op (DropStaging txn) (apply_ops (MkStaging txn # map (Stage txn) fops) st)"
    by (simp add: failed(2) apply_ops_def)
  then have "apply_ops ops st = st\<lparr>sr_staging := ddel txn (sr_staging st)\<rparr>"
    by (simp only: stage_dropped)
  with failed(1) show ?thesis by (simp add: Let_def)
next
  case (published man' fops staged)
  note state = commit_published_state [OF published(4)]
  with assms(3,4) published(1) show ?thesis
    by (cases prev) (auto simp: Let_def)
qed

section \<open>Reading back\<close>

definition rel_of :: "snapshot_write \<Rightarrow> string" where
  "rel_of w = (case safe_relative_path (sw_path w) of Inr rel \<Rightarrow> rel | Inl _ \<Rightarrow> [])"

definition place_of :: "snapshot_write \<Rightarrow> fpath" where
  "place_of w = path_parts (rel_of w)"

definition bytes_of :: "(pyval \<Rightarrow> bool \<Rightarrow> string) \<Rightarrow> snapshot_write \<Rightarrow> string" where
  "bytes_of render w = (case write_bytes render w of Inr b \<Rightarrow> b | Inl _ \<Rightarrow> [])"

text \<open>Files that do not get in each other's way: no path twice, and none is the lock or the manifest of another.\<close>

definition separate :: "snapshot_write list \<Rightarrow> bool" where
  "separate ws \<longleftrightarrow> distinct (map place_of ws @ [[MANIFEST]]) \<and>
     list_all (\<lambda>w. place_of w \<notin> set (map lock_name (map place_of ws @ [[MANIFEST]]))) ws \<and>
     [MANIFEST] \<notin> set (map (lock_name \<circ> place_of) ws)"

lemma separateD:
  assumes "separate ws"
  shows "distinct (map place_of ws)" and "[MANIFEST] \<notin> place_of ` set ws"
    and "\<And>w w'. w \<in> set ws \<Longrightarrow> w' \<in> set ws \<Longrightarrow> place_of w \<noteq> lock_name (place_of w')"
    and "\<And>w. w \<in> set ws \<Longrightarrow> place_of w \<noteq> lock_name [MANIFEST]"
    and "\<And>w. w \<in> set ws \<Longrightarrow> lock_name (place_of w) \<noteq> [MANIFEST]"
  using assms by (auto simp: separate_def list_all_iff image_iff)

text \<open>What the staging loop did when it ended without an exception.\<close>

abbreviation write_entry where
  "write_entry sha render w \<equiv> manifest_entry sha (sw_kind w) (bytes_of render w)"

abbreviation puts where
  "puts render ws \<equiv> concat (map (\<lambda>w. put_ops (place_of w) (bytes_of render w)) ws)"

abbreviation record_writes where
  "record_writes sha render \<equiv> fold (\<lambda>w. dset (rel_of w) (write_entry sha render w))"

lemma stage_writes_spec:
  "stage_writes sha render ws ops man = (None, ops', man') \<Longrightarrow>
     ops' = ops @ puts render ws \<and> man' = record_writes sha render ws man \<and>
     list_all (\<lambda>w. safe_relative_path (sw_path w) = Inr (rel_of w)) ws"
proof (induction ws arbitrary: ops man)
  case (Cons w ws)
  then obtain b where b: "safe_relative_path (sw_path w) = Inr (rel_of w)" "write_bytes render w = Inr b"
    by (auto simp: Let_def rel_of_def split: sum.splits if_splits)
  then have "bytes_of render w = b" by (simp add: bytes_of_def)
  with Cons.prems b have "stage_writes sha render ws (ops @ put_ops (place_of w) (bytes_of render w))
      (dset (rel_of w) (write_entry sha render w) man) = (None, ops', man')"
    by (simp add: Let_def place_of_def split: if_splits)
  from Cons.IH [OF this] b show ?case by simp
qed simp

text \<open>A file is what was last put at its path.\<close>

fun op_path :: "file_op \<Rightarrow> fpath" where
  "op_path (Put p b) = p"
| "op_path (Del p) = p"

lemma untouched: "p \<notin> op_path ` set ops \<Longrightarrow> map_of (fold apply_file_op ops fs) p = map_of fs p"
proof (induction ops arbitrary: fs)
  case (Cons f ops)
  then show ?case by (cases f) (auto simp: delete_conv)
qed simp

lemma last_put: "p \<notin> op_path ` set post \<Longrightarrow> map_of (fold apply_file_op (pre @ Put p b # post) fs) p = Some b"
  by (simp add: untouched)

lemma paths_put_ops: "op_path ` set (put_ops p b) = {lock_name p, p}"
  by (auto simp: put_ops_def)

lemma paths_puts:
  "op_path ` set (puts render ws) = lock_name ` place_of ` set ws \<union> place_of ` set ws"
  by (induction ws) (auto simp: image_Un paths_put_ops)

lemma fst_record_writes: "fst ` set (record_writes sha render ws man) = fst ` set man \<union> rel_of ` set ws"
  using dkeys_fold_dset [of rel_of "write_entry sha render" ws man] by (simp add: dkeys_def)

lemma paths_locks:
  "op_path ` set (map (\<lambda>rel. Del (lock_name (path_parts rel))) (map fst (record_writes sha render ws []) @ [MANIFEST])) =
     lock_name ` place_of ` set ws \<union> {lock_name [MANIFEST]}"
proof -
  have manifest: "path_parts MANIFEST = [MANIFEST]" by code_simp
  have locks: "op_path ` set (map (\<lambda>rel. Del (lock_name (path_parts rel))) (map fst xs @ [MANIFEST])) =
      (\<lambda>rel. lock_name (path_parts rel)) ` (fst ` set xs) \<union> {lock_name (path_parts MANIFEST)}" for xs :: pydict
    by (simp add: image_image)
  show ?thesis unfolding locks fst_record_writes manifest by (simp add: image_image place_of_def)
qed

lemma staged_file:
  assumes "separate ws" "w \<in> set ws"
  shows "map_of (fold apply_file_op (stage_ops render (puts render ws) m (record_writes sha render ws [])) []) (place_of w) = Some (bytes_of render w)"
    and "map_of (fold apply_file_op (stage_ops render (puts render ws) m (record_writes sha render ws [])) []) [MANIFEST] = Some (render (PDict m) True)"
proof -
  let ?locks = "map (\<lambda>rel. Del (lock_name (path_parts rel))) (map fst (record_writes sha render ws []) @ [MANIFEST])"
  note sep = separateD [OF assms(1)]
  obtain us vs where ws: "ws = us @ w # vs" using assms(2) by (auto dest: split_list)
  let ?post = "puts render vs @ put_ops [MANIFEST] (render (PDict m) True) @ ?locks"
  have "stage_ops render (puts render ws) m (record_writes sha render ws []) =
      (puts render us @ [Put (lock_name (place_of w)) []]) @ Put (place_of w) (bytes_of render w) # ?post"
    by (simp add: stage_ops_def ws put_ops_def)
  moreover have "place_of w \<notin> op_path ` set ?post"
    unfolding set_append image_Un paths_puts paths_locks paths_put_ops
    using sep(1-4) assms(2) by (auto simp: ws)
  ultimately show "map_of (fold apply_file_op (stage_ops render (puts render ws) m (record_writes sha render ws [])) []) (place_of w) = Some (bytes_of render w)"
    by (simp only: last_put not_False_eq_True)
  have "stage_ops render (puts render ws) m (record_writes sha render ws []) =
      (puts render ws @ [Put (lock_name [MANIFEST]) []]) @ Put [MANIFEST] (render (PDict m) True) # ?locks"
    by (simp add: stage_ops_def put_ops_def)
  moreover have "[MANIFEST] \<notin> op_path ` set ?locks"
    unfolding paths_locks by (auto simp: lock_name_def [of "[MANIFEST]"] dest: sep(5) sym)
  ultimately show "map_of (fold apply_file_op (stage_ops render (puts render ws) m (record_writes sha render ws [])) []) [MANIFEST] = Some (render (PDict m) True)"
    by (simp only: last_put not_False_eq_True)
qed

text \<open>What decoding a text written with sorted keys gives: the value with its dictionaries in key order.\<close>

fun sorted_json :: "pyval \<Rightarrow> pyval" where
  "sorted_json (PDict d) = PDict (sort_key fst (map (map_prod id sorted_json) d))"
| "sorted_json (PList xs) = PList (map sorted_json xs)"
| "sorted_json v = v"

lemma map_of_sort: "distinct (map fst d) \<Longrightarrow> map_of (sort_key fst d) k = map_of d k" for d :: pydict
proof -
  assume d: "distinct (map fst d)"
  have "distinct (map fst (sort_key fst d))"
    using d by (simp add: distinct_map)
  then have "map_of (sort_key fst d) = map_of d"
    using d by (simp add: map_of_inject_set)
  then show ?thesis by simp
qed

lemma sorted_lookup:
  assumes "distinct (map fst d)" "map_of d k = Some v"
  shows "\<exists>d'. sorted_json (PDict d) = PDict d' \<and> dget d' k = sorted_json v"
proof -
  have "map_of (map (map_prod id sorted_json) d) k = Some (sorted_json v)"
    using assms(2) by (induction d) auto
  moreover have "distinct (map fst (map (map_prod id sorted_json) d))"
    using assms(1) by (simp add: map_prod_def case_prod_beta o_def)
  ultimately show ?thesis by (simp add: dget_def map_of_sort)
qed

lemma entry_digest:
  "\<exists>d. sorted_json (manifest_entry sha kind b) = PDict d \<and> str_field (dget d ''sha256'') [] = sha b"
  using sorted_lookup [of "[(''kind'', PStr kind), (''sha256'', PStr (sha b)), (''bytes'', PInt (int (length b)))]" "''sha256''" "PStr (sha b)"]
  by (auto simp: manifest_entry_def simp del: sorted_json.simps(1))

lemma map_of_fold_dset_mem:
  "distinct (map f ws) \<Longrightarrow> w \<in> set ws \<Longrightarrow> map_of (fold (\<lambda>w. dset (f w) (g w)) ws m) (f w) = Some (g w)"
proof (induction ws arbitrary: m)
  case (Cons v ws)
  have keep: "map_of (fold (\<lambda>w. dset (f w) (g w)) ws m') k = map_of m' k" if "k \<notin> f ` set ws" for k m'
    using that by (induction ws arbitrary: m') auto
  show ?case
  proof (cases "w = v")
    case True
    with Cons.prems(1) show ?thesis by (simp add: keep)
  next
    case False
    with Cons show ?thesis by simp
  qed
qed simp

text \<open>The manifest vouches for exactly the digest of the bytes written.\<close>

lemma read_vouched:
  assumes "loads raw = Some (sorted_json (PDict (commit_manifest txn now events (record_writes sha render ws []))))"
    and "distinct (map place_of ws)" "w \<in> set ws" "safe_relative_path (sw_path w) = Inr (rel_of w)"
    and "map_of fs (place_of w) = Some b" "map_of fs [MANIFEST] = Some raw" "sha (bytes_of render w) \<noteq> []"
  shows "read_snapshot_json sha loads published fs (sw_path w) =
    (if sha b = sha (bytes_of render w) then (case loads b of Some v \<Rightarrow> Inr v | None \<Rightarrow> Inl PyValueError) else Inl PyValueError)"
proof -
  let ?man = "record_writes sha render ws []"
  have rels: "distinct (map rel_of ws)"
    using assms(2) by (auto simp: distinct_map place_of_def inj_on_def)
  have "map_of (commit_manifest txn now events ?man) ''files'' = Some (PDict ?man)"
    by (simp add: manifest_of_def)
  moreover have "distinct (map fst (commit_manifest txn now events ?man))"
    by (simp add: manifest_of_def)
  ultimately obtain m where m: "sorted_json (PDict (commit_manifest txn now events ?man)) = PDict m"
      "dget m ''files'' = sorted_json (PDict ?man)"
    using sorted_lookup by blast
  have "map_of ?man (rel_of w) = Some (write_entry sha render w)"
    using rels assms(3) by (rule map_of_fold_dset_mem)
  moreover have "distinct (map fst ?man)" by (rule distinct_fold_dset) simp
  ultimately obtain t where t: "sorted_json (PDict ?man) = PDict t" "dget t (rel_of w) = sorted_json (write_entry sha render w)"
    using sorted_lookup by blast
  obtain d where d: "sorted_json (write_entry sha render w) = PDict d" "str_field (dget d ''sha256'') [] = sha (bytes_of render w)"
    using entry_digest by blast
  show ?thesis
    using assms(4-7) by (simp add: read_snapshot_json_def assms(1) m t d place_of_def Let_def del: sorted_json.simps)
qed

text \<open>
  C22: read back and tamper detection. After a commit that succeeds the current generation holds under every path the bytes
  written there, and the reader returns their decoding. Whatever bytes replace them, the reader returns a value only
  if they have the digest of the bytes written, and raises ValueError otherwise.
\<close>

theorem snapshot_readback:
  assumes "commit sha render now txn events writes st = (Inr man, ops)" "resolve st = Inr prev" "prev \<noteq> Some txn"
    and "starts_with ''txn-'' txn" "CHR ''/'' \<notin> set txn"
    and "separate writes" "w \<in> set writes" "sha (bytes_of render w) \<noteq> []"
    and "loads (render (PDict (commit_manifest txn now events man)) True) = Some (sorted_json (PDict (commit_manifest txn now events man)))"
  shows "\<exists>fs. snapshot_files (apply_ops ops st) = Inr fs \<and> map_of fs (place_of w) = Some (bytes_of render w) \<and>
    read_snapshot_json sha loads True fs (sw_path w) =
      (case loads (bytes_of render w) of Some v \<Rightarrow> Inr v | None \<Rightarrow> Inl PyValueError) \<and>
    (\<forall>b. read_snapshot_json sha loads True (dset (place_of w) b fs) (sw_path w) =
      (if sha b = sha (bytes_of render w) then (case loads b of Some v \<Rightarrow> Inr v | None \<Rightarrow> Inl PyValueError) else Inl PyValueError))"
  using assms(1,2)
proof (cases rule: commit_cases)
  case (published man' fops staged)
  from published(1) have man': "man' = man" by simp
  from stage_writes_spec [OF published(2)] have spec: "fops = puts render writes" "man = record_writes sha render writes []"
      "safe_relative_path (sw_path w) = Inr (rel_of w)"
    using assms(7) by (auto simp: man' list_all_iff)
  let ?fs = "fold apply_file_op staged []"
  note sep = separateD [OF assms(6)]
  have files: "map_of ?fs (place_of w) = Some (bytes_of render w)"
      "map_of ?fs [MANIFEST] = Some (render (PDict (commit_manifest txn now events man)) True)"
    unfolding published(3) man' spec(1,2) by (rule staged_file [OF assms(6,7)])+
  have "snapshot_files (apply_ops ops st) = Inr ?fs"
    using commit_current [OF assms(1-5)] commit_published_state(1) [OF published(4), of txn]
    by (simp add: snapshot_files_def dir_of_def)
  moreover have "[MANIFEST] \<noteq> place_of w" using sep(2) assms(7) by (metis imageI)
  moreover have vouched: "read_snapshot_json sha loads True fs' (sw_path w) =
      (if sha b = sha (bytes_of render w) then (case loads b of Some v \<Rightarrow> Inr v | None \<Rightarrow> Inl PyValueError) else Inl PyValueError)"
    if "map_of fs' (place_of w) = Some b"
      "map_of fs' [MANIFEST] = Some (render (PDict (commit_manifest txn now events man)) True)" for fs' b
    using read_vouched [where loads = loads and sha = sha and render = render, OF assms(9) [unfolded spec(2)] sep(1) assms(7) spec(3) that(1)] that(2) assms(8)
    unfolding spec(2) by blast
  ultimately show ?thesis
    using files(1) vouched [OF files] vouched [of "dset (place_of w) b ?fs" b for b] files(2)
    by (intro exI [of _ ?fs] conjI allI) (simp_all only: map_of_dset fun_upd_same fun_upd_other simp_thms if_True)
qed simp

section \<open>The hypotheses hold of a small commit\<close>

definition demo_sha :: "string \<Rightarrow> string" where "demo_sha b = CHR ''h'' # b"

definition demo_render :: "pyval \<Rightarrow> bool \<Rightarrow> string" where "demo_render v by_key = utf8_encode (json_dumps v @ [newline])"

definition demo_writes :: "snapshot_write list" where
  "demo_writes =
     [\<lparr>sw_path = ''state.json'', sw_kind = ''json'', sw_payload = PDict [(''round'', PInt 2)], sw_sort = True\<rparr>,
      \<lparr>sw_path = ''notes/a.txt'', sw_kind = ''text'', sw_payload = PStr ''ok'', sw_sort = True\<rparr>]"

definition demo_root :: snap_root where
  "demo_root = \<lparr>sr_generations = [(''txn-0'', [([''state.json''], ''{}'')]), (''txn-1'', []), (''old'', [])], sr_staging = [],
     sr_current = Some ''generations/txn-1'', sr_flat = []\<rparr>"

definition demo_commit :: "(pyexn + pydict) \<times> fs_op list" where
  "demo_commit = commit demo_sha demo_render ''now'' ''txn-2'' None demo_writes demo_root"

definition demo_files :: pydict where
  "demo_files = (case fst demo_commit of Inr man \<Rightarrow> man | Inl _ \<Rightarrow> [])"

definition demo_decode :: "string \<Rightarrow> pyval option" where
  "demo_decode t =
     (let manifest = PDict (commit_manifest ''txn-2'' ''now'' None demo_files)
      in if t = demo_render manifest True then Some (sorted_json manifest) else Some (PStr t))"

lemma demo_facts:
  "commit demo_sha demo_render ''now'' ''txn-2'' None demo_writes demo_root = (Inr demo_files, snd demo_commit)"
  "resolve demo_root = Inr (Some ''txn-1'')" "starts_with ''txn-'' ''txn-2''" "CHR ''/'' \<notin> set ''txn-2''" "separate demo_writes"
  by code_simp+

theorem snapshot_crash_atomic_witness:
  "let st' = apply_ops (take 3 (snd demo_commit)) demo_root in
    resolve st' = Inr (Some ''txn-1'') \<and> snapshot_files st' = snapshot_files demo_root \<or>
    (\<exists>man. Inr demo_files = (Inr man :: pyexn + pydict)) \<and> resolve st' = Inr (Some ''txn-2'') \<and>
      snapshot_files st' = snapshot_files (apply_ops (snd demo_commit) demo_root)"
  by (rule snapshot_crash_atomic [OF demo_facts(1,2) _ demo_facts(3,4)]) simp

theorem snapshot_retention_witness:
  "map_of (sr_generations (apply_ops (snd demo_commit) demo_root)) ''txn-0'' = None \<and>
   map_of (sr_generations (apply_ops (snd demo_commit) demo_root)) ''txn-1'' = Some []"
  using snapshot_retention [OF demo_facts(1,2) _ demo_facts(3), of "''txn-0''"]
    snapshot_retention [OF demo_facts(1,2) _ demo_facts(3), of "''txn-1''"]
  by (simp add: Let_def) (simp add: demo_root_def)

theorem snapshot_readback_witness:
  "\<exists>fs. snapshot_files (apply_ops (snd demo_commit) demo_root) = Inr fs \<and>
    read_snapshot_json demo_sha demo_decode True (dset (place_of (hd demo_writes)) ''other'' fs) ''state.json'' = Inl PyValueError"
proof -
  have mem: "hd demo_writes \<in> set demo_writes" by (simp add: demo_writes_def)
  have "sw_path (hd demo_writes) = ''state.json''" by (simp add: demo_writes_def)
  moreover have "demo_sha (bytes_of demo_render (hd demo_writes)) \<noteq> []" by (simp add: demo_sha_def)
  moreover have "demo_decode (demo_render (PDict (commit_manifest ''txn-2'' ''now'' None demo_files)) True) =
      Some (sorted_json (PDict (commit_manifest ''txn-2'' ''now'' None demo_files)))"
    by (simp only: demo_decode_def Let_def simp_thms if_True)
  moreover have "demo_sha ''other'' \<noteq> demo_sha (bytes_of demo_render (hd demo_writes))" by code_simp
  ultimately show ?thesis
    using snapshot_readback [where loads = demo_decode, OF demo_facts(1,2) _ demo_facts(3,4,5) mem] by fastforce
qed

end
