(* ===== verification/EProcess.thy ===== *)
theory EProcess
  imports Prelude
begin

text \<open>
  outcomes/anytime_valid.py: the e-process that decides when enough trials favour a candidate over a baseline, and
  its certificate. Observations and configuration are the coerced dataclasses; the logarithms that the code accumulates are
  real numbers, everything below them is rational and exact. \<open>stable_hash\<close> is the argument \<open>hash\<close>, \<open>now\<close> is the clock.
  The exact e-value, without logarithms, is the reference the code is compared with; the games at the end
  are the experiments in which it is sound.
\<close>

section \<open>Configuration and observations\<close>

record eproc_config =
  ec_metric_id :: string
  ec_direction :: string
  ec_null_margin :: rat
  ec_value_min :: rat
  ec_value_max :: rat
  ec_alpha :: rat
  ec_min_trials :: int
  ec_max_weight :: rat
  ec_fractions :: "rat list"
  ec_version :: string

definition DEFAULT_FRACTIONS :: "rat list" where
  "DEFAULT_FRACTIONS = [1/64, 1/32, 1/16, 1/8, 1/4, 1/2]"

definition config_init :: "eproc_config \<Rightarrow> eproc_config" where
  "config_init c =
     c\<lparr>ec_metric_id := str_or (ec_metric_id c) ''metric'',
       ec_direction := (if lower (str_or (ec_direction c) ''higher'') \<in> {''lower'', ''minimize''} then ''lower'' else ''higher''),
       ec_value_max := (if ec_value_max c \<le> ec_value_min c then ec_value_min c + 1 else ec_value_max c),
       ec_alpha := max (1 / 10 ^ 9) (min 1 (ec_alpha c)),
       ec_min_trials := max 1 (if ec_min_trials c = 0 then 1 else ec_min_trials c),
       ec_max_weight := max (1 / 10 ^ 9) (ec_max_weight c),
       ec_fractions :=
         (let fs = filter (\<lambda>f. 0 < f \<and> f < 1) (ec_fractions c) in if fs = [] then DEFAULT_FRACTIONS else fs)\<rparr>"

definition config_to_dict :: "eproc_config \<Rightarrow> pydict" where
  "config_to_dict c =
     [(''metric_id'', PStr (ec_metric_id c)), (''direction'', PStr (ec_direction c)), (''null_margin'', PFloat (ec_null_margin c)),
      (''value_min'', PFloat (ec_value_min c)), (''value_max'', PFloat (ec_value_max c)), (''alpha'', PFloat (ec_alpha c)),
      (''min_trials'', PInt (ec_min_trials c)), (''max_single_trial_weight'', PFloat (ec_max_weight c)),
      (''betting_fractions'', PList (map PFloat (ec_fractions c))), (''version'', PStr (ec_version c))]"

definition config_hash :: "(pyval \<Rightarrow> string) \<Rightarrow> eproc_config \<Rightarrow> string" where
  "config_hash hash c = ''epc:'' @ hash (PDict (config_to_dict c))"

record trial_obs =
  ob_trial_id :: string
  ob_sequence_no :: int
  ob_candidate_id :: string
  ob_baseline_id :: string
  ob_metric_id :: string
  ob_candidate_value :: rat
  ob_baseline_value :: rat
  ob_weight :: rat
  ob_evidence_ref :: string
  ob_trusted :: bool
  ob_observed_at :: string

definition observation_init :: "trial_obs \<Rightarrow> trial_obs" where
  "observation_init o1 =
     o1\<lparr>ob_trial_id := str_or (ob_trial_id o1) (''trial:'' @ int_str (ob_sequence_no o1)),
        ob_sequence_no := max 1 (if ob_sequence_no o1 = 0 then 1 else ob_sequence_no o1),
        ob_candidate_id := str_or (ob_candidate_id o1) ''candidate'',
        ob_baseline_id := str_or (ob_baseline_id o1) ''baseline'',
        ob_metric_id := str_or (ob_metric_id o1) ''metric'',
        ob_weight := max 0 (ob_weight o1)\<rparr>"

definition observation_to_dict :: "trial_obs \<Rightarrow> pydict" where
  "observation_to_dict b =
     [(''trial_id'', PStr (ob_trial_id b)), (''sequence_no'', PInt (ob_sequence_no b)), (''candidate_id'', PStr (ob_candidate_id b)),
      (''baseline_id'', PStr (ob_baseline_id b)), (''metric_id'', PStr (ob_metric_id b)),
      (''candidate_value'', PFloat (ob_candidate_value b)), (''baseline_value'', PFloat (ob_baseline_value b)),
      (''weight'', PFloat (ob_weight b)), (''evidence_ref'', PStr (ob_evidence_ref b)), (''trusted'', PBool (ob_trusted b)),
      (''observed_at_utc'', PStr (ob_observed_at b))]"

definition observation_hash :: "(pyval \<Rightarrow> string) \<Rightarrow> trial_obs \<Rightarrow> string" where
  "observation_hash hash b = ''epo:'' @ hash (PDict (ddel ''observed_at_utc'' (observation_to_dict b)))"

text \<open>An item of the list of observations is an object or a decoded dictionary.\<close>

datatype obs_input = ObsObject trial_obs | ObsRaw pyval

definition observation_of_dict :: "string \<Rightarrow> pydict \<Rightarrow> pyexn + trial_obs" where
  "observation_of_dict now d =
     sbind (py_int (py_or (dget d ''sequence_no'') (PInt 1))) (\<lambda>sequence_no.
     sbind (py_float (dget d ''candidate_value'')) (\<lambda>candidate_value.
     sbind (py_float (dget d ''baseline_value'')) (\<lambda>baseline_value.
     sbind (py_float (py_or (dget d ''weight'') (PFloat 1))) (\<lambda>weight.
     Inr (observation_init
       \<lparr>ob_trial_id = str_field (dget d ''trial_id'') [], ob_sequence_no = sequence_no,
        ob_candidate_id = str_field (dget d ''candidate_id'') ''candidate'', ob_baseline_id = str_field (dget d ''baseline_id'') ''baseline'',
        ob_metric_id = str_field (dget d ''metric_id'') ''metric'', ob_candidate_value = candidate_value,
        ob_baseline_value = baseline_value, ob_weight = weight, ob_evidence_ref = str_field (dget d ''evidence_ref'') [],
        ob_trusted = truthy (dget_or d ''trusted'' (PBool True)), ob_observed_at = str_field (dget d ''observed_at_utc'') now\<rparr>)))))"

fun observation_from_any :: "string \<Rightarrow> obs_input \<Rightarrow> trial_obs option" where
  "observation_from_any now (ObsObject b) = Some b"
| "observation_from_any now (ObsRaw raw) =
     (let d = coerce_dict raw
      in if d = [] then None else case observation_of_dict now d of Inl _ \<Rightarrow> None | Inr b \<Rightarrow> Some b)"

definition reject_reason :: "eproc_config \<Rightarrow> trial_obs \<Rightarrow> string list \<Rightarrow> int list \<Rightarrow> string" where
  "reject_reason c b trials seqs =
     (if \<not> ob_trusted b then ''untrusted_observation''
      else if ob_metric_id b \<noteq> ec_metric_id c then ''metric_mismatch''
      else if ob_trial_id b \<in> set trials then ''duplicate_trial_id''
      else if ob_sequence_no b \<in> set seqs then ''duplicate_sequence_no''
      else if ob_weight b \<le> 0 \<or> ec_max_weight c < ob_weight b then ''invalid_observation_weight''
      else if ob_evidence_ref b = [] then ''missing_replayable_evidence_ref''
      else [])"

definition normalized_improvement :: "eproc_config \<Rightarrow> trial_obs \<Rightarrow> rat" where
  "normalized_improvement c b =
     (let raw0 = ob_candidate_value b - ob_baseline_value b;
          raw = (if ec_direction c = ''lower'' then - raw0 else raw0);
          scale = max (1 / 10 ^ 12) (ec_value_max c - ec_value_min c)
      in max (-1) (min 1 ((raw - ec_null_margin c) / scale)))"

section \<open>The process\<close>

text \<open>The observations that count, and the records of the others.\<close>

fun screen :: "(pyval \<Rightarrow> string) \<Rightarrow> eproc_config \<Rightarrow> trial_obs option list \<Rightarrow> string list \<Rightarrow> int list \<Rightarrow> trial_obs list \<times> pydict list" where
  "screen hash c [] trials seqs = ([], [])"
| "screen hash c (None # items) trials seqs =
     (let (accepted, rejected) = screen hash c items trials seqs
      in (accepted, [(''reason'', PStr ''malformed_observation'')] # rejected))"
| "screen hash c (Some b # items) trials seqs =
     (let reason = reject_reason c b trials seqs
      in if reason \<noteq> [] then
           (let (accepted, rejected) = screen hash c items trials seqs
            in (accepted, [(''reason'', PStr reason), (''observation_hash'', PStr (observation_hash hash b)),
                           (''trial_id'', PStr (ob_trial_id b))] # rejected))
         else
           (let (accepted, rejected) = screen hash c items (ob_trial_id b # trials) (ob_sequence_no b # seqs)
            in (b # accepted, rejected)))"

definition log_mean_exp :: "real list \<Rightarrow> real" where
  "log_mean_exp vs =
     (if vs = [] then 0
      else let top = Max (set vs) in top + ln (sum_list (map (\<lambda>v. exp (v - top)) vs) / real (length vs)))"

definition trial_weight :: "eproc_config \<Rightarrow> trial_obs \<Rightarrow> rat" where
  "trial_weight c b = min (ec_max_weight c) (max 0 (ob_weight b))"

definition increment :: "eproc_config \<Rightarrow> trial_obs \<Rightarrow> rat \<Rightarrow> rat" where
  "increment c b lam = max (1 / 10 ^ 12) (1 + lam * trial_weight c b * normalized_improvement c b)"

record eproc_acc =
  ea_log_components :: "real list"
  ea_max_log :: real
  ea_crossed :: bool
  ea_crossing :: int

definition observe :: "eproc_config \<Rightarrow> trial_obs list \<Rightarrow> trial_obs \<Rightarrow> eproc_acc \<Rightarrow> eproc_acc" where
  "observe c accepted b a =
     (let comps = map2 (\<lambda>lam v. v + ln (of_rat (increment c b lam))) (ec_fractions c) (ea_log_components a);
          log_e = log_mean_exp comps;
          now_crossed = (\<not> ea_crossed a \<and>
            ec_min_trials c \<le> int (length (filter (\<lambda>b'. ob_sequence_no b' \<le> ob_sequence_no b) accepted)) \<and>
            ln (of_rat (1 / ec_alpha c)) \<le> log_e)
      in \<lparr>ea_log_components = comps, ea_max_log = max (ea_max_log a) log_e, ea_crossed = (ea_crossed a \<or> now_crossed),
          ea_crossing = (if now_crossed then ob_sequence_no b else ea_crossing a)\<rparr>)"

record eproc_state =
  es_config_hash :: string
  es_observation_hashes :: "string list"
  es_count :: int
  es_log_components :: "real list"
  es_log_e :: real
  es_max_log_e :: real
  es_crossed :: bool
  es_crossing :: int
  es_rejected :: "pydict list"

definition start_acc :: "eproc_config \<Rightarrow> eproc_acc" where
  "start_acc c = \<lparr>ea_log_components = map (\<lambda>_. 0) (ec_fractions c), ea_max_log = 0, ea_crossed = False, ea_crossing = 0\<rparr>"

definition accept_order :: "trial_obs list \<Rightarrow> trial_obs list" where
  "accept_order = sort_key (\<lambda>b. (ob_sequence_no b, ob_trial_id b))"

definition run_e_process :: "(pyval \<Rightarrow> string) \<Rightarrow> string \<Rightarrow> eproc_config \<Rightarrow> obs_input list \<Rightarrow> eproc_state" where
  "run_e_process hash now c items =
     (let (screened, rejected) = screen hash c (map (observation_from_any now) items) [] [];
          accepted = accept_order screened;
          a = fold (observe c accepted) accepted (start_acc c);
          log_e = (if accepted = [] then 0 else log_mean_exp (ea_log_components a))
      in \<lparr>es_config_hash = config_hash hash c, es_observation_hashes = map (observation_hash hash) accepted,
          es_count = int (length accepted), es_log_components = ea_log_components a, es_log_e = log_e,
          es_max_log_e = max (ea_max_log a) log_e, es_crossed = ea_crossed a, es_crossing = ea_crossing a, es_rejected = rejected\<rparr>)"

section \<open>The certificate\<close>

record solve_certificate =
  sc_scope :: string
  sc_candidate_id :: string
  sc_baseline_id :: string
  sc_problem_hash :: string
  sc_state :: eproc_state
  sc_threshold :: real
  sc_calibration_hash :: string
  sc_falsification_hash :: string
  sc_replay_hash :: string
  sc_evidence_refs :: "string list"
  sc_verified :: bool

definition certificate_init :: "solve_certificate \<Rightarrow> solve_certificate" where
  "certificate_init s =
     s\<lparr>sc_verified := es_crossed (sc_state s) \<and> sc_threshold s \<le> es_log_e (sc_state s) \<and>
        sc_calibration_hash s \<noteq> [] \<and> sc_falsification_hash s \<noteq> [] \<and> sc_replay_hash s \<noteq> []\<rparr>"

definition build_certificate ::
  "(pyval \<Rightarrow> string) \<Rightarrow> string \<Rightarrow> string \<Rightarrow> string \<Rightarrow> string \<Rightarrow> string \<Rightarrow> eproc_config \<Rightarrow> obs_input list \<Rightarrow> string \<Rightarrow> string \<Rightarrow> string
   \<Rightarrow> solve_certificate" where
  "build_certificate hash now scope candidate baseline problem c items calibration falsification replay =
     certificate_init
       \<lparr>sc_scope = scope, sc_candidate_id = candidate, sc_baseline_id = baseline, sc_problem_hash = problem,
        sc_state = run_e_process hash now c items, sc_threshold = ln (of_rat (1 / ec_alpha c)),
        sc_calibration_hash = calibration, sc_falsification_hash = falsification, sc_replay_hash = replay,
        sc_evidence_refs =
          dedupe (map ob_evidence_ref (filter (\<lambda>b. ob_trusted b \<and> ob_evidence_ref b \<noteq> [])
            (List.map_filter (observation_from_any now) items))),
        sc_verified = False\<rparr>"

text \<open>Decoding a stored certificate. Its constructor computes the flag \<open>verified\<close> from the stored state.\<close>

definition state_of_dict :: "pydict \<Rightarrow> pyexn + eproc_state" where
  "state_of_dict d =
     sbind (iter_items (dget_or d ''observation_hashes'' (PList []))) (\<lambda>hashes.
     sbind (py_int (py_or (dget d ''count'') (PInt 0))) (\<lambda>count.
     sbind (sbind (iter_items (dget_or d ''log_component_values'' (PList []))) (list_all_ok py_float)) (\<lambda>comps.
     sbind (py_float (py_or (dget d ''log_e_value'') (PFloat 0))) (\<lambda>log_e.
     sbind (py_float (py_or (dget d ''max_log_e_value'') (PFloat 0))) (\<lambda>max_log_e.
     sbind (py_int (py_or (dget d ''crossing_sequence_no'') (PInt 0))) (\<lambda>crossing.
     sbind (iter_items (dget_or d ''rejected_observations'' (PList []))) (\<lambda>rejected.
     Inr \<lparr>es_config_hash = str_field (dget d ''config_hash'') [], es_observation_hashes = map py_str hashes, es_count = count,
          es_log_components = map of_rat comps, es_log_e = of_rat log_e, es_max_log_e = of_rat max_log_e,
          es_crossed = truthy (dget d ''crossed''), es_crossing = crossing, es_rejected = map coerce_dict rejected\<rparr>)))))))"

definition certificate_from_any :: "pyval \<Rightarrow> pyexn + solve_certificate option" where
  "certificate_from_any raw =
     (let d = coerce_dict raw; sd = coerce_dict (dget d ''e_process_state'')
      in if sd = [] then Inr None
         else sbind (state_of_dict sd) (\<lambda>st.
           sbind (py_float (py_or (dget d ''threshold_log_e_value'') (PFloat 0))) (\<lambda>threshold.
           sbind (iter_items (dget_or d ''trusted_evidence_refs'' (PList []))) (\<lambda>refs.
           Inr (Some (certificate_init
             \<lparr>sc_scope = str_field (dget d ''scope'') [], sc_candidate_id = str_field (dget d ''candidate_id'') [],
              sc_baseline_id = str_field (dget d ''baseline_id'') [], sc_problem_hash = str_field (dget d ''problem_model_snapshot_hash'') [],
              sc_state = st, sc_threshold = of_rat threshold,
              sc_calibration_hash = str_field (dget d ''calibration_snapshot_hash'') [],
              sc_falsification_hash = str_field (dget d ''falsification_bundle_hash'') [],
              sc_replay_hash = str_field (dget d ''structural_replay_bundle_hash'') [],
              sc_evidence_refs = map py_str refs, sc_verified = False\<rparr>))))))"

text \<open>\<open>verify_anytime_valid_certificate\<close>: the hash of the state is never empty.\<close>

datatype cert_input = CertObject solve_certificate | CertRaw pyval

definition verify_certificate :: "cert_input \<Rightarrow> pyexn + bool" where
  "verify_certificate x =
     sbind (case x of CertObject s \<Rightarrow> Inr (Some s) | CertRaw raw \<Rightarrow> certificate_from_any raw) (\<lambda>s.
       Inr (case s of None \<Rightarrow> False | Some s \<Rightarrow> sc_verified s))"

section \<open>The exact e-value\<close>

definition e_components :: "eproc_config \<Rightarrow> trial_obs list \<Rightarrow> rat list" where
  "e_components c bs = map (\<lambda>lam. prod_list (map (\<lambda>b. increment c b lam) bs)) (ec_fractions c)"

definition e_value :: "eproc_config \<Rightarrow> trial_obs list \<Rightarrow> rat" where
  "e_value c bs = sum_list (e_components c bs) / of_nat (length (ec_fractions c))"

text \<open>The first number of observations at which the exact e-value reaches \<open>1/alpha\<close>, from the minimum on.\<close>

definition crosses :: "eproc_config \<Rightarrow> trial_obs list \<Rightarrow> nat \<Rightarrow> bool" where
  "crosses c bs k \<longleftrightarrow> 0 < k \<and> k \<le> length bs \<and> ec_min_trials c \<le> int k \<and> 1 \<le> ec_alpha c * e_value c (take k bs)"

lemma increment_pos [simp]: "0 < increment c b lam"
  by (simp add: increment_def less_max_iff_disj)

lemma prod_increment_pos: "0 < prod_list (map (\<lambda>b. increment c b lam) bs)"
  by (induction bs) simp_all

lemma e_components_pos: "v \<in> set (e_components c bs) \<Longrightarrow> 0 < v"
  by (auto simp: e_components_def prod_increment_pos)

lemma sum_list_pos: "vs \<noteq> [] \<Longrightarrow> (\<And>v. v \<in> set vs \<Longrightarrow> 0 < v) \<Longrightarrow> 0 < sum_list vs" for vs :: "rat list"
  by (induction vs) (auto, metis add_pos_pos sum_list.Nil add.right_neutral)

lemma e_value_pos: "ec_fractions c \<noteq> [] \<Longrightarrow> 0 < e_value c bs"
  unfolding e_value_def by (intro divide_pos_pos sum_list_pos) (auto simp: e_components_def prod_increment_pos)

text \<open>Shifting by the maximum does not change the value: the routine computes the logarithm of the mean.\<close>

lemma log_mean_exp_ln:
  assumes "vs \<noteq> []" "\<And>v. v \<in> set vs \<Longrightarrow> 0 < v"
  shows "log_mean_exp (map ln vs) = ln (sum_list vs / real (length vs))"
proof -
  let ?top = "Max (set (map ln vs))"
  have "map (\<lambda>v. exp (v - ?top)) (map ln vs) = map (\<lambda>v. v * exp (- ?top)) vs"
    using assms(2) by (simp add: exp_diff exp_minus field_simps)
  then have sum: "sum_list (map (\<lambda>v. exp (v - ?top)) (map ln vs)) = sum_list vs * exp (- ?top)"
    by (simp only: sum_list_mult_const list.map_ident)
  have "0 < sum_list vs"
    using assms by (induction vs) (auto, metis add_pos_pos sum_list.Nil add.right_neutral)
  then have pos: "0 < sum_list vs / real (length vs)" using assms(1) by simp
  have "log_mean_exp (map ln vs) = ?top + ln (sum_list vs / real (length vs) * exp (- ?top))"
    using assms(1) unfolding log_mean_exp_def Let_def sum by (simp only: map_is_Nil_conv if_False length_map times_divide_eq_left)
  also have "\<dots> = ?top + (ln (sum_list vs / real (length vs)) + ln (exp (- ?top)))"
    using pos by (subst ln_mult_pos) simp_all
  finally show ?thesis by simp
qed

section \<open>The run against the exact e-value\<close>

abbreviation seq_increasing :: "trial_obs list \<Rightarrow> bool" where
  "seq_increasing \<equiv> sorted_wrt (\<lambda>b b'. ob_sequence_no b < ob_sequence_no b')"

lemma map2_self: "map2 f xs (map g xs) = map (\<lambda>x. f x (g x)) xs"
  by (induction xs) auto

lemma log_components_snoc:
  "map2 (\<lambda>lam v. v + ln (of_rat (increment c b lam))) (ec_fractions c) (map (\<lambda>v. ln (of_rat v)) (e_components c bs)) =
     map (\<lambda>v. ln (of_rat v :: real)) (e_components c (bs @ [b]))"
proof -
  have "ln (of_rat (prod_list (map (\<lambda>b. increment c b lam) bs)) :: real) + ln (of_rat (increment c b lam)) =
      ln (of_rat (prod_list (map (\<lambda>b. increment c b lam) bs) * increment c b lam))" for lam
    using prod_increment_pos [of c lam bs] by (subst of_rat_mult, subst ln_mult_pos) simp_all
  then show ?thesis by (simp add: e_components_def map2_self)
qed

lemma log_mean_components:
  assumes "ec_fractions c \<noteq> []"
  shows "log_mean_exp (map (\<lambda>v. ln (of_rat v)) (e_components c bs)) = ln (of_rat (e_value c bs))"
proof -
  have "log_mean_exp (map ln (map of_rat (e_components c bs))) =
      ln (sum_list (map of_rat (e_components c bs)) / real (length (map of_rat (e_components c bs) :: real list)))"
    using assms by (intro log_mean_exp_ln) (auto simp: e_components_def prod_increment_pos)
  moreover have "sum_list (map of_rat vs) = (of_rat (sum_list vs) :: real)" for vs
    by (induction vs) (simp_all add: of_rat_add)
  moreover have "length (e_components c bs) = length (ec_fractions c)" by (simp add: e_components_def)
  ultimately show ?thesis
    by (simp only: e_value_def of_rat_divide of_rat_of_nat_eq length_map map_map o_def)
qed

lemma threshold_exact:
  "0 < a \<Longrightarrow> 0 < e \<Longrightarrow> ln (of_rat (1 / a)) \<le> ln (of_rat e :: real) \<longleftrightarrow> 1 \<le> a * e"
proof -
  assume pos: "0 < a" "0 < e"
  then have "ln (of_rat (1 / a)) \<le> ln (of_rat e :: real) \<longleftrightarrow> (of_rat (1 / a) :: real) \<le> of_rat e"
    by (subst ln_le_cancel_iff) simp_all
  also have "\<dots> \<longleftrightarrow> 1 \<le> a * e" using pos by (simp add: of_rat_less_eq divide_le_eq mult.commute)
  finally show ?thesis .
qed

lemma counted_prefix:
  "seq_increasing (pre @ b # post) \<Longrightarrow> filter (\<lambda>b'. ob_sequence_no b' \<le> ob_sequence_no b) (pre @ b # post) = pre @ [b]"
proof -
  assume inc: "seq_increasing (pre @ b # post)"
  have "filter (\<lambda>b'. ob_sequence_no b' \<le> ob_sequence_no b) pre = pre"
    using inc by (intro filter_True) (auto simp: sorted_wrt_append)
  moreover have "filter (\<lambda>b'. ob_sequence_no b' \<le> ob_sequence_no b) post = []"
    using inc by (intro filter_False) (auto simp: sorted_wrt_append)
  ultimately show ?thesis by simp
qed

text \<open>The loop invariant: the logarithms of the exact components, and the first crossing so far.\<close>

definition loop_exact :: "eproc_config \<Rightarrow> trial_obs list \<Rightarrow> nat \<Rightarrow> eproc_acc \<Rightarrow> bool" where
  "loop_exact c bs n a \<longleftrightarrow>
     ea_log_components a = map (\<lambda>v. ln (of_rat v)) (e_components c (take n bs)) \<and>
     (if ea_crossed a then \<exists>k\<le>n. crosses c bs k \<and> (\<forall>j<k. \<not> crosses c bs j) \<and> ea_crossing a = ob_sequence_no (bs ! (k - 1))
      else (\<forall>k\<le>n. \<not> crosses c bs k) \<and> ea_crossing a = 0)"

lemma observe_exact:
  assumes "seq_increasing bs" "ec_fractions c \<noteq> []" "0 < ec_alpha c" "n < length bs" "loop_exact c bs n a"
  shows "loop_exact c bs (Suc n) (observe c bs (bs ! n) a)"
proof -
  let ?b = "bs ! n" and ?pre = "take n bs" and ?a' = "observe c bs (bs ! n) a"
  have split: "bs = ?pre @ ?b # drop (Suc n) bs" using assms(4) by (rule id_take_nth_drop)
  have take: "take (Suc n) bs = ?pre @ [?b]" using assms(4) by (rule take_Suc_conv_app_nth)
  have comps: "map2 (\<lambda>lam v. v + ln (of_rat (increment c ?b lam))) (ec_fractions c) (ea_log_components a) =
      map (\<lambda>v. ln (of_rat v)) (e_components c (take (Suc n) bs))"
    using assms(5) by (simp add: loop_exact_def take log_components_snoc)
  have "filter (\<lambda>b'. ob_sequence_no b' \<le> ob_sequence_no ?b) bs = take (Suc n) bs"
    using counted_prefix assms(1) split take by metis
  then have count: "length (filter (\<lambda>b'. ob_sequence_no b' \<le> ob_sequence_no ?b) bs) = Suc n"
    using assms(4) by simp
  have test: "ln (of_rat (1 / ec_alpha c)) \<le> log_mean_exp (map (\<lambda>v. ln (of_rat v)) (e_components c (take (Suc n) bs))) \<longleftrightarrow>
      1 \<le> ec_alpha c * e_value c (take (Suc n) bs)"
    unfolding log_mean_components [OF assms(2)] by (rule threshold_exact [OF assms(3) e_value_pos [OF assms(2)]])
  have a': "ea_log_components ?a' = map (\<lambda>v. ln (of_rat v)) (e_components c (take (Suc n) bs))"
      "ea_crossed ?a' \<longleftrightarrow> ea_crossed a \<or> crosses c bs (Suc n)"
      "ea_crossing ?a' = (if \<not> ea_crossed a \<and> crosses c bs (Suc n) then ob_sequence_no ?b else ea_crossing a)"
    using assms(4) by (simp_all add: observe_def Let_def comps count test crosses_def) blast+
  show ?thesis
    using assms(5) unfolding loop_exact_def a' by (auto simp: le_Suc_eq less_Suc_eq_le intro: exI [of _ "Suc n"])
qed

lemma run_loop_exact:
  assumes "seq_increasing bs" "ec_fractions c \<noteq> []" "0 < ec_alpha c"
  shows "loop_exact c bs (length bs) (fold (observe c bs) bs (start_acc c))"
proof -
  have "loop_exact c bs n (fold (observe c bs) (take n bs) (start_acc c))" if "n \<le> length bs" for n
    using that
  proof (induction n)
    case 0
    show ?case by (simp add: loop_exact_def start_acc_def e_components_def crosses_def)
  next
    case (Suc n)
    have "fold (observe c bs) (take (Suc n) bs) (start_acc c) = observe c bs (bs ! n) (fold (observe c bs) (take n bs) (start_acc c))"
      using Suc.prems by (simp add: take_Suc_conv_app_nth)
    then show ?case using Suc observe_exact [OF assms] by simp
  qed
  from this [of "length bs"] show ?thesis by simp
qed

section \<open>Screening\<close>

text \<open>What the screening lets through, whatever the input.\<close>

definition admissible :: "eproc_config \<Rightarrow> trial_obs \<Rightarrow> bool" where
  "admissible c b \<longleftrightarrow> ob_trusted b \<and> ob_metric_id b = ec_metric_id c \<and> 0 < ob_weight b \<and> ob_weight b \<le> ec_max_weight c \<and> ob_evidence_ref b \<noteq> []"

lemma reject_reason_none:
  "reject_reason c b trials seqs = [] \<longleftrightarrow> admissible c b \<and> ob_trial_id b \<notin> set trials \<and> ob_sequence_no b \<notin> set seqs"
  by (auto simp: reject_reason_def admissible_def)

definition screened :: "eproc_config \<Rightarrow> trial_obs option list \<Rightarrow> string list \<Rightarrow> int list \<Rightarrow> trial_obs list \<times> pydict list \<Rightarrow> bool" where
  "screened c items trials seqs r \<longleftrightarrow>
     length (fst r) + length (snd r) = length items \<and> Some ` set (fst r) \<subseteq> set items \<and> list_all (admissible c) (fst r) \<and>
     distinct (map ob_trial_id (fst r)) \<and> distinct (map ob_sequence_no (fst r)) \<and>
     ob_trial_id ` set (fst r) \<inter> set trials = {} \<and> ob_sequence_no ` set (fst r) \<inter> set seqs = {}"

lemma screen_sound: "screened c items trials seqs (screen hash c items trials seqs)"
proof (induction hash c items trials seqs rule: screen.induct)
  case (3 hash c b items trials seqs)
  show ?case
  proof (cases "reject_reason c b trials seqs = []")
    case True
    let ?rest = "screen hash c items (ob_trial_id b # trials) (ob_sequence_no b # seqs)"
    have "screened c items (ob_trial_id b # trials) (ob_sequence_no b # seqs) ?rest"
      using "3.IH"(2) True by simp
    moreover have "screen hash c (Some b # items) trials seqs = (b # fst ?rest, snd ?rest)"
      using True by (simp add: case_prod_beta)
    ultimately show ?thesis
      using True by (auto simp: screened_def reject_reason_none simp del: screen.simps)
  next
    case False
    let ?rest = "screen hash c items trials seqs"
    have "screened c items trials seqs ?rest" using "3.IH"(1) False by simp
    moreover have "fst (screen hash c (Some b # items) trials seqs) = fst ?rest"
      "length (snd (screen hash c (Some b # items) trials seqs)) = Suc (length (snd ?rest))"
      using False by (simp_all add: case_prod_beta)
    ultimately show ?thesis by (auto simp: screened_def simp del: screen.simps)
  qed
qed (auto simp: screened_def case_prod_beta)

lemma accept_order_increasing:
  assumes "distinct (map ob_sequence_no bs)"
  shows "seq_increasing (accept_order bs)"
proof -
  have "sorted (map (\<lambda>b. (ob_sequence_no b, ob_trial_id b)) (accept_order bs))"
    by (simp add: accept_order_def)
  then have "sorted_wrt (\<lambda>b b'. ob_sequence_no b \<le> ob_sequence_no b') (accept_order bs)"
    unfolding sorted_map by (rule sorted_wrt_mono_rel [rotated]) (auto simp: less_eq_prod_def)
  moreover have "distinct (map ob_sequence_no (accept_order bs))"
    using assms by (simp add: accept_order_def distinct_map)
  then have "sorted_wrt (\<lambda>b b'. ob_sequence_no b \<noteq> ob_sequence_no b') (accept_order bs)"
    by (simp add: distinct_map sorted_wrt_iff_nth_less distinct_conv_nth inj_on_def)
  ultimately show ?thesis
    by (simp add: sorted_wrt_iff_nth_less) (metis order_le_neq_trans)
qed

section \<open>Experiments without an effect\<close>

text \<open>
  A finite experiment: after each trial the next one is drawn from a distribution that may depend on everything before, also
  on when to stop. The null hypothesis is that every draw has a mean weighted improvement of at most zero.
\<close>

datatype game = Done | Draw "(rat \<times> trial_obs \<times> game) list"

fun plays :: "game \<Rightarrow> (rat \<times> trial_obs list) list" where
  "plays Done = [(1, [])]"
| "plays (Draw bs) = concat (map (\<lambda>(p, b, g). map (\<lambda>(q, os). (p * q, b # os)) (plays g)) bs)"

definition gain :: "eproc_config \<Rightarrow> trial_obs \<Rightarrow> rat" where
  "gain c b = trial_weight c b * normalized_improvement c b"

fun null_game :: "eproc_config \<Rightarrow> string list \<Rightarrow> int \<Rightarrow> game \<Rightarrow> bool" where
  "null_game c trials n Done \<longleftrightarrow> True"
| "null_game c trials n (Draw bs) \<longleftrightarrow>
     list_all (\<lambda>(p, b, g). 0 \<le> p \<and> admissible c b \<and> ob_trial_id b \<notin> set trials \<and> n < ob_sequence_no b \<and>
       null_game c (ob_trial_id b # trials) (ob_sequence_no b) g) bs \<and>
     sum_list (map (\<lambda>(p, b, g). p) bs) = 1 \<and> sum_list (map (\<lambda>(p, b, g). p * gain c b) bs) \<le> 0"

definition chance :: "(trial_obs list \<Rightarrow> bool) \<Rightarrow> game \<Rightarrow> rat" where
  "chance P g = sum_list (map (\<lambda>(p, os). if P os then p else 0) (plays g))"

lemma chance_Done: "chance P Done = (if P [] then 1 else 0)"
  by (simp add: chance_def)

lemma chance_Draw: "chance P (Draw bs) = sum_list (map (\<lambda>(p, b, g). p * chance (\<lambda>os. P (b # os)) g) bs)"
proof (induction bs)
  case (Cons x bs)
  obtain p b g where x: "x = (p, b, g)" by (cases x)
  have "sum_list (map (\<lambda>(q, os). if P os then q else 0) (map (\<lambda>(q, os). (p * q, b # os)) qs)) =
      p * sum_list (map (\<lambda>(q, os). if P (b # os) then q else 0) qs)" for qs
    by (induction qs) (auto simp: algebra_simps)
  with Cons show ?case by (simp add: x chance_def)
qed (simp add: chance_def)

lemma sum_list_mono_mem:
  "(\<And>x. x \<in> set xs \<Longrightarrow> f x \<le> g x) \<Longrightarrow> sum_list (map f xs) \<le> sum_list (map g xs)" for f g :: "'a \<Rightarrow> rat"
  by (induction xs) (auto intro: add_mono)

lemma game_induct:
  assumes "P Done" "\<And>bs. (\<And>p b g. (p, b, g) \<in> set bs \<Longrightarrow> P g) \<Longrightarrow> P (Draw bs)"
  shows "P g"
proof (induction g)
  case (Draw bs)
  show ?case
  proof (rule assms(2))
    fix p b g
    assume "(p, b, g) \<in> set bs"
    moreover have "(b, g) \<in> Basic_BNFs.snds (p, b, g)" "g \<in> Basic_BNFs.snds (b, g)" by (simp_all add: snds.simps)
    ultimately show "P g" using Draw by blast
  qed
qed (rule assms(1))

lemma chance_bounds:
  "null_game c trials n g \<Longrightarrow> 0 \<le> chance P g \<and> chance P g \<le> 1"
proof (induction g arbitrary: P trials n rule: game_induct)
  case (2 bs)
  have each: "0 \<le> p \<and> 0 \<le> p * chance (\<lambda>os. P (b # os)) g \<and> p * chance (\<lambda>os. P (b # os)) g \<le> p" if "(p, b, g) \<in> set bs" for p b g
    using "2.prems" "2.IH" [OF that] that by (fastforce simp: list_all_iff intro: mult_left_le)
  have "0 \<le> chance P (Draw bs)"
    unfolding chance_Draw by (rule sum_list_nonneg) (use each in auto)
  moreover have "chance P (Draw bs) \<le> sum_list (map (\<lambda>(p, b, g). p) bs)"
    unfolding chance_Draw by (rule sum_list_mono_mem) (use each in auto)
  ultimately show ?case using "2.prems" by simp
qed (simp add: chance_Done)

text \<open>Bets that cannot lose everything: then the floor of the increments is never reached.\<close>

definition bounded_bets :: "eproc_config \<Rightarrow> bool" where
  "bounded_bets c \<longleftrightarrow> ec_fractions c \<noteq> [] \<and> 0 < ec_alpha c \<and>
     list_all (\<lambda>lam. 0 \<le> lam \<and> lam * ec_max_weight c \<le> 1 - 1 / 10 ^ 12) (ec_fractions c)"

lemma increment_bounded:
  assumes "bounded_bets c" "admissible c b" "lam \<in> set (ec_fractions c)"
  shows "increment c b lam = 1 + lam * gain c b"
proof -
  have lam: "0 \<le> lam" "lam * ec_max_weight c \<le> 1 - 1 / 10 ^ 12"
    using assms(1,3) by (auto simp: bounded_bets_def list_all_iff)
  have w: "trial_weight c b = ob_weight b" "0 < ob_weight b" "ob_weight b \<le> ec_max_weight c"
    using assms(2) by (auto simp: trial_weight_def admissible_def)
  have "- ob_weight b \<le> gain c b"
    using w(2) mult_left_mono [of "-1" "normalized_improvement c b" "ob_weight b"]
    by (simp add: gain_def w(1) normalized_improvement_def Let_def)
  then have "lam * - ec_max_weight c \<le> lam * gain c b"
    using lam(1) w(3) by (intro mult_left_mono) auto
  then show ?thesis
    using lam(2) by (simp add: increment_def gain_def mult.assoc max_def)
qed

lemma sum_list_scaled:
  "sum_list (map (\<lambda>l. f l * (1 + l * g)) ls) = sum_list (map f ls) + g * sum_list (map (\<lambda>l. l * f l) ls)" for g :: rat
  by (induction ls) (simp_all add: algebra_simps)

lemma e_value_snoc:
  assumes "bounded_bets c" "admissible c b"
  shows "e_value c (bs @ [b]) = e_value c bs +
    gain c b * (sum_list (map2 (*) (ec_fractions c) (e_components c bs)) / of_nat (length (ec_fractions c)))"
proof -
  have "e_components c (bs @ [b]) = map (\<lambda>lam. prod_list (map (\<lambda>b. increment c b lam) bs) * (1 + lam * gain c b)) (ec_fractions c)"
    by (simp add: e_components_def increment_bounded [OF assms])
  also have "sum_list \<dots> = sum_list (e_components c bs) + gain c b * sum_list (map2 (*) (ec_fractions c) (e_components c bs))"
    unfolding e_components_def map2_self by (rule sum_list_scaled)
  finally show ?thesis by (simp add: e_value_def add_divide_distrib)
qed

lemma crosses_take: "k \<le> length bs \<Longrightarrow> crosses c (bs @ os) k \<longleftrightarrow> crosses c bs k"
  by (auto simp: crosses_def)

lemma crosses_later:
  assumes "\<not> crosses c (bs @ [b]) (Suc (length bs))"
  shows "(\<exists>k>length bs. crosses c (bs @ b # os) k) \<longleftrightarrow> (\<exists>k>length (bs @ [b]). crosses c ((bs @ [b]) @ os) k)"
  using assms crosses_take [of "Suc (length bs)" "bs @ [b]" c os]
  by (simp add: Suc_le_eq [symmetric] del: Suc_le_eq) (metis le_antisym not_less_eq_eq Suc_leD)

text \<open>The chance that the process crosses from now on is at most \<open>alpha\<close> times its present value.\<close>

lemma crossing_chance:
  "bounded_bets c \<Longrightarrow> null_game c trials n g \<Longrightarrow>
     chance (\<lambda>os. \<exists>k>length bs. crosses c (bs @ os) k) g \<le> ec_alpha c * e_value c bs"
proof (induction g arbitrary: bs trials n rule: game_induct)
  case 1
  have "0 \<le> ec_alpha c * e_value c bs"
    using 1(1) e_value_pos [of c bs] by (simp add: bounded_bets_def)
  then show ?case by (auto simp: chance_Done crosses_def)
next
  case (2 ds)
  let ?slope = "sum_list (map2 (*) (ec_fractions c) (e_components c bs)) / of_nat (length (ec_fractions c))"
  let ?hit = "\<lambda>bs os. \<exists>k>length bs. crosses c (bs @ os) k"
  have branch: "p * chance (\<lambda>os. ?hit bs (b # os)) g \<le> p * (ec_alpha c * (e_value c bs + gain c b * ?slope))"
    if mem: "(p, b, g) \<in> set ds" for p b g
  proof -
    have node: "0 \<le> p" "admissible c b" "null_game c (ob_trial_id b # trials) (ob_sequence_no b) g"
      using "2.prems"(2) mem by (auto simp: list_all_iff)
    have snoc: "e_value c bs + gain c b * ?slope = e_value c (bs @ [b])"
      using e_value_snoc [OF "2.prems"(1) node(2)] by simp
    have "chance (\<lambda>os. ?hit bs (b # os)) g \<le> ec_alpha c * e_value c (bs @ [b])"
    proof (cases "crosses c (bs @ [b]) (Suc (length bs))")
      case True
      then have "1 \<le> ec_alpha c * e_value c (bs @ [b])" by (simp add: crosses_def)
      with chance_bounds [OF node(3)] show ?thesis by (meson order_trans)
    next
      case False
      show ?thesis
        using "2.IH" [OF mem "2.prems"(1) node(3), of "bs @ [b]"] by (simp only: crosses_later [OF False])
    qed
    with node(1) snoc show ?thesis by (simp add: mult_left_mono)
  qed
  have "chance (?hit bs) (Draw ds) \<le> sum_list (map (\<lambda>(p, b, g). p * (ec_alpha c * (e_value c bs + gain c b * ?slope))) ds)"
    unfolding chance_Draw by (rule sum_list_mono_mem) (use branch in auto)
  also have "\<dots> = ec_alpha c * (e_value c bs * sum_list (map (\<lambda>(p, b, g). p) ds) + ?slope * sum_list (map (\<lambda>(p, b, g). p * gain c b) ds))"
    by (induction ds) (auto simp: algebra_simps)
  also have "\<dots> \<le> ec_alpha c * e_value c bs"
  proof -
    have "0 \<le> ?slope"
    proof (intro divide_nonneg_nonneg sum_list_nonneg)
      fix v
      assume "v \<in> set (map2 (*) (ec_fractions c) (e_components c bs))"
      with "2.prems"(1) show "0 \<le> v"
        unfolding e_components_def map2_self
        by (auto simp: bounded_bets_def list_all_iff intro!: mult_nonneg_nonneg less_imp_le [OF prod_increment_pos])
    qed simp
    then have "?slope * sum_list (map (\<lambda>(p, b, g). p * gain c b) ds) \<le> 0"
      using "2.prems"(2) by (intro mult_nonneg_nonpos) simp_all
    with "2.prems" show ?thesis by (simp add: bounded_bets_def)
  qed
  finally show ?case .
qed

section \<open>The code in such an experiment\<close>

lemma plays_admissible:
  "null_game c trials n g \<Longrightarrow> (p, os) \<in> set (plays g) \<Longrightarrow>
     0 \<le> p \<and> seq_increasing os \<and> list_all (\<lambda>b. n < ob_sequence_no b \<and> admissible c b \<and> ob_trial_id b \<notin> set trials) os \<and>
     distinct (map ob_trial_id os)"
proof (induction g arbitrary: p os trials n rule: game_induct)
  case (2 ds)
  from "2.prems"(2) obtain q b g r os' where play: "(q, b, g) \<in> set ds" "(r, os') \<in> set (plays g)" "os = b # os'" "p = q * r"
    by auto
  have node: "0 \<le> q" "admissible c b" "ob_trial_id b \<notin> set trials" "n < ob_sequence_no b"
      "null_game c (ob_trial_id b # trials) (ob_sequence_no b) g"
    using "2.prems"(1) play(1) by (auto simp: list_all_iff)
  have rest: "0 \<le> r \<and> seq_increasing os' \<and>
      list_all (\<lambda>b'. ob_sequence_no b < ob_sequence_no b' \<and> admissible c b' \<and> ob_trial_id b' \<notin> set (ob_trial_id b # trials)) os' \<and>
      distinct (map ob_trial_id os')"
    by (rule "2.IH" [OF play(1) node(5) play(2)])
  then have "seq_increasing os" "distinct (map ob_trial_id os)"
    unfolding play(3) by (auto simp: list_all_iff)
  moreover have "list_all (\<lambda>b. n < ob_sequence_no b \<and> admissible c b \<and> ob_trial_id b \<notin> set trials) os"
    using rest node unfolding play(3) by (auto simp: list_all_iff)
  moreover have "0 \<le> p" using rest node(1) by (simp add: play(4))
  ultimately show ?case by simp
qed simp

lemma screen_all:
  "list_all (\<lambda>b. admissible c b \<and> ob_trial_id b \<notin> set trials \<and> ob_sequence_no b \<notin> set seqs) os \<Longrightarrow>
     distinct (map ob_trial_id os) \<Longrightarrow> distinct (map ob_sequence_no os) \<Longrightarrow> screen hash c (map Some os) trials seqs = (os, [])"
proof (induction os arbitrary: trials seqs)
  case (Cons b os)
  then have "reject_reason c b trials seqs = []" by (simp add: reject_reason_none)
  moreover have "screen hash c (map Some os) (ob_trial_id b # trials) (ob_sequence_no b # seqs) = (os, [])"
    using Cons.prems by (intro Cons.IH) (auto simp: list_all_iff, (metis image_eqI)+)
  ultimately show ?case by simp
qed simp

lemma increasing_distinct: "seq_increasing os \<Longrightarrow> distinct (map ob_sequence_no os)"
  by (induction os) auto

lemma accept_order_id: "seq_increasing os \<Longrightarrow> accept_order os = os"
proof -
  assume "seq_increasing os"
  then have "sorted_wrt (\<lambda>b b'. (ob_sequence_no b, ob_trial_id b) \<le> (ob_sequence_no b', ob_trial_id b')) os"
    by (rule sorted_wrt_mono_rel [rotated]) (simp add: less_eq_prod_def)
  then show ?thesis unfolding accept_order_def by (intro sort_key_id_if_sorted) (simp add: sorted_map)
qed

lemma run_admissible:
  assumes "ec_fractions c \<noteq> []" "0 < ec_alpha c" "seq_increasing os" "list_all (admissible c) os" "distinct (map ob_trial_id os)"
  shows "es_crossed (run_e_process hash now c (map ObsObject os)) \<longleftrightarrow> (\<exists>k. crosses c os k)"
    and "os \<noteq> [] \<Longrightarrow> es_log_e (run_e_process hash now c (map ObsObject os)) = ln (of_rat (e_value c os))"
proof -
  have "map (observation_from_any now) (map ObsObject os) = map Some os" by simp
  moreover have "screen hash c (map Some os) [] [] = (os, [])"
    using assms(3-5) by (intro screen_all) (auto simp: list_all_iff increasing_distinct)
  moreover note accept_order_id [OF assms(3)]
  ultimately have run: "es_crossed (run_e_process hash now c (map ObsObject os)) = ea_crossed (fold (observe c os) os (start_acc c))"
      "os \<noteq> [] \<Longrightarrow> es_log_e (run_e_process hash now c (map ObsObject os)) =
        log_mean_exp (ea_log_components (fold (observe c os) os (start_acc c)))"
    by (simp_all add: run_e_process_def Let_def del: map_map list.map_comp)
  have loop: "loop_exact c os (length os) (fold (observe c os) os (start_acc c))"
    by (rule run_loop_exact [OF assms(3,1,2)])
  then show "es_crossed (run_e_process hash now c (map ObsObject os)) \<longleftrightarrow> (\<exists>k. crosses c os k)"
    unfolding run(1) by (auto simp: loop_exact_def crosses_def split: if_splits)
  show "os \<noteq> [] \<Longrightarrow> es_log_e (run_e_process hash now c (map ObsObject os)) = ln (of_rat (e_value c os))"
    using loop run(2) log_mean_components [OF assms(1), of os] by (simp add: loop_exact_def)
qed

lemmas run_crossed = run_admissible(1)

lemma chance_mono:
  assumes "\<And>p os. (p, os) \<in> set (plays g) \<Longrightarrow> 0 \<le> p \<and> (P os \<longrightarrow> Q os)"
  shows "chance P g \<le> chance Q g"
  unfolding chance_def using assms by (intro sum_list_mono_mem) auto

lemma false_alarm:
  assumes "bounded_bets c" "null_game c [] 0 g"
  shows "chance (\<lambda>os. es_crossed (run_e_process hash now c (map ObsObject os))) g \<le> ec_alpha c \<and>
    chance (\<lambda>os. sc_verified (build_certificate hash now scope cand base problem c (map ObsObject os) cal fals rep)) g \<le> ec_alpha c"
proof -
  have c: "ec_fractions c \<noteq> []" "0 < ec_alpha c" using assms(1) by (simp_all add: bounded_bets_def)
  have play: "0 \<le> p \<and> (es_crossed (run_e_process hash now c (map ObsObject os)) \<longleftrightarrow> (\<exists>k>length []. crosses c ([] @ os) k))"
    if "(p, os) \<in> set (plays g)" for p os
  proof -
    have "0 \<le> p" "seq_increasing os" "distinct (map ob_trial_id os)" "list_all (admissible c) os"
      using plays_admissible [OF assms(2) that] by (auto simp: list_all_iff)
    moreover have "(\<exists>k. crosses c os k) \<longleftrightarrow> (\<exists>k>length []. crosses c ([] @ os) k)" by (auto simp: crosses_def)
    ultimately show ?thesis using run_crossed [OF c] by blast
  qed
  have "e_components c [] = map (\<lambda>_. 1) (ec_fractions c)" by (simp add: e_components_def)
  then have "e_value c [] = 1" using c(1) by (simp add: e_value_def map_replicate_const sum_list_replicate)
  moreover have "chance (\<lambda>os. es_crossed (run_e_process hash now c (map ObsObject os))) g \<le> chance (\<lambda>os. \<exists>k>length []. crosses c ([] @ os) k) g"
    by (rule chance_mono) (use play in blast)
  moreover note crossing_chance [OF assms, of "[]"]
  ultimately have crossed: "chance (\<lambda>os. es_crossed (run_e_process hash now c (map ObsObject os))) g \<le> ec_alpha c"
    by (simp only: mult_1_right) (rule order_trans)
  have "chance (\<lambda>os. sc_verified (build_certificate hash now scope cand base problem c (map ObsObject os) cal fals rep)) g \<le>
      chance (\<lambda>os. es_crossed (run_e_process hash now c (map ObsObject os))) g"
    by (rule chance_mono) (use play in \<open>auto simp: build_certificate_def certificate_init_def\<close>)
  with crossed show ?thesis by (blast intro: order_trans)
qed

text \<open>
  The process is anytime valid. In any experiment in which every trial, whatever happened before, has on
  average no weighted improvement over the baseline, the chance that the process ever crosses its threshold, and so that the
  certificate is verified, is at most \<open>alpha\<close>, with optional stopping. Bets times weights must stay below one.
\<close>

theorem eprocess_false_alarm:
  assumes "bounded_bets c" "null_game c [] 0 g"
  shows "chance (\<lambda>os. es_crossed (run_e_process hash now c (map ObsObject os))) g \<le> ec_alpha c \<and>
    chance (\<lambda>os. sc_verified (build_certificate hash now scope cand base problem c (map ObsObject os) cal fals rep)) g \<le> ec_alpha c"
  by (rule false_alarm [OF assms])

definition first_crossing :: "eproc_config \<Rightarrow> trial_obs list \<Rightarrow> int" where
  "first_crossing c bs =
     (case filter (crosses c bs) [1..<Suc (length bs)] of [] \<Rightarrow> 0 | k # _ \<Rightarrow> ob_sequence_no (bs ! (k - 1)))"

lemma crosses_list: "(\<exists>k. crosses c bs k) \<longleftrightarrow> list_ex (crosses c bs) [1..<Suc (length bs)]"
proof -
  have "crosses c bs k \<Longrightarrow> k \<in> {1..<Suc (length bs)}" for k by (simp add: crosses_def)
  then show ?thesis unfolding list_ex_iff set_upt by blast
qed

lemma filter_first:
  assumes "P k" "k < n" "m \<le> k" "\<And>j. j < k \<Longrightarrow> \<not> P j"
  shows "\<exists>ks. filter P [m..<n] = k # ks"
proof -
  have "[m..<n] = [m..<k] @ k # [Suc k..<n]"
    using assms(2,3) by (metis le_add_diff_inverse less_imp_le_nat upt_add_eq_append upt_conv_Cons)
  moreover have "filter P [m..<k] = []" using assms(4) by (simp add: filter_empty_conv)
  ultimately show ?thesis using assms(1) by simp
qed

lemma config_init_ok: "ec_fractions (config_init c) \<noteq> [] \<and> 0 < ec_alpha (config_init c)"
  by (simp add: config_init_def Let_def DEFAULT_FRACTIONS_def less_max_iff_disj)

lemma run_exact:
  fixes c0 :: eproc_config
  defines "c \<equiv> config_init c0"
  shows "\<exists>bs. let st = run_e_process hash now c items in
    list_all (admissible c) bs \<and> Some ` set bs \<subseteq> observation_from_any now ` set items \<and>
    distinct (map ob_trial_id bs) \<and> seq_increasing bs \<and>
    es_count st = int (length bs) \<and> length bs + length (es_rejected st) = length items \<and>
    es_observation_hashes st = map (observation_hash hash) bs \<and>
    es_log_e st = ln (of_rat (e_value c bs)) \<and>
    es_crossed st = list_ex (crosses c bs) [1..<Suc (length bs)] \<and> es_crossing st = first_crossing c bs"
proof -
  let ?screen = "screen hash c (map (observation_from_any now) items) [] []"
  let ?bs = "accept_order (fst ?screen)"
  let ?a = "fold (observe c ?bs) ?bs (start_acc c)"
  note ok = config_init_ok [of c0, folded c_def]
  have sound: "screened c (map (observation_from_any now) items) [] [] ?screen" by (rule screen_sound)
  have inc: "seq_increasing ?bs"
    using sound by (intro accept_order_increasing) (simp add: screened_def)
  have loop: "loop_exact c ?bs (length ?bs) ?a"
    by (rule run_loop_exact [OF inc]) (use ok in simp_all)
  have run: "run_e_process hash now c items =
      \<lparr>es_config_hash = config_hash hash c, es_observation_hashes = map (observation_hash hash) ?bs,
       es_count = int (length ?bs), es_log_components = ea_log_components ?a,
       es_log_e = (if ?bs = [] then 0 else log_mean_exp (ea_log_components ?a)),
       es_max_log_e = max (ea_max_log ?a) (if ?bs = [] then 0 else log_mean_exp (ea_log_components ?a)),
       es_crossed = ea_crossed ?a, es_crossing = ea_crossing ?a, es_rejected = snd ?screen\<rparr>"
    by (simp add: run_e_process_def case_prod_beta Let_def)
  have "e_value c [] = 1"
    using ok by (simp add: e_value_def e_components_def map_replicate_const sum_list_replicate)
  then have log_e: "(if ?bs = [] then 0 else log_mean_exp (ea_log_components ?a)) = ln (of_rat (e_value c ?bs))"
    using loop log_mean_components [of c ?bs] ok by (auto simp: loop_exact_def)
  have crossed: "ea_crossed ?a \<longleftrightarrow> (\<exists>k. crosses c ?bs k)"
    using loop by (auto simp: loop_exact_def crosses_def split: if_splits)
  have crossing: "ea_crossing ?a = first_crossing c ?bs"
  proof (cases "ea_crossed ?a")
    case True
    with loop obtain k where k: "crosses c ?bs k" "\<forall>j<k. \<not> crosses c ?bs j" "ea_crossing ?a = ob_sequence_no (?bs ! (k - 1))"
      by (auto simp: loop_exact_def)
    then obtain ks where "filter (crosses c ?bs) [1..<Suc (length ?bs)] = k # ks"
      using filter_first [of "crosses c ?bs" k "Suc (length ?bs)" 1] by (auto simp: crosses_def)
    with k(3) show ?thesis by (simp add: first_crossing_def)
  next
    case False
    then have "filter (crosses c ?bs) [1..<Suc (length ?bs)] = []"
      using crossed by (simp add: filter_empty_conv)
    moreover have "ea_crossing ?a = 0" using loop False by (simp add: loop_exact_def)
    ultimately show ?thesis by (simp add: first_crossing_def)
  qed
  show ?thesis
    unfolding run Let_def
    by (intro exI [of _ ?bs]) (use sound inc log_e crossed crossing in \<open>auto simp: screened_def accept_order_def distinct_map crosses_list list_all_iff\<close>)
qed

text \<open>
  C10: the process is exact. Whatever the input, the observations that count are admissible, from the input, of
  different trials and in sequence order; every other item is recorded as rejected. The log e-value is the logarithm of the
  exact e-value of the admitted observations, and the process is crossed iff that value, after some number of them from the
  minimum on, has reached \<open>1/alpha\<close>; the first such observation is the crossing.
\<close>

theorem eprocess_exact:
  fixes c0 :: eproc_config
  defines "c \<equiv> config_init c0"
  shows "\<exists>bs. let st = run_e_process hash now c items in
    list_all (admissible c) bs \<and> Some ` set bs \<subseteq> observation_from_any now ` set items \<and>
    distinct (map ob_trial_id bs) \<and> seq_increasing bs \<and>
    es_count st = int (length bs) \<and> length bs + length (es_rejected st) = length items \<and>
    es_observation_hashes st = map (observation_hash hash) bs \<and>
    es_log_e st = ln (of_rat (e_value c bs)) \<and>
    es_crossed st = list_ex (crosses c bs) [1..<Suc (length bs)] \<and> es_crossing st = first_crossing c bs"
  unfolding c_def by (rule run_exact)

section \<open>Certificates\<close>

text \<open>
  A stored certificate is verified from what it says about itself: the flag, the e-value and the threshold
  that it stores, and the presence of three hashes. Neither the observations nor the configuration are consulted.
\<close>

theorem stored_certificate_verified:
  assumes "verify_certificate (CertRaw (PDict d)) = Inr ok"
  defines "st \<equiv> coerce_dict (dget d ''e_process_state'')"
  shows "ok \<longleftrightarrow> st \<noteq> [] \<and> truthy (dget st ''crossed'') \<and>
    (case (py_float (py_or (dget st ''log_e_value'') (PFloat 0)), py_float (py_or (dget d ''threshold_log_e_value'') (PFloat 0))) of
       (Inr log_e, Inr threshold) \<Rightarrow> threshold \<le> log_e | _ \<Rightarrow> False) \<and>
    str_field (dget d ''calibration_snapshot_hash'') [] \<noteq> [] \<and> str_field (dget d ''falsification_bundle_hash'') [] \<noteq> [] \<and>
    str_field (dget d ''structural_replay_bundle_hash'') [] \<noteq> []"
proof (cases "st = []")
  case True
  with assms show ?thesis by (simp add: verify_certificate_def certificate_from_any_def)
next
  case False
  with assms obtain s threshold refs where dec: "state_of_dict st = Inr s"
      "py_float (py_or (dget d ''threshold_log_e_value'') (PFloat 0)) = Inr threshold"
      "iter_items (dget_or d ''trusted_evidence_refs'' (PList [])) = Inr refs"
    by (auto simp: verify_certificate_def certificate_from_any_def res_simps)
  then obtain log_e where log_e: "py_float (py_or (dget st ''log_e_value'') (PFloat 0)) = Inr log_e" "es_log_e s = of_rat log_e"
      "es_crossed s = truthy (dget st ''crossed'')"
    by (auto simp: state_of_dict_def res_simps)
  show ?thesis
    using assms(1) False dec log_e
    by (auto simp: verify_certificate_def certificate_from_any_def certificate_init_def st_def [symmetric] of_rat_less_eq)
qed

theorem stored_certificate_verified_witness:
  "verify_certificate (CertRaw (PDict
     [(''e_process_state'', PDict [(''crossed'', PBool True)]), (''calibration_snapshot_hash'', PStr ''a''),
      (''falsification_bundle_hash'', PStr ''b''), (''structural_replay_bundle_hash'', PStr ''c'')])) = Inr True"
proof -
  let ?d = "[(''e_process_state'', PDict [(''crossed'', PBool True)]), (''calibration_snapshot_hash'', PStr ''a''),
      (''falsification_bundle_hash'', PStr ''b''), (''structural_replay_bundle_hash'', PStr ''c'')]"
  have "\<exists>ok. verify_certificate (CertRaw (PDict ?d)) = Inr ok"
    by (simp add: verify_certificate_def certificate_from_any_def state_of_dict_def dget_def dget_or_def py_or_def py_float_def
        py_int_def iter_items_def)
  then obtain ok where ok: "verify_certificate (CertRaw (PDict ?d)) = Inr ok" by blast
  from stored_certificate_verified [OF ok] have ok
    by (simp add: dget_def py_or_def py_float_def)
  with ok show ?thesis by simp
qed

definition demo_eproc :: eproc_config where
  "demo_eproc = config_init
     \<lparr>ec_metric_id = ''m'', ec_direction = ''higher'', ec_null_margin = 0, ec_value_min = 0, ec_value_max = 1, ec_alpha = 1/2,
      ec_min_trials = 1, ec_max_weight = 1, ec_fractions = [1/2], ec_version = ''v''\<rparr>"

definition demo_trial :: "string \<Rightarrow> int \<Rightarrow> rat \<Rightarrow> trial_obs" where
  "demo_trial who n x =
     \<lparr>ob_trial_id = int_str n, ob_sequence_no = n, ob_candidate_id = who, ob_baseline_id = ''base'', ob_metric_id = ''m'',
      ob_candidate_value = x, ob_baseline_value = 0, ob_weight = 1, ob_evidence_ref = ''e'', ob_trusted = True, ob_observed_at = []\<rparr>"

definition demo_game :: game where
  "demo_game = Draw [(1/2, demo_trial ''A'' 1 1, Draw [(1/2, demo_trial ''A'' 2 1, Done), (1/2, demo_trial ''A'' 2 (-1), Done)]),
     (1/2, demo_trial ''A'' 1 (-1), Done)]"

theorem eprocess_false_alarm_witness:
  "chance (\<lambda>os. es_crossed (run_e_process (\<lambda>_. ''h'') ''now'' demo_eproc (map ObsObject os))) demo_game \<le> 1/2"
proof -
  have "bounded_bets demo_eproc" by code_simp
  moreover have "null_game demo_eproc [] 0 demo_game" by code_simp
  moreover have alpha: "ec_alpha demo_eproc = 1/2" by code_simp
  ultimately show ?thesis
    using eprocess_false_alarm [of demo_eproc demo_game "\<lambda>_. ''h''" "''now''"] by (simp only: alpha simp_thms)
qed

text \<open>Observations of one candidate certify another: the screening never looks at the candidate.\<close>

lemma certificate_of_another_candidate:
  "let cert = build_certificate hash now ''s'' ''A'' ''base'' ''p'' demo_eproc
     (map ObsObject [demo_trial ''B'' 1 1, demo_trial ''B'' 2 1]) ''x'' ''y'' ''z''
   in sc_verified cert \<and> sc_candidate_id cert = ''A''"
proof -
  let ?os = "[demo_trial ''B'' 1 1, demo_trial ''B'' 2 1]"
  have "ec_fractions demo_eproc \<noteq> []" "0 < ec_alpha demo_eproc" by code_simp+
  moreover have inc: "seq_increasing ?os" "distinct (map ob_trial_id ?os)" "list_all (admissible demo_eproc) ?os" by code_simp+
  moreover have "list_ex (crosses demo_eproc ?os) [1..<Suc (length ?os)]" by code_simp
  ultimately have crossed: "es_crossed (run_e_process hash now demo_eproc (map ObsObject ?os))"
      and log_e: "es_log_e (run_e_process hash now demo_eproc (map ObsObject ?os)) = ln (of_rat (e_value demo_eproc ?os))"
    using run_admissible [of demo_eproc ?os hash now] crosses_list [of demo_eproc ?os] by blast+
  have exact: "e_value demo_eproc ?os = 9/4" "1 / ec_alpha demo_eproc = 2" by code_simp+
  have "ln (of_rat (1 / ec_alpha demo_eproc)) \<le> es_log_e (run_e_process hash now demo_eproc (map ObsObject ?os))"
    unfolding log_e exact by (simp add: of_rat_divide)
  with crossed show ?thesis by (simp add: build_certificate_def certificate_init_def Let_def)
qed

text \<open>
  C0: with weights that can lose more than everything the floor of the increments breaks the guarantee. Here
  a single fair trial of weight four, with alpha 2/5, crosses the threshold with chance 1/2.
\<close>

definition heavy_config :: eproc_config where
  "heavy_config = config_init (demo_eproc\<lparr>ec_alpha := 2/5, ec_max_weight := 4\<rparr>)"

definition heavy_trial :: "rat \<Rightarrow> trial_obs" where
  "heavy_trial x = (demo_trial ''A'' 1 x)\<lparr>ob_weight := 4\<rparr>"

definition heavy_game :: game where
  "heavy_game = Draw [(1/2, heavy_trial 1, Done), (1/2, heavy_trial (-1), Done)]"

theorem heavy_bets_unsound:
  "null_game heavy_config [] 0 heavy_game \<and>
   ec_alpha heavy_config < chance (\<lambda>os. es_crossed (run_e_process hash now heavy_config (map ObsObject os))) heavy_game"
proof -
  have c: "ec_fractions heavy_config \<noteq> []" "0 < ec_alpha heavy_config" by code_simp+
  have ok: "seq_increasing [heavy_trial 1]" "list_all (admissible heavy_config) [heavy_trial 1]"
      "distinct (map ob_trial_id [heavy_trial 1])" by code_simp+
  have "list_ex (crosses heavy_config [heavy_trial 1]) [1..<Suc (length [heavy_trial 1])]" by code_simp
  then have "es_crossed (run_e_process hash now heavy_config (map ObsObject [heavy_trial 1]))"
    unfolding run_crossed [OF c ok] crosses_list .
  moreover have "plays heavy_game = [(1/2, [heavy_trial 1]), (1/2, [heavy_trial (-1)])]"
    by (simp add: heavy_game_def)
  moreover have "ec_alpha heavy_config = 2/5" by code_simp
  moreover have "null_game heavy_config [] 0 heavy_game" by code_simp
  ultimately show ?thesis unfolding chance_def by simp
qed

end
