(* ===== verification/Calibration.thy ===== *)
theory Calibration
  imports Prelude
begin

text \<open>
  outcomes/calibration.py: binned calibration statistics of past predictions, and the reasons they give to block a solve
  claim. Floating-point sums are exact rationals. \<open>stable_hash\<close> is the argument \<open>hash\<close>, \<open>now\<close> is the clock. The reference
  is the statistics computed directly from the list of the events that count.
\<close>

section \<open>Events, bins and snapshots\<close>

record cal_policy =
  cp_min_total_count :: int
  cp_min_count_per_required_bin :: int
  cp_max_ece :: rat
  cp_max_mce :: rat
  cp_max_brier_score :: rat
  cp_min_lower_confidence_coverage :: rat
  cp_required_bins :: "int list"

definition default_policy :: cal_policy where
  "default_policy =
     \<lparr>cp_min_total_count = 30, cp_min_count_per_required_bin = 3, cp_max_ece = 12/100, cp_max_mce = 25/100,
      cp_max_brier_score = 22/100, cp_min_lower_confidence_coverage = 80/100, cp_required_bins = []\<rparr>"

record cal_event =
  ce_event_id :: string
  ce_prediction :: rat
  ce_realization :: rat
  ce_lower_bound :: rat
  ce_evidence_ref :: string
  ce_trusted :: bool
  ce_observed_at :: string

definition event_to_dict :: "cal_event \<Rightarrow> pydict" where
  "event_to_dict e =
     [(''event_id'', PStr (ce_event_id e)), (''prediction'', PFloat (ce_prediction e)), (''realization'', PFloat (ce_realization e)),
      (''lower_confidence_bound'', PFloat (ce_lower_bound e)), (''evidence_ref'', PStr (ce_evidence_ref e)),
      (''trusted'', PBool (ce_trusted e)), (''observed_at_utc'', PStr (ce_observed_at e))]"

definition event_hash :: "(pyval \<Rightarrow> string) \<Rightarrow> cal_event \<Rightarrow> string" where
  "event_hash hash e = ''cale:'' @ hash (PDict (ddel ''observed_at_utc'' (event_to_dict e)))"

definition unit_float :: "rat \<Rightarrow> rat" where
  "unit_float q = max 0 (min 1 q)"

definition event_init :: "(pyval \<Rightarrow> string) \<Rightarrow> cal_event \<Rightarrow> cal_event" where
  "event_init hash e =
     e\<lparr>ce_event_id := str_or (ce_event_id e) (hash (PDict (event_to_dict e))), ce_prediction := unit_float (ce_prediction e),
       ce_realization := unit_float (ce_realization e), ce_lower_bound := unit_float (ce_lower_bound e)\<rparr>"

definition event_of_dict :: "(pyval \<Rightarrow> string) \<Rightarrow> string \<Rightarrow> pydict \<Rightarrow> pyexn + cal_event" where
  "event_of_dict hash now d =
     sbind (py_float (dget d ''prediction'')) (\<lambda>prediction.
     sbind (py_float (dget d ''realization'')) (\<lambda>realization.
     sbind (py_float (py_or (dget d ''lower_confidence_bound'') (PFloat 0))) (\<lambda>lower_bound.
     Inr (event_init hash
       \<lparr>ce_event_id = str_field (dget d ''event_id'') [], ce_prediction = prediction, ce_realization = realization,
        ce_lower_bound = lower_bound, ce_evidence_ref = str_field (dget d ''evidence_ref'') [],
        ce_trusted = truthy (dget_or d ''trusted'' (PBool True)), ce_observed_at = str_field (dget d ''observed_at_utc'') now\<rparr>))))"

text \<open>An item is an object constructed from the given fields, or a decoded value.\<close>

datatype cal_input = CalObject cal_event | CalRaw pyval

fun event_from_any :: "(pyval \<Rightarrow> string) \<Rightarrow> string \<Rightarrow> cal_input \<Rightarrow> cal_event option" where
  "event_from_any hash now (CalObject e) = Some (event_init hash e)"
| "event_from_any hash now (CalRaw raw) =
     (let d = coerce_dict raw
      in if d = [] then None else case event_of_dict hash now d of Inl _ \<Rightarrow> None | Inr e \<Rightarrow> Some e)"

record cal_bin =
  cb_lower :: rat
  cb_upper :: rat
  cb_count :: nat
  cb_predicted_sum :: rat
  cb_realized_sum :: rat
  cb_squared_error_sum :: rat
  cb_covered :: nat

definition mean_prediction :: "cal_bin \<Rightarrow> rat" where
  "mean_prediction b = (if cb_count b = 0 then 0 else cb_predicted_sum b / of_nat (cb_count b))"

definition mean_realization :: "cal_bin \<Rightarrow> rat" where
  "mean_realization b = (if cb_count b = 0 then 0 else cb_realized_sum b / of_nat (cb_count b))"

definition calibration_error :: "cal_bin \<Rightarrow> rat" where
  "calibration_error b = \<bar>mean_prediction b - mean_realization b\<bar>"

record cal_snapshot =
  cs_key :: string
  cs_bins :: "cal_bin list"
  cs_total_count :: nat
  cs_brier_score :: rat
  cs_ece :: rat
  cs_mce :: rat
  cs_coverage :: rat
  cs_event_hashes :: "string list"
  cs_rejected :: "pydict list"

section \<open>Materialisation\<close>

definition bin_index :: "nat \<Rightarrow> cal_event \<Rightarrow> nat" where
  "bin_index n e = min (n - 1) (nat (rat_trunc (ce_prediction e * of_nat n)))"

definition empty_bin :: "nat \<Rightarrow> nat \<Rightarrow> cal_bin" where
  "empty_bin n i =
     \<lparr>cb_lower = of_nat i / of_nat n, cb_upper = of_nat (i + 1) / of_nat n, cb_count = 0, cb_predicted_sum = 0,
      cb_realized_sum = 0, cb_squared_error_sum = 0, cb_covered = 0\<rparr>"

definition count_event :: "cal_event \<Rightarrow> cal_bin \<Rightarrow> cal_bin" where
  "count_event e b =
     b\<lparr>cb_count := cb_count b + 1, cb_predicted_sum := cb_predicted_sum b + ce_prediction e,
       cb_realized_sum := cb_realized_sum b + ce_realization e,
       cb_squared_error_sum := cb_squared_error_sum b + (ce_prediction e - ce_realization e) ^ 2,
       cb_covered := cb_covered b + (if ce_lower_bound e \<le> ce_realization e then 1 else 0)\<rparr>"

record cal_acc =
  ca_bins :: "cal_bin list"
  ca_rejected :: "pydict list"
  ca_accepted :: "cal_event list"

definition event_reject :: "string list \<Rightarrow> cal_event \<Rightarrow> string" where
  "event_reject seen e =
     (if \<not> ce_trusted e then ''untrusted_calibration_event''
      else if ce_evidence_ref e = [] then ''missing_replayable_evidence_ref''
      else if ce_event_id e \<in> set seen then ''duplicate_calibration_event''
      else [])"

text \<open>One turn of the loop; the identifiers seen are those of the accepted events.\<close>

definition take_event :: "(pyval \<Rightarrow> string) \<Rightarrow> nat \<Rightarrow> cal_event option \<Rightarrow> cal_acc \<Rightarrow> cal_acc" where
  "take_event hash n oe a =
     (case oe of
        None \<Rightarrow> a\<lparr>ca_rejected := ca_rejected a @ [[(''reason'', PStr ''malformed_calibration_event'')]]\<rparr>
      | Some e \<Rightarrow>
          (let reason = event_reject (map ce_event_id (ca_accepted a)) e
           in if reason \<noteq> [] then
                a\<lparr>ca_rejected := ca_rejected a @ [[(''reason'', PStr reason), (''event_hash'', PStr (event_hash hash e))]]\<rparr>
              else
                a\<lparr>ca_accepted := ca_accepted a @ [e],
                  ca_bins := (ca_bins a)[bin_index n e := count_event e (ca_bins a ! bin_index n e)]\<rparr>))"

definition summarize :: "(pyval \<Rightarrow> string) \<Rightarrow> string \<Rightarrow> cal_acc \<Rightarrow> cal_snapshot" where
  "summarize hash key a =
     (let bins = ca_bins a;
          total = sum_list (map cb_count bins);
          used = filter (\<lambda>b. cb_count b \<noteq> 0) bins
      in \<lparr>cs_key = str_or key ''default'', cs_bins = bins, cs_total_count = total,
          cs_brier_score = (if total = 0 then 0 else sum_list (map cb_squared_error_sum bins) / of_nat total),
          cs_ece = (if total = 0 then 1
             else sum_list (map (\<lambda>b. of_nat (cb_count b) / of_nat total * calibration_error b) used)),
          cs_mce = (if used = [] then 1 else Max (set (map calibration_error used))),
          cs_coverage = (if total = 0 then 0 else of_nat (sum_list (map cb_covered bins)) / of_nat total),
          cs_event_hashes = map (event_hash hash) (ca_accepted a), cs_rejected = ca_rejected a\<rparr>)"

definition materialize_snapshot :: "(pyval \<Rightarrow> string) \<Rightarrow> string \<Rightarrow> string \<Rightarrow> int \<Rightarrow> cal_input list \<Rightarrow> cal_snapshot" where
  "materialize_snapshot hash now key bin_count items =
     (let n = nat (max 1 (if bin_count = 0 then 10 else bin_count))
      in summarize hash key
           (fold (\<lambda>raw. take_event hash n (event_from_any hash now raw)) items
             \<lparr>ca_bins = map (empty_bin n) [0..<n], ca_rejected = [], ca_accepted = []\<rparr>))"

section \<open>The gate\<close>

definition underpopulated :: "cal_policy \<Rightarrow> cal_snapshot \<Rightarrow> bool" where
  "underpopulated p s =
     (let bins = cs_bins s;
          required = (if cp_required_bins p \<noteq> [] then cp_required_bins p
                      else map int (filter (\<lambda>i. 0 < cb_count (bins ! i)) [0..<length bins]))
      in list_ex (\<lambda>i. 0 \<le> i \<and> i < int (length bins) \<and> int (cb_count (bins ! nat i)) < cp_min_count_per_required_bin p) required)"

definition in_support :: "cal_snapshot \<Rightarrow> rat \<Rightarrow> bool" where
  "in_support s confidence =
     list_ex (\<lambda>b. 0 < cb_count b \<and> cb_lower b \<le> unit_float confidence \<and> unit_float confidence \<le> cb_upper b) (cs_bins s)"

definition block_reasons :: "cal_snapshot option \<Rightarrow> cal_policy option \<Rightarrow> rat option \<Rightarrow> string list" where
  "block_reasons snapshot policy confidence =
     (let p = (case policy of Some p \<Rightarrow> p | None \<Rightarrow> default_policy)
      in case snapshot of
           None \<Rightarrow> [''missing_calibration_snapshot'']
         | Some s \<Rightarrow>
             (if int (cs_total_count s) < cp_min_total_count p then [''calibration_total_count_below_minimum''] else []) @
             (if underpopulated p s then [''calibration_required_bin_underpopulated''] else []) @
             (if cp_max_ece p < cs_ece s then [''calibration_ece_above_limit''] else []) @
             (if cp_max_mce p < cs_mce s then [''calibration_mce_above_limit''] else []) @
             (if cp_max_brier_score p < cs_brier_score s then [''calibration_brier_above_limit''] else []) @
             (if cs_coverage s < cp_min_lower_confidence_coverage p then [''calibration_lower_confidence_coverage_below_limit''] else []) @
             (case confidence of
                None \<Rightarrow> []
              | Some q \<Rightarrow> if in_support s q then [] else [''candidate_confidence_outside_calibrated_support'']))"

definition allows_solve :: "cal_snapshot option \<Rightarrow> cal_policy option \<Rightarrow> rat option \<Rightarrow> bool" where
  "allows_solve snapshot policy confidence = (block_reasons snapshot policy confidence = [])"

section \<open>Reference: the statistics of the events that count\<close>

definition in_bin :: "nat \<Rightarrow> nat \<Rightarrow> cal_event list \<Rightarrow> cal_event list" where
  "in_bin n i es = filter (\<lambda>e. bin_index n e = i) es"

definition squared_error :: "cal_event \<Rightarrow> rat" where
  "squared_error e = (ce_prediction e - ce_realization e) ^ 2"

definition covered :: "cal_event \<Rightarrow> bool" where
  "covered e \<longleftrightarrow> ce_lower_bound e \<le> ce_realization e"

definition bin_of :: "nat \<Rightarrow> nat \<Rightarrow> cal_event list \<Rightarrow> cal_bin" where
  "bin_of n i es =
     (let xs = in_bin n i es
      in \<lparr>cb_lower = of_nat i / of_nat n, cb_upper = of_nat (i + 1) / of_nat n, cb_count = length xs,
          cb_predicted_sum = sum_list (map ce_prediction xs), cb_realized_sum = sum_list (map ce_realization xs),
          cb_squared_error_sum = sum_list (map squared_error xs), cb_covered = length (filter covered xs)\<rparr>)"

definition mean_of :: "('a \<Rightarrow> rat) \<Rightarrow> 'a list \<Rightarrow> rat" where
  "mean_of f xs = sum_list (map f xs) / of_nat (length xs)"

lemma bin_of_other: "bin_index n e \<noteq> i \<Longrightarrow> bin_of n i (es @ [e]) = bin_of n i es"
  by (simp add: bin_of_def in_bin_def)

lemma bin_of_same: "bin_of n (bin_index n e) (es @ [e]) = count_event e (bin_of n (bin_index n e) es)"
  by (simp add: bin_of_def in_bin_def count_event_def squared_error_def covered_def Let_def)

lemma bin_index_less: "0 < n \<Longrightarrow> bin_index n e < n"
  by (simp add: bin_index_def min_less_iff_disj)

definition good_event :: "cal_event \<Rightarrow> bool" where
  "good_event e \<longleftrightarrow> ce_trusted e \<and> ce_evidence_ref e \<noteq> [] \<and> 0 \<le> ce_prediction e \<and> ce_prediction e \<le> 1 \<and> 0 \<le> ce_realization e \<and> ce_realization e \<le> 1"

text \<open>The loop invariant.\<close>

definition tallied :: "nat \<Rightarrow> cal_event option list \<Rightarrow> cal_acc \<Rightarrow> bool" where
  "tallied n items a \<longleftrightarrow>
     ca_bins a = map (\<lambda>i. bin_of n i (ca_accepted a)) [0..<n] \<and> distinct (map ce_event_id (ca_accepted a)) \<and>
     list_all (\<lambda>e. ce_trusted e \<and> ce_evidence_ref e \<noteq> [] \<and> Some e \<in> set items) (ca_accepted a) \<and>
     length (ca_accepted a) + length (ca_rejected a) = length items"

lemma take_event_tallied:
  assumes "0 < n" "tallied n items a"
  shows "tallied n (items @ [oe]) (take_event hash n oe a)"
proof (cases oe)
  case None
  with assms show ?thesis by (auto simp: tallied_def take_event_def list_all_iff)
next
  case (Some e)
  show ?thesis
  proof (cases "event_reject (map ce_event_id (ca_accepted a)) e = []")
    case True
    then have good: "ce_trusted e" "ce_evidence_ref e \<noteq> []" "ce_event_id e \<notin> ce_event_id ` set (ca_accepted a)"
      by (auto simp: event_reject_def split: if_splits)
    let ?k = "bin_index n e"
    have "(map (\<lambda>i. bin_of n i (ca_accepted a)) [0..<n])[?k := count_event e (bin_of n ?k (ca_accepted a))] =
        map (\<lambda>i. bin_of n i (ca_accepted a @ [e])) [0..<n]"
      using bin_index_less [OF assms(1), of e]
      by (intro nth_equalityI) (auto simp: nth_list_update bin_of_other bin_of_same)
    then show ?thesis
      using assms(2) good True Some bin_index_less [OF assms(1), of e]
      by (auto simp: tallied_def take_event_def list_all_iff)
  next
    case False
    with assms Some show ?thesis by (auto simp: tallied_def take_event_def Let_def list_all_iff)
  qed
qed

lemma fold_tallied:
  assumes "0 < n"
  shows "tallied n (map f items) (fold (\<lambda>raw. take_event hash n (f raw)) items
    \<lparr>ca_bins = map (empty_bin n) [0..<n], ca_rejected = [], ca_accepted = []\<rparr>)"
proof (induction items rule: rev_induct)
  case Nil
  have "empty_bin n i = bin_of n i []" for i by (simp add: empty_bin_def bin_of_def in_bin_def)
  then show ?case by (simp add: tallied_def)
next
  case (snoc raw items)
  then show ?case using take_event_tallied [OF assms] by simp
qed

lemma sum_over_bins:
  assumes "0 < n"
  shows "sum_list (map (\<lambda>i. sum_list (map f (in_bin n i es))) [0..<n]) = (sum_list (map f es) :: 'a :: comm_monoid_add)"
proof (induction es)
  case (Cons e es)
  have "sum_list (map (\<lambda>i. sum_list (map f (in_bin n i (e # es)))) [0..<n]) =
      sum_list (map (\<lambda>i. (if i = bin_index n e then f e else 0) + sum_list (map f (in_bin n i es))) [0..<n])"
    by (intro arg_cong [of _ _ sum_list] map_cong) (auto simp: in_bin_def)
  also have "\<dots> = sum_list (map (\<lambda>i. if i = bin_index n e then f e else 0) [0..<n]) + sum_list (map f es)"
    by (simp add: sum_list_addf Cons)
  also have "sum_list (map (\<lambda>i. if i = bin_index n e then f e else 0) [0..<n]) = f e"
    using bin_index_less [OF assms, of e] by (simp add: sum_list_distinct_conv_sum_set)
  finally show ?case by simp
qed (simp add: in_bin_def)

lemma sum_ones: "sum_list (map (\<lambda>e. Suc 0) xs) = length xs" "sum_list (map (\<lambda>e. if P e then 1 else 0) xs) = length (filter P xs)"
  by (induction xs) auto

lemma tallied_totals:
  assumes "0 < n" "tallied n items a"
  shows "sum_list (map cb_count (ca_bins a)) = length (ca_accepted a)"
    and "sum_list (map cb_covered (ca_bins a)) = length (filter covered (ca_accepted a))"
    and "sum_list (map cb_squared_error_sum (ca_bins a)) = sum_list (map squared_error (ca_accepted a))"
proof -
  note bins = sum_over_bins [OF assms(1), where es = "ca_accepted a"]
  have a: "ca_bins a = map (\<lambda>i. bin_of n i (ca_accepted a)) [0..<n]" using assms(2) by (simp add: tallied_def)
  show "sum_list (map cb_count (ca_bins a)) = length (ca_accepted a)"
    using bins [of "\<lambda>_. 1 :: nat"] by (simp add: a o_def bin_of_def Let_def sum_ones)
  show "sum_list (map cb_covered (ca_bins a)) = length (filter covered (ca_accepted a))"
    using bins [of "\<lambda>e. if covered e then 1 else 0 :: nat"] by (simp add: a o_def bin_of_def Let_def sum_ones)
  show "sum_list (map cb_squared_error_sum (ca_bins a)) = sum_list (map squared_error (ca_accepted a))"
    using bins [of squared_error] by (simp add: a o_def bin_of_def Let_def)
qed

section \<open>Properties\<close>

text \<open>The events that count in a snapshot, and what the numbers say about them.\<close>

definition snapshot_of :: "nat \<Rightarrow> cal_event list \<Rightarrow> cal_snapshot \<Rightarrow> bool" where
  "snapshot_of n es s \<longleftrightarrow>
     distinct (map ce_event_id es) \<and> list_all good_event es \<and> cs_bins s = map (\<lambda>i. bin_of n i es) [0..<n] \<and>
     cs_total_count s = length es \<and>
     (es \<noteq> [] \<longrightarrow> cs_brier_score s = mean_of squared_error es \<and> cs_coverage s = mean_of (\<lambda>e. if covered e then 1 else 0) es)"

lemma event_from_any_good:
  "event_from_any hash now raw = Some e \<Longrightarrow> ce_trusted e \<Longrightarrow> ce_evidence_ref e \<noteq> [] \<Longrightarrow> good_event e"
  by (cases raw) (auto simp: good_event_def event_init_def unit_float_def event_of_dict_def res_simps Let_def split: if_splits sum.splits)

lemma sum_flags: "sum_list (map (\<lambda>e. if P e then 1 else 0 :: rat) es) = of_nat (length (filter P es))"
  by (induction es) auto

lemma materialize_tallied:
  assumes "s = materialize_snapshot hash now key bin_count items"
  obtains n a where "0 < n" "tallied n (map (event_from_any hash now) items) a" "s = summarize hash key a"
proof -
  let ?n = "nat (max 1 (if bin_count = 0 then 10 else bin_count))"
  have n: "0 < ?n" by auto
  show thesis
    by (rule that [OF n fold_tallied [OF n]]) (simp only: assms materialize_snapshot_def Let_def)
qed

lemma calibration_events:
  assumes "s = materialize_snapshot hash now key bin_count items"
  shows "\<exists>n es. 0 < n \<and> snapshot_of n es s \<and> Some ` set es \<subseteq> event_from_any hash now ` set items \<and>
    length es + length (cs_rejected s) = length items \<and> cs_event_hashes s = map (event_hash hash) es"
proof -
  obtain n a where n: "0 < n" and tally: "tallied n (map (event_from_any hash now) items) a" and s: "s = summarize hash key a"
    by (rule materialize_tallied [OF assms])
  have "e \<in> set (ca_accepted a) \<Longrightarrow> \<exists>raw\<in>set items. event_from_any hash now raw = Some e \<and> good_event e" for e
    using tally event_from_any_good by (fastforce simp: tallied_def list_all_iff)
  then have good: "list_all good_event (ca_accepted a)" "Some ` set (ca_accepted a) \<subseteq> event_from_any hash now ` set items"
    by (auto simp: list_all_iff) (metis image_eqI)
  have fields: "cs_bins s = ca_bins a" "cs_total_count s = length (ca_accepted a)" "cs_rejected s = ca_rejected a"
      "cs_event_hashes s = map (event_hash hash) (ca_accepted a)"
      "ca_accepted a \<noteq> [] \<Longrightarrow> cs_brier_score s = mean_of squared_error (ca_accepted a) \<and>
         cs_coverage s = mean_of (\<lambda>e. if covered e then 1 else 0) (ca_accepted a)"
    unfolding s summarize_def Let_def tallied_totals [OF n tally] by (simp_all add: mean_of_def sum_flags)
  have "snapshot_of n (ca_accepted a) s"
    using tally good(1) fields by (simp add: snapshot_of_def tallied_def)
  then show ?thesis
    using n good(2) tally fields by (intro exI [of _ n] exI [of _ "ca_accepted a"]) (simp add: tallied_def)
qed

text \<open>
  The statistics of a snapshot are those of its events. They are trusted, refer to evidence, have different
  identifiers and come from the input; every other item is recorded as rejected. Each event lies in exactly one bin, and the
  Brier score and the coverage are the means over the events.
\<close>

theorem calibration_statistics:
  "let s = materialize_snapshot hash now key bin_count items
   in \<exists>n es. 0 < n \<and> snapshot_of n es s \<and> Some ` set es \<subseteq> event_from_any hash now ` set items \<and>
     length es + length (cs_rejected s) = length items \<and> cs_event_hashes s = map (event_hash hash) es"
  unfolding Let_def by (rule calibration_events [OF refl])

lemma mean_unit:
  assumes "xs \<noteq> []" "\<And>x. x \<in> set xs \<Longrightarrow> 0 \<le> f x \<and> f x \<le> 1"
  shows "0 \<le> mean_of f xs \<and> mean_of f xs \<le> 1"
proof -
  have "0 \<le> sum_list (map f xs)" using assms(2) by (intro sum_list_nonneg) auto
  moreover have "sum_list (map f xs) \<le> sum_list (map (\<lambda>_. 1) xs)" by (rule sum_list_mono) (use assms(2) in auto)
  ultimately show ?thesis using assms(1) by (simp add: mean_of_def map_replicate_const sum_list_replicate divide_le_eq)
qed

lemma calibration_error_unit:
  assumes "list_all good_event es" "cb_count (bin_of n i es) \<noteq> 0"
  shows "calibration_error (bin_of n i es) \<le> 1"
proof -
  have ne: "in_bin n i es \<noteq> []" using assms(2) by (simp add: bin_of_def Let_def)
  have good: "e \<in> set (in_bin n i es) \<Longrightarrow> good_event e" for e using assms(1) by (simp add: in_bin_def list_all_iff)
  have "mean_prediction (bin_of n i es) = mean_of ce_prediction (in_bin n i es)"
    "mean_realization (bin_of n i es) = mean_of ce_realization (in_bin n i es)"
    using ne by (simp_all add: mean_prediction_def mean_realization_def bin_of_def Let_def mean_of_def)
  moreover have "0 \<le> mean_of ce_prediction (in_bin n i es) \<and> mean_of ce_prediction (in_bin n i es) \<le> 1"
    by (rule mean_unit [OF ne]) (use good in \<open>auto simp: good_event_def\<close>)
  moreover have "0 \<le> mean_of ce_realization (in_bin n i es) \<and> mean_of ce_realization (in_bin n i es) \<le> 1"
    by (rule mean_unit [OF ne]) (use good in \<open>auto simp: good_event_def\<close>)
  ultimately show ?thesis by (simp add: calibration_error_def abs_le_iff)
qed

text \<open>A weighted mean lies below the maximum.\<close>

lemma weighted_le_max:
  fixes w err :: "'a \<Rightarrow> rat"
  assumes "0 < sum_list (map w bs)" "\<And>b. b \<in> set bs \<Longrightarrow> 0 \<le> w b \<and> err b \<le> m"
  shows "sum_list (map (\<lambda>b. w b / sum_list (map w bs) * err b) bs) \<le> m"
proof -
  let ?t = "sum_list (map w bs)"
  have scaled: "sum_list (map (\<lambda>b. w b / t * m) bs) = sum_list (map w bs) / t * m" for t
    by (induction bs) (simp_all add: add_divide_distrib distrib_right)
  have "sum_list (map (\<lambda>b. w b / ?t * err b) bs) \<le> sum_list (map (\<lambda>b. w b / ?t * m) bs)"
    using assms by (intro sum_list_mono mult_left_mono) auto
  also have "\<dots> = ?t / ?t * m" by (rule scaled)
  also have "\<dots> = m" using assms(1) by simp
  finally show ?thesis .
qed

lemma weight_sum:
  "sum_list (map (\<lambda>b. of_nat (f b)) (filter (\<lambda>b. f b \<noteq> 0) bs)) = (of_nat (sum_list (map f bs)) :: rat)"
  by (induction bs) auto

lemma Max_list_ge: "x \<in> set xs \<Longrightarrow> x \<le> Max (set xs)" for x :: rat
  by simp

text \<open>
  The statistics of a non-empty snapshot are bounded: scores and errors lie between zero and one, and the expected
  calibration error is at most the maximal one.
\<close>

theorem calibration_bounds:
  assumes "s = materialize_snapshot hash now key bin_count items" "cs_total_count s \<noteq> 0"
  shows "0 \<le> cs_brier_score s \<and> cs_brier_score s \<le> 1 \<and> 0 \<le> cs_coverage s \<and> cs_coverage s \<le> 1 \<and>
    0 \<le> cs_ece s \<and> cs_ece s \<le> cs_mce s \<and> cs_mce s \<le> 1"
proof -
  obtain n a where n: "0 < n" and tally: "tallied n (map (event_from_any hash now) items) a" and s: "s = summarize hash key a"
    by (rule materialize_tallied [OF assms(1)])
  let ?es = "ca_accepted a" and ?used = "filter (\<lambda>b. cb_count b \<noteq> 0) (ca_bins a)"
  let ?total = "sum_list (map cb_count (ca_bins a))"
  have "?total \<noteq> 0" using assms(2) by (simp only: s summarize_def Let_def cal_snapshot.select_convs not_False_eq_True)
  then have total: "?total = length ?es" "?total \<noteq> 0" by (simp_all only: tallied_totals [OF n tally] not_False_eq_True)
  then have es: "?es \<noteq> []" by auto
  have good: "list_all good_event ?es"
    using tally event_from_any_good by (fastforce simp: tallied_def list_all_iff)
  have scores: "cs_brier_score s = mean_of squared_error ?es" "cs_coverage s = mean_of (\<lambda>e. if covered e then 1 else 0) ?es"
    using es unfolding s summarize_def Let_def tallied_totals [OF n tally] by (simp_all add: mean_of_def sum_flags)
  have "0 \<le> squared_error e \<and> squared_error e \<le> 1" if "e \<in> set ?es" for e
  proof -
    have "\<bar>ce_prediction e - ce_realization e\<bar> \<le> 1" using good that by (auto simp: list_all_iff good_event_def abs_le_iff)
    then show ?thesis by (simp add: squared_error_def abs_square_le_1)
  qed
  then have brier: "0 \<le> cs_brier_score s \<and> cs_brier_score s \<le> 1" unfolding scores by (rule mean_unit [OF es])
  have coverage: "0 \<le> cs_coverage s \<and> cs_coverage s \<le> 1" unfolding scores by (rule mean_unit [OF es]) simp
  have weights: "sum_list (map (\<lambda>b. of_nat (cb_count b)) ?used) = (of_nat ?total :: rat)"
    by (rule weight_sum)
  have used: "?used \<noteq> []" using total(2) by (auto simp: filter_empty_conv)
  have err: "0 \<le> calibration_error b \<and> calibration_error b \<le> 1" if "b \<in> set ?used" for b
    using that tally calibration_error_unit [OF good] by (auto simp: tallied_def calibration_error_def)
  have fields: "cs_ece s = sum_list (map (\<lambda>b. of_nat (cb_count b) / of_nat ?total * calibration_error b) ?used)"
      "cs_mce s = Max (set (map calibration_error ?used))"
    using total(2) used unfolding s summarize_def Let_def by (simp_all only: cal_snapshot.select_convs if_False)
  have "(0 :: rat) < sum_list (map (\<lambda>b. of_nat (cb_count b)) ?used)" unfolding weights of_nat_0_less_iff using total(2) by blast
  then have ece: "cs_ece s \<le> cs_mce s"
    unfolding fields weights [symmetric] by (rule weighted_le_max) (auto intro!: Max_list_ge)
  have nonneg: "0 \<le> cs_ece s"
    unfolding fields by (rule sum_list_nonneg) (use err in auto)
  have "cs_mce s \<le> 1"
    unfolding fields
  proof (rule Max.boundedI)
    show "set (map calibration_error ?used) \<noteq> {}" using used by (simp only: set_map image_is_empty set_empty not_False_eq_True)
  qed (use err in auto)
  with brier coverage ece nonneg show ?thesis by blast
qed

text \<open>A bin contains predictions within its bounds only.\<close>

lemma bin_index_bounds:
  assumes "0 < n" "0 \<le> ce_prediction e" "ce_prediction e \<le> 1"
  shows "of_nat (bin_index n e) / of_nat n \<le> ce_prediction e \<and> ce_prediction e \<le> of_nat (bin_index n e + 1) / of_nat n"
proof -
  let ?x = "ce_prediction e * of_nat n"
  have x: "0 \<le> ?x" "?x \<le> of_nat n" using assms by (simp_all add: mult_left_le_one_le)
  have floor: "rat_trunc ?x = \<lfloor>?x\<rfloor>" "0 \<le> \<lfloor>?x\<rfloor>" using x(1) by (simp_all add: rat_trunc_def)
  have "of_nat (bin_index n e) \<le> ?x"
  proof -
    have "(of_nat (bin_index n e) :: rat) \<le> of_nat (nat \<lfloor>?x\<rfloor>)" by (simp add: bin_index_def floor(1))
    also have "\<dots> \<le> ?x" using floor(2) by (simp add: of_nat_nat)
    finally show ?thesis .
  qed
  moreover have "?x \<le> of_nat (bin_index n e + 1)"
  proof (cases "nat \<lfloor>?x\<rfloor> \<le> n - 1")
    case True
    then have "bin_index n e = nat \<lfloor>?x\<rfloor>" by (simp add: bin_index_def floor(1))
    then show ?thesis using floor(2) by (simp add: of_nat_nat) linarith
  next
    case False
    then have "bin_index n e + 1 = n" using assms(1) by (simp add: bin_index_def floor(1))
    then show ?thesis using x(2) by simp
  qed
  ultimately show ?thesis using assms(1) by (simp add: pos_divide_le_eq pos_le_divide_eq)
qed

lemma allows_solve_iff:
  "allows_solve (Some s) policy confidence \<longleftrightarrow>
     (let p = (case policy of Some p \<Rightarrow> p | None \<Rightarrow> default_policy)
      in cp_min_total_count p \<le> int (cs_total_count s) \<and> \<not> underpopulated p s \<and> cs_ece s \<le> cp_max_ece p \<and>
         cs_mce s \<le> cp_max_mce p \<and> cs_brier_score s \<le> cp_max_brier_score p \<and>
         cp_min_lower_confidence_coverage p \<le> cs_coverage s \<and> (case confidence of None \<Rightarrow> True | Some q \<Rightarrow> in_support s q))"
  by (simp add: allows_solve_def block_reasons_def Let_def not_less split: option.split)

lemma gate_events:
  assumes "s = materialize_snapshot hash now key bin_count items" "allows_solve (Some s) policy confidence"
  defines "p \<equiv> (case policy of Some p \<Rightarrow> p | None \<Rightarrow> default_policy)"
  shows "\<exists>n es. 0 < n \<and> snapshot_of n es s \<and> Some ` set es \<subseteq> event_from_any hash now ` set items \<and>
    cp_min_total_count p \<le> int (length es) \<and> cs_ece s \<le> cp_max_ece p \<and> cs_mce s \<le> cp_max_mce p \<and>
    (es \<noteq> [] \<longrightarrow> mean_of squared_error es \<le> cp_max_brier_score p \<and>
       cp_min_lower_confidence_coverage p \<le> mean_of (\<lambda>e. if covered e then 1 else 0) es) \<and>
    (\<forall>q. confidence = Some q \<longrightarrow> (\<exists>e\<in>set es. \<bar>ce_prediction e - unit_float q\<bar> \<le> 1 / of_nat n))"
proof -
  obtain n es where n: "0 < n" and snap: "snapshot_of n es s" and input: "Some ` set es \<subseteq> event_from_any hash now ` set items"
    using calibration_events [OF assms(1)] by blast
  have limits: "cp_min_total_count p \<le> int (cs_total_count s) \<and> cs_ece s \<le> cp_max_ece p \<and> cs_mce s \<le> cp_max_mce p \<and>
      cs_brier_score s \<le> cp_max_brier_score p \<and> cp_min_lower_confidence_coverage p \<le> cs_coverage s"
    using assms(2) unfolding allows_solve_iff Let_def p_def by blast
  have numbers: "cs_total_count s = length es" "es \<noteq> [] \<Longrightarrow> cs_brier_score s = mean_of squared_error es"
      "es \<noteq> [] \<Longrightarrow> cs_coverage s = mean_of (\<lambda>e. if covered e then 1 else 0) es"
    using snap unfolding snapshot_of_def by blast+
  have support: "\<exists>e\<in>set es. \<bar>ce_prediction e - unit_float q\<bar> \<le> 1 / of_nat n" if "confidence = Some q" for q
  proof -
    have "in_support s q"
      using assms(2) that by (simp add: allows_solve_iff Let_def)
    then obtain b where b: "b \<in> set (cs_bins s)" "0 < cb_count b" "cb_lower b \<le> unit_float q" "unit_float q \<le> cb_upper b"
      unfolding in_support_def list_ex_iff by blast
    moreover have "cs_bins s = map (\<lambda>i. bin_of n i es) [0..<n]" using snap unfolding snapshot_of_def by blast
    ultimately obtain i where bin: "b = bin_of n i es" by auto
    have i: "of_nat i / of_nat n \<le> unit_float q" "unit_float q \<le> of_nat (i + 1) / of_nat n"
      using b(3,4) by (simp_all add: bin bin_of_def Let_def)
    have "in_bin n i es \<noteq> []" using b(2) by (simp add: bin bin_of_def Let_def)
    then have "hd (in_bin n i es) \<in> set (in_bin n i es)" by (rule hd_in_set)
    then obtain e where e: "e \<in> set es" "bin_index n e = i"
      unfolding in_bin_def set_filter by blast
    have "good_event e" using snap e(1) by (simp add: snapshot_of_def list_all_iff)
    then have "of_nat i / of_nat n \<le> ce_prediction e \<and> ce_prediction e \<le> of_nat (i + 1) / of_nat n"
      using bin_index_bounds [OF n, of e] e(2) by (simp add: good_event_def)
    moreover have "(of_nat (i + 1) :: rat) / of_nat n = of_nat i / of_nat n + 1 / of_nat n" by (simp add: add_divide_distrib)
    ultimately have "\<bar>ce_prediction e - unit_float q\<bar> \<le> 1 / of_nat n" using i by linarith
    with e(1) show ?thesis by blast
  qed
  show ?thesis
    using n snap input limits support numbers by (intro exI [of _ n] exI [of _ es] conjI impI allI) simp_all
qed


section \<open>The hypotheses hold of a small table\<close>

definition demo_items :: "cal_input list" where
  "demo_items =
     [CalObject \<lparr>ce_event_id = ''a'', ce_prediction = 9/10, ce_realization = 1, ce_lower_bound = 1/2, ce_evidence_ref = ''r'',
        ce_trusted = True, ce_observed_at = []\<rparr>,
      CalObject \<lparr>ce_event_id = ''a'', ce_prediction = 1/10, ce_realization = 0, ce_lower_bound = 0, ce_evidence_ref = ''r'',
        ce_trusted = True, ce_observed_at = []\<rparr>]"

definition demo_cal_policy :: cal_policy where
  "demo_cal_policy = default_policy\<lparr>cp_min_total_count := 1, cp_min_count_per_required_bin := 1\<rparr>"

definition demo_snapshot :: cal_snapshot where
  "demo_snapshot = materialize_snapshot (\<lambda>_. ''h'') ''now'' [] 2 demo_items"

lemma demo_values:
  "cs_total_count demo_snapshot = 1" "cs_ece demo_snapshot = 1/10" "length (cs_rejected demo_snapshot) = 1"
  "allows_solve (Some demo_snapshot) (Some demo_cal_policy) (Some (8/10))"
  by code_simp+

theorem calibration_bounds_witness: "cs_ece demo_snapshot \<le> cs_mce demo_snapshot"
proof -
  have "cs_total_count demo_snapshot \<noteq> 0" by (simp add: demo_values)
  from calibration_bounds [OF demo_snapshot_def this] show ?thesis by blast
qed


end
