(* ===== verification/Bundles.thy ===== *)
theory Bundles
  imports Prelude
begin

text \<open>
  What the evidence bundles of outcomes/falsification.py and outcomes/closure_bundle.py share: the coercions of their fields
  and the contract of a bundle bound to its content by a hash, as a locale.
\<close>

definition as_sequence :: "pyval \<Rightarrow> pyval list" where
  "as_sequence v = (case v of PNone \<Rightarrow> [] | PList xs \<Rightarrow> xs | _ \<Rightarrow> [v])"

definition str_tuple :: "pyval \<Rightarrow> string list" where
  "str_tuple v = dedupe (filter (\<lambda>s. s \<noteq> []) (map py_str (as_sequence v)))"

lemma as_sequence_PList [simp]: "as_sequence (PList xs) = xs"
  by (simp add: as_sequence_def)

lemma dedupe_from_id: "distinct xs \<Longrightarrow> set xs \<inter> set seen = {} \<Longrightarrow> dedupe_from seen xs = xs"
  by (induction xs arbitrary: seen) auto

lemma dedupe_id: "distinct xs \<Longrightarrow> dedupe xs = xs"
  by (simp add: dedupe_def dedupe_from_id)

lemma dedupe_Nil [simp]: "dedupe xs = [] \<longleftrightarrow> xs = []"
  by (metis set_dedupe set_empty)

lemma str_tuple_strings: "distinct xs \<Longrightarrow> [] \<notin> set xs \<Longrightarrow> str_tuple (PList (map PStr xs)) = xs"
proof -
  assume xs: "distinct xs" "[] \<notin> set xs"
  have "map py_str (map PStr xs) = xs" by (induction xs) auto
  moreover have "filter (\<lambda>s. s \<noteq> []) xs = xs" using xs(2) by (intro filter_True) auto
  ultimately show ?thesis using xs(1) by (simp add: str_tuple_def dedupe_id del: map_map list.map_comp)
qed

lemma str_tuple_sound: "distinct (str_tuple v) \<and> [] \<notin> set (str_tuple v)"
  by (simp add: str_tuple_def)

text \<open>Reasons collected in order; only whether there is one matters for the verdict.\<close>

definition only_if :: "bool \<Rightarrow> 'a \<Rightarrow> 'a list" where
  "only_if b x = (if b then [x] else [])"

lemma only_if_Nil [simp]: "only_if b x = [] \<longleftrightarrow> \<not> b"
  by (simp add: only_if_def)

section \<open>Normalised text\<close>

lemma is_space_lower [simp]: "is_space (lower_char c) = is_space c"
  by (auto simp: lower_char_def is_upper_def is_space_def Let_def)

lemma strip_lower: "strip (lower s) = lower (strip s)"
proof -
  have drop: "dropWhile is_space (map lower_char xs) = map lower_char (dropWhile is_space xs)" for xs
    by (induction xs) auto
  show ?thesis by (simp add: strip_def lower_def drop rev_map)
qed

lemma strip_ends:
  assumes "strip s \<noteq> []"
  shows "\<not> is_space (hd (strip s)) \<and> \<not> is_space (last (strip s))"
proof -
  let ?u = "dropWhile is_space s"
  let ?v = "dropWhile is_space (rev ?u)"
  have v: "?v \<noteq> []" using assms by (simp add: strip_def)
  then have "?u \<noteq> []" by (metis dropWhile.simps(1) rev.simps(1))
  then have "\<not> is_space (hd ?u)" by (rule hd_dropWhile)
  moreover obtain w where "rev ?u = w @ ?v" by (metis takeWhile_dropWhile_id)
  then have "?u = rev ?v @ rev w" by (metis rev_append rev_rev_ident)
  then have "hd ?u = hd (rev ?v)" using v by (metis hd_append2 rev_is_Nil_conv)
  moreover have "\<not> is_space (hd ?v)" using v by (rule hd_dropWhile)
  ultimately show ?thesis using v by (simp add: strip_def last_rev)
qed

lemma strip_strip [simp]: "strip (strip s) = strip s"
proof (cases "strip s = []")
  case True
  have "strip [] = []" by (simp add: strip_def)
  then show ?thesis by (simp only: True)
next
  case False
  have id: "dropWhile is_space xs = xs" if "xs \<noteq> []" "\<not> is_space (hd xs)" for xs
    using that by (cases xs) auto
  have "dropWhile is_space (strip s) = strip s" using strip_ends [OF False] False by (intro id) auto
  moreover have "dropWhile is_space (rev (strip s)) = rev (strip s)"
    using strip_ends [OF False] False by (intro id) (auto simp: hd_rev)
  ultimately show ?thesis using False by (subst strip_def) simp
qed

lemma lower_lower [simp]: "lower (lower s) = lower s"
proof -
  have "lower_char (lower_char c) = lower_char c" for c
    by (auto simp: lower_char_def is_upper_def Let_def)
  then show ?thesis by (simp add: lower_def)
qed

lemma normalised_text [simp]: "lower (strip (lower (strip s))) = lower (strip s)"
  by (simp add: strip_lower)

section \<open>Hash-bound bundles\<close>

text \<open>
  A bundle has a payload that leaves nothing of its content out, and a digest of the payload under a prefix. What the client
  promises is that the payload determines the content.
\<close>

locale hash_bound =
  fixes payload :: "'b \<Rightarrow> pydict" and content :: "'b \<Rightarrow> 'c" and prefix :: string
  assumes payload_determines: "payload a = payload b \<Longrightarrow> content a = content b"
begin

definition digest :: "(pyval \<Rightarrow> string) \<Rightarrow> 'b \<Rightarrow> string" where
  "digest hash b = prefix @ hash (PDict (payload b))"

lemma same_digest:
  assumes "digest hash a = digest hash b" "hash (PDict (payload a)) = hash (PDict (payload b)) \<Longrightarrow> payload a = payload b"
  shows "content a = content b"
  by (rule payload_determines, rule assms(2)) (use assms(1) in \<open>simp add: digest_def\<close>)

lemma tampered:
  assumes "content a \<noteq> content b" "hash (PDict (payload a)) = hash (PDict (payload b)) \<Longrightarrow> payload a = payload b"
  shows "digest hash a \<noteq> digest hash b"
  using same_digest [OF _ assms(2)] assms(1) by blast

end

end
