(* ===== verification/Falsification.thy ===== *)
theory Falsification
  imports Bundles
begin

text \<open>
  outcomes/falsification.py: the gauntlet of challenges that a solve claim has to survive, its content hash and its audit.
  A bundle given to the audit is an object, constructed from given fields, or a decoded value. \<open>stable_hash\<close> is the
  argument \<open>hash\<close>. The reference of the audit is the declarative condition \<open>survives\<close>.
\<close>

section \<open>Cases and outcomes\<close>

record fcase =
  fc_case_id :: string
  fc_assertion_ref :: string
  fc_challenge :: string
  fc_expected_failure_mode :: string
  fc_severity :: string
  fc_required :: bool
  fc_metadata :: pydict

definition fcase_init :: "fcase \<Rightarrow> fcase" where
  "fcase_init c = c\<lparr>fc_severity := str_or (fc_severity c) ''critical''\<rparr>"

definition fcase_to_dict :: "fcase \<Rightarrow> pydict" where
  "fcase_to_dict c =
     [(''case_id'', PStr (fc_case_id c)), (''assertion_ref'', PStr (fc_assertion_ref c)), (''challenge'', PStr (fc_challenge c)),
      (''expected_failure_mode'', PStr (fc_expected_failure_mode c)), (''severity'', PStr (fc_severity c)),
      (''required'', PBool (fc_required c)), (''metadata'', PDict (fc_metadata c))]"

definition case_hash :: "(pyval \<Rightarrow> string) \<Rightarrow> fcase \<Rightarrow> string" where
  "case_hash hash c = ''fgc:'' @ hash (PDict (fcase_to_dict c))"

definition fcase_from_any :: "pyval \<Rightarrow> fcase option" where
  "fcase_from_any raw =
     (let d = coerce_dict raw
      in if d = [] then None
         else Some (fcase_init
           \<lparr>fc_case_id = str_field (py_or (dget d ''case_id'') (py_or (dget d ''probe_id'') (dget d ''id''))) [],
            fc_assertion_ref = str_field (py_or (dget d ''assertion_ref'') (dget d ''target_digest'')) [],
            fc_challenge = str_field (py_or (dget d ''challenge'') (dget d ''probe'')) [],
            fc_expected_failure_mode = str_field (dget d ''expected_failure_mode'') [],
            fc_severity = str_field (dget d ''severity'') ''critical'',
            fc_required = truthy (dget_or d ''required'' (PBool True)), fc_metadata = coerce_dict (dget d ''metadata'')\<rparr>))"

record foutcome =
  fo_case_id :: string
  fo_survived :: bool
  fo_evidence_ref :: string
  fo_trusted :: bool
  fo_status :: string
  fo_counterexample_ref :: string
  fo_notes :: string
  fo_passed :: "bool option"
  fo_metadata :: pydict

definition foutcome_status :: "string \<Rightarrow> bool option \<Rightarrow> bool \<Rightarrow> string" where
  "foutcome_status raw passed survived =
     (let s0 = lower (strip raw);
          s1 = (if s0 = [] then
                  (case passed of
                     Some p \<Rightarrow> if p then ''survived'' else ''falsified''
                   | None \<Rightarrow> if survived then ''survived'' else ''falsified'')
                else s0);
          s2 = (if s1 \<in> {''pass'', ''passed'', ''ok''} then ''survived'' else s1)
      in if s2 \<in> {''fail'', ''failed'', ''counterexample''} then ''falsified'' else s2)"

definition foutcome_init :: "foutcome \<Rightarrow> foutcome" where
  "foutcome_init r =
     (let status = foutcome_status (fo_status r) (fo_passed r) (fo_survived r)
      in r\<lparr>fo_status := status, fo_survived := (status = ''survived''), fo_passed := Some (status = ''survived'')\<rparr>)"

definition falsified :: "foutcome \<Rightarrow> bool" where
  "falsified r \<longleftrightarrow> fo_status r = ''falsified'' \<or> fo_counterexample_ref r \<noteq> []"

definition inconclusive :: "foutcome \<Rightarrow> bool" where
  "inconclusive r \<longleftrightarrow> fo_status r \<in> {''inconclusive'', ''unknown'', ''missing''}"

definition foutcome_to_dict :: "foutcome \<Rightarrow> pydict" where
  "foutcome_to_dict r =
     [(''case_id'', PStr (fo_case_id r)), (''survived'', PBool (fo_survived r)), (''evidence_ref'', PStr (fo_evidence_ref r)),
      (''trusted'', PBool (fo_trusted r)), (''status'', PStr (fo_status r)), (''counterexample_ref'', PStr (fo_counterexample_ref r)),
      (''notes'', PStr (fo_notes r)), (''passed'', case fo_passed r of None \<Rightarrow> PNone | Some p \<Rightarrow> PBool p),
      (''metadata'', PDict (fo_metadata r)), (''falsified'', PBool (falsified r)), (''inconclusive'', PBool (inconclusive r))]"

definition outcome_hash :: "(pyval \<Rightarrow> string) \<Rightarrow> foutcome \<Rightarrow> string" where
  "outcome_hash hash r = ''fgo:'' @ hash (PDict (foutcome_to_dict r))"

definition foutcome_from_any :: "pyval \<Rightarrow> foutcome option" where
  "foutcome_from_any raw =
     (let d = coerce_dict raw
      in if d = [] then None
         else Some (foutcome_init
           \<lparr>fo_case_id = str_field (py_or (dget d ''case_id'') (py_or (dget d ''probe_id'') (dget d ''id''))) [],
            fo_survived = truthy (dget_or d ''survived'' (dget_or d ''passed'' (PBool False))),
            fo_evidence_ref = str_field (dget d ''evidence_ref'') [], fo_trusted = truthy (dget_or d ''trusted'' (PBool True)),
            fo_status = str_field (dget d ''status'') [], fo_counterexample_ref = str_field (dget d ''counterexample_ref'') [],
            fo_notes = str_field (dget d ''notes'') [],
            fo_passed = (if dget d ''passed'' = PNone then None else Some (truthy (dget d ''passed''))),
            fo_metadata = coerce_dict (dget d ''metadata'')\<rparr>))"

section \<open>The gauntlet\<close>

record gauntlet =
  ga_scope :: string
  ga_candidate_id :: string
  ga_problem_hash :: string
  ga_cases :: "fcase list"
  ga_outcomes :: "foutcome list"
  ga_required :: "string list"
  ga_evidence_refs :: "string list"
  ga_bundle_hash :: string
  ga_version :: string

definition FALSIFICATION_VERSION :: string where
  "FALSIFICATION_VERSION = ''m6-closure-falsification/v1''"

definition gauntlet_to_dict :: "(pyval \<Rightarrow> string) \<Rightarrow> gauntlet \<Rightarrow> pydict" where
  "gauntlet_to_dict hash g =
     [(''version'', PStr (ga_version g)), (''scope'', PStr (ga_scope g)), (''candidate_id'', PStr (ga_candidate_id g)),
      (''problem_model_snapshot_hash'', PStr (ga_problem_hash g)),
      (''cases'', PList (map (\<lambda>c. PDict (fcase_to_dict c)) (ga_cases g))),
      (''case_hashes'', PList (map (\<lambda>c. PStr (case_hash hash c)) (ga_cases g))),
      (''outcomes'', PList (map (\<lambda>r. PDict (foutcome_to_dict r)) (ga_outcomes g))),
      (''outcome_hashes'', PList (map (\<lambda>r. PStr (outcome_hash hash r)) (ga_outcomes g))),
      (''required_case_ids'', PList (map PStr (ga_required g))), (''evidence_refs'', PList (map PStr (ga_evidence_refs g))),
      (''falsification_bundle_hash'', PStr (ga_bundle_hash g))]"

definition gauntlet_payload :: "(pyval \<Rightarrow> string) \<Rightarrow> gauntlet \<Rightarrow> pydict" where
  "gauntlet_payload hash g = ddel ''falsification_bundle_hash'' (gauntlet_to_dict hash g)"

definition gauntlet_hash :: "(pyval \<Rightarrow> string) \<Rightarrow> gauntlet \<Rightarrow> string" where
  "gauntlet_hash hash g = ''fgb:'' @ hash (PDict (gauntlet_payload hash g))"

text \<open>The constructor, on fields whose cases and outcomes are already objects.\<close>

definition gauntlet_init :: "(pyval \<Rightarrow> string) \<Rightarrow> gauntlet \<Rightarrow> gauntlet" where
  "gauntlet_init hash g0 =
     (let required = dedupe (filter (\<lambda>s. s \<noteq> []) (ga_required g0));
          refs = dedupe (filter (\<lambda>s. s \<noteq> []) (ga_evidence_refs g0));
          g = g0\<lparr>ga_required := (if required \<noteq> [] then required
                   else map fc_case_id (filter (\<lambda>c. fc_required c \<and> fc_case_id c \<noteq> []) (ga_cases g0))),
                 ga_evidence_refs := (if refs \<noteq> [] then refs
                   else dedupe (filter (\<lambda>s. s \<noteq> []) (map fo_evidence_ref (ga_outcomes g0)))),
                 ga_version := str_or (ga_version g0) FALSIFICATION_VERSION\<rparr>
      in if ga_bundle_hash g = [] then g\<lparr>ga_bundle_hash := gauntlet_hash hash g\<rparr> else g)"

definition gauntlet_of_dict :: "(pyval \<Rightarrow> string) \<Rightarrow> pydict \<Rightarrow> gauntlet" where
  "gauntlet_of_dict hash d =
     gauntlet_init hash
       \<lparr>ga_scope = str_field (dget d ''scope'') [], ga_candidate_id = str_field (dget d ''candidate_id'') [],
        ga_problem_hash = str_field (dget d ''problem_model_snapshot_hash'') [],
        ga_cases = List.map_filter fcase_from_any (as_sequence (dget d ''cases'')),
        ga_outcomes = List.map_filter foutcome_from_any (as_sequence (dget d ''outcomes'')),
        ga_required = str_tuple (dget d ''required_case_ids''), ga_evidence_refs = str_tuple (dget d ''evidence_refs''),
        ga_bundle_hash = str_field (py_or (dget d ''falsification_bundle_hash'') (dget d ''bundle_hash'')) [],
        ga_version = str_field (dget d ''version'') FALSIFICATION_VERSION\<rparr>"

definition build_gauntlet ::
  "(pyval \<Rightarrow> string) \<Rightarrow> string \<Rightarrow> string \<Rightarrow> string \<Rightarrow> fcase list \<Rightarrow> foutcome list \<Rightarrow> string list \<Rightarrow> gauntlet" where
  "build_gauntlet hash scope candidate problem cases outcomes required =
     gauntlet_init hash
       \<lparr>ga_scope = scope, ga_candidate_id = candidate, ga_problem_hash = problem, ga_cases = cases, ga_outcomes = outcomes,
        ga_required = required, ga_evidence_refs = [], ga_bundle_hash = [], ga_version = FALSIFICATION_VERSION\<rparr>"

datatype gauntlet_input = GauntletObject gauntlet | GauntletRaw pyval

fun gauntlet_from_any :: "(pyval \<Rightarrow> string) \<Rightarrow> gauntlet_input \<Rightarrow> gauntlet option" where
  "gauntlet_from_any hash (GauntletObject g) = Some g"
| "gauntlet_from_any hash (GauntletRaw raw) =
     (let d = coerce_dict raw in if d = [] then None else Some (gauntlet_of_dict hash d))"

text \<open>The hash that the audit expects: of a dictionary the stored one, which the constructor does not fill in.\<close>

fun expected_gauntlet_hash :: "gauntlet_input \<Rightarrow> string" where
  "expected_gauntlet_hash (GauntletObject g) = ga_bundle_hash g"
| "expected_gauntlet_hash (GauntletRaw raw) =
     (let d = coerce_dict raw in str_field (py_or (dget d ''falsification_bundle_hash'') (dget d ''bundle_hash'')) [])"

section \<open>The audit\<close>

record gauntlet_audit =
  gd_passed :: bool
  gd_reasons :: "string list"
  gd_required :: "string list"
  gd_survived :: "string list"
  gd_failed :: "string list"
  gd_missing :: "string list"
  gd_expected_hash :: string
  gd_actual_hash :: string

definition outcome_failure_reasons :: "foutcome \<Rightarrow> bool \<Rightarrow> string list" where
  "outcome_failure_reasons r required =
     only_if (\<not> fo_trusted r) ''untrusted_falsification_outcome'' @
     only_if (required \<and> fo_evidence_ref r = []) ''missing_replayable_falsification_evidence'' @
     only_if (inconclusive r) ''inconclusive_falsification_outcome'' @
     only_if (falsified r) ''falsification_counterexample_found'' @
     only_if (required \<and> \<not> fo_survived r) ''required_falsification_not_survived''"

text \<open>The outcomes by case, in order of first appearance.\<close>

definition outcomes_by_case :: "foutcome list \<Rightarrow> (string \<times> foutcome list) list" where
  "outcomes_by_case rs =
     fold (\<lambda>r m. dset (fo_case_id r) ((case map_of m (fo_case_id r) of None \<Rightarrow> [] | Some rs \<Rightarrow> rs) @ [r]) m) rs []"

definition judge_case :: "string list \<Rightarrow> string \<times> foutcome list \<Rightarrow> string list \<times> string list \<times> string list" where
  "judge_case required x =
     (case x of
        (case_id, [r]) \<Rightarrow>
          (let is_required = case_id \<in> set required; reasons = outcome_failure_reasons r is_required
           in if reasons \<noteq> [] then (reasons, [case_id], []) else ([], [], only_if is_required case_id))
      | (case_id, _) \<Rightarrow> ([''duplicate_falsification_outcome''], [case_id], []))"

definition case_ids :: "gauntlet \<Rightarrow> string list" where
  "case_ids g = filter (\<lambda>s. s \<noteq> []) (map fc_case_id (ga_cases g))"

definition header_reasons :: "(pyval \<Rightarrow> string) \<Rightarrow> gauntlet_input \<Rightarrow> gauntlet \<Rightarrow> string list" where
  "header_reasons hash x g =
     only_if (ga_scope g = []) ''missing_scope'' @
     only_if (ga_candidate_id g = []) ''missing_candidate_id'' @
     only_if (ga_problem_hash g = []) ''missing_problem_model_snapshot_hash'' @
     only_if (ga_cases g = []) ''missing_falsification_cases'' @
     only_if (ga_required g = []) ''missing_required_falsification_cases'' @
     (if expected_gauntlet_hash x = [] then [''missing_falsification_bundle_hash'']
      else only_if (expected_gauntlet_hash x \<noteq> gauntlet_hash hash g) ''falsification_bundle_hash_mismatch'') @
     only_if (\<not> distinct (case_ids g)) ''duplicate_falsification_case''"

definition audit_gauntlet :: "(pyval \<Rightarrow> string) \<Rightarrow> gauntlet_input \<Rightarrow> gauntlet_audit" where
  "audit_gauntlet hash x =
     (case gauntlet_from_any hash x of
        None \<Rightarrow>
          \<lparr>gd_passed = False, gd_reasons = [''malformed_falsification_bundle''], gd_required = [], gd_survived = [],
           gd_failed = [], gd_missing = [], gd_expected_hash = [], gd_actual_hash = []\<rparr>
      | Some g \<Rightarrow>
          (let unknown = filter (\<lambda>r. fo_case_id r \<notin> set (case_ids g)) (ga_outcomes g);
               by_case = outcomes_by_case (ga_outcomes g);
               missing = filter (\<lambda>c. c \<notin> set (map fst by_case)) (ga_required g);
               judged = map (judge_case (ga_required g)) by_case;
               reasons = header_reasons hash x g @ map (\<lambda>_. ''unknown_falsification_outcome'') unknown @
                 only_if (missing \<noteq> []) ''missing_required_falsification_outcome'' @ concat (map fst judged)
           in \<lparr>gd_passed = (reasons = []), gd_reasons = dedupe reasons, gd_required = ga_required g,
               gd_survived = dedupe (concat (map (snd \<circ> snd) judged)),
               gd_failed = dedupe (filter (\<lambda>c. c \<noteq> []) (map fo_case_id unknown @ concat (map (fst \<circ> snd) judged))),
               gd_missing = dedupe missing, gd_expected_hash = expected_gauntlet_hash x,
               gd_actual_hash = gauntlet_hash hash g\<rparr>))"

section \<open>The audit against its specification\<close>

definition survives :: "(pyval \<Rightarrow> string) \<Rightarrow> gauntlet_input \<Rightarrow> gauntlet \<Rightarrow> bool" where
  "survives hash x g \<longleftrightarrow>
     ga_scope g \<noteq> [] \<and> ga_candidate_id g \<noteq> [] \<and> ga_problem_hash g \<noteq> [] \<and> ga_cases g \<noteq> [] \<and> ga_required g \<noteq> [] \<and>
     expected_gauntlet_hash x = gauntlet_hash hash g \<and> distinct (case_ids g) \<and> distinct (map fo_case_id (ga_outcomes g)) \<and>
     list_all (\<lambda>r. fo_case_id r \<in> set (case_ids g) \<and> fo_trusted r \<and> \<not> falsified r \<and> \<not> inconclusive r) (ga_outcomes g) \<and>
     list_all (\<lambda>c. list_ex (\<lambda>r. fo_case_id r = c \<and> fo_survived r \<and> fo_evidence_ref r \<noteq> []) (ga_outcomes g)) (ga_required g)"

lemma outcomes_by_case_lookup:
  "map_of (outcomes_by_case rs) c = (let xs = filter (\<lambda>r. fo_case_id r = c) rs in if xs = [] then None else Some xs)"
  by (induction rs rule: rev_induct) (auto simp: outcomes_by_case_def Let_def)

lemma outcomes_by_case_distinct: "distinct (map fst (outcomes_by_case rs))"
  by (induction rs rule: rev_induct) (auto simp: outcomes_by_case_def intro: distinct_dset)

lemma outcomes_by_case_mem:
  "(c, xs) \<in> set (outcomes_by_case rs) \<longleftrightarrow> xs \<noteq> [] \<and> xs = filter (\<lambda>r. fo_case_id r = c) rs"
proof -
  have "(c, xs) \<in> set (outcomes_by_case rs) \<longleftrightarrow> map_of (outcomes_by_case rs) c = Some xs"
    by (simp add: outcomes_by_case_distinct)
  then show ?thesis by (auto simp: outcomes_by_case_lookup Let_def split: if_splits)
qed

lemma outcomes_by_case_keys: "set (map fst (outcomes_by_case rs)) = fo_case_id ` set rs"
proof -
  have "c \<in> fst ` set (outcomes_by_case rs) \<longleftrightarrow> c \<in> fo_case_id ` set rs" for c
    unfolding map_of_fst_Some outcomes_by_case_lookup by (auto simp: Let_def filter_empty_conv image_iff)
  then show ?thesis unfolding set_map by blast
qed

lemma single_filter:
  "distinct (map f rs) \<longleftrightarrow> (\<forall>r\<in>set rs. filter (\<lambda>r'. f r' = f r) rs = [r])"
proof (induction rs)
  case (Cons r rs)
  have "filter (\<lambda>r'. f r' = f r) (r # rs) = [r] \<longleftrightarrow> f r \<notin> f ` set rs" by (auto simp: filter_empty_conv image_iff)
  moreover have "filter (\<lambda>r'. f r' = f q) (r # rs) = [q] \<longleftrightarrow> filter (\<lambda>r'. f r' = f q) rs = [q]"
    if "f r \<notin> f ` set rs" "q \<in> set rs" for q
    using that by auto
  ultimately show ?case using Cons by auto
qed simp

lemma outcome_reasons_none:
  "outcome_failure_reasons r req = [] \<longleftrightarrow>
     fo_trusted r \<and> \<not> inconclusive r \<and> \<not> falsified r \<and> (req \<longrightarrow> fo_survived r \<and> fo_evidence_ref r \<noteq> [])"
  by (auto simp: outcome_failure_reasons_def)

lemma judge_none:
  "fst (judge_case req (c, xs)) = [] \<longleftrightarrow> (\<exists>r. xs = [r] \<and> outcome_failure_reasons r (c \<in> set req) = [])"
  by (auto simp: judge_case_def Let_def split: list.splits)

lemma judged_none:
  "concat (map fst (map (judge_case req) (outcomes_by_case rs))) = [] \<longleftrightarrow>
     distinct (map fo_case_id rs) \<and> (\<forall>r\<in>set rs. outcome_failure_reasons r (fo_case_id r \<in> set req) = [])"
  (is "?judged \<longleftrightarrow> _")
proof -
  let ?of = "\<lambda>r. filter (\<lambda>r'. fo_case_id r' = fo_case_id r) rs"
  have "?judged \<longleftrightarrow> (\<forall>(c, xs)\<in>set (outcomes_by_case rs). \<exists>r. xs = [r] \<and> outcome_failure_reasons r (c \<in> set req) = [])"
    using judge_none [of req] by (auto simp: case_prod_beta)
  also have "\<dots> \<longleftrightarrow> (\<forall>r\<in>set rs. \<exists>r'. ?of r = [r'] \<and> outcome_failure_reasons r' (fo_case_id r \<in> set req) = [])"
  proof
    assume all: "\<forall>(c, xs)\<in>set (outcomes_by_case rs). \<exists>r. xs = [r] \<and> outcome_failure_reasons r (c \<in> set req) = []"
    show "\<forall>r\<in>set rs. \<exists>r'. ?of r = [r'] \<and> outcome_failure_reasons r' (fo_case_id r \<in> set req) = []"
    proof
      fix r
      assume "r \<in> set rs"
      then have "(fo_case_id r, ?of r) \<in> set (outcomes_by_case rs)" by (auto simp: outcomes_by_case_mem filter_empty_conv)
      with all show "\<exists>r'. ?of r = [r'] \<and> outcome_failure_reasons r' (fo_case_id r \<in> set req) = []" by blast
    qed
  next
    assume all: "\<forall>r\<in>set rs. \<exists>r'. ?of r = [r'] \<and> outcome_failure_reasons r' (fo_case_id r \<in> set req) = []"
    show "\<forall>(c, xs)\<in>set (outcomes_by_case rs). \<exists>r. xs = [r] \<and> outcome_failure_reasons r (c \<in> set req) = []"
    proof (intro ballI, clarify)
      fix c xs
      assume "(c, xs) \<in> set (outcomes_by_case rs)"
      then have xs: "xs \<noteq> []" "xs = filter (\<lambda>r. fo_case_id r = c) rs" unfolding outcomes_by_case_mem by blast+
      then obtain r where "r \<in> set rs" "fo_case_id r = c" using hd_in_set [of xs] by auto
      with all xs(2) show "\<exists>r. xs = [r] \<and> outcome_failure_reasons r (c \<in> set req) = []" by blast
    qed
  qed
  also have "\<dots> \<longleftrightarrow> (\<forall>r\<in>set rs. ?of r = [r] \<and> outcome_failure_reasons r (fo_case_id r \<in> set req) = [])"
  proof (rule ball_cong [OF refl])
    fix r
    assume "r \<in> set rs"
    then have "r \<in> set (?of r)" by simp
    then have "?of r = [r'] \<Longrightarrow> r' = r" for r' by simp
    then show "(\<exists>r'. ?of r = [r'] \<and> outcome_failure_reasons r' (fo_case_id r \<in> set req) = []) \<longleftrightarrow>
        ?of r = [r] \<and> outcome_failure_reasons r (fo_case_id r \<in> set req) = []" by blast
  qed
  finally show ?thesis unfolding single_filter by blast
qed

lemma header_none:
  "header_reasons hash x g = [] \<longleftrightarrow>
     ga_scope g \<noteq> [] \<and> ga_candidate_id g \<noteq> [] \<and> ga_problem_hash g \<noteq> [] \<and> ga_cases g \<noteq> [] \<and> ga_required g \<noteq> [] \<and>
     expected_gauntlet_hash x = gauntlet_hash hash g \<and> distinct (case_ids g)"
  by (auto simp: header_reasons_def gauntlet_hash_def)

lemma missing_none:
  "filter (\<lambda>c. c \<notin> set (map fst (outcomes_by_case rs))) req = [] \<longleftrightarrow> set req \<subseteq> fo_case_id ` set rs"
  unfolding outcomes_by_case_keys filter_empty_conv by blast

lemma gauntlet_passed:
  "gd_passed (audit_gauntlet hash x) \<longleftrightarrow>
     (case gauntlet_from_any hash x of None \<Rightarrow> False | Some g \<Rightarrow> survives hash x g)"
proof (cases "gauntlet_from_any hash x")
  case None
  then show ?thesis by (simp add: audit_gauntlet_def)
next
  case (Some g)
  let ?rs = "ga_outcomes g" and ?req = "ga_required g"
  have answered: "set ?req \<subseteq> fo_case_id ` set ?rs \<and> (\<forall>r\<in>set ?rs. fo_case_id r \<in> set ?req \<longrightarrow> ok r) \<longleftrightarrow>
      (\<forall>c\<in>set ?req. \<exists>r\<in>set ?rs. fo_case_id r = c \<and> ok r)" if "distinct (map fo_case_id ?rs)" for ok
  proof -
    have "inj_on fo_case_id (set ?rs)" using that by (simp add: distinct_map)
    then show ?thesis by (auto simp: inj_on_def image_subset_iff subset_iff image_iff) metis+
  qed
  have "gd_passed (audit_gauntlet hash x) \<longleftrightarrow>
      header_reasons hash x g = [] \<and> filter (\<lambda>r. fo_case_id r \<notin> set (case_ids g)) ?rs = [] \<and>
      filter (\<lambda>c. c \<notin> set (map fst (outcomes_by_case ?rs))) ?req = [] \<and>
      concat (map fst (map (judge_case ?req) (outcomes_by_case ?rs))) = []"
    by (simp add: audit_gauntlet_def Some Let_def del: concat_eq_Nil_conv map_map list.map_comp)
  also have "\<dots> \<longleftrightarrow> survives hash x g"
    unfolding header_none missing_none judged_none outcome_reasons_none survives_def list_all_iff list_ex_iff filter_empty_conv
    using answered [of "\<lambda>r. fo_survived r \<and> fo_evidence_ref r \<noteq> []"] by blast
  finally show ?thesis by (simp add: Some)
qed

text \<open>
  C12: the audit passes exactly the gauntlets that survive: with scope, candidate and model, bound to their content
  by the expected hash, with different cases, one trusted outcome at most for each and none for other cases, no outcome that is
  falsified or inconclusive, and for every required case an outcome that survived with evidence.
\<close>

theorem gauntlet_audit_iff:
  "gd_passed (audit_gauntlet hash x) \<longleftrightarrow>
     (case gauntlet_from_any hash x of None \<Rightarrow> False | Some g \<Rightarrow> survives hash x g)"
  by (rule gauntlet_passed)

section \<open>Stored gauntlets\<close>

lemma fcase_roundtrip: "fcase_from_any (PDict (fcase_to_dict (fcase_init c))) = Some (fcase_init c)"
  by (cases c) (simp add: fcase_from_any_def fcase_to_dict_def fcase_init_def dget_def dget_or_def py_or_def str_or_def str_field_def)

lemma foutcome_status_fixed:
  "foutcome_status (foutcome_status raw p b) p' b' = foutcome_status raw p b"
proof -
  have known: "lower (strip ''survived'') = ''survived''" "lower (strip ''falsified'') = ''falsified''" by code_simp+
  show ?thesis by (auto simp: foutcome_status_def Let_def known split: option.splits)
qed

lemma foutcome_status_nonempty: "foutcome_status raw p b \<noteq> []"
  by (auto simp: foutcome_status_def Let_def split: option.splits)

lemma foutcome_roundtrip: "foutcome_from_any (PDict (foutcome_to_dict (foutcome_init r))) = Some (foutcome_init r)"
  by (cases r)
    (simp add: foutcome_from_any_def foutcome_to_dict_def foutcome_init_def dget_def dget_or_def py_or_def str_field_def Let_def
      foutcome_status_fixed foutcome_status_nonempty)

lemma map_filter_roundtrip: "(\<And>x. x \<in> set xs \<Longrightarrow> f (g x) = Some x) \<Longrightarrow> List.map_filter f (map g xs) = xs"
  by (induction xs) (auto simp: map_filter_def)

lemma gauntlet_fields:
  "ga_required (build_gauntlet hash scope cand problem cs os req) =
     (let r = dedupe (filter (\<lambda>s. s \<noteq> []) req) in if r \<noteq> [] then r else map fc_case_id (filter (\<lambda>c. fc_required c \<and> fc_case_id c \<noteq> []) cs))"
  "ga_evidence_refs (build_gauntlet hash scope cand problem cs os req) = dedupe (filter (\<lambda>s. s \<noteq> []) (map fo_evidence_ref os))"
  "ga_bundle_hash (build_gauntlet hash scope cand problem cs os req) = gauntlet_hash hash (build_gauntlet hash scope cand problem cs os req)"
  "ga_version (build_gauntlet hash scope cand problem cs os req) = FALSIFICATION_VERSION"
  "ga_scope (build_gauntlet hash scope cand problem cs os req) = scope"
  "ga_candidate_id (build_gauntlet hash scope cand problem cs os req) = cand"
  "ga_problem_hash (build_gauntlet hash scope cand problem cs os req) = problem"
  "ga_cases (build_gauntlet hash scope cand problem cs os req) = cs"
  "ga_outcomes (build_gauntlet hash scope cand problem cs os req) = os"
  by (simp_all add: build_gauntlet_def gauntlet_init_def Let_def gauntlet_hash_def gauntlet_payload_def gauntlet_to_dict_def
      FALSIFICATION_VERSION_def str_or_def)

lemma gauntlet_lookups:
  "dget (gauntlet_to_dict hash g) ''version'' = PStr (ga_version g)"
  "dget (gauntlet_to_dict hash g) ''scope'' = PStr (ga_scope g)"
  "dget (gauntlet_to_dict hash g) ''candidate_id'' = PStr (ga_candidate_id g)"
  "dget (gauntlet_to_dict hash g) ''problem_model_snapshot_hash'' = PStr (ga_problem_hash g)"
  "dget (gauntlet_to_dict hash g) ''cases'' = PList (map (\<lambda>c. PDict (fcase_to_dict c)) (ga_cases g))"
  "dget (gauntlet_to_dict hash g) ''outcomes'' = PList (map (\<lambda>r. PDict (foutcome_to_dict r)) (ga_outcomes g))"
  "dget (gauntlet_to_dict hash g) ''required_case_ids'' = PList (map PStr (ga_required g))"
  "dget (gauntlet_to_dict hash g) ''evidence_refs'' = PList (map PStr (ga_evidence_refs g))"
  "dget (gauntlet_to_dict hash g) ''falsification_bundle_hash'' = PStr (ga_bundle_hash g)"
  by (simp_all add: gauntlet_to_dict_def dget_def)

lemma gauntlet_decoded:
  assumes "g = build_gauntlet hash scope cand problem (map fcase_init cs) (map foutcome_init os) req" "distinct (ga_required g)"
  shows "gauntlet_of_dict hash (gauntlet_to_dict hash g) = g"
proof -
  let ?cases = "map fcase_init cs" and ?outcomes = "map foutcome_init os"
  note fields = gauntlet_fields [where hash = hash and scope = scope and cand = cand and problem = problem and cs = ?cases
      and os = ?outcomes and req = req, folded assms(1)]
  have cases: "List.map_filter fcase_from_any (map (\<lambda>c. PDict (fcase_to_dict c)) (ga_cases g)) = ga_cases g"
    unfolding fields by (rule map_filter_roundtrip) (auto simp: fcase_roundtrip)
  have outcomes: "List.map_filter foutcome_from_any (map (\<lambda>r. PDict (foutcome_to_dict r)) (ga_outcomes g)) = ga_outcomes g"
    unfolding fields by (rule map_filter_roundtrip) (auto simp: foutcome_roundtrip)
  have named: "[] \<notin> set (ga_required g)" "[] \<notin> set (ga_evidence_refs g)" unfolding fields by (auto simp: Let_def)
  have distinct: "distinct (ga_evidence_refs g)" unfolding fields by (rule distinct_dedupe)
  note req = str_tuple_strings [OF assms(2) named(1)] and refs = str_tuple_strings [OF distinct named(2)]
  have "filter (\<lambda>s. s \<noteq> []) xs = xs" if "[] \<notin> set xs" for xs :: "string list"
    using that by (intro filter_True) auto
  note kept = this [OF named(1)] this [OF named(2)]
  have uniq: "dedupe (ga_required g) = ga_required g" "dedupe (ga_evidence_refs g) = ga_evidence_refs g"
    by (rule dedupe_id [OF assms(2)], rule dedupe_id [OF distinct])
  have dflt: "ga_required g = [] \<Longrightarrow> map fc_case_id (filter (\<lambda>c. fc_required c \<and> fc_case_id c \<noteq> []) (ga_cases g)) = []"
    unfolding fields by (simp add: Let_def split: if_splits)
  have hashed: "ga_bundle_hash g \<noteq> []" unfolding fields(3) by (simp add: gauntlet_hash_def)
  have version: "ga_version g \<noteq> []" unfolding fields(4) by (simp add: FALSIFICATION_VERSION_def)
  have "gauntlet_of_dict hash (gauntlet_to_dict hash g) = gauntlet_init hash g"
    unfolding gauntlet_of_dict_def gauntlet_lookups as_sequence_PList cases outcomes req refs py_or_def
    using hashed version by (intro arg_cong [of _ _ "gauntlet_init hash"] gauntlet.equality) simp_all
  also have "\<dots> = g"
  proof -
    have "(if ga_required g \<noteq> [] then ga_required g
        else map fc_case_id (filter (\<lambda>c. fc_required c \<and> fc_case_id c \<noteq> []) (ga_cases g))) = ga_required g"
      using dflt by simp
    moreover have "(if ga_evidence_refs g \<noteq> [] then ga_evidence_refs g
        else dedupe (filter (\<lambda>s. s \<noteq> []) (map fo_evidence_ref (ga_outcomes g)))) = ga_evidence_refs g"
      using fields(2,9) by simp
    ultimately show ?thesis
      unfolding gauntlet_init_def kept uniq Let_def using hashed version by (simp add: str_or_def)
  qed
  finally show ?thesis .
qed

text \<open>
  Round trip. A gauntlet that the program builds and stores is decoded to itself, when its required cases have
  different identifiers, and so the audit judges the stored form as it judges the object.
\<close>

theorem gauntlet_roundtrip:
  assumes "g = build_gauntlet hash scope cand problem (map fcase_init cs) (map foutcome_init os) req" "distinct (ga_required g)"
  shows "gauntlet_of_dict hash (gauntlet_to_dict hash g) = g \<and>
    audit_gauntlet hash (GauntletRaw (PDict (gauntlet_to_dict hash g))) = audit_gauntlet hash (GauntletObject g)"
proof -
  note decoded = gauntlet_decoded [OF assms]
  have nonempty: "gauntlet_to_dict hash g \<noteq> []" by (simp add: gauntlet_to_dict_def)
  have "ga_bundle_hash g = gauntlet_hash hash g" unfolding assms(1) by (rule gauntlet_fields(3))
  then have "ga_bundle_hash g \<noteq> []" by (simp add: gauntlet_hash_def)
  then have "expected_gauntlet_hash (GauntletRaw (PDict (gauntlet_to_dict hash g))) = expected_gauntlet_hash (GauntletObject g)"
    by (simp add: gauntlet_lookups py_or_def)
  moreover have "gauntlet_from_any hash (GauntletRaw (PDict (gauntlet_to_dict hash g))) = gauntlet_from_any hash (GauntletObject g)"
    using decoded nonempty by simp
  ultimately have "audit_gauntlet hash (GauntletRaw (PDict (gauntlet_to_dict hash g))) = audit_gauntlet hash (GauntletObject g)"
    unfolding audit_gauntlet_def header_reasons_def by (simp only: )
  with decoded show ?thesis by blast
qed

section \<open>Binding\<close>

definition gauntlet_content :: "gauntlet \<Rightarrow> gauntlet" where
  "gauntlet_content g = g\<lparr>ga_bundle_hash := []\<rparr>"

lemma fcase_to_dict_inj: "fcase_to_dict a = fcase_to_dict b \<longleftrightarrow> a = b"
  by (cases a; cases b) (auto simp: fcase_to_dict_def)

lemma foutcome_to_dict_inj: "foutcome_to_dict a = foutcome_to_dict b \<longleftrightarrow> a = b"
  by (cases a; cases b) (auto simp: foutcome_to_dict_def split: option.splits)

lemma map_PDict_inj:
  "(\<And>a b. f a = f b \<longleftrightarrow> a = b) \<Longrightarrow> map (\<lambda>x. PDict (f x)) xs = map (\<lambda>x. PDict (f x)) ys \<longleftrightarrow> xs = ys"
  by (rule inj_map_eq_map) (simp add: inj_def)

interpretation falsification: hash_bound "gauntlet_payload hash" gauntlet_content "''fgb:''" for hash
proof unfold_locales
  fix a b :: gauntlet
  assume same: "gauntlet_payload hash a = gauntlet_payload hash b"
  have strings: "map PStr xs = map PStr ys \<longleftrightarrow> xs = ys" for xs ys :: "string list"
    by (rule inj_map_eq_map) (simp add: inj_def)
  show "gauntlet_content a = gauntlet_content b"
    using same
    by (cases a; cases b)
      (simp add: gauntlet_payload_def gauntlet_to_dict_def gauntlet_content_def map_PDict_inj fcase_to_dict_inj foutcome_to_dict_inj strings)
qed

lemma falsification_digest: "falsification.digest hash hash g = gauntlet_hash hash g"
  by (simp add: falsification.digest_def gauntlet_hash_def)

text \<open>
  C25: tampering. Let a stored dictionary carry the hash of a gauntlet. If the audit passes, then what the dictionary says is
  exactly the content of that gauntlet, unless the hash function collides on the two payloads.
\<close>

theorem gauntlet_tamper_detected:
  assumes "gd_passed (audit_gauntlet hash (GauntletRaw (PDict d)))"
    and "expected_gauntlet_hash (GauntletRaw (PDict d)) = gauntlet_hash hash g"
    and "hash (PDict (gauntlet_payload hash (gauntlet_of_dict hash d))) = hash (PDict (gauntlet_payload hash g)) \<Longrightarrow>
      gauntlet_payload hash (gauntlet_of_dict hash d) = gauntlet_payload hash g"
  shows "gauntlet_content (gauntlet_of_dict hash d) = gauntlet_content g"
proof -
  have "gauntlet_from_any hash (GauntletRaw (PDict d)) = None \<or> gauntlet_from_any hash (GauntletRaw (PDict d)) = Some (gauntlet_of_dict hash d)"
    by (auto simp: Let_def)
  then have "survives hash (GauntletRaw (PDict d)) (gauntlet_of_dict hash d)"
    using assms(1) unfolding gauntlet_passed by auto
  then have "gauntlet_hash hash (gauntlet_of_dict hash d) = gauntlet_hash hash g"
    using assms(2) by (simp only: survives_def)
  then show ?thesis
    using assms(3) falsification.same_digest [of hash hash "gauntlet_of_dict hash d" g] unfolding falsification_digest by blast
qed

text \<open>
  A listed set of required cases replaces the flags of the cases. A gauntlet passes that holds a case marked as
  required for which there is no outcome at all.
\<close>

theorem required_flag_overridden:
  "\<exists>g. gd_passed (audit_gauntlet hash (GauntletObject g)) \<and>
     list_ex (\<lambda>c. fc_required c \<and> fc_case_id c \<notin> set (map fo_case_id (ga_outcomes g))) (ga_cases g)"
proof -
  let ?case = "\<lambda>i. fcase_init \<lparr>fc_case_id = i, fc_assertion_ref = [], fc_challenge = [], fc_expected_failure_mode = [],
      fc_severity = [], fc_required = True, fc_metadata = []\<rparr>"
  let ?outcome = "foutcome_init \<lparr>fo_case_id = ''a'', fo_survived = True, fo_evidence_ref = ''e'', fo_trusted = True, fo_status = [],
      fo_counterexample_ref = [], fo_notes = [], fo_passed = None, fo_metadata = []\<rparr>"
  let ?g = "build_gauntlet hash ''s'' ''c'' ''p'' [?case ''a'', ?case ''b''] [?outcome] [''a'']"
  have status: "foutcome_status [] None True = ''survived''" by code_simp
  have "dedupe [''a''] = [''a'']" by code_simp
  then have "survives hash (GauntletObject ?g) ?g"
    by (simp add: survives_def gauntlet_fields case_ids_def fcase_init_def foutcome_init_def status falsified_def inconclusive_def Let_def)
  moreover have "list_ex (\<lambda>c. fc_required c \<and> fc_case_id c \<notin> set (map fo_case_id (ga_outcomes ?g))) (ga_cases ?g)"
    by (simp add: gauntlet_fields fcase_init_def foutcome_init_def Let_def)
  ultimately show ?thesis
    unfolding gauntlet_passed by (intro exI [of _ ?g]) (simp only: gauntlet_from_any.simps option.case simp_thms)
qed

section \<open>The hypotheses hold of a small gauntlet\<close>

definition demo_case :: fcase where
  "demo_case = \<lparr>fc_case_id = ''a'', fc_assertion_ref = [], fc_challenge = ''q'', fc_expected_failure_mode = [], fc_severity = [],
     fc_required = True, fc_metadata = []\<rparr>"

definition demo_outcome :: foutcome where
  "demo_outcome = \<lparr>fo_case_id = ''a'', fo_survived = False, fo_evidence_ref = ''e'', fo_trusted = True, fo_status = '' PASS '',
     fo_counterexample_ref = [], fo_notes = [], fo_passed = None, fo_metadata = []\<rparr>"

definition demo_gauntlet :: gauntlet where
  "demo_gauntlet = build_gauntlet (\<lambda>_. ''h'') ''s'' ''c'' ''p'' (map fcase_init [demo_case]) (map foutcome_init [demo_outcome]) []"

lemma demo_gauntlet_facts:
  "distinct (ga_required demo_gauntlet)" "gd_passed (audit_gauntlet (\<lambda>_. ''h'') (GauntletObject demo_gauntlet))"
  "expected_gauntlet_hash (GauntletRaw (PDict (gauntlet_to_dict (\<lambda>_. ''h'') demo_gauntlet))) = gauntlet_hash (\<lambda>_. ''h'') demo_gauntlet"
  by code_simp+

theorem gauntlet_roundtrip_witness:
  "gauntlet_of_dict (\<lambda>_. ''h'') (gauntlet_to_dict (\<lambda>_. ''h'') demo_gauntlet) = demo_gauntlet"
  using gauntlet_roundtrip [OF demo_gauntlet_def demo_gauntlet_facts(1)] by blast

theorem gauntlet_tamper_detected_witness:
  "gauntlet_content (gauntlet_of_dict (\<lambda>_. ''h'') (gauntlet_to_dict (\<lambda>_. ''h'') demo_gauntlet)) = gauntlet_content demo_gauntlet"
proof -
  note decoded = gauntlet_decoded [OF demo_gauntlet_def demo_gauntlet_facts(1)]
  have "gd_passed (audit_gauntlet (\<lambda>_. ''h'') (GauntletRaw (PDict (gauntlet_to_dict (\<lambda>_. ''h'') demo_gauntlet))))" by code_simp
  from gauntlet_tamper_detected [OF this demo_gauntlet_facts(3)] decoded show ?thesis by simp
qed

end
