(* ===== verification/ReplayBundle.thy ===== *)
theory ReplayBundle
  imports Bundles
begin

text \<open>
  outcomes/closure_bundle.py: the structural replay bundle that binds the digests of a closure into one content hash, and its
  audit. A bundle given to the audit is an object, constructed from given fields, or a decoded value. \<open>stable_hash\<close> is
  the argument \<open>hash\<close>.
\<close>

section \<open>Digests\<close>

record digests =
  dg_e_process :: string
  dg_calibration :: string
  dg_falsification :: string
  dg_problem_model :: string
  dg_latent :: string
  dg_pareto :: string
  dg_compaction :: string

definition digest_values :: "digests \<Rightarrow> (string \<times> string) list" where
  "digest_values d =
     [(''e_process_digest'', dg_e_process d), (''calibration_digest'', dg_calibration d), (''falsification_digest'', dg_falsification d),
      (''problem_model_digest'', dg_problem_model d), (''latent_digest'', dg_latent d), (''pareto_digest'', dg_pareto d),
      (''compaction_digest'', dg_compaction d)]"

definition digests_to_dict :: "digests \<Rightarrow> pydict" where
  "digests_to_dict d = map (map_prod id PStr) (digest_values d)"

definition missing_fields :: "digests \<Rightarrow> string list" where
  "missing_fields d = map fst (filter (\<lambda>(_, v). v = []) (digest_values d))"

definition binding_hash :: "(pyval \<Rightarrow> string) \<Rightarrow> digests \<Rightarrow> string" where
  "binding_hash hash d = ''crd:'' @ hash (PDict (digests_to_dict d))"

fun digest_value :: "pydict \<Rightarrow> string list \<Rightarrow> string" where
  "digest_value d [] = []"
| "digest_value d (k # ks) = (if truthy (dget d k) then py_str (dget d k) else digest_value d ks)"

definition digests_of_dict :: "pydict \<Rightarrow> digests" where
  "digests_of_dict d =
     \<lparr>dg_e_process = digest_value d [''e_process_digest'', ''e_process'', ''e_process_state_hash'', ''eprocess_digest''],
      dg_calibration = digest_value d [''calibration_digest'', ''calibration'', ''calibration_snapshot_hash''],
      dg_falsification = digest_value d [''falsification_digest'', ''falsification'', ''falsification_bundle_hash''],
      dg_problem_model = digest_value d [''problem_model_digest'', ''problem_model'', ''problem_model_snapshot_hash''],
      dg_latent = digest_value d [''latent_digest'', ''latent'', ''latent_replay_digest'', ''latent_snapshot_hash''],
      dg_pareto = digest_value d [''pareto_digest'', ''pareto'', ''pareto_frontier_hash''],
      dg_compaction = digest_value d [''compaction_digest'', ''compaction'', ''compaction_hash'']\<rparr>"

section \<open>Bundles\<close>

record replay_bundle =
  rb_scope :: string
  rb_candidate_id :: string
  rb_digests :: digests
  rb_baseline_id :: string
  rb_steps :: "pydict list"
  rb_evidence_refs :: "string list"
  rb_bundle_hash :: string
  rb_version :: string

definition REPLAY_VERSION :: string where
  "REPLAY_VERSION = ''m6-structural-replay-bundle/v1''"

definition bundle_to_dict :: "(pyval \<Rightarrow> string) \<Rightarrow> replay_bundle \<Rightarrow> pydict" where
  "bundle_to_dict hash b =
     [(''version'', PStr (rb_version b)), (''scope'', PStr (rb_scope b)), (''candidate_id'', PStr (rb_candidate_id b)),
      (''baseline_id'', PStr (rb_baseline_id b)), (''digests'', PDict (digests_to_dict (rb_digests b))),
      (''digest_binding_hash'', PStr (binding_hash hash (rb_digests b))), (''replay_steps'', PList (map PDict (rb_steps b))),
      (''evidence_refs'', PList (map PStr (rb_evidence_refs b))), (''structural_replay_bundle_hash'', PStr (rb_bundle_hash b))]"

definition bundle_payload :: "(pyval \<Rightarrow> string) \<Rightarrow> replay_bundle \<Rightarrow> pydict" where
  "bundle_payload hash b = ddel ''structural_replay_bundle_hash'' (bundle_to_dict hash b)"

definition bundle_hash :: "(pyval \<Rightarrow> string) \<Rightarrow> replay_bundle \<Rightarrow> string" where
  "bundle_hash hash b = ''srb:'' @ hash (PDict (bundle_payload hash b))"

definition bundle_init :: "(pyval \<Rightarrow> string) \<Rightarrow> replay_bundle \<Rightarrow> replay_bundle" where
  "bundle_init hash b0 =
     (let b = b0\<lparr>rb_evidence_refs := dedupe (filter (\<lambda>s. s \<noteq> []) (rb_evidence_refs b0)),
                 rb_version := str_or (rb_version b0) REPLAY_VERSION\<rparr>
      in if rb_bundle_hash b = [] then b\<lparr>rb_bundle_hash := bundle_hash hash b\<rparr> else b)"

definition build_bundle ::
  "(pyval \<Rightarrow> string) \<Rightarrow> string \<Rightarrow> string \<Rightarrow> digests \<Rightarrow> string \<Rightarrow> pydict list \<Rightarrow> string list \<Rightarrow> replay_bundle" where
  "build_bundle hash scope candidate d baseline steps refs =
     bundle_init hash
       \<lparr>rb_scope = scope, rb_candidate_id = candidate, rb_digests = d, rb_baseline_id = baseline, rb_steps = steps,
        rb_evidence_refs = refs, rb_bundle_hash = [], rb_version = REPLAY_VERSION\<rparr>"

definition bundle_of_dict :: "(pyval \<Rightarrow> string) \<Rightarrow> pydict \<Rightarrow> replay_bundle" where
  "bundle_of_dict hash d =
     bundle_init hash
       \<lparr>rb_scope = str_field (dget d ''scope'') [], rb_candidate_id = str_field (dget d ''candidate_id'') [],
        rb_digests = digests_of_dict (coerce_dict (py_or (dget d ''digests'') (PDict d))),
        rb_baseline_id = str_field (dget d ''baseline_id'') [], rb_steps = map coerce_dict (as_sequence (dget d ''replay_steps'')),
        rb_evidence_refs = str_tuple (dget d ''evidence_refs''),
        rb_bundle_hash = str_field (py_or (dget d ''structural_replay_bundle_hash'') (dget d ''bundle_hash'')) [],
        rb_version = str_field (dget d ''version'') REPLAY_VERSION\<rparr>"

datatype bundle_input = BundleObject replay_bundle | BundleRaw pyval

fun bundle_from_any :: "(pyval \<Rightarrow> string) \<Rightarrow> bundle_input \<Rightarrow> replay_bundle option" where
  "bundle_from_any hash (BundleObject b) = Some b"
| "bundle_from_any hash (BundleRaw raw) =
     (let d = coerce_dict raw in if d = [] then None else Some (bundle_of_dict hash d))"

fun expected_bundle_hash :: "bundle_input \<Rightarrow> string" where
  "expected_bundle_hash (BundleObject b) = rb_bundle_hash b"
| "expected_bundle_hash (BundleRaw raw) =
     (let d = coerce_dict raw in str_field (py_or (dget d ''structural_replay_bundle_hash'') (dget d ''bundle_hash'')) [])"

section \<open>The audit\<close>

record replay_audit =
  rv_passed :: bool
  rv_reasons :: "string list"
  rv_missing :: "string list"
  rv_mismatched :: "string list"
  rv_expected_hash :: string
  rv_actual_hash :: string
  rv_binding_hash :: string

definition mismatched_fields :: "digests \<Rightarrow> digests \<Rightarrow> string list" where
  "mismatched_fields d e = map (fst \<circ> fst) (filter (\<lambda>((_, v), (_, w)). v \<noteq> w) (zip (digest_values d) (digest_values e)))"

definition audit_bundle :: "(pyval \<Rightarrow> string) \<Rightarrow> bundle_input \<Rightarrow> digests option \<Rightarrow> replay_audit" where
  "audit_bundle hash x expected =
     (case bundle_from_any hash x of
        None \<Rightarrow>
          \<lparr>rv_passed = False, rv_reasons = [''malformed_structural_replay_bundle''], rv_missing = [], rv_mismatched = [],
           rv_expected_hash = [], rv_actual_hash = [], rv_binding_hash = []\<rparr>
      | Some b \<Rightarrow>
          (let missing = missing_fields (rb_digests b);
               mismatched = (case expected of None \<Rightarrow> [] | Some e \<Rightarrow> mismatched_fields (rb_digests b) e);
               reasons =
                 only_if (rb_scope b = []) ''missing_scope'' @
                 only_if (rb_candidate_id b = []) ''missing_candidate_id'' @
                 only_if (missing \<noteq> []) ''missing_required_closure_digest'' @
                 (if expected_bundle_hash x = [] then [''missing_structural_replay_bundle_hash'']
                  else only_if (expected_bundle_hash x \<noteq> bundle_hash hash b) ''structural_replay_bundle_hash_mismatch'') @
                 only_if (mismatched \<noteq> []) ''closure_digest_mismatch''
           in \<lparr>rv_passed = (reasons = []), rv_reasons = dedupe reasons, rv_missing = missing, rv_mismatched = mismatched,
               rv_expected_hash = expected_bundle_hash x, rv_actual_hash = bundle_hash hash b,
               rv_binding_hash = binding_hash hash (rb_digests b)\<rparr>))"

section \<open>The audit against its specification\<close>

definition replayable :: "(pyval \<Rightarrow> string) \<Rightarrow> bundle_input \<Rightarrow> digests option \<Rightarrow> replay_bundle \<Rightarrow> bool" where
  "replayable hash x expected b \<longleftrightarrow>
     rb_scope b \<noteq> [] \<and> rb_candidate_id b \<noteq> [] \<and> [] \<notin> set (map snd (digest_values (rb_digests b))) \<and>
     expected_bundle_hash x = bundle_hash hash b \<and> (case expected of None \<Rightarrow> True | Some e \<Rightarrow> e = rb_digests b)"

lemma missing_fields_none: "missing_fields d = [] \<longleftrightarrow> [] \<notin> set (map snd (digest_values d))"
  by (auto simp: missing_fields_def filter_empty_conv image_iff)

lemma mismatched_none: "mismatched_fields d e = [] \<longleftrightarrow> e = d"
  by (cases d; cases e) (auto simp: mismatched_fields_def digest_values_def)

lemma replay_passed:
  "rv_passed (audit_bundle hash x expected) \<longleftrightarrow>
     (case bundle_from_any hash x of None \<Rightarrow> False | Some b \<Rightarrow> replayable hash x expected b)"
  by (cases "bundle_from_any hash x"; cases expected)
    (auto simp: audit_bundle_def Let_def replayable_def missing_fields_none mismatched_none bundle_hash_def simp del: set_map)

text \<open>
  The audit of a replay bundle passes exactly when it names scope and candidate, carries all seven digests, is bound
  to its content by the expected hash, and its digests are the expected ones, when there are any.
\<close>

theorem replay_audit_iff:
  "rv_passed (audit_bundle hash x expected) \<longleftrightarrow>
     (case bundle_from_any hash x of None \<Rightarrow> False | Some b \<Rightarrow> replayable hash x expected b)"
  by (rule replay_passed)

section \<open>Stored bundles\<close>

lemma digest_value_none: "list_all (\<lambda>k. dget d k = PNone) ks \<Longrightarrow> digest_value d ks = []"
  by (induction ks) auto

lemma digest_value_first:
  "dget d k = PStr s \<Longrightarrow> list_all (\<lambda>k. dget d k = PNone) ks \<Longrightarrow> digest_value d (k # ks) = s"
  by (simp add: digest_value_none)

definition DIGEST_KEYS :: "string list" where
  "DIGEST_KEYS = [''e_process_digest'', ''calibration_digest'', ''falsification_digest'', ''problem_model_digest'',
     ''latent_digest'', ''pareto_digest'', ''compaction_digest'']"

lemma digests_to_dict_lookup:
  assumes "map_of (digests_to_dict d) k = Some (PStr s)" "list_all (\<lambda>k. k \<notin> set DIGEST_KEYS) ks"
  shows "digest_value (digests_to_dict d) (k # ks) = s"
proof (rule digest_value_first)
  show "dget (digests_to_dict d) k = PStr s" using assms(1) by (simp add: dget_def)
  have "map fst (digests_to_dict d) = DIGEST_KEYS" by (simp add: digests_to_dict_def digest_values_def DIGEST_KEYS_def)
  then have "fst ` set (digests_to_dict d) = set DIGEST_KEYS" by (metis set_map)
  then have "k \<notin> set DIGEST_KEYS \<Longrightarrow> dget (digests_to_dict d) k = PNone" for k
    by (simp add: dget_def map_of_eq_None_iff [THEN iffD2])
  then show "list_all (\<lambda>k. dget (digests_to_dict d) k = PNone) ks"
    using assms(2) by (auto simp: list_all_iff)
qed

lemma digests_roundtrip: "digests_of_dict (digests_to_dict d) = d"
proof -
  have "map_of (digests_to_dict d) ''e_process_digest'' = Some (PStr (dg_e_process d))"
    "map_of (digests_to_dict d) ''calibration_digest'' = Some (PStr (dg_calibration d))"
    "map_of (digests_to_dict d) ''falsification_digest'' = Some (PStr (dg_falsification d))"
    "map_of (digests_to_dict d) ''problem_model_digest'' = Some (PStr (dg_problem_model d))"
    "map_of (digests_to_dict d) ''latent_digest'' = Some (PStr (dg_latent d))"
    "map_of (digests_to_dict d) ''pareto_digest'' = Some (PStr (dg_pareto d))"
    "map_of (digests_to_dict d) ''compaction_digest'' = Some (PStr (dg_compaction d))"
    by (simp_all add: digests_to_dict_def digest_values_def)
  note entries = this [THEN digests_to_dict_lookup]
  have aliases: "list_all (\<lambda>k. k \<notin> set DIGEST_KEYS) [''e_process'', ''e_process_state_hash'', ''eprocess_digest'']"
    "list_all (\<lambda>k. k \<notin> set DIGEST_KEYS) [''calibration'', ''calibration_snapshot_hash'']"
    "list_all (\<lambda>k. k \<notin> set DIGEST_KEYS) [''falsification'', ''falsification_bundle_hash'']"
    "list_all (\<lambda>k. k \<notin> set DIGEST_KEYS) [''problem_model'', ''problem_model_snapshot_hash'']"
    "list_all (\<lambda>k. k \<notin> set DIGEST_KEYS) [''latent'', ''latent_replay_digest'', ''latent_snapshot_hash'']"
    "list_all (\<lambda>k. k \<notin> set DIGEST_KEYS) [''pareto'', ''pareto_frontier_hash'']"
    "list_all (\<lambda>k. k \<notin> set DIGEST_KEYS) [''compaction'', ''compaction_hash'']"
    by code_simp+
  show ?thesis
    unfolding digests_of_dict_def entries(1) [OF aliases(1)] entries(2) [OF aliases(2)] entries(3) [OF aliases(3)]
      entries(4) [OF aliases(4)] entries(5) [OF aliases(5)] entries(6) [OF aliases(6)] entries(7) [OF aliases(7)]
    by simp
qed

lemma bundle_lookups:
  "dget (bundle_to_dict hash b) ''version'' = PStr (rb_version b)"
  "dget (bundle_to_dict hash b) ''scope'' = PStr (rb_scope b)"
  "dget (bundle_to_dict hash b) ''candidate_id'' = PStr (rb_candidate_id b)"
  "dget (bundle_to_dict hash b) ''baseline_id'' = PStr (rb_baseline_id b)"
  "dget (bundle_to_dict hash b) ''digests'' = PDict (digests_to_dict (rb_digests b))"
  "dget (bundle_to_dict hash b) ''replay_steps'' = PList (map PDict (rb_steps b))"
  "dget (bundle_to_dict hash b) ''evidence_refs'' = PList (map PStr (rb_evidence_refs b))"
  "dget (bundle_to_dict hash b) ''structural_replay_bundle_hash'' = PStr (rb_bundle_hash b)"
  by (simp_all add: bundle_to_dict_def dget_def)

lemma bundle_fields:
  "rb_evidence_refs (build_bundle hash scope cand d base steps refs) = dedupe (filter (\<lambda>s. s \<noteq> []) refs)"
  "rb_bundle_hash (build_bundle hash scope cand d base steps refs) = bundle_hash hash (build_bundle hash scope cand d base steps refs)"
  "rb_version (build_bundle hash scope cand d base steps refs) = REPLAY_VERSION"
  by (simp_all add: build_bundle_def bundle_init_def Let_def bundle_hash_def bundle_payload_def bundle_to_dict_def
      REPLAY_VERSION_def str_or_def)

lemma bundle_decoded:
  assumes "b = build_bundle hash scope cand d base steps refs"
  shows "bundle_of_dict hash (bundle_to_dict hash b) = b"
proof -
  note fields = bundle_fields [of hash scope cand d base steps refs, folded assms]
  have hashed: "rb_bundle_hash b \<noteq> []" unfolding fields(2) by (simp add: bundle_hash_def)
  have version: "rb_version b \<noteq> []" unfolding fields(3) by (simp add: REPLAY_VERSION_def)
  have named: "[] \<notin> set (rb_evidence_refs b)" "distinct (rb_evidence_refs b)" unfolding fields(1) by auto
  have kept: "filter (\<lambda>s. s \<noteq> []) (rb_evidence_refs b) = rb_evidence_refs b" using named(1) by (intro filter_True) auto
  have digests: "coerce_dict (py_or (PDict (digests_to_dict (rb_digests b))) v) = digests_to_dict (rb_digests b)" for v
    by (simp add: py_or_def digests_to_dict_def digest_values_def)
  have steps: "map coerce_dict (map PDict xs) = xs" for xs by (induction xs) auto
  have "bundle_of_dict hash (bundle_to_dict hash b) = bundle_init hash b"
    unfolding bundle_of_dict_def bundle_lookups as_sequence_PList digests steps digests_roundtrip
      str_tuple_strings [OF named(2,1)]
    unfolding py_or_def using hashed version by (intro arg_cong [of _ _ "bundle_init hash"] replay_bundle.equality) simp_all
  also have "\<dots> = b"
    unfolding bundle_init_def kept dedupe_id [OF named(2)] Let_def using hashed version by (simp add: str_or_def)
  finally show ?thesis .
qed

text \<open>
  Round trip. A bundle that the program builds is decoded from its stored form to itself, with its aliases and default
  keys out of the way, and the audit judges both alike.
\<close>

theorem bundle_roundtrip:
  assumes "b = build_bundle hash scope cand d base steps refs"
  shows "bundle_of_dict hash (bundle_to_dict hash b) = b \<and>
    audit_bundle hash (BundleRaw (PDict (bundle_to_dict hash b))) expected = audit_bundle hash (BundleObject b) expected"
proof -
  note decoded = bundle_decoded [OF assms]
  have nonempty: "bundle_to_dict hash b \<noteq> []" by (simp add: bundle_to_dict_def)
  have "rb_bundle_hash b = bundle_hash hash b" unfolding assms by (rule bundle_fields(2))
  then have "rb_bundle_hash b \<noteq> []" by (simp add: bundle_hash_def)
  then have "expected_bundle_hash (BundleRaw (PDict (bundle_to_dict hash b))) = expected_bundle_hash (BundleObject b)"
    by (simp add: bundle_lookups py_or_def)
  moreover have "bundle_from_any hash (BundleRaw (PDict (bundle_to_dict hash b))) = bundle_from_any hash (BundleObject b)"
    using decoded nonempty by simp
  ultimately have "audit_bundle hash (BundleRaw (PDict (bundle_to_dict hash b))) expected = audit_bundle hash (BundleObject b) expected"
    unfolding audit_bundle_def by (simp only: )
  with decoded show ?thesis by blast
qed

section \<open>Binding\<close>

definition bundle_content :: "replay_bundle \<Rightarrow> replay_bundle" where
  "bundle_content b = b\<lparr>rb_bundle_hash := []\<rparr>"

lemma digests_to_dict_inj: "digests_to_dict d = digests_to_dict e \<longleftrightarrow> d = e"
  by (metis digests_roundtrip)

interpretation replay: hash_bound "bundle_payload hash" bundle_content "''srb:''" for hash
proof unfold_locales
  fix a b :: replay_bundle
  assume same: "bundle_payload hash a = bundle_payload hash b"
  have strings: "map PStr xs = map PStr ys \<longleftrightarrow> xs = ys" for xs ys :: "string list"
    by (rule inj_map_eq_map) (simp add: inj_def)
  have dicts: "map PDict xs = map PDict ys \<longleftrightarrow> xs = ys" for xs ys :: "pydict list"
    by (rule inj_map_eq_map) (simp add: inj_def)
  show "bundle_content a = bundle_content b"
    using same by (cases a; cases b) (simp add: bundle_payload_def bundle_to_dict_def bundle_content_def digests_to_dict_inj strings dicts)
qed

lemma bundle_digest: "replay.digest hash hash b = bundle_hash hash b"
  by (simp add: replay.digest_def bundle_hash_def)

text \<open>
  Tampering. A stored bundle that carries the hash of a bundle and passes the audit has exactly its content, so any
  change of a bound digest is found, unless the hash function collides on the two payloads.
\<close>

theorem bundle_tamper_detected:
  assumes "rv_passed (audit_bundle hash (BundleRaw (PDict d)) expected)"
    and "expected_bundle_hash (BundleRaw (PDict d)) = bundle_hash hash b"
    and "hash (PDict (bundle_payload hash (bundle_of_dict hash d))) = hash (PDict (bundle_payload hash b)) \<Longrightarrow>
      bundle_payload hash (bundle_of_dict hash d) = bundle_payload hash b"
  shows "bundle_content (bundle_of_dict hash d) = bundle_content b"
proof -
  have "bundle_from_any hash (BundleRaw (PDict d)) = None \<or> bundle_from_any hash (BundleRaw (PDict d)) = Some (bundle_of_dict hash d)"
    by (auto simp: Let_def)
  then have "replayable hash (BundleRaw (PDict d)) expected (bundle_of_dict hash d)"
    using assms(1) unfolding replay_passed by auto
  then have "bundle_hash hash (bundle_of_dict hash d) = bundle_hash hash b"
    using assms(2) by (simp only: replayable_def)
  then show ?thesis
    using assms(3) replay.same_digest [of hash hash "bundle_of_dict hash d" b] unfolding bundle_digest by blast
qed

section \<open>The hypotheses hold of a small bundle\<close>

definition demo_digests :: digests where
  "demo_digests = \<lparr>dg_e_process = ''e'', dg_calibration = ''c'', dg_falsification = ''f'', dg_problem_model = ''p'', dg_latent = ''l'',
     dg_pareto = ''q'', dg_compaction = ''k''\<rparr>"

definition demo_bundle :: replay_bundle where
  "demo_bundle = build_bundle (\<lambda>_. ''h'') ''s'' ''c'' demo_digests [] [[(''step'', PInt 1)]] [''r'', ''r'']"

theorem bundle_roundtrip_witness:
  "bundle_of_dict (\<lambda>_. ''h'') (bundle_to_dict (\<lambda>_. ''h'') demo_bundle) = demo_bundle"
  using bundle_roundtrip [OF demo_bundle_def] by blast

theorem bundle_tamper_detected_witness:
  "bundle_content (bundle_of_dict (\<lambda>_. ''h'') (bundle_to_dict (\<lambda>_. ''h'') demo_bundle)) = bundle_content demo_bundle"
proof -
  have "rv_passed (audit_bundle (\<lambda>_. ''h'') (BundleRaw (PDict (bundle_to_dict (\<lambda>_. ''h'') demo_bundle))) None)"
    "expected_bundle_hash (BundleRaw (PDict (bundle_to_dict (\<lambda>_. ''h'') demo_bundle))) = bundle_hash (\<lambda>_. ''h'') demo_bundle"
    by code_simp+
  from bundle_tamper_detected [OF this] bundle_decoded [OF demo_bundle_def] show ?thesis by simp
qed

end
