(* ===== verification/ClosureGate.thy ===== *)
theory ClosureGate
  imports EProcess Calibration Falsification ReplayBundle VerificationTypes
begin

text \<open>
  The full closure gate of outcomes/runtime_bridge.py (evaluate_m6_closure_gate): the conjunction of the e-process
  certificate, the calibration table, the falsification gauntlet and the structural replay bundle. The hash of the problem
  model of the contract, which the gate only records, is an argument; so is \<open>hash\<close>. The theorems compose those of the
  four components.
\<close>

section \<open>The gate\<close>

datatype policy_input = PolicyObject cal_policy | PolicyRaw pyval

definition bounded_float :: "pyval \<Rightarrow> rat \<Rightarrow> rat" where
  "bounded_float v q = max 0 (min 1 (float_default v q))"

definition all_digits :: "string \<Rightarrow> bool" where
  "all_digits s \<longleftrightarrow> s \<noteq> [] \<and> list_all is_digit s"

fun policy_from_any :: "policy_input \<Rightarrow> pyexn + cal_policy" where
  "policy_from_any (PolicyObject p) = Inr p"
| "policy_from_any (PolicyRaw raw) =
     (let d = coerce_dict raw
      in if d = [] then Inr default_policy
         else sbind (py_int (py_or (dget d ''min_total_count'') (PInt 30))) (\<lambda>total.
           sbind (py_int (py_or (dget d ''min_count_per_required_bin'') (PInt 3))) (\<lambda>per_bin.
           sbind (iter_items (dget_or d ''required_bins'' (PList []))) (\<lambda>items.
           sbind (list_all_ok py_int (filter (\<lambda>v. all_digits (py_str v)) items)) (\<lambda>bins.
           Inr \<lparr>cp_min_total_count = total, cp_min_count_per_required_bin = per_bin,
                cp_max_ece = bounded_float (dget d ''max_ece'') (12/100), cp_max_mce = bounded_float (dget d ''max_mce'') (25/100),
                cp_max_brier_score = bounded_float (dget d ''max_brier_score'') (22/100),
                cp_min_lower_confidence_coverage = bounded_float (dget d ''min_lower_confidence_coverage'') (80/100),
                cp_required_bins = bins\<rparr>)))))"

definition gauntlet_audit_to_dict :: "gauntlet_audit \<Rightarrow> pydict" where
  "gauntlet_audit_to_dict a =
     [(''version'', PStr FALSIFICATION_VERSION), (''passed'', PBool (gd_passed a)),
      (''failure_reasons'', PList (map PStr (gd_reasons a))), (''required_case_ids'', PList (map PStr (gd_required a))),
      (''survived_case_ids'', PList (map PStr (gd_survived a))), (''failed_case_ids'', PList (map PStr (gd_failed a))),
      (''missing_case_ids'', PList (map PStr (gd_missing a))), (''expected_bundle_hash'', PStr (gd_expected_hash a)),
      (''actual_bundle_hash'', PStr (gd_actual_hash a))]"

definition replay_audit_to_dict :: "replay_audit \<Rightarrow> pydict" where
  "replay_audit_to_dict a =
     [(''version'', PStr REPLAY_VERSION), (''passed'', PBool (rv_passed a)), (''failure_reasons'', PList (map PStr (rv_reasons a))),
      (''missing_digest_fields'', PList (map PStr (rv_missing a))), (''mismatched_digest_fields'', PList (map PStr (rv_mismatched a))),
      (''expected_bundle_hash'', PStr (rv_expected_hash a)), (''actual_bundle_hash'', PStr (rv_actual_hash a)),
      (''digest_binding_hash'', PStr (rv_binding_hash a))]"

text \<open>\<open>falsification_bundle_hash\<close> and \<open>structural_replay_bundle_hash\<close>: recomputed, or empty for a malformed bundle.\<close>

definition gauntlet_hash_of :: "(pyval \<Rightarrow> string) \<Rightarrow> gauntlet_input \<Rightarrow> string" where
  "gauntlet_hash_of hash x = (case gauntlet_from_any hash x of None \<Rightarrow> [] | Some g \<Rightarrow> gauntlet_hash hash g)"

definition bundle_hash_of :: "(pyval \<Rightarrow> string) \<Rightarrow> bundle_input \<Rightarrow> string" where
  "bundle_hash_of hash x = (case bundle_from_any hash x of None \<Rightarrow> [] | Some b \<Rightarrow> bundle_hash hash b)"

record gate_inputs =
  gi_certificate :: "cert_input option"
  gi_calibration :: "cal_snapshot option"
  gi_policy :: policy_input
  gi_gauntlet :: gauntlet_input
  gi_bundle :: bundle_input
  gi_confidence :: "rat option"

definition closure_gate :: "(pyval \<Rightarrow> string) \<Rightarrow> string \<Rightarrow> gate_inputs \<Rightarrow> pyexn + pydict" where
  "closure_gate hash problem_hash i =
     sbind (case gi_certificate i of None \<Rightarrow> Inr False | Some cert \<Rightarrow> verify_certificate cert) (\<lambda>eprocess_ok.
     sbind (policy_from_any (gi_policy i)) (\<lambda>policy.
       let calibration = block_reasons (gi_calibration i) (Some policy) (gi_confidence i);
           fals = audit_gauntlet hash (gi_gauntlet i);
           replay = audit_bundle hash (gi_bundle i) None;
           reasons =
             only_if (\<not> eprocess_ok) ''m6_eprocess_certificate_not_verified'' @ calibration @
             (if gd_passed fals then [] else map (\<lambda>r. ''m6_falsification:'' @ r) (gd_reasons fals)) @
             (if rv_passed replay then [] else map (\<lambda>r. ''m6_structural_replay:'' @ r) (rv_reasons replay));
           res =
             [(''version'', PStr ''m6-full-closure-gate/v1''), (''passed'', PBool (reasons = [])),
              (''failure_reasons'', PList (map PStr (dedupe reasons))), (''eprocess_verified'', PBool eprocess_ok),
              (''calibration_block_reasons'', PList (map PStr calibration)),
              (''falsification_audit'', PDict (gauntlet_audit_to_dict fals)),
              (''structural_replay_audit'', PDict (replay_audit_to_dict replay)),
              (''problem_model_snapshot_hash'', PStr problem_hash),
              (''falsification_bundle_hash'', PStr (gauntlet_hash_of hash (gi_gauntlet i))),
              (''structural_replay_bundle_hash'', PStr (bundle_hash_of hash (gi_bundle i)))]
       in Inr (dset ''gate_hash'' (PStr (''m6gate:'' @ hash (PDict res))) res)))"

definition gate_passed :: "pydict \<Rightarrow> bool" where
  "gate_passed d \<longleftrightarrow> dget d ''passed'' = PBool True"

section \<open>What a passed gate means\<close>

lemma audit_reasons:
  "gd_passed (audit_gauntlet hash x) \<longleftrightarrow> gd_reasons (audit_gauntlet hash x) = []"
  by (auto simp: audit_gauntlet_def Let_def split: option.splits)

lemma replay_reasons:
  "rv_passed (audit_bundle hash x e) \<longleftrightarrow> rv_reasons (audit_bundle hash x e) = []"
  by (auto simp: audit_bundle_def Let_def split: option.splits)

lemma gate_conjunction:
  assumes "closure_gate hash problem_hash i = Inr d"
  shows "gate_passed d \<longleftrightarrow>
    (\<exists>cert. gi_certificate i = Some cert \<and> verify_certificate cert = Inr True) \<and>
    (\<exists>policy. policy_from_any (gi_policy i) = Inr policy \<and> allows_solve (gi_calibration i) (Some policy) (gi_confidence i)) \<and>
    gd_passed (audit_gauntlet hash (gi_gauntlet i)) \<and> rv_passed (audit_bundle hash (gi_bundle i) None)"
proof -
  obtain ok policy where parts: "(case gi_certificate i of None \<Rightarrow> Inr False | Some cert \<Rightarrow> verify_certificate cert) = Inr ok"
      "policy_from_any (gi_policy i) = Inr policy"
    using assms by (auto simp: closure_gate_def res_simps)
  have "gate_passed d \<longleftrightarrow> ok \<and> allows_solve (gi_calibration i) (Some policy) (gi_confidence i) \<and>
      gd_passed (audit_gauntlet hash (gi_gauntlet i)) \<and> rv_passed (audit_bundle hash (gi_bundle i) None)"
    using assms parts audit_reasons [of hash "gi_gauntlet i"] replay_reasons [of hash "gi_bundle i" None]
    by (auto simp: closure_gate_def Let_def gate_passed_def dget_def allows_solve_def)
  with parts show ?thesis by (auto split: option.splits)
qed



section \<open>The parts are not tied together\<close>

definition demo_certificate :: solve_certificate where
  "demo_certificate = build_certificate (\<lambda>_. ''h'') ''now'' ''s'' ''A'' ''base'' ''p'' demo_eproc
     (map ObsObject [demo_trial ''B'' 1 1, demo_trial ''B'' 2 1]) ''x'' ''y'' ''z''"

definition demo_inputs :: gate_inputs where
  "demo_inputs = \<lparr>gi_certificate = Some (CertObject demo_certificate), gi_calibration = Some demo_snapshot,
     gi_policy = PolicyObject demo_cal_policy, gi_gauntlet = GauntletObject demo_gauntlet, gi_bundle = BundleObject demo_bundle,
     gi_confidence = None\<rparr>"

lemma demo_gate: "\<exists>d. closure_gate (\<lambda>_. ''h'') [] demo_inputs = Inr d \<and> gate_passed d"
proof -
  have "sc_verified demo_certificate"
    using certificate_of_another_candidate [of "\<lambda>_. ''h''" "''now''"] by (simp add: demo_certificate_def Let_def)
  moreover have "allows_solve (Some demo_snapshot) (Some demo_cal_policy) None"
    "gd_passed (audit_gauntlet (\<lambda>_. ''h'') (GauntletObject demo_gauntlet))"
    "rv_passed (audit_bundle (\<lambda>_. ''h'') (BundleObject demo_bundle) None)" by code_simp+
  moreover have "\<exists>d. closure_gate (\<lambda>_. ''h'') [] demo_inputs = Inr d"
    by (simp add: closure_gate_def demo_inputs_def verify_certificate_def Let_def)
  ultimately show ?thesis
    using gate_conjunction [of "\<lambda>_. ''h''" "[]" demo_inputs] by (auto simp: demo_inputs_def verify_certificate_def)
qed

text \<open>
  The gate never compares its inputs. It passes a certificate of one candidate, earned by observations of another,
  together with a gauntlet of a third whose hash is neither the one the certificate names nor the digest in the replay bundle.
\<close>

theorem closure_gate_unrelated:
  "\<exists>hash i d cert g b. closure_gate hash [] i = Inr d \<and> gate_passed d \<and>
     gi_certificate i = Some (CertObject cert) \<and> gauntlet_from_any hash (gi_gauntlet i) = Some g \<and>
     bundle_from_any hash (gi_bundle i) = Some b \<and>
     sc_candidate_id cert \<noteq> ga_candidate_id g \<and> sc_falsification_hash cert \<noteq> gauntlet_hash hash g \<and>
     sc_replay_hash cert \<noteq> bundle_hash hash b \<and> dg_falsification (rb_digests b) \<noteq> gauntlet_hash hash g"
proof -
  have "sc_candidate_id demo_certificate = ''A''" "sc_falsification_hash demo_certificate = ''y''" "sc_replay_hash demo_certificate = ''z''"
    by (simp_all add: demo_certificate_def build_certificate_def certificate_init_def)
  moreover have "ga_candidate_id demo_gauntlet = ''c''" "dg_falsification (rb_digests demo_bundle) = ''f''" by code_simp+
  ultimately show ?thesis
    using demo_gate
    by (intro exI [of _ "\<lambda>_. ''h''"] exI [of _ demo_inputs]) (fastforce simp: demo_inputs_def gauntlet_hash_def bundle_hash_def)
qed



end
