(* ===== verification/FileTree.thy ===== *)
theory FileTree
  imports Paths
begin

text \<open>
  A file system as a table from absolute paths to nodes, with the operations of \<open>pathlib\<close> that the modelled code
  calls: resolution of symbolic links, tests, creation of directories, reading and writing of texts, removal. The
  root is the empty path. A file is a text, as its bytes decode to one, or bytes that are not UTF-8.
  A chain of more than 40 links is taken as it stands (as the kernel gives up on it); permissions and
  failures of the device are not represented.
\<close>

section \<open>Nodes and resolution\<close>

datatype (discs_sels) fnode = FText string | FBytes string | FDir | FLink bool fpath

type_synonym ftree = "(fpath \<times> fnode) list"

definition LINK_LIMIT :: nat where "LINK_LIMIT = 40"

text \<open>Resolution of the components that remain from a resolved directory; a link is absolute or relative.\<close>

function realpath_from :: "ftree \<Rightarrow> nat \<Rightarrow> fpath \<Rightarrow> fpath \<Rightarrow> fpath" where
  "realpath_from fs n dir [] = dir"
| "realpath_from fs n dir (c # r) =
     (if c = ''..'' then realpath_from fs n (butlast dir) r
      else (case map_of fs (dir @ [c]) of
              Some (FLink ab target) \<Rightarrow>
                (case n of
                   0 \<Rightarrow> dir @ c # r
                 | Suc m \<Rightarrow> realpath_from fs m (if ab then [] else dir) (target @ r))
            | _ \<Rightarrow> realpath_from fs n (dir @ [c]) r))"
  by pat_completeness auto
termination
  by (relation "inv_image (less_than <*lex*> less_than) (\<lambda>(fs, n, dir, r). (n, length r))") auto

definition realpath :: "ftree \<Rightarrow> fpath \<Rightarrow> fpath" where
  "realpath fs p = realpath_from fs LINK_LIMIT [] p"

text \<open>The directory of the path resolved, the last component as it is.\<close>

definition entry_path :: "ftree \<Rightarrow> fpath \<Rightarrow> fpath" where
  "entry_path fs p = (if p = [] then [] else realpath fs (butlast p) @ [last p])"

definition is_symlink :: "ftree \<Rightarrow> fpath \<Rightarrow> bool" where
  "is_symlink fs p \<longleftrightarrow> (case map_of fs (entry_path fs p) of Some (FLink _ _) \<Rightarrow> True | _ \<Rightarrow> False)"

definition node_at :: "ftree \<Rightarrow> fpath \<Rightarrow> fnode option" where
  "node_at fs p = (case map_of fs (realpath fs p) of Some (FLink _ _) \<Rightarrow> None | r \<Rightarrow> r)"

definition exists_at :: "ftree \<Rightarrow> fpath \<Rightarrow> bool" where
  "exists_at fs p \<longleftrightarrow> node_at fs p \<noteq> None"

definition resolves_within :: "ftree \<Rightarrow> fpath \<Rightarrow> fpath \<Rightarrow> bool" where
  "resolves_within fs p base \<longleftrightarrow> prefix base (realpath fs p)"

section \<open>Operations\<close>

text \<open>\<open>mkdir(parents=True, exist_ok=True)\<close>: none when a component exists and is not a directory.\<close>

fun mkdirs :: "ftree \<Rightarrow> fpath \<Rightarrow> fpath \<Rightarrow> ftree option" where
  "mkdirs fs dir [] = Some fs"
| "mkdirs fs dir (c # r) =
     (case node_at fs (dir @ [c]) of
        Some FDir \<Rightarrow> mkdirs fs (dir @ [c]) r
      | Some _ \<Rightarrow> None
      | None \<Rightarrow>
          (if is_symlink fs (dir @ [c]) then None
           else mkdirs (dset (entry_path fs (dir @ [c])) FDir fs) (dir @ [c]) r))"

text \<open>Opening for writing and for appending follow a link; none is an OSError.\<close>

definition put_text :: "ftree \<Rightarrow> fpath \<Rightarrow> (fnode option \<Rightarrow> fnode) \<Rightarrow> ftree option" where
  "put_text fs p f =
     (let t = realpath fs p
      in case map_of fs t of
           Some FDir \<Rightarrow> None
         | Some (FLink _ _) \<Rightarrow> None
         | old \<Rightarrow> (if map_of fs (butlast t) = Some FDir then Some (dset t (f old) fs) else None))"

definition write_text :: "ftree \<Rightarrow> fpath \<Rightarrow> string \<Rightarrow> ftree option" where
  "write_text fs p text = put_text fs p (\<lambda>_. FText text)"

definition append_text :: "ftree \<Rightarrow> fpath \<Rightarrow> string \<Rightarrow> ftree option" where
  "append_text fs p text =
     put_text fs p (\<lambda>old. case old of
        Some (FText s) \<Rightarrow> FText (s @ text)
      | Some (FBytes b) \<Rightarrow> FBytes (b @ text)
      | _ \<Rightarrow> FText text)"

definition unlink_file :: "ftree \<Rightarrow> fpath \<Rightarrow> ftree" where
  "unlink_file fs p = ddel (entry_path fs p) fs"

definition remove_tree :: "ftree \<Rightarrow> fpath \<Rightarrow> ftree" where
  "remove_tree fs p = filter (\<lambda>(q, _). \<not> prefix p q) fs"

text \<open>Text files are read with universal newlines.\<close>

fun universal_newlines :: "string \<Rightarrow> string" where
  "universal_newlines [] = []"
| "universal_newlines [c] = [if c = CHR 13 then CHR 10 else c]"
| "universal_newlines (c # d # s) =
     (if c = CHR 13 then CHR 10 # (if d = CHR 10 then universal_newlines s else universal_newlines (d # s))
      else c # universal_newlines (d # s))"

text \<open>\<open>text.replace(old, new)\<close>: the occurrences from the left; an empty \<open>old\<close> stands around every character.\<close>

function replace_from :: "string \<Rightarrow> string \<Rightarrow> string \<Rightarrow> string" where
  "replace_from old new [] = []"
| "replace_from old new (c # s) =
     (if old \<noteq> [] \<and> starts_with old (c # s) then new @ replace_from old new (drop (length old) (c # s))
      else c # replace_from old new s)"
  by pat_completeness auto
termination
  by (relation "measure (\<lambda>(old, new, s). length s)") auto

definition str_replace :: "string \<Rightarrow> string \<Rightarrow> string \<Rightarrow> string" where
  "str_replace old new s =
     (if old = [] then new @ concat (map (\<lambda>c. c # new) s) else replace_from old new s)"

section \<open>Trees and paths without links\<close>

text \<open>Every path has one entry and lies in a directory; the root is one. No entry has the name of the parent.\<close>

definition tree_ok :: "ftree \<Rightarrow> bool" where
  "tree_ok fs \<longleftrightarrow> distinct (map fst fs) \<and> map_of fs [] = Some FDir \<and>
     (\<forall>p n. map_of fs p = Some n \<longrightarrow> ''..'' \<notin> set p) \<and>
     (\<forall>p n. map_of fs p = Some n \<longrightarrow> p \<noteq> [] \<longrightarrow> map_of fs (butlast p) = Some FDir)"

definition link_free :: "ftree \<Rightarrow> fpath \<Rightarrow> bool" where
  "link_free fs p \<longleftrightarrow> ''..'' \<notin> set p \<and> (\<forall>q. prefix q p \<longrightarrow> (\<forall>ab t. map_of fs q \<noteq> Some (FLink ab t)))"

lemma link_free_prefix: "link_free fs p \<Longrightarrow> prefix q p \<Longrightarrow> link_free fs q"
  unfolding link_free_def by (meson in_set_takeD prefix_order.trans set_mono_prefix subsetD)

lemma link_free_butlast: "link_free fs p \<Longrightarrow> link_free fs (butlast p)"
  by (erule link_free_prefix) (simp add: prefixeq_butlast)

lemma realpath_from_plain:
  "''..'' \<notin> set r \<Longrightarrow> (\<And>q ab t. prefix q r \<Longrightarrow> map_of fs (dir @ q) \<noteq> Some (FLink ab t)) \<Longrightarrow>
     realpath_from fs n dir r = dir @ r"
proof (induction r arbitrary: dir)
  case (Cons c r)
  have "map_of fs ((dir @ [c]) @ q) \<noteq> Some (FLink ab t)" if "prefix q r" for q ab t
    using Cons.prems(2) [of "c # q"] that by simp
  then have "realpath_from fs n (dir @ [c]) r = (dir @ [c]) @ r" using Cons.prems(1) by (intro Cons.IH) auto
  moreover have "map_of fs (dir @ [c]) \<noteq> Some (FLink ab t)" for ab t using Cons.prems(2) [of "[c]"] by simp
  ultimately show ?case using Cons.prems(1) by (auto split: option.split fnode.split)
qed simp

lemma realpath_plain: "link_free fs p \<Longrightarrow> realpath fs p = p"
  unfolding realpath_def link_free_def using realpath_from_plain [of p fs "[]"] by simp

lemma entry_path_plain: "link_free fs (butlast p) \<Longrightarrow> entry_path fs p = p"
  by (simp add: entry_path_def realpath_plain)

lemma node_at_plain: "link_free fs p \<Longrightarrow> node_at fs p = map_of fs p"
  by (auto simp: node_at_def realpath_plain link_free_def split: option.split fnode.split)

lemma is_symlink_plain:
  assumes "link_free fs p"
  shows "\<not> is_symlink fs p"
proof -
  have "entry_path fs p = p" using assms by (intro entry_path_plain link_free_butlast)
  then show ?thesis using assms by (auto simp: is_symlink_def link_free_def split: option.split fnode.split)
qed

lemma tree_ok_parent: "tree_ok fs \<Longrightarrow> map_of fs p = Some n \<Longrightarrow> p \<noteq> [] \<Longrightarrow> map_of fs (butlast p) = Some FDir"
  unfolding tree_ok_def by blast

lemma tree_ok_intro:
  "distinct (map fst fs) \<Longrightarrow> map_of fs [] = Some FDir \<Longrightarrow>
     (\<And>p n. map_of fs p = Some n \<Longrightarrow> ''..'' \<notin> set p) \<Longrightarrow>
     (\<And>p n. map_of fs p = Some n \<Longrightarrow> p \<noteq> [] \<Longrightarrow> map_of fs (butlast p) = Some FDir) \<Longrightarrow> tree_ok fs"
  unfolding tree_ok_def by blast

lemma tree_ok_distinct: "tree_ok fs \<Longrightarrow> distinct (map fst fs)"
  and tree_ok_root: "tree_ok fs \<Longrightarrow> map_of fs [] = Some FDir"
  by (simp_all add: tree_ok_def)

lemma tree_ok_dots: "tree_ok fs \<Longrightarrow> map_of fs p = Some n \<Longrightarrow> ''..'' \<notin> set p"
  unfolding tree_ok_def by blast

lemma tree_ok_put:
  assumes "tree_ok fs" "map_of fs (butlast p) = Some FDir" "map_of fs p \<noteq> Some FDir \<or> n = FDir" "p \<noteq> []"
    "''..'' \<notin> set p"
  shows "tree_ok (dset p n fs)"
proof (rule tree_ok_intro)
  show "distinct (map fst (dset p n fs))" using assms(1) by (intro distinct_dset tree_ok_distinct)
  show "map_of (dset p n fs) [] = Some FDir" using assms(1,4) by (simp add: tree_ok_root)
  show "''..'' \<notin> set q" if "map_of (dset p n fs) q = Some m" for q m
    using that assms(1,5) by (auto split: if_splits dest: tree_ok_dots)
next
  fix q m
  assume q: "map_of (dset p n fs) q = Some m" "q \<noteq> []"
  have "butlast p \<noteq> p" using assms(4) by (metis append_butlast_last_id append_self_conv not_Cons_self2)
  moreover have "map_of fs (butlast q) = Some FDir"
    using q assms(1,2) by (cases "q = p") (auto intro: tree_ok_parent)
  ultimately show "map_of (dset p n fs) (butlast q) = Some FDir" using assms(3) by auto
qed

lemma tree_ok_prefix:
  assumes "tree_ok fs" "map_of fs p \<noteq> None" "strict_prefix q p"
  shows "map_of fs q = Some FDir"
  using assms(2,3)
proof (induction p rule: rev_induct)
  case (snoc c p)
  then obtain n where n: "map_of fs (p @ [c]) = Some n" by auto
  then have d: "map_of fs p = Some FDir" using assms(1) using tree_ok_parent [OF assms(1) n] by simp
  show ?case using snoc.IH snoc.prems(2) d by (cases "q = p") (auto simp: strict_prefix_def)
qed simp

section \<open>The effect of the operations on plain paths\<close>

text \<open>Directories appear on the way to a path and nothing else changes.\<close>

definition with_dirs :: "ftree \<Rightarrow> fpath \<Rightarrow> fpath \<rightharpoonup> fnode" where
  "with_dirs fs p = (\<lambda>q. if map_of fs q = None \<and> prefix q p then Some FDir else map_of fs q)"

lemma mkdirs_plain:
  assumes "link_free fs (dir @ r)" "tree_ok fs" "map_of fs dir = Some FDir" "mkdirs fs dir r = Some fs'"
  shows "tree_ok fs' \<and> map_of fs' = with_dirs fs (dir @ r) \<and> map_of fs' (dir @ r) = Some FDir"
  using assms
proof (induction r arbitrary: fs dir)
  case Nil
  then have "prefix q dir \<Longrightarrow> map_of fs q = Some FDir" for q
    using tree_ok_prefix [of fs dir q] by (cases "q = dir") (auto simp: strict_prefix_def)
  then have "map_of fs = with_dirs fs dir" by (auto simp: with_dirs_def fun_eq_iff)
  then show ?case using Nil by simp
next
  case (Cons c r)
  let ?d = "dir @ [c]"
  have lf: "link_free fs ?d" using Cons.prems(1) by (rule link_free_prefix) simp
  have e: "entry_path fs ?d = ?d" using lf by (intro entry_path_plain) (simp add: link_free_prefix)
  show ?case
  proof (cases "map_of fs ?d")
    case None
    let ?fs = "dset ?d FDir fs"
    have lf': "link_free ?fs (?d @ r)" using Cons.prems(1) by (auto simp: link_free_def)
    have "tree_ok ?fs" using Cons.prems(1,2,3) by (intro tree_ok_put) (auto simp: link_free_def)
    moreover have "mkdirs ?fs ?d r = Some fs'"
      using Cons.prems(4) None lf by (simp add: node_at_plain is_symlink_plain e)
    ultimately have ih: "tree_ok fs' \<and> map_of fs' = with_dirs ?fs (?d @ r) \<and> map_of fs' (?d @ r) = Some FDir"
      by (intro Cons.IH [OF lf']) simp_all
    have eq: "with_dirs fs (?d @ r) = with_dirs ?fs (?d @ r)" using None by (auto simp: with_dirs_def)
    have p: "dir @ c # r = ?d @ r" by simp
    show ?thesis unfolding eq p by (rule ih)
  next
    case (Some n)
    have "n = FDir" "mkdirs fs ?d r = Some fs'"
      using Cons.prems(4) Some lf by (auto simp: node_at_plain split: fnode.splits)
    then have ih: "tree_ok fs' \<and> map_of fs' = with_dirs fs (?d @ r) \<and> map_of fs' (?d @ r) = Some FDir"
      using Cons.prems Some by (intro Cons.IH) simp_all
    have p: "dir @ c # r = ?d @ r" by simp
    show ?thesis unfolding p by (rule ih)
  qed
qed

lemma put_text_plain:
  assumes "link_free fs p" "put_text fs p f = Some fs'"
  shows "fs' = dset p (f (map_of fs p)) fs \<and> map_of fs (butlast p) = Some FDir \<and> map_of fs p \<noteq> Some FDir"
  using assms by (auto simp: put_text_def realpath_plain Let_def split: option.splits fnode.splits if_splits)

lemma map_of_ddel: "map_of (ddel k d) = (map_of d)(k := None)"
  by (rule ext) (simp add: delete_conv')

lemma tree_ok_remove:
  assumes "tree_ok fs" "map_of fs p \<noteq> Some FDir"
  shows "tree_ok (ddel p fs)"
proof (rule tree_ok_intro)
  show "distinct (map fst (ddel p fs))" using assms(1) by (intro distinct_ddel tree_ok_distinct)
  show "map_of (ddel p fs) [] = Some FDir" using assms tree_ok_root [OF assms(1)] by (auto simp: map_of_ddel)
  show "''..'' \<notin> set q" if "map_of (ddel p fs) q = Some m" for q m
    using that assms(1) by (auto simp: map_of_ddel split: if_splits dest: tree_ok_dots)
next
  fix q m
  assume "map_of (ddel p fs) q = Some m" "q \<noteq> []"
  then have "map_of fs (butlast q) = Some FDir"
    using assms(1) by (auto simp: map_of_ddel split: if_splits intro: tree_ok_parent)
  then show "map_of (ddel p fs) (butlast q) = Some FDir" using assms(2) by (auto simp: map_of_ddel)
qed

text \<open>When directories can be made: no component is a file.\<close>

definition way_free :: "(fpath \<rightharpoonup> fnode) \<Rightarrow> fpath \<Rightarrow> bool" where
  "way_free v p \<longleftrightarrow> list_all (\<lambda>n. case v (take n p) of None \<Rightarrow> True | Some FDir \<Rightarrow> True | _ \<Rightarrow> False) [0..<Suc (length p)]"

lemma way_free_iff: "way_free v p \<longleftrightarrow> (\<forall>q. prefix q p \<longrightarrow> v q \<in> {None, Some FDir})"
proof -
  have "(\<forall>q. prefix q p \<longrightarrow> v q \<in> {None, Some FDir}) \<longleftrightarrow> (\<forall>n \<le> length p. v (take n p) \<in> {None, Some FDir})"
    by (metis append_eq_conv_conj prefix_def prefix_length_le take_is_prefix)
  moreover have free: "(case x of None \<Rightarrow> True | Some FDir \<Rightarrow> True | _ \<Rightarrow> False) \<longleftrightarrow> x \<in> {None, Some FDir}" for x
    by (auto split: option.split fnode.split)
  have "way_free v p \<longleftrightarrow> (\<forall>n \<le> length p. v (take n p) \<in> {None, Some FDir})"
    unfolding way_free_def list_all_iff set_upt
    by (intro iffI allI impI ballI) (auto simp: less_Suc_eq_le free split: option.split fnode.split)
  ultimately show ?thesis by blast
qed

lemma mkdirs_None_iff:
  assumes "link_free fs (dir @ r)" "tree_ok fs" "map_of fs dir = Some FDir"
  shows "mkdirs fs dir r = None \<longleftrightarrow> \<not> (\<forall>q. prefix q r \<longrightarrow> map_of fs (dir @ q) \<in> {None, Some FDir})"
  using assms
proof (induction r arbitrary: fs dir)
  case (Cons c r)
  let ?d = "dir @ [c]"
  have lf: "link_free fs ?d" using Cons.prems(1) by (rule link_free_prefix) simp
  have e: "entry_path fs ?d = ?d" using lf by (intro entry_path_plain) (simp add: link_free_prefix)
  have all: "(\<forall>q. prefix q (c # r) \<longrightarrow> P q) \<longleftrightarrow> P [] \<and> (\<forall>q. prefix q r \<longrightarrow> P (c # q))" for P
    by (auto simp: prefix_Cons)
  have step: "(\<forall>q. prefix q (c # r) \<longrightarrow> map_of fs (dir @ q) \<in> {None, Some FDir}) \<longleftrightarrow>
      (\<forall>q. prefix q r \<longrightarrow> map_of fs (?d @ q) \<in> {None, Some FDir})"
    using Cons.prems(3) unfolding all by simp
  show ?case
  proof (cases "map_of fs ?d")
    case None
    let ?fs = "dset ?d FDir fs"
    have "mkdirs fs dir (c # r) = mkdirs ?fs ?d r" using None lf by (simp add: node_at_plain is_symlink_plain e)
    moreover have "mkdirs ?fs ?d r = None \<longleftrightarrow> \<not> (\<forall>q. prefix q r \<longrightarrow> map_of ?fs (?d @ q) \<in> {None, Some FDir})"
      using Cons.prems None by (intro Cons.IH tree_ok_put) (auto simp: link_free_def)
    moreover have "(\<forall>q. prefix q r \<longrightarrow> map_of ?fs (?d @ q) \<in> {None, Some FDir}) \<longleftrightarrow>
        (\<forall>q. prefix q r \<longrightarrow> map_of fs (?d @ q) \<in> {None, Some FDir})"
    proof (intro all_cong imp_cong refl)
      fix q
      show "map_of ?fs (?d @ q) \<in> {None, Some FDir} \<longleftrightarrow> map_of fs (?d @ q) \<in> {None, Some FDir}"
        using None by (cases "q = []") auto
    qed
    ultimately show ?thesis unfolding step by argo
  next
    case (Some n)
    show ?thesis
    proof (cases "n = FDir")
      case True
      then have "mkdirs fs dir (c # r) = mkdirs fs ?d r" using Some lf by (simp add: node_at_plain)
      moreover have "mkdirs fs ?d r = None \<longleftrightarrow> \<not> (\<forall>q. prefix q r \<longrightarrow> map_of fs (?d @ q) \<in> {None, Some FDir})"
        using Cons.prems Some True by (intro Cons.IH) auto
      ultimately show ?thesis unfolding step by argo
    next
      case False
      have "\<not> (\<forall>q. prefix q r \<longrightarrow> map_of fs (?d @ q) \<in> {None, Some FDir})"
        using Some False by (auto intro!: exI [of _ "[]"])
      moreover have "mkdirs fs dir (c # r) = None" using Some False lf by (simp add: node_at_plain split: fnode.split)
      ultimately show ?thesis unfolding step by blast
    qed
  qed
qed simp

text \<open>Links on the way from a plain directory.\<close>

lemma link_free_snoc:
  assumes "link_free fs p" "c \<noteq> ''..''" "\<And>ab t. map_of fs (p @ [c]) \<noteq> Some (FLink ab t)"
  shows "link_free fs (p @ [c])"
  using assms unfolding link_free_def by (auto simp: prefix_snoc)

lemma tree_ok_absent:
  assumes "tree_ok fs" "map_of fs p = None" "prefix p q"
  shows "map_of fs q = None"
proof (rule ccontr)
  assume "map_of fs q \<noteq> None"
  then have "map_of fs p = Some FDir" using assms(2,3) by (intro tree_ok_prefix [OF assms(1)]) (auto simp: strict_prefix_def)
  then show False using assms(2) by simp
qed

end
