(* ===== verification/UnifiedDiff.thy ===== *)
theory UnifiedDiff
  imports Paths
begin

text \<open>
  The reading of unified diffs in tools/patch_sandbox.py: the file names a diff declares, the level of path stripping
  for the external patch tool, and the checks of a diff before the tool runs. The regular expressions are written out
  as parsers; on texts of code points below 256 the truncation mark with an ellipsis cannot occur. A line of a diff
  never holds a line break, since \<open>splitlines\<close> made it.
\<close>

section \<open>Regular expressions\<close>

text \<open>\<open>diff --git a/(.+?) b/(.+?)$\<close>: the first group ends at the first possible \<open> b/\<close>.\<close>

fun git_split :: "string \<Rightarrow> string \<Rightarrow> (string \<times> string) option" where
  "git_split acc [] = None"
| "git_split acc (c # s) =
     (if acc \<noteq> [] \<and> starts_with '' b/'' (c # s) \<and> drop 3 (c # s) \<noteq> [] then Some (acc, drop 3 (c # s))
      else git_split (acc @ [c]) s)"

definition diff_git_match :: "string \<Rightarrow> (string \<times> string) option" where
  "diff_git_match s = (if starts_with ''diff --git a/'' s then git_split [] (drop 13 s) else None)"

text \<open>\<open>(---|+++)\s+(.+?)\s*$\<close> on a stripped line.\<close>

definition diff_path_match :: "string \<Rightarrow> string option" where
  "diff_path_match s =
     (let rest = drop 3 s; raw = strip rest
      in if (starts_with ''---'' s \<or> starts_with ''+++'' s) \<and> rest \<noteq> [] \<and> is_space (hd rest) \<and> raw \<noteq> [] then Some raw else None)"

definition eat_digits :: "string \<Rightarrow> string option" where
  "eat_digits s = (if s \<noteq> [] \<and> is_digit (hd s) then Some (dropWhile is_digit s) else None)"

definition eat_range :: "char \<Rightarrow> string \<Rightarrow> string option" where
  "eat_range mark s =
     (if s = [] \<or> \<not> is_space (hd s) then None
      else
        (case dropWhile is_space s of
           [] \<Rightarrow> None
         | c # r \<Rightarrow>
             if c \<noteq> mark then None
             else
               (case eat_digits r of
                  None \<Rightarrow> None
                | Some t \<Rightarrow> if starts_with '','' t then eat_digits (tl t) else Some t)))"

definition hunk_match :: "string \<Rightarrow> bool" where
  "hunk_match s \<longleftrightarrow> starts_with ''@@'' s \<and>
     (case eat_range (CHR ''-'') (drop 2 s) of
        None \<Rightarrow> False
      | Some t \<Rightarrow>
          (case eat_range (CHR ''+'') t of
             None \<Rightarrow> False
           | Some u \<Rightarrow> u \<noteq> [] \<and> is_space (hd u) \<and> starts_with ''@@'' (dropWhile is_space u)))"

section \<open>The declared files\<close>

definition before_tab :: "string \<Rightarrow> string" where
  "before_tab s = takeWhile (\<lambda>c. c \<noteq> CHR 9) s"

definition line_paths :: "string \<Rightarrow> string list" where
  "line_paths line =
     (let s = strip line
      in case diff_git_match s of
           Some (a, b) \<Rightarrow> [''a/'' @ a, ''b/'' @ b]
         | None \<Rightarrow> (case diff_path_match s of Some raw \<Rightarrow> [before_tab raw] | None \<Rightarrow> []))"

definition raw_paths :: "string \<Rightarrow> string list" where
  "raw_paths text = concat (map line_paths (splitlines text))"

definition strip_patch_path :: "nat \<Rightarrow> string \<Rightarrow> string" where
  "strip_patch_path level raw =
     (let text = replace_char (CHR 92) (CHR ''/'') (strip raw);
          parts = drop level (filter (\<lambda>p. p \<noteq> []) (split_on (CHR ''/'') text))
      in if text = [] \<or> text = ''/dev/null'' then []
         else if parts = [] \<or> ''..'' \<in> set parts \<or> ''.'' \<in> set parts then []
         else join_with ''/'' parts)"

definition has_ab_prefix :: "string \<Rightarrow> bool" where
  "has_ab_prefix raw \<longleftrightarrow> starts_with ''a/'' raw \<or> starts_with ''b/'' raw"

definition strip_level :: "string \<Rightarrow> nat" where
  "strip_level text =
     (let meaningful = filter (\<lambda>p. p \<noteq> ''/dev/null'') (raw_paths text)
      in if meaningful \<noteq> [] \<and> list_all has_ab_prefix meaningful then 1 else 0)"

definition diff_paths :: "nat \<Rightarrow> string \<Rightarrow> string list" where
  "diff_paths level text =
     dedupe (filter (\<lambda>p. p \<noteq> [])
       (map (strip_patch_path level) (filter (\<lambda>raw. raw \<noteq> ''/dev/null'') (raw_paths text))))"

definition own_level :: "string \<Rightarrow> nat" where
  "own_level raw = (if has_ab_prefix raw then 1 else 0)"

definition looks_like_diff :: "string \<Rightarrow> bool" where
  "looks_like_diff text \<longleftrightarrow>
     (let ls = splitlines text
      in strip text \<noteq> [] \<and> raw_paths text \<noteq> [] \<and> list_ex (starts_with ''@@'') ls \<and>
         (list_ex (\<lambda>l. diff_git_match (strip l) \<noteq> None) ls \<or>
          (list_ex (starts_with ''--- '') ls \<and> list_ex (starts_with ''+++ '') ls)))"

section \<open>The checks before the tool runs\<close>

definition repair_diff :: "string \<Rightarrow> string \<times> string list" where
  "repair_diff text =
     (if text \<noteq> [] \<and> last text \<noteq> CHR 10
      then (text @ [CHR 10], [''patch_preflight_repaired:added_trailing_newline'']) else (text, []))"

definition body_line :: "string \<Rightarrow> bool" where
  "body_line l \<longleftrightarrow> (starts_with ''+'' l \<or> starts_with ''-'' l \<or> starts_with '' '' l) \<and>
     \<not> starts_with ''+++'' l \<and> \<not> starts_with ''---'' l"

definition empty_hunk :: "string list \<Rightarrow> bool" where
  "empty_hunk ls \<longleftrightarrow>
     list_ex (\<lambda>n. starts_with ''@@'' (ls ! n) \<and> \<not> list_ex body_line (take 3 (drop (n + 1) ls))) [0..<length ls]"

text \<open>
  \<open>_obvious_python_patch_syntax_diagnostics\<close>: the current file, whether it is new, and the lines added to new files.
\<close>

record scan_state =
  sc_path :: string
  sc_new_file :: bool
  sc_added :: "(string \<times> string list) list"
  sc_diags :: "string list"

definition header_name :: "string \<Rightarrow> string" where
  "header_name line = before_tab (strip (drop 4 line))"

definition ends_py :: "string \<Rightarrow> bool" where
  "ends_py path \<longleftrightarrow> starts_with (rev ''.py'') (rev path)"

definition scan_line :: "string \<Rightarrow> scan_state \<Rightarrow> scan_state" where
  "scan_line line st =
     (case diff_git_match (strip line) of
        Some (_, b) \<Rightarrow> st\<lparr> sc_path := b, sc_new_file := False \<rparr>
      | None \<Rightarrow>
          if starts_with ''--- '' line then st\<lparr> sc_new_file := (header_name line = ''/dev/null'') \<rparr>
          else if starts_with ''+++ '' line then
            st\<lparr> sc_path := strip_patch_path (own_level (header_name line)) (header_name line) \<rparr>
          else if ends_py (sc_path st) \<and> starts_with ''+'' line \<and> \<not> starts_with ''+++'' line then
            (let old = (case map_of (sc_added st) (sc_path st) of Some ls \<Rightarrow> ls | None \<Rightarrow> [])
             in st\<lparr> sc_added := (if sc_new_file st then dset (sc_path st) (old @ [tl line]) (sc_added st) else sc_added st),
                    sc_diags := (if infix_of ''SyntaxError'' line \<or> infix_of ''IndentationError'' line
                                 then sc_diags st @ [''python_patch_obvious_syntax:error_marker_present:'' @ sc_path st]
                                 else sc_diags st) \<rparr>)
          else st)"

definition more_closing :: "char \<Rightarrow> char \<Rightarrow> string \<Rightarrow> bool" where
  "more_closing a b s \<longleftrightarrow> count_list s a < count_list s b"

definition python_diagnostics :: "string \<Rightarrow> string list" where
  "python_diagnostics text =
     (let st = fold scan_line (splitlines text) \<lparr> sc_path = [], sc_new_file = False, sc_added = [], sc_diags = [] \<rparr>;
          bad = filter (\<lambda>(p, ls). let t = join_with [CHR 10] ls
                 in more_closing (CHR ''('') (CHR '')'') t \<or> more_closing (CHR ''['') (CHR '']'') t \<or>
                    more_closing (CHR ''{'') (CHR ''}'') t) (sc_added st)
      in sc_diags st @ map (\<lambda>(p, ls). ''python_patch_obvious_syntax:unbalanced_closing_bracket:'' @ p) bad)"

definition unsafe_diagnostics :: "string list \<Rightarrow> string list" where
  "unsafe_diagnostics raws =
     List.map_filter (\<lambda>raw. let p = strip_patch_path (own_level raw) raw
       in if p \<noteq> [] \<and> (absolute_path p \<or> ''..'' \<in> set (path_parts p)) then Some (''unsafe_patch_path:'' @ p) else None) raws"

definition preflight_diff :: "string \<Rightarrow> bool \<times> string list" where
  "preflight_diff text =
     (if strip text = [] then (False, [''patch_empty''])
      else
        (let lowered = lower text; ls = splitlines text; raws = raw_paths text;
             diags =
               (if infix_of ''*** begin patch'' lowered \<and> \<not> infix_of ''*** end patch'' lowered
                then [''patch_truncated:missing_end_patch_marker''] else []) @
               (if list_ex (\<lambda>m. infix_of m lowered) [''[truncated]'', ''<truncated>'', ''content omitted'']
                then [''patch_truncated:truncation_marker_present''] else []) @
               map (\<lambda>l. ''malformed_hunk_header:'' @ l) (filter (\<lambda>l. starts_with ''@@'' l \<and> \<not> hunk_match l) ls) @
               (if empty_hunk ls then [''malformed_hunk_body:empty_or_header_only''] else []) @
               (if raws = [] then [''patch_no_effect:no_files_declared''] else []) @
               unsafe_diagnostics raws @ python_diagnostics text
         in (diags = [], dedupe diags)))"

section \<open>Rendering a diff\<close>

record hunk =
  hk_old :: nat
  hk_old_len :: nat
  hk_new :: nat
  hk_new_len :: nat
  hk_lines :: "string list"

record file_diff =
  fd_name :: string
  fd_hunks :: "hunk list"

definition hunk_header :: "hunk \<Rightarrow> string" where
  "hunk_header h = ''@@ -'' @ nat_digits (hk_old h) @ '','' @ nat_digits (hk_old_len h) @
     '' +'' @ nat_digits (hk_new h) @ '','' @ nat_digits (hk_new_len h) @ '' @@''"

definition file_lines :: "file_diff \<Rightarrow> string list" where
  "file_lines f =
     [''diff --git a/'' @ fd_name f @ '' b/'' @ fd_name f, ''--- a/'' @ fd_name f, ''+++ b/'' @ fd_name f] @
     concat (map (\<lambda>h. hunk_header h # hk_lines h) (fd_hunks f))"

definition render_diff :: "file_diff list \<Rightarrow> string" where
  "render_diff fs = concat (map (\<lambda>l. l @ [newline]) (concat (map file_lines fs)))"

text \<open>A name without white space, backslashes, empty and dot components; a line of a hunk that is no header.\<close>

definition good_name :: "string \<Rightarrow> bool" where
  "good_name n \<longleftrightarrow> n \<noteq> [] \<and> list_all (\<lambda>c. \<not> is_space c \<and> \<not> line_break c \<and> c \<noteq> CHR 92) n \<and>
     list_all (\<lambda>p. p \<noteq> [] \<and> p \<noteq> ''.'' \<and> p \<noteq> ''..'') (split_on (CHR ''/'') n)"

definition good_line :: "string \<Rightarrow> bool" where
  "good_line l \<longleftrightarrow> l \<noteq> [] \<and> hd l \<in> set '' +-'' \<and> whole l \<and> line_paths l = []"

definition good_diff :: "file_diff \<Rightarrow> bool" where
  "good_diff f \<longleftrightarrow> good_name (fd_name f) \<and> fd_hunks f \<noteq> [] \<and> list_all (\<lambda>h. list_all good_line (hk_lines h)) (fd_hunks f)"

lemma dropWhile_id: "s \<noteq> [] \<Longrightarrow> \<not> P (hd s) \<Longrightarrow> dropWhile P s = s"
  by (cases s) auto

lemma strip_id: "s \<noteq> [] \<Longrightarrow> \<not> is_space (hd s) \<Longrightarrow> \<not> is_space (last s) \<Longrightarrow> strip s = s"
  by (simp add: strip_def dropWhile_id hd_rev)

lemma strip_space: "is_space c \<Longrightarrow> strip (c # s) = strip s"
  by (simp add: strip_def)

lemma name_chars:
  assumes "good_name n"
  shows "n \<noteq> []" "\<And>c. c \<in> set n \<Longrightarrow> \<not> is_space c" "\<not> is_space (last n)" "CHR '' '' \<notin> set n" "CHR 9 \<notin> set n" "whole n"
    "CHR 92 \<notin> set n"
proof -
  show n: "n \<noteq> []" and c: "\<And>c. c \<in> set n \<Longrightarrow> \<not> is_space c" and "whole n" and "CHR 92 \<notin> set n"
    using assms by (auto simp: good_name_def list_all_iff whole_def)
  show "\<not> is_space (last n)" using n c by simp
  show "CHR '' '' \<notin> set n" "CHR 9 \<notin> set n" using c by (force simp: is_space_def)+
qed

lemma strip_Nil:
  assumes "strip s = []" "x \<in> set s"
  shows "is_space x"
proof -
  have "\<forall>x \<in> set (dropWhile is_space s). is_space x"
    using assms(1) by (auto simp: strip_def dropWhile_eq_Nil_conv)
  then have "dropWhile is_space s = []" by (metis hd_dropWhile hd_in_set)
  then show ?thesis using assms(2) by (simp add: dropWhile_eq_Nil_conv)
qed

lemma git_split_plain: "CHR '' '' \<notin> set n \<Longrightarrow> acc @ n \<noteq> [] \<Longrightarrow> r \<noteq> [] \<Longrightarrow> git_split acc (n @ '' b/'' @ r) = Some (acc @ n, r)"
  by (induction n arbitrary: acc) auto

lemma line_paths_git:
  assumes "good_name n"
  shows "line_paths (''diff --git a/'' @ n @ '' b/'' @ n) = [''a/'' @ n, ''b/'' @ n]"
proof -
  note n = name_chars [OF assms]
  have "strip (''diff --git a/'' @ n @ '' b/'' @ n) = ''diff --git a/'' @ n @ '' b/'' @ n"
    using n(1,3) by (intro strip_id) (auto simp: is_space_def)
  moreover have "diff_git_match (''diff --git a/'' @ n @ '' b/'' @ n) = Some (n, n)"
    using n(1) git_split_plain [OF n(4), of "[]" n] by (simp add: diff_git_match_def)
  ultimately show ?thesis by (simp add: line_paths_def Let_def)
qed

lemma before_tab_id: "CHR 9 \<notin> set s \<Longrightarrow> before_tab s = s"
  by (auto simp: before_tab_def takeWhile_eq_all_conv)

lemma line_paths_name:
  assumes "good_name n" "mark \<in> {''---'', ''+++''}" "ab \<in> {''a/'', ''b/''}"
  shows "line_paths (mark @ '' '' @ ab @ n) = [ab @ n]"
proof -
  note n = name_chars [OF assms(1)]
  have s: "strip (mark @ '' '' @ ab @ n) = mark @ '' '' @ ab @ n"
    using assms(2,3) n(1,3) by (intro strip_id) (auto simp: is_space_def)
  have g: "diff_git_match (mark @ '' '' @ ab @ n) = None" using assms(2) by (auto simp: diff_git_match_def)
  have i: "strip (ab @ n) = ab @ n" using assms(3) n(1,3) by (intro strip_id) (auto simp: is_space_def)
  have sp: "is_space (CHR '' '')" by (simp add: is_space_def)
  then have "strip ('' '' @ ab @ n) = ab @ n" using i strip_space [of "CHR '' ''" "ab @ n"] by simp
  then have "diff_path_match (mark @ '' '' @ ab @ n) = Some (ab @ n)"
    using assms(2,3) sp by (auto simp: diff_path_match_def Let_def)
  moreover have "before_tab (ab @ n) = ab @ n" using assms(3) n(5) by (intro before_tab_id) auto
  ultimately show ?thesis unfolding line_paths_def Let_def s g by simp
qed

lemma digits_digit: "c \<in> set (nat_digits n) \<Longrightarrow> is_digit c"
proof (induction n rule: nat_digits.induct)
  case (1 n)
  have "of_char (char_of (48 + n mod 10) :: char) = (48 + n mod 10 :: nat)" by simp
  then show ?case using 1 by (subst (asm) nat_digits.simps) (auto simp: is_digit_def split: if_splits)
qed

lemma nat_digits_nonempty: "nat_digits n \<noteq> []"
  by (subst nat_digits.simps) simp

lemma eat_digits_nat: "t = [] \<or> \<not> is_digit (hd t) \<Longrightarrow> eat_digits (nat_digits n @ t) = Some t"
proof -
  assume t: "t = [] \<or> \<not> is_digit (hd t)"
  have "is_digit (hd (nat_digits n))" by (rule digits_digit [OF hd_in_set [OF nat_digits_nonempty]])
  moreover have "dropWhile is_digit (nat_digits n @ t) = t"
    using t digits_digit [of _ n] by (cases t) (auto simp: dropWhile_append2)
  ultimately show ?thesis using nat_digits_nonempty by (simp add: eat_digits_def)
qed

lemma eat_range_nat:
  assumes "t = [] \<or> \<not> is_digit (hd t)" "mark \<in> set ''+-''"
  shows "eat_range mark ('' '' @ [mark] @ nat_digits a @ '','' @ nat_digits b @ t) = Some t"
proof -
  have "is_space (CHR '' '')" "\<not> is_space mark" using assms(2) by (auto simp: is_space_def)
  moreover have "eat_digits (nat_digits a @ '','' @ nat_digits b @ t) = Some ('','' @ nat_digits b @ t)"
    by (rule eat_digits_nat) (simp add: is_digit_def)
  ultimately show ?thesis using eat_digits_nat [OF assms(1), of b] by (simp add: eat_range_def)
qed

lemma hunk_header_match: "hunk_match (hunk_header h)"
proof -
  have s: "is_space (CHR '' '')" "\<not> is_space (CHR ''@'')" by (auto simp: is_space_def)
  have d: "\<not> is_digit (CHR '' '')" by (simp add: is_digit_def)
  let ?b = "'' +'' @ nat_digits (hk_new h) @ '','' @ nat_digits (hk_new_len h) @ '' @@''"
  have "eat_range (CHR ''-'') (drop 2 (hunk_header h)) = Some ?b"
    using eat_range_nat [of ?b "CHR ''-''" "hk_old h" "hk_old_len h"] d by (simp add: hunk_header_def)
  moreover have "eat_range (CHR ''+'') ?b = Some '' @@''"
    using eat_range_nat [of "'' @@''" "CHR ''+''" "hk_new h" "hk_new_len h"] d by simp
  ultimately show ?thesis using s by (simp add: hunk_match_def) (simp add: hunk_header_def)
qed

lemma digits_whole: "whole (nat_digits n)"
  using digits_digit by (force simp: whole_def line_break_def is_digit_def codept_def)

lemma hunk_header_line: "line_paths (hunk_header h) = []" "whole (hunk_header h)"
proof -
  have "strip (hunk_header h) = hunk_header h"
    by (intro strip_id) (auto simp: hunk_header_def is_space_def)
  moreover have "diff_git_match (hunk_header h) = None" "diff_path_match (hunk_header h) = None"
    by (simp_all add: hunk_header_def diff_git_match_def diff_path_match_def)
  ultimately show "line_paths (hunk_header h) = []" by (simp add: line_paths_def)
  show "whole (hunk_header h)"
    using digits_whole by (auto simp: hunk_header_def whole_def line_break_def codept_def)
qed

lemma splitlines_lines: "list_all whole ls \<Longrightarrow> splitlines (concat (map (\<lambda>l. l @ [newline]) ls)) = ls"
  unfolding splitlines_def by (induction ls) (simp_all add: splitlines_whole)

lemma good_line_start: "good_line l \<Longrightarrow> \<not> starts_with ''@@'' l"
  by (cases l) (auto simp: good_line_def)

lemma name_lines_whole:
  assumes "good_name n"
  shows "whole (''diff --git a/'' @ n @ '' b/'' @ n)" "whole (''--- a/'' @ n)" "whole (''+++ b/'' @ n)"
  using name_chars(6) [OF assms] by (auto simp: whole_def line_break_def codept_def)

lemma file_lines_whole: "good_diff f \<Longrightarrow> list_all whole (file_lines f)"
  using name_lines_whole [of "fd_name f"] hunk_header_line
  by (fastforce simp: good_diff_def file_lines_def list_all_iff good_line_def)

lemma file_lines_paths:
  assumes "good_diff f"
  shows "concat (map line_paths (file_lines f)) =
     [''a/'' @ fd_name f, ''b/'' @ fd_name f, ''a/'' @ fd_name f, ''b/'' @ fd_name f]"
proof -
  have n: "good_name (fd_name f)" using assms by (simp add: good_diff_def)
  have "concat (map line_paths (concat (map (\<lambda>h. hunk_header h # hk_lines h) (fd_hunks f)))) = []"
    using assms hunk_header_line by (auto simp: good_diff_def list_all_iff good_line_def)
  then show ?thesis using line_paths_git [OF n] line_paths_name [OF n, of "''---''" "''a/''"]
      line_paths_name [OF n, of "''+++''" "''b/''"] by (simp add: file_lines_def)
qed

lemma render_lines: "list_all good_diff fs \<Longrightarrow> splitlines (render_diff fs) = concat (map file_lines fs)"
  unfolding render_diff_def by (rule splitlines_lines) (use file_lines_whole in \<open>fastforce simp: list_all_iff\<close>)

lemma render_paths:
  assumes "list_all good_diff fs"
  shows "raw_paths (render_diff fs) =
     concat (map (\<lambda>f. [''a/'' @ fd_name f, ''b/'' @ fd_name f, ''a/'' @ fd_name f, ''b/'' @ fd_name f]) fs)"
  unfolding raw_paths_def render_lines [OF assms] using assms
  by (induction fs) (simp_all add: file_lines_paths)

lemma filter_all: "list_all P xs \<Longrightarrow> filter P xs = xs"
  by (induction xs) auto

lemma replace_char_id: "c \<notin> set s \<Longrightarrow> replace_char c d s = s"
  by (induction s) (auto simp: replace_char_def)

lemma strip_patch_path_name:
  assumes "good_name n" "ab \<in> {''a'', ''b''}"
  shows "strip_patch_path 1 (ab @ ''/'' @ n) = n" "''/dev/null'' \<noteq> ab @ ''/'' @ n" "has_ab_prefix (ab @ ''/'' @ n)"
proof -
  note n = name_chars [OF assms(1)]
  have parts: "list_all (\<lambda>p. p \<noteq> []) (split_on (CHR ''/'') n)" "''.'' \<notin> set (split_on (CHR ''/'') n)"
    "''..'' \<notin> set (split_on (CHR ''/'') n)"
    using assms(1) by (auto simp: good_name_def list_all_iff)
  have s: "strip (ab @ ''/'' @ n) = ab @ ''/'' @ n"
    using assms(2) n(1,3) by (intro strip_id) (auto simp: is_space_def)
  have r: "replace_char (CHR 92) (CHR ''/'') (ab @ ''/'' @ n) = ab @ ''/'' @ n"
    using assms(2) n(7) by (intro replace_char_id) auto
  have sp: "split_on (CHR ''/'') (ab @ ''/'' @ n) = ab # split_on (CHR ''/'') n"
    using assms(2) split_on_sep [of "CHR ''/''" ab n] by auto
  have "filter (\<lambda>p. p \<noteq> []) (ab # split_on (CHR ''/'') n) = ab # split_on (CHR ''/'') n"
    using assms(2) filter_all [OF parts(1)] by auto
  moreover show ne: "''/dev/null'' \<noteq> ab @ ''/'' @ n" using assms(2) by auto
  moreover have "ab @ ''/'' @ n \<noteq> []" by simp
  ultimately show "strip_patch_path 1 (ab @ ''/'' @ n) = n"
    unfolding strip_patch_path_def s r sp Let_def using parts split_on_nonempty [of "CHR ''/''" n]
    by (simp add: join_split)
  show "has_ab_prefix (ab @ ''/'' @ n)" using assms(2) by (auto simp: has_ab_prefix_def)
qed

lemma dedupe_four: "dedupe_from seen (concat (map (\<lambda>f. [g f, g f, g f, g f]) fs)) = dedupe_from seen (map g fs)"
  by (induction fs arbitrary: seen) auto

lemma good_diffs:
  assumes "list_all good_diff fs" "f \<in> set fs"
  shows "good_name (fd_name f)" "fd_hunks f \<noteq> []" "h \<in> set (fd_hunks f) \<Longrightarrow> l \<in> set (hk_lines h) \<Longrightarrow> good_line l"
    "strip_patch_path 1 (''a/'' @ fd_name f) = fd_name f" "strip_patch_path 1 (''b/'' @ fd_name f) = fd_name f"
    "has_ab_prefix (''a/'' @ fd_name f)" "has_ab_prefix (''b/'' @ fd_name f)" "fd_name f \<noteq> []"
proof -
  show n: "good_name (fd_name f)" and "fd_hunks f \<noteq> []"
    and "h \<in> set (fd_hunks f) \<Longrightarrow> l \<in> set (hk_lines h) \<Longrightarrow> good_line l"
    using assms by (auto simp: list_all_iff good_diff_def)
  show "strip_patch_path 1 (''a/'' @ fd_name f) = fd_name f" "strip_patch_path 1 (''b/'' @ fd_name f) = fd_name f"
    "has_ab_prefix (''a/'' @ fd_name f)" "has_ab_prefix (''b/'' @ fd_name f)"
    using strip_patch_path_name [OF n, of "''a''"] strip_patch_path_name [OF n, of "''b''"] by simp_all
  show "fd_name f \<noteq> []" by (rule name_chars(1) [OF n])
qed

lemma render_meaningful:
  "list_all good_diff fs \<Longrightarrow> filter (\<lambda>raw. raw \<noteq> ''/dev/null'') (raw_paths (render_diff fs)) = raw_paths (render_diff fs)"
  by (rule filter_all) (auto simp: render_paths list_all_iff)

lemma render_level:
  assumes "list_all good_diff fs" "fs \<noteq> []"
  shows "strip_level (render_diff fs) = 1"
proof -
  have "list_all has_ab_prefix (raw_paths (render_diff fs))"
    unfolding render_paths [OF assms(1)] using good_diffs(6,7) [OF assms(1)] by (auto simp: list_all_iff)
  moreover have "raw_paths (render_diff fs) \<noteq> []"
    unfolding render_paths [OF assms(1)] using assms(2) by (cases fs) simp_all
  ultimately show ?thesis unfolding strip_level_def render_meaningful [OF assms(1)] Let_def by simp
qed

lemma render_names:
  assumes "list_all good_diff fs"
  shows "diff_paths 1 (render_diff fs) = dedupe (map fd_name fs)"
proof -
  have "filter (\<lambda>p. p \<noteq> []) (map (strip_patch_path 1) (raw_paths (render_diff fs))) =
      concat (map (\<lambda>f. [fd_name f, fd_name f, fd_name f, fd_name f]) fs)"
    unfolding render_paths [OF assms] using good_diffs(4,5,8) [OF assms] by (induction fs) simp_all
  then show ?thesis unfolding diff_paths_def render_meaningful [OF assms] dedupe_def by (simp add: dedupe_four)
qed

lemma render_heads:
  assumes "list_all good_diff fs" "l \<in> set (splitlines (render_diff fs))" "starts_with ''@@'' l"
  shows "hunk_match l"
proof -
  obtain f where f: "f \<in> set fs" "l \<in> set (file_lines f)" using assms(2) by (auto simp: render_lines [OF assms(1)])
  then obtain h where "h \<in> set (fd_hunks f)" "l = hunk_header h \<or> l \<in> set (hk_lines h)"
    using assms(3) by (auto simp: file_lines_def)
  then show ?thesis using good_diffs(3) [OF assms(1) f(1)] good_line_start assms(3) hunk_header_match by blast
qed

lemma render_looks:
  assumes "list_all good_diff fs" "fs \<noteq> []"
  shows "looks_like_diff (render_diff fs)"
proof -
  obtain f0 fs' where f0: "fs = f0 # fs'" using assms(2) by (cases fs) auto
  obtain h hs where h: "fd_hunks f0 = h # hs" using good_diffs(2) [OF assms(1), of f0] f0 by (cases "fd_hunks f0") auto
  have lines: "''--- a/'' @ fd_name f0 \<in> set (splitlines (render_diff fs))"
    "''+++ b/'' @ fd_name f0 \<in> set (splitlines (render_diff fs))" "hunk_header h \<in> set (splitlines (render_diff fs))"
    unfolding render_lines [OF assms(1)] by (simp_all add: f0 file_lines_def h)
  have at: "starts_with ''@@'' (hunk_header h)" by (simp add: hunk_header_def)
  have "strip (render_diff fs) \<noteq> []"
  proof
    assume "strip (render_diff fs) = []"
    then have "list_all is_space (render_diff fs)" using strip_Nil by (auto simp: list_all_iff)
    then show False by (simp add: f0 render_diff_def file_lines_def is_space_def)
  qed
  moreover have "raw_paths (render_diff fs) \<noteq> []" unfolding render_paths [OF assms(1)] by (simp add: f0)
  ultimately show ?thesis unfolding looks_like_diff_def Let_def list_ex_iff using lines at by force
qed

section \<open>What the checks miss\<close>

text \<open>
  A declared name never holds an unsafe component, because names with dots are dropped: the check for unsafe names
  finds nothing in any diff.
\<close>

lemma declared_name_parts:
  assumes "strip_patch_path level raw = p" "p \<noteq> []"
  shows "''..'' \<notin> set (path_parts p)" "\<not> absolute_path p"
proof -
  define parts where
    "parts = drop level (filter (\<lambda>p. p \<noteq> []) (split_on (CHR ''/'') (replace_char (CHR 92) (CHR ''/'') (strip raw))))"
  have p: "p = join_with ''/'' parts" and ne: "parts \<noteq> []" and dots: "''..'' \<notin> set parts"
    using assms by (auto simp: strip_patch_path_def parts_def Let_def split: if_splits)
  have mem: "q \<noteq> [] \<and> CHR ''/'' \<notin> set q" if "q \<in> set parts" for q
    using that split_parts unfolding parts_def by (auto dest!: in_set_dropD)
  then have "split_on (CHR ''/'') p = parts"
    unfolding p by (intro split_join ne) (simp add: list_all_iff)
  then show "''..'' \<notin> set (path_parts p)" using dots by (simp add: path_parts_def)
  obtain q qs where "parts = q # qs" using ne by (cases parts) auto
  moreover obtain x r where "q = x # r" "x \<noteq> CHR ''/''" using mem [of q] calculation by (cases q) auto
  ultimately show "\<not> absolute_path p" by (cases qs) (auto simp: p absolute_path_def)
qed

lemma unsafe_check_dead: "unsafe_diagnostics raws = []"
  by (induction raws) (auto simp: unsafe_diagnostics_def Let_def map_filter_simps declared_name_parts [OF refl])

text \<open>A removed line that starts with two dashes and a space is taken for a header and changes the level of stripping.\<close>

definition dashed_diff :: file_diff where
  "dashed_diff = \<lparr> fd_name = ''x.sql'', fd_hunks =
     [\<lparr> hk_old = 1, hk_old_len = 1, hk_new = 1, hk_new_len = 0, hk_lines = [''--- note''] \<rparr>] \<rparr>"

lemma dashed_line_is_header:
  "raw_paths (render_diff [dashed_diff]) = [''a/x.sql'', ''b/x.sql'', ''a/x.sql'', ''b/x.sql'', ''note'']"
  "strip_level (render_diff [dashed_diff]) = 0" "diff_paths 0 (render_diff [dashed_diff]) = [''a/x.sql'', ''b/x.sql'', ''note'']"
  by code_simp+

section \<open>Properties\<close>


definition demo_diff :: file_diff where
  "demo_diff = \<lparr> fd_name = ''d/x.c'', fd_hunks =
     [\<lparr> hk_old = 1, hk_old_len = 1, hk_new = 1, hk_new_len = 12, hk_lines = [''-old'', ''+new''] \<rparr>] \<rparr>"


end
