(* ===== verification/PatchSandbox.thy ===== *)
theory PatchSandbox
  imports FileTree UnifiedDiff Genome
begin

text \<open>
  candidates/project_candidate.py (patch operations and application results) and tools/patch_sandbox.py: a copy of
  the source tree without links, sensitive and generated files, and the application of the operations of a patch to
  it. The digest of a file is \<open>sha\<close>, \<open>stable_hash\<close> hashes a JSON value. The text of an OSError is one text. A candidate
  without operations may carry a unified diff, which the external tool \<open>patch\<close> applies: its run is the argument
  \<open>tool\<close>. Lock files and file modes are left out.
\<close>

section \<open>Patch operations and results\<close>

record patch_op =
  po_path :: string
  po_operation :: string
  po_content :: string
  po_old_text :: string
  po_new_text :: string
  po_metadata :: pydict

definition patch_op_to_dict :: "patch_op \<Rightarrow> pydict" where
  "patch_op_to_dict p =
     [(''path'', PStr (po_path p)), (''operation'', PStr (po_operation p)), (''content'', PStr (po_content p)),
      (''old_text'', PStr (po_old_text p)), (''new_text'', PStr (po_new_text p)), (''metadata'', PDict (po_metadata p))]"

definition patch_op_from_dict :: "pydict \<Rightarrow> patch_op" where
  "patch_op_from_dict d =
     \<lparr> po_path = str_field (dget d ''path'') [],
       po_operation = str_field (dget d ''operation'') ''write'',
       po_content = str_field (dget d ''content'') [],
       po_old_text = str_field (dget d ''old_text'') [],
       po_new_text = str_field (dget d ''new_text'') [],
       po_metadata = coerce_dict (dget d ''metadata'') \<rparr>"

record patch_result =
  pr_status :: string
  pr_diagnostics :: "string list"
  pr_applied_files :: "string list"
  pr_failed_files :: "string list"
  pr_pre_hash :: string
  pr_post_hash :: string
  pr_sandbox_path :: string
  pr_raw_output_ref :: string
  pr_created_at :: string

definition patch_passed :: "patch_result \<Rightarrow> bool" where
  "patch_passed r \<longleftrightarrow> pr_status r = ''applied''"

definition patch_result_to_dict :: "patch_result \<Rightarrow> pydict" where
  "patch_result_to_dict r =
     [(''status'', PStr (pr_status r)), (''diagnostics'', strs_val (pr_diagnostics r)),
      (''applied_files'', strs_val (pr_applied_files r)), (''failed_files'', strs_val (pr_failed_files r)),
      (''pre_hash'', PStr (pr_pre_hash r)), (''post_hash'', PStr (pr_post_hash r)),
      (''sandbox_path'', PStr (pr_sandbox_path r)), (''raw_output_ref'', PStr (pr_raw_output_ref r)),
      (''created_at'', PStr (pr_created_at r))]"

definition patch_result_from_dict :: "string \<Rightarrow> pydict \<Rightarrow> patch_result" where
  "patch_result_from_dict now d =
     \<lparr> pr_status = str_field (dget d ''status'') ''failed'',
       pr_diagnostics = coerce_str_list (dget d ''diagnostics''),
       pr_applied_files = coerce_str_list (dget d ''applied_files''),
       pr_failed_files = coerce_str_list (dget d ''failed_files''),
       pr_pre_hash = str_field (dget d ''pre_hash'') [],
       pr_post_hash = str_field (dget d ''post_hash'') [],
       pr_sandbox_path = str_field (dget d ''sandbox_path'') [],
       pr_raw_output_ref = str_field (dget d ''raw_output_ref'') [],
       pr_created_at = str_field (dget d ''created_at'') now \<rparr>"

section \<open>The copy\<close>

record patch_sandbox =
  px_source_root :: fpath
  px_sandbox_root :: fpath
  px_scope :: "string list"

definition sandbox_init :: "ftree \<Rightarrow> fpath \<Rightarrow> fpath \<Rightarrow> string list \<Rightarrow> patch_sandbox" where
  "sandbox_init fs source base scope =
     \<lparr> px_source_root = realpath fs source, px_sandbox_root = realpath fs base,
       px_scope = filter (\<lambda>s. strip s \<noteq> []) scope \<rparr>"

definition IGNORE_DIRS :: "string list" where
  "IGNORE_DIRS = [''.git'', ''__pycache__'', ''.pytest_cache'', ''.mypy_cache'', ''.ruff_cache'', ''node_modules'',
     ''dist'', ''build'', ''.venv'', ''venv'', ''api-runs'', ''runs'']"

definition GENERATED_SUFFIXES :: "string list" where
  "GENERATED_SUFFIXES = [''.pyc'', ''.pyo'', ''.so'', ''.dll'', ''.dylib'', ''.class'', ''.o'']"

definition SENSITIVE_FILE_NAMES :: "string list" where
  "SENSITIVE_FILE_NAMES = [''.env'', ''.netrc'', ''.npmrc'', ''.pypirc'', ''id_rsa'', ''id_dsa'', ''id_ecdsa'',
     ''id_ed25519'', ''known_hosts'']"

definition SANDBOX_SENSITIVE_NAMES :: "string list" where
  "SANDBOX_SENSITIVE_NAMES = SENSITIVE_FILE_NAMES @
     [''.env.development'', ''.env.local'', ''.env.production'', ''.env.test'', ''access-token.txt'',
      ''credentials.json'', ''secrets.json'', ''service-account.json'', ''service-secret.json'']"

definition SANDBOX_SENSITIVE_PATTERNS :: "string list" where
  "SANDBOX_SENSITIVE_PATTERNS = [''.env.*.local'', ''*.crt'', ''*.key'', ''*.kubeconfig'', ''*.p12'', ''*.pem'',
     ''*.pfx'', ''*key*.json'', ''*keys*'']"

text \<open>\<open>_sandbox_copy_ignored\<close>, for an entry below the source root.\<close>

definition copy_ignored :: "ftree \<Rightarrow> fpath \<Rightarrow> fpath \<Rightarrow> bool" where
  "copy_ignored fs source p =
     (let rel = drop (length source) p; name = last p
      in \<not> resolves_within fs p (realpath fs source) \<or>
         is_symlink fs p \<or> set rel \<inter> set IGNORE_DIRS \<noteq> {} \<or>
         name \<in> set SANDBOX_SENSITIVE_NAMES \<or>
         list_ex (\<lambda>pat. fnmatch pat name \<or> fnmatch pat (as_posix rel)) SANDBOX_SENSITIVE_PATTERNS \<or>
         lower (path_suffix name) \<in> set GENERATED_SUFFIXES)"

text \<open>\<open>copytree\<close> descends into the directories that are not ignored.\<close>

definition copied :: "ftree \<Rightarrow> patch_sandbox \<Rightarrow> fpath \<Rightarrow> bool" where
  "copied fs px p \<longleftrightarrow> strict_prefix (px_source_root px) p \<and>
     list_all (\<lambda>n. \<not> copy_ignored fs (px_source_root px) (take n p) \<and> \<not> resolves_within fs (take n p) (px_sandbox_root px))
       [Suc (length (px_source_root px))..<Suc (length p)]"

definition candidate_target :: "ftree \<Rightarrow> patch_sandbox \<Rightarrow> string \<Rightarrow> pyexn + fpath" where
  "candidate_target fs px cid =
     (let target = px_sandbox_root px @ [cid]; resolved = realpath fs target
      in if strip cid = [] \<or> cid \<in> set [''.'', ''..''] \<or> CHR ''/'' \<in> set cid \<or> CHR 92 \<in> set cid then Inl PyValueError
         else if is_symlink fs target then Inl PyValueError
         else if \<not> prefix (px_sandbox_root px) resolved then Inl PyValueError
         else if resolved = px_sandbox_root px then Inl PyValueError
         else if prefix resolved (px_source_root px) then Inl PyValueError
         else Inr target)"

definition prepare_sandbox :: "ftree \<Rightarrow> patch_sandbox \<Rightarrow> string \<Rightarrow> pyexn + (ftree \<times> fpath)" where
  "prepare_sandbox fs px cid =
     sbind (candidate_target fs px cid) (\<lambda>target.
       if px_sandbox_root px = px_source_root px then Inl PyValueError
       else if exists_at fs target \<and> node_at fs target \<noteq> Some FDir then Inl (PyOtherError ''NotADirectoryError'')
       else if node_at fs (px_source_root px) \<noteq> Some FDir then Inl (PyOtherError ''OSError'')
       else
         (let cleared = remove_tree fs target
          in case mkdirs cleared [] target of
               None \<Rightarrow> Inl (PyOtherError ''OSError'')
             | Some made \<Rightarrow>
                 Inr (made @ map (\<lambda>(p, n). (target @ drop (length (px_source_root px)) p, n))
                               (filter (\<lambda>(p, n). copied cleared px p) cleared),
                      target)))"

text \<open>\<open>_sandbox_tree_hash\<close>: the digests of the regular files by relative path.\<close>

definition tree_hash :: "(fnode \<Rightarrow> string) \<Rightarrow> (pyval \<Rightarrow> string) \<Rightarrow> ftree \<Rightarrow> fpath \<Rightarrow> string" where
  "tree_hash sha stable_hash fs sb =
     (let ps = sort (map fst (filter (\<lambda>(p, n). strict_prefix sb p \<and> (is_FText n \<or> is_FBytes n)) fs))
      in stable_hash (PDict [(''files'',
           PDict (map (\<lambda>p. (as_posix (drop (length sb) p), PStr (sha (the (map_of fs p))))) ps))]))"

section \<open>The guards of a path\<close>

definition unsafe_path :: "string \<Rightarrow> bool" where
  "unsafe_path raw \<longleftrightarrow> raw = [] \<or> absolute_path raw \<or> ''..'' \<in> set (path_parts raw)"

definition patch_scope_error :: "string \<Rightarrow> string list \<Rightarrow> string option" where
  "patch_scope_error raw scope =
     (if unsafe_path raw then Some (''unsafe patch path: '' @ raw)
      else if scope \<noteq> [] \<and> \<not> list_ex (\<lambda>pat. fnmatch pat (as_posix (path_parts raw))) scope
      then Some (''patch path outside allowed_patch_scope: '' @ raw)
      else None)"

fun link_on_way :: "ftree \<Rightarrow> fpath \<Rightarrow> fpath \<Rightarrow> bool" where
  "link_on_way fs cur [] = False"
| "link_on_way fs cur (c # r) =
     (if is_symlink fs (cur @ [c]) then True
      else if \<not> exists_at fs (cur @ [c]) then False
      else link_on_way fs (cur @ [c]) r)"

definition source_path_uses_symlink :: "ftree \<Rightarrow> fpath \<Rightarrow> string \<Rightarrow> bool" where
  "source_path_uses_symlink fs source raw \<longleftrightarrow> \<not> unsafe_path raw \<and> link_on_way fs source (path_parts raw)"

definition ancestors_between :: "fpath \<Rightarrow> fpath \<Rightarrow> fpath list" where
  "ancestors_between base leaf =
     map (\<lambda>n. take n leaf) [(if prefix base leaf then length base else 0)..<Suc (length leaf)]"

fun ancestor_error :: "ftree \<Rightarrow> fpath \<Rightarrow> string \<Rightarrow> fpath list \<Rightarrow> string option" where
  "ancestor_error fs base raw [] = None"
| "ancestor_error fs base raw (a # as) =
     (if exists_at fs a \<and> is_symlink fs a then Some (''unsafe symlink ancestor in patch path: '' @ raw)
      else if exists_at fs a \<and> \<not> resolves_within fs a base then Some (''unsafe patch ancestor outside sandbox: '' @ raw)
      else ancestor_error fs base raw as)"

text \<open>\<open>_safe_patch_target\<close>: refused, stopped by an OSError of \<open>mkdir\<close>, or the target with its parents.\<close>

datatype guard_result = Refused string | OsFailure | Target ftree fpath

definition safe_patch_target :: "ftree \<Rightarrow> fpath \<Rightarrow> string \<Rightarrow> bool \<Rightarrow> guard_result" where
  "safe_patch_target fs sb raw create_parent =
     (if unsafe_path raw then Refused (''unsafe patch path: '' @ raw)
      else
        (let base = realpath fs sb; target = sb @ path_parts raw; parent = butlast target
         in if \<not> resolves_within fs parent base then Refused (''unsafe patch parent outside sandbox: '' @ raw)
            else
              (case ancestor_error fs base raw (ancestors_between base parent) of
                 Some m \<Rightarrow> Refused m
               | None \<Rightarrow>
                   (case (if create_parent then mkdirs fs [] parent else Some fs) of
                      None \<Rightarrow> OsFailure
                    | Some fs1 \<Rightarrow>
                        (if exists_at fs1 target \<and> is_symlink fs1 target
                         then Refused (''unsafe symlink patch target: '' @ raw)
                         else if exists_at fs1 target \<and> \<not> resolves_within fs1 target base
                         then Refused (''unsafe patch target outside sandbox: '' @ raw)
                         else Target fs1 target)))))"

section \<open>One operation\<close>

definition OS_ERROR :: string where "OS_ERROR = ''OSError''"

definition done_or :: "ftree \<Rightarrow> ftree option \<Rightarrow> string \<Rightarrow> pyexn + (ftree \<times> bool \<times> string)" where
  "done_or fs r msg = Inr (case r of None \<Rightarrow> (fs, False, OS_ERROR) | Some fs' \<Rightarrow> (fs', True, msg))"

definition delete_target :: "ftree \<Rightarrow> string \<Rightarrow> fpath \<Rightarrow> pyexn + (ftree \<times> bool \<times> string)" where
  "delete_target fs raw t =
     Inr (if \<not> exists_at fs t then (fs, True, ''deleted'')
          else if node_at fs t = Some FDir then (fs, False, ''delete target is a directory: '' @ raw)
          else (unlink_file fs t, True, ''deleted''))"

text \<open>A file that is not UTF-8 raises UnicodeDecodeError, which is not an OSError and escapes.\<close>

definition replace_in_target :: "ftree \<Rightarrow> patch_op \<Rightarrow> fpath \<Rightarrow> pyexn + (ftree \<times> bool \<times> string)" where
  "replace_in_target fs op t =
     (case node_at fs t of
        None \<Rightarrow> Inr (fs, False, ''replace target missing: '' @ po_path op)
      | Some (FBytes _) \<Rightarrow> Inl (PyOtherError ''UnicodeDecodeError'')
      | Some (FText s) \<Rightarrow>
          (let text = universal_newlines s
           in if \<not> infix_of (po_old_text op) text then Inr (fs, False, ''old_text not found in '' @ po_path op)
              else done_or fs (write_text fs t (str_replace (po_old_text op) (po_new_text op) text)) ''replaced'')
      | Some _ \<Rightarrow> Inr (fs, False, OS_ERROR))"

text \<open>The guard runs again inside each branch; only for writing and appending it creates the parents.\<close>

definition apply_operation :: "patch_sandbox \<Rightarrow> fpath \<Rightarrow> patch_op \<Rightarrow> ftree \<Rightarrow> pyexn + (ftree \<times> bool \<times> string)" where
  "apply_operation px sb op fs =
     (let raw = po_path op; kind = po_operation op
      in case patch_scope_error raw (px_scope px) of
           Some m \<Rightarrow> Inr (fs, False, m)
         | None \<Rightarrow>
             if source_path_uses_symlink fs (px_source_root px) raw
             then Inr (fs, False, ''unsafe source symlink in patch path: '' @ raw)
             else
               (case safe_patch_target fs sb raw False of
                  Refused m \<Rightarrow> Inr (fs, False, m)
                | OsFailure \<Rightarrow> Inr (fs, False, OS_ERROR)
                | Target _ t \<Rightarrow>
                    if kind = ''delete'' then delete_target fs raw t
                    else if kind = ''replace'' then replace_in_target fs op t
                    else if kind = ''write'' \<or> kind = ''append'' then
                      (case safe_patch_target fs sb raw True of
                         Refused m \<Rightarrow> Inr (fs, False, m)
                       | OsFailure \<Rightarrow> Inr (fs, False, OS_ERROR)
                       | Target fs1 t1 \<Rightarrow>
                           if kind = ''write'' then done_or fs1 (write_text fs1 t1 (po_content op)) ''written''
                           else done_or fs1 (append_text fs1 t1 (po_content op)) ''appended'')
                    else Inr (fs, False, ''unsupported patch operation: '' @ kind)))"

text \<open>The loop over the operations: the tree, the applied and the failed paths, the diagnostics.\<close>

fun apply_operations ::
  "patch_sandbox \<Rightarrow> fpath \<Rightarrow> patch_op list \<Rightarrow> ftree \<Rightarrow> pyexn + (ftree \<times> string list \<times> string list \<times> string list)" where
  "apply_operations px sb [] fs = Inr (fs, [], [], [])"
| "apply_operations px sb (op # ops) fs =
     sbind (apply_operation px sb op fs) (\<lambda>(fs1, ok, m).
     sbind (apply_operations px sb ops fs1) (\<lambda>(fs2, applied, failed, diags).
       Inr (fs2, if ok then po_path op # applied else applied, if ok then failed else po_path op # failed,
            if ok then diags else m # diags)))"

section \<open>The application of a candidate\<close>

definition generic_patch_text :: "pyval \<Rightarrow> string" where
  "generic_patch_text artifact =
     (case artifact of
        PDict d \<Rightarrow>
          (case filter (\<lambda>v. is_PStr v \<and> strip (str_of v) \<noteq> [])
                  (map (dget d) [''patch'', ''patch_content'', ''diff'', ''unified_diff'']) of
             v # _ \<Rightarrow> str_of v
           | [] \<Rightarrow> (case dget d ''content'' of PStr s \<Rightarrow> (if looks_like_diff s then s else []) | _ \<Rightarrow> []))
      | _ \<Rightarrow> [])"

definition preflight_path :: "ftree \<Rightarrow> patch_sandbox \<Rightarrow> string \<Rightarrow> string option" where
  "preflight_path fs px raw =
     (case patch_scope_error raw (px_scope px) of
        Some m \<Rightarrow> Some m
      | None \<Rightarrow>
          if source_path_uses_symlink fs (px_source_root px) raw
          then Some (''unsafe source symlink in patch path: '' @ raw)
          else None)"

definition preflight_paths :: "ftree \<Rightarrow> patch_sandbox \<Rightarrow> string list \<Rightarrow> string list \<times> string list" where
  "preflight_paths fs px raws =
     (List.map_filter (preflight_path fs px) raws, filter (\<lambda>raw. preflight_path fs px raw \<noteq> None) raws)"

definition preflight_candidate ::
  "ftree \<Rightarrow> patch_sandbox \<Rightarrow> patch_op list \<Rightarrow> pyval \<Rightarrow> string list \<times> string list" where
  "preflight_candidate fs px patch_set artifact =
     (let diff = generic_patch_text artifact
      in if patch_set \<noteq> [] then preflight_paths fs px (map po_path patch_set)
         else if diff = [] then ([], [])
         else
           (let repaired = fst (repair_diff diff);
                (ok, diags) = preflight_diff repaired;
                names = diff_paths (strip_level repaired) repaired
            in if \<not> ok then ([''patch_preflight_failed:'' @ join_with '';'' diags], names)
               else preflight_paths fs px names))"

section \<open>The application of a unified diff\<close>

datatype tool_run = ToolMissing | ToolTimeout | ToolExit int string

type_synonym patch_tool = "fpath \<Rightarrow> nat \<Rightarrow> string \<Rightarrow> ftree \<Rightarrow> ftree \<times> tool_run"

definition diff_path_error :: "ftree \<Rightarrow> patch_sandbox \<Rightarrow> fpath \<Rightarrow> string \<Rightarrow> string option" where
  "diff_path_error fs px sb raw =
     (case preflight_path fs px raw of
        Some m \<Rightarrow> Some m
      | None \<Rightarrow> (case safe_patch_target fs sb raw False of Refused m \<Rightarrow> Some m | _ \<Rightarrow> None))"

definition apply_unified_patch ::
  "patch_tool \<Rightarrow> patch_sandbox \<Rightarrow> fpath \<Rightarrow> string \<Rightarrow> ftree \<Rightarrow> ftree \<times> bool \<times> string \<times> string list" where
  "apply_unified_patch tool px sb diff fs =
     (let (text, notes) = repair_diff diff;
          level = strip_level text;
          names = diff_paths level text;
          (ok, diags) = preflight_diff text
      in if \<not> ok then (fs, False, ''patch_preflight_failed:'' @ join_with '';'' diags, names)
         else if names = [] then (fs, False, ''patch_no_effect:no_files_declared'', [])
         else
           (case List.map_filter (diff_path_error fs px sb) names of
              m # _ \<Rightarrow> (fs, False, m, names)
            | [] \<Rightarrow>
                (case tool sb level text fs of
                   (fs', ToolMissing) \<Rightarrow> (fs', False, ''patch_tool_unavailable'', names)
                 | (fs', ToolTimeout) \<Rightarrow> (fs', False, ''patch_tool_timeout'', names)
                 | (fs', ToolExit code out) \<Rightarrow>
                     (let output = strip out
                      in if code \<noteq> 0 then
                           (fs', False, ''unified_patch_failed:'' @
                              (if output \<noteq> [] then last (splitlines output) else ''patch exited '' @ int_str code), names)
                         else
                           (fs', True, str_or output ''unified_patch_applied'' @
                              (if notes \<noteq> [] then ''; '' @ join_with '';'' notes else []), names)))))"

section \<open>The result\<close>

definition patch_status :: "string list \<Rightarrow> string list \<Rightarrow> string \<Rightarrow> string \<Rightarrow> string \<times> string list" where
  "patch_status applied failed pre post =
     (if failed \<noteq> [] then (''failed'', [])
      else if applied = [] then (''no_op'', [''patch_no_effect:no_files_applied''])
      else if pre = post then (''no_op'', [''patch_no_effect:pre_hash_equals_post_hash''])
      else (''applied'', []))"

definition apply_candidate ::
  "(fnode \<Rightarrow> string) \<Rightarrow> (pyval \<Rightarrow> string) \<Rightarrow> patch_tool \<Rightarrow> string \<Rightarrow>
   patch_sandbox \<Rightarrow> string \<Rightarrow> patch_op list \<Rightarrow> pyval \<Rightarrow> ftree \<Rightarrow> pyexn + (ftree \<times> patch_result)" where
  "apply_candidate sha stable_hash tool now px cid patch_set artifact fs =
     sbind (candidate_target fs px cid) (\<lambda>_.
       (let (bad, bad_files) = preflight_candidate fs px patch_set artifact
        in if bad \<noteq> [] then
             Inr (fs, \<lparr> pr_status = ''failed'', pr_diagnostics = bad, pr_applied_files = [], pr_failed_files = bad_files,
                        pr_pre_hash = [], pr_post_hash = [], pr_sandbox_path = [], pr_raw_output_ref = [],
                        pr_created_at = now \<rparr>)
           else
             sbind (prepare_sandbox fs px cid) (\<lambda>(fs0, sb).
             sbind (apply_operations px sb patch_set fs0) (\<lambda>(fs1, applied0, failed0, diags0).
               (let diff = generic_patch_text artifact;
                    (fs2, applied, failed, diags) =
                      (if patch_set = [] \<and> diff \<noteq> [] then
                         (case apply_unified_patch tool px sb diff fs1 of
                            (fs2, ok, m, names) \<Rightarrow>
                              if ok then (fs2, names, failed0, diags0)
                              else (fs2, applied0, if names \<noteq> [] then names else diff_paths (strip_level diff) diff,
                                    diags0 @ [m]))
                       else (fs1, applied0, failed0, diags0));
                    pre = tree_hash sha stable_hash fs0 sb;
                    post = tree_hash sha stable_hash fs2 sb;
                    (status, extra) = patch_status applied failed pre post
                in Inr (fs2, \<lparr> pr_status = status, pr_diagnostics = diags @ extra, pr_applied_files = applied,
                               pr_failed_files = failed, pr_pre_hash = pre, pr_post_hash = post,
                               pr_sandbox_path = ''/'' @ join_with ''/'' sb, pr_raw_output_ref = [],
                               pr_created_at = now \<rparr>))))))"

section \<open>Confinement\<close>

text \<open>A sandbox: a directory without links on the way to it or below it.\<close>

definition sandbox_ok :: "ftree \<Rightarrow> fpath \<Rightarrow> bool" where
  "sandbox_ok fs sb \<longleftrightarrow> tree_ok fs \<and> map_of fs sb = Some FDir \<and> ''..'' \<notin> set sb \<and>
     (\<forall>q. prefix q sb \<or> prefix sb q \<longrightarrow> (\<forall>ab t. map_of fs q \<noteq> Some (FLink ab t)))"

lemma sandbox_link_free:
  assumes "sandbox_ok fs sb" "''..'' \<notin> set r"
  shows "link_free fs (sb @ r)"
  using assms unfolding sandbox_ok_def link_free_def by (auto simp: prefix_append)

lemma safe_parts: "\<not> unsafe_path raw \<Longrightarrow> ''..'' \<notin> set (path_parts raw)"
  by (simp add: unsafe_path_def)

lemma ancestors_plain:
  assumes "sandbox_ok fs sb" "''..'' \<notin> set r"
  shows "ancestor_error fs sb raw (ancestors_between sb (sb @ r)) = None"
proof -
  have "ancestor_error fs sb raw as = None" if "\<forall>a \<in> set as. prefix sb a \<and> prefix a (sb @ r)" for as
    using that
  proof (induction as)
    case (Cons a as)
    have lf: "link_free fs a" using Cons.prems sandbox_link_free [OF assms] link_free_prefix by auto
    then have "\<not> is_symlink fs a" by (rule is_symlink_plain)
    moreover have "resolves_within fs a sb" using lf Cons.prems by (simp add: resolves_within_def realpath_plain)
    ultimately show ?case using Cons by simp
  qed simp
  moreover have "\<forall>a \<in> set (ancestors_between sb (sb @ r)). prefix sb a \<and> prefix a (sb @ r)"
    by (auto simp: ancestors_between_def take_is_prefix)
  ultimately show ?thesis by blast
qed

text \<open>On a sandbox the guard lets every safe path through, except the sandbox itself.\<close>

lemma guard_plain:
  assumes ok: "sandbox_ok fs sb" and safe: "\<not> unsafe_path raw"
  defines "t \<equiv> sb @ path_parts raw"
  shows "path_parts raw = [] \<Longrightarrow> sb \<noteq> [] \<Longrightarrow> safe_patch_target fs sb raw c = Refused (''unsafe patch parent outside sandbox: '' @ raw)"
    and "path_parts raw \<noteq> [] \<Longrightarrow> safe_patch_target fs sb raw False = Target fs t"
    and "path_parts raw \<noteq> [] \<Longrightarrow> safe_patch_target fs sb raw True =
           (case mkdirs fs [] (butlast t) of None \<Rightarrow> OsFailure | Some fs1 \<Rightarrow> Target fs1 t)"
proof -
  have lf: "link_free fs t" unfolding t_def using ok safe by (intro sandbox_link_free safe_parts)
  have base: "realpath fs sb = sb" using sandbox_link_free [OF ok, of "[]"] by (simp add: realpath_plain)
  have par: "realpath fs (butlast t) = butlast t" using lf by (intro realpath_plain link_free_butlast)
  show "safe_patch_target fs sb raw c = Refused (''unsafe patch parent outside sandbox: '' @ raw)"
    if "path_parts raw = []" "sb \<noteq> []"
  proof -
    have "\<not> prefix sb (butlast sb)" using that by (metis append_butlast_last_id append_prefixD not_Cons_self2 prefix_order.antisym prefixI self_append_conv)
    then show ?thesis using that safe base par by (simp add: safe_patch_target_def resolves_within_def t_def)
  qed
  assume ne: "path_parts raw \<noteq> []"
  have bl: "butlast t = sb @ butlast (path_parts raw)" using ne by (simp add: t_def butlast_append)
  have dots: "''..'' \<notin> set (butlast (path_parts raw))" using safe_parts [OF safe] by (auto dest: in_set_butlastD)
  have anc: "ancestor_error fs sb raw (ancestors_between sb (butlast t)) = None"
    unfolding bl by (rule ancestors_plain [OF ok dots])
  have fin: "\<not> is_symlink fs1 t \<and> resolves_within fs1 t sb" if "link_free fs1 t" for fs1
    using that by (simp add: is_symlink_plain resolves_within_def realpath_plain t_def)
  show "safe_patch_target fs sb raw False = Target fs t"
    using safe base par anc fin [OF lf] by (simp add: safe_patch_target_def Let_def resolves_within_def bl t_def [symmetric])
  have "link_free fs1 t" if "mkdirs fs [] (butlast t) = Some fs1" for fs1
  proof -
    have "map_of fs1 = with_dirs fs (butlast t)"
      using mkdirs_plain [of fs "[]" "butlast t" fs1] that lf ok by (simp add: link_free_butlast sandbox_ok_def tree_ok_root)
    then show ?thesis using lf by (auto simp: link_free_def with_dirs_def)
  qed
  then show "safe_patch_target fs sb raw True = (case mkdirs fs [] (butlast t) of None \<Rightarrow> OsFailure | Some fs1 \<Rightarrow> Target fs1 t)"
    using safe base par anc fin
    by (auto simp: safe_patch_target_def Let_def resolves_within_def bl t_def [symmetric] split: option.split)
qed

lemma link_on_way_iff:
  assumes "link_free fs cur" "tree_ok fs" "''..'' \<notin> set r"
  shows "link_on_way fs cur r \<longleftrightarrow> (\<exists>q ab t. q \<noteq> [] \<and> prefix q r \<and> map_of fs (cur @ q) = Some (FLink ab t))"
  using assms
proof (induction r arbitrary: cur)
  case (Cons c r)
  let ?d = "cur @ [c]"
  have e: "entry_path fs ?d = ?d" using Cons.prems(1) by (intro entry_path_plain) simp
  show ?case
  proof (cases "is_symlink fs ?d")
    case True
    then obtain ab t where "map_of fs ?d = Some (FLink ab t)"
      by (auto simp: is_symlink_def e split: option.splits fnode.splits)
    then show ?thesis using True by (auto intro!: exI [of _ "[c]"])
  next
    case False
    then have nl: "map_of fs ?d \<noteq> Some (FLink ab t)" for ab t by (auto simp: is_symlink_def e)
    then have lf: "link_free fs ?d" using Cons.prems by (intro link_free_snoc) auto
    have rest: "(\<exists>q ab t. q \<noteq> [] \<and> prefix q (c # r) \<and> map_of fs (cur @ q) = Some (FLink ab t)) \<longleftrightarrow>
        (\<exists>q ab t. prefix q r \<and> map_of fs (?d @ q) = Some (FLink ab t))"
      by (auto simp: prefix_Cons)
    have ne: "(\<exists>q ab t. prefix q r \<and> map_of fs (?d @ q) = Some (FLink ab t)) \<longleftrightarrow>
        (\<exists>q ab t. q \<noteq> [] \<and> prefix q r \<and> map_of fs (?d @ q) = Some (FLink ab t))"
      using nl by (metis append_Nil2)
    show ?thesis
    proof (cases "map_of fs ?d")
      case None
      then have "map_of fs (?d @ q) = None" for q by (rule tree_ok_absent [OF Cons.prems(2)]) simp
      then have "\<not> (\<exists>q ab t. prefix q r \<and> map_of fs (?d @ q) = Some (FLink ab t))" by simp
      then show ?thesis unfolding rest using False None lf by (simp add: exists_at_def node_at_plain)
    next
      case (Some n)
      have "link_on_way fs cur (c # r) \<longleftrightarrow> link_on_way fs ?d r"
        using False Some lf by (simp add: exists_at_def node_at_plain)
      then show ?thesis unfolding rest ne using Cons.IH [OF lf Cons.prems(2)] Cons.prems(3) by simp
    qed
  qed
qed simp

definition links_same :: "ftree \<Rightarrow> ftree \<Rightarrow> bool" where
  "links_same fs fs' \<longleftrightarrow> (\<forall>q ab t. map_of fs q = Some (FLink ab t) \<longleftrightarrow> map_of fs' q = Some (FLink ab t))"

lemma source_check_same:
  assumes "links_same fs fs'" "tree_ok fs" "tree_ok fs'" "link_free fs (px_source_root px)"
  shows "preflight_path fs' px raw = preflight_path fs px raw"
proof -
  have lf: "link_free fs' (px_source_root px)" using assms(1,4) by (auto simp: links_same_def link_free_def)
  have "source_path_uses_symlink fs' (px_source_root px) raw = source_path_uses_symlink fs (px_source_root px) raw"
    using assms lf by (auto simp: source_path_uses_symlink_def link_on_way_iff safe_parts links_same_def)
  then show ?thesis by (simp add: preflight_path_def)
qed

section \<open>What an operation does to the sandbox\<close>

text \<open>
  The abstract specification: the sandbox as a map from relative paths to nodes, without links, resolution or guards.
\<close>

definition sandbox_view :: "ftree \<Rightarrow> fpath \<Rightarrow> fpath \<rightharpoonup> fnode" where
  "sandbox_view fs sb = (\<lambda>r. map_of fs (sb @ r))"

definition fill_dirs :: "(fpath \<rightharpoonup> fnode) \<Rightarrow> fpath \<Rightarrow> fpath \<rightharpoonup> fnode" where
  "fill_dirs v p = (\<lambda>q. if v q = None \<and> prefix q p then Some FDir else v q)"

definition grow :: "string \<Rightarrow> fnode option \<Rightarrow> fnode" where
  "grow text old = (case old of Some (FText s) \<Rightarrow> FText (s @ text) | Some (FBytes b) \<Rightarrow> FBytes (b @ text) | _ \<Rightarrow> FText text)"

definition op_spec :: "patch_op \<Rightarrow> (fpath \<rightharpoonup> fnode) \<Rightarrow> pyexn + ((fpath \<rightharpoonup> fnode) \<times> bool)" where
  "op_spec op v =
     (let r = path_parts (po_path op); kind = po_operation op
      in if r = [] then Inr (v, False)
         else if kind = ''delete'' then
           Inr (case v r of None \<Rightarrow> (v, True) | Some FDir \<Rightarrow> (v, False) | Some _ \<Rightarrow> (v(r := None), True))
         else if kind = ''replace'' then
           (case v r of
              Some (FText s) \<Rightarrow>
                (let text = universal_newlines s
                 in Inr (if infix_of (po_old_text op) text
                         then (v(r \<mapsto> FText (str_replace (po_old_text op) (po_new_text op) text)), True)
                         else (v, False)))
            | Some (FBytes _) \<Rightarrow> Inl (PyOtherError ''UnicodeDecodeError'')
            | _ \<Rightarrow> Inr (v, False))
         else if kind = ''write'' \<or> kind = ''append'' then
           Inr (if \<not> way_free v (butlast r) \<or> v r = Some FDir then (v, False)
                else ((fill_dirs v (butlast r))
                        (r \<mapsto> (if kind = ''write'' then FText (po_content op) else grow (po_content op) (v r))), True))
         else Inr (v, False))"

text \<open>A result of the code that means the same as a result of the specification.\<close>

definition refines :: "ftree \<Rightarrow> fpath \<Rightarrow> pyexn + (ftree \<times> bool \<times> string) \<Rightarrow> pyexn + ((fpath \<rightharpoonup> fnode) \<times> bool) \<Rightarrow> bool" where
  "refines fs sb res spec \<longleftrightarrow>
     (case spec of
        Inl e \<Rightarrow> res = Inl e
      | Inr (v, ok) \<Rightarrow> \<exists>fs' m. res = Inr (fs', ok, m) \<and> sandbox_view fs' sb = v \<and> sandbox_ok fs' sb \<and>
          (\<forall>q. \<not> strict_prefix sb q \<longrightarrow> map_of fs' q = map_of fs q))"

lemma refines_same: "sandbox_ok fs sb \<Longrightarrow> refines fs sb (Inr (fs, ok, m)) (Inr (sandbox_view fs sb, ok))"
  by (simp add: refines_def)

lemma sandbox_okD:
  assumes "sandbox_ok fs sb"
  shows "tree_ok fs" "map_of fs sb = Some FDir" "''..'' \<notin> set sb"
  using assms by (simp_all add: sandbox_ok_def)

text \<open>A change below the sandbox that keeps a tree a tree and adds no link.\<close>

lemma sandbox_ok_change:
  assumes "sandbox_ok fs sb" "tree_ok fs'" "\<And>q. \<not> strict_prefix sb q \<Longrightarrow> map_of fs' q = map_of fs q"
    "\<And>r ab t. r \<noteq> [] \<Longrightarrow> sandbox_view fs' sb r \<noteq> Some (FLink ab t)"
  shows "sandbox_ok fs' sb"
  unfolding sandbox_ok_def
proof (intro conjI allI impI)
  show "tree_ok fs'" by fact
  show "map_of fs' sb = Some FDir" "''..'' \<notin> set sb" using assms(1,3) by (auto simp: sandbox_ok_def)
next
  fix q ab t
  assume q: "prefix q sb \<or> prefix sb q"
  show "map_of fs' q \<noteq> Some (FLink ab t)"
  proof (cases "strict_prefix sb q")
    case True
    then obtain r where "q = sb @ r" "r \<noteq> []" by (auto simp: strict_prefix_def prefix_def)
    then show ?thesis using assms(4) by (simp add: sandbox_view_def)
  next
    case False
    then have "map_of fs' q = map_of fs q" by (rule assms(3))
    then show ?thesis using assms(1) q unfolding sandbox_ok_def by metis
  qed
qed

lemma view_no_link: "sandbox_ok fs sb \<Longrightarrow> sandbox_view fs sb r \<noteq> Some (FLink ab t)"
  unfolding sandbox_ok_def sandbox_view_def by (meson prefixI)

text \<open>One node below the sandbox is set or removed.\<close>

lemma view_upd: "sandbox_view (dset (sb @ r) n fs) sb = (sandbox_view fs sb)(r \<mapsto> n)"
  by (auto simp: sandbox_view_def)

lemma view_del: "sandbox_view (ddel (sb @ r) fs) sb = (sandbox_view fs sb)(r := None)"
  by (auto simp: sandbox_view_def map_of_ddel)

lemma below: "r \<noteq> [] \<Longrightarrow> strict_prefix sb (sb @ r)"
  by (simp add: strict_prefix_def)

lemma refines_put:
  assumes ok: "sandbox_ok fs sb" and r: "r \<noteq> []" "''..'' \<notin> set r" and n: "\<not> is_FLink n"
    and parent: "map_of fs (butlast (sb @ r)) = Some FDir" and nd: "map_of fs (sb @ r) \<noteq> Some FDir"
  shows "sandbox_ok (dset (sb @ r) n fs) sb"
proof (rule sandbox_ok_change [OF ok])
  show "tree_ok (dset (sb @ r) n fs)" using sandbox_okD [OF ok] parent nd r by (intro tree_ok_put) auto
  show "map_of (dset (sb @ r) n fs) q = map_of fs q" if "\<not> strict_prefix sb q" for q
    using that below [OF r(1)] by auto
  show "sandbox_view (dset (sb @ r) n fs) sb p \<noteq> Some (FLink ab t)" for p ab t
    using n view_no_link [OF ok] by (auto simp: view_upd)
qed

lemma refines_delete:
  assumes ok: "sandbox_ok fs sb" and r: "r \<noteq> []" "''..'' \<notin> set r"
  shows "refines fs sb (delete_target fs raw (sb @ r))
     (Inr (case sandbox_view fs sb r of None \<Rightarrow> (sandbox_view fs sb, True) | Some FDir \<Rightarrow> (sandbox_view fs sb, False)
           | Some _ \<Rightarrow> ((sandbox_view fs sb)(r := None), True)))"
proof -
  let ?t = "sb @ r"
  have lf: "link_free fs ?t" using sandbox_link_free [OF ok r(2)] .
  have node: "node_at fs ?t = sandbox_view fs sb r" using lf by (simp add: node_at_plain sandbox_view_def)
  have e: "entry_path fs ?t = ?t" using lf by (intro entry_path_plain link_free_butlast)
  have del: "sandbox_ok (ddel ?t fs) sb" if "sandbox_view fs sb r \<noteq> Some FDir"
  proof (rule sandbox_ok_change [OF ok])
    show "tree_ok (ddel ?t fs)" using sandbox_okD(1) [OF ok] that by (intro tree_ok_remove) (auto simp: sandbox_view_def)
    show "map_of (ddel ?t fs) q = map_of fs q" if "\<not> strict_prefix sb q" for q
      using that below [OF r(1)] by (auto simp: map_of_ddel)
    show "sandbox_view (ddel ?t fs) sb p \<noteq> Some (FLink ab x)" for p ab x
      using view_no_link [OF ok] by (auto simp: view_del)
  qed
  have same: "map_of (ddel ?t fs) q = map_of fs q" if "\<not> strict_prefix sb q" for q
    using that below [OF r(1)] by (auto simp: map_of_ddel)
  show ?thesis
    using ok del same
    by (auto simp: delete_target_def exists_at_def node unlink_file_def e view_del refines_def split: option.split fnode.split)
qed

lemma write_plain:
  assumes ok: "sandbox_ok fs sb" and r: "r \<noteq> []" "''..'' \<notin> set r"
    and parent: "map_of fs (butlast (sb @ r)) = Some FDir" and nd: "map_of fs (sb @ r) \<noteq> Some FDir"
  shows "put_text fs (sb @ r) f = Some (dset (sb @ r) (f (map_of fs (sb @ r))) fs)"
proof -
  have "realpath fs (sb @ r) = sb @ r" using sandbox_link_free [OF ok r(2)] by (rule realpath_plain)
  then show ?thesis using parent nd view_no_link [OF ok, of r]
    by (auto simp: put_text_def Let_def sandbox_view_def split: option.split fnode.split)
qed

lemma view_parent:
  assumes ok: "sandbox_ok fs sb" and r: "r \<noteq> []" and "sandbox_view fs sb r \<noteq> None"
  shows "map_of fs (butlast (sb @ r)) = Some FDir"
  using assms tree_ok_parent [OF sandbox_okD(1) [OF ok], of "sb @ r"] by (auto simp: sandbox_view_def)

lemma refines_replace:
  assumes ok: "sandbox_ok fs sb" and r: "r \<noteq> []" "''..'' \<notin> set r"
  shows "refines fs sb (replace_in_target fs op (sb @ r))
     (case sandbox_view fs sb r of
        Some (FText s) \<Rightarrow>
          (let text = universal_newlines s
           in Inr (if infix_of (po_old_text op) text
                   then ((sandbox_view fs sb)(r \<mapsto> FText (str_replace (po_old_text op) (po_new_text op) text)), True)
                   else (sandbox_view fs sb, False)))
      | Some (FBytes _) \<Rightarrow> Inl (PyOtherError ''UnicodeDecodeError'')
      | _ \<Rightarrow> Inr (sandbox_view fs sb, False))"
proof -
  let ?t = "sb @ r"
  have node: "node_at fs ?t = sandbox_view fs sb r"
    using sandbox_link_free [OF ok r(2)] by (simp add: node_at_plain sandbox_view_def)
  show ?thesis
  proof (cases "sandbox_view fs sb r")
    case None
    then show ?thesis using ok by (simp add: replace_in_target_def node refines_same)
  next
    case (Some n)
    show ?thesis
    proof (cases n)
      case (FText s)
      let ?new = "FText (str_replace (po_old_text op) (po_new_text op) (universal_newlines s))"
      have p: "map_of fs (butlast ?t) = Some FDir" using Some by (intro view_parent [OF ok r(1)]) simp
      have nd: "map_of fs ?t \<noteq> Some FDir" using Some FText by (simp add: sandbox_view_def)
      have w: "write_text fs ?t (str_replace (po_old_text op) (po_new_text op) (universal_newlines s)) = Some (dset ?t ?new fs)"
        unfolding write_text_def by (rule write_plain [OF ok r p nd])
      have "sandbox_ok (dset ?t ?new fs) sb" using ok r p nd by (intro refines_put) auto
      moreover have "map_of (dset ?t ?new fs) q = map_of fs q" if "\<not> strict_prefix sb q" for q
        using that below [OF r(1)] by auto
      ultimately show ?thesis using Some FText ok
        by (simp add: replace_in_target_def node Let_def done_or_def w refines_def view_upd)
    qed (use Some ok view_no_link [OF ok, of r] in \<open>auto simp: replace_in_target_def node refines_def\<close>)
  qed
qed

text \<open>The parents of a target are made exactly when no file is in the way, and inside the sandbox only.\<close>

lemma below_or_on_way:
  assumes ok: "sandbox_ok fs sb"
  shows "(\<forall>q. prefix q (sb @ p) \<longrightarrow> map_of fs q \<in> {None, Some FDir}) \<longleftrightarrow> way_free (sandbox_view fs sb) p"
proof -
  have "map_of fs q = Some FDir" if "prefix q sb" for q
    using that sandbox_okD(2) [OF ok] tree_ok_prefix [OF sandbox_okD(1) [OF ok], of sb q]
    by (cases "q = sb") (auto simp: strict_prefix_def)
  then have "(\<forall>q. prefix q (sb @ p) \<longrightarrow> map_of fs q \<in> {None, Some FDir}) \<longleftrightarrow>
      (\<forall>q. prefix q p \<longrightarrow> map_of fs (sb @ q) \<in> {None, Some FDir})"
    by (auto simp: prefix_append)
  then show ?thesis by (simp add: way_free_iff sandbox_view_def)
qed

lemma mkdirs_sandbox:
  assumes ok: "sandbox_ok fs sb" and p: "''..'' \<notin> set p"
  shows "mkdirs fs [] (sb @ p) = None \<longleftrightarrow> \<not> way_free (sandbox_view fs sb) p"
    and "mkdirs fs [] (sb @ p) = Some fs1 \<Longrightarrow> sandbox_ok fs1 sb \<and> sandbox_view fs1 sb = fill_dirs (sandbox_view fs sb) p \<and>
           map_of fs1 (sb @ p) = Some FDir \<and> (\<forall>q. \<not> strict_prefix sb q \<longrightarrow> map_of fs1 q = map_of fs q)"
proof -
  have lf: "link_free fs ([] @ sb @ p)" using sandbox_link_free [OF ok p] by simp
  have t: "tree_ok fs" "map_of fs [] = Some FDir" using sandbox_okD(1) [OF ok] by (simp_all add: tree_ok_root)
  show "mkdirs fs [] (sb @ p) = None \<longleftrightarrow> \<not> way_free (sandbox_view fs sb) p"
    using mkdirs_None_iff [OF lf t, unfolded append_Nil] below_or_on_way [OF ok, of p] by argo
  assume "mkdirs fs [] (sb @ p) = Some fs1"
  then have m: "tree_ok fs1 \<and> map_of fs1 = with_dirs fs (sb @ p) \<and> map_of fs1 (sb @ p) = Some FDir"
    using mkdirs_plain [OF lf t, unfolded append_Nil] by blast
  have on: "map_of fs q \<noteq> None" if "prefix q sb" for q
    using that sandbox_okD(2) [OF ok] tree_ok_prefix [OF sandbox_okD(1) [OF ok], of sb q]
    by (cases "q = sb") (auto simp: strict_prefix_def)
  have same: "map_of fs1 q = map_of fs q" if "\<not> strict_prefix sb q" for q
    using m on that by (auto simp: with_dirs_def prefix_append strict_prefix_def)
  have view: "sandbox_view fs1 sb = fill_dirs (sandbox_view fs sb) p"
    using m by (auto simp: sandbox_view_def with_dirs_def fill_dirs_def)
  have "sandbox_ok fs1 sb"
    using view_no_link [OF ok] m same by (intro sandbox_ok_change [OF ok]) (auto simp: view fill_dirs_def)
  then show "sandbox_ok fs1 sb \<and> sandbox_view fs1 sb = fill_dirs (sandbox_view fs sb) p \<and>
      map_of fs1 (sb @ p) = Some FDir \<and> (\<forall>q. \<not> strict_prefix sb q \<longrightarrow> map_of fs1 q = map_of fs q)"
    using m view same by blast
qed

text \<open>Nothing is made on the way to an existing entry.\<close>

lemma fill_existing:
  assumes ok: "sandbox_ok fs sb" and "sandbox_view fs sb r \<noteq> None"
  shows "fill_dirs (sandbox_view fs sb) (butlast r) = sandbox_view fs sb"
proof -
  have "\<not> (sandbox_view fs sb q = None \<and> prefix q (butlast r))" for q
    using tree_ok_absent [OF sandbox_okD(1) [OF ok], of "sb @ q" "sb @ r"] assms(2)
    by (metis prefix_order.trans prefixeq_butlast same_prefix_prefix sandbox_view_def)
  then have "fill_dirs (sandbox_view fs sb) (butlast r) q = sandbox_view fs sb q" for q
    unfolding fill_dirs_def by (rule if_not_P)
  then show ?thesis by (rule ext)
qed

lemma refines_write:
  assumes ok: "sandbox_ok fs sb" and r: "r \<noteq> []" "''..'' \<notin> set r" and nl: "\<And>old. \<not> is_FLink (f old)"
  shows "refines fs sb
     (case mkdirs fs [] (butlast (sb @ r)) of None \<Rightarrow> Inr (fs, False, OS_ERROR)
      | Some fs1 \<Rightarrow> done_or fs1 (put_text fs1 (sb @ r) f) msg)
     (Inr (if \<not> way_free (sandbox_view fs sb) (butlast r) \<or> sandbox_view fs sb r = Some FDir then (sandbox_view fs sb, False)
           else ((fill_dirs (sandbox_view fs sb) (butlast r))(r \<mapsto> f (sandbox_view fs sb r)), True)))"
proof -
  have bl: "butlast (sb @ r) = sb @ butlast r" using r(1) by (simp add: butlast_append)
  have dots: "''..'' \<notin> set (butlast r)" using r(2) by (auto dest: in_set_butlastD)
  note made = mkdirs_sandbox [OF ok dots]
  show ?thesis
  proof (cases "mkdirs fs [] (butlast (sb @ r))")
    case None
    then have "\<not> way_free (sandbox_view fs sb) (butlast r)" using made(1) by (simp add: bl)
    then show ?thesis using None ok by (simp add: refines_same)
  next
    case (Some fs1)
    then have free: "way_free (sandbox_view fs sb) (butlast r)" using made(1) by (simp add: bl)
    have m: "sandbox_ok fs1 sb" "sandbox_view fs1 sb = fill_dirs (sandbox_view fs sb) (butlast r)"
        "map_of fs1 (butlast (sb @ r)) = Some FDir" "\<forall>q. \<not> strict_prefix sb q \<longrightarrow> map_of fs1 q = map_of fs q"
      using made(2) Some by (simp_all add: bl)
    have "\<not> prefix r (butlast r)" using r(1) prefix_length_le [of r "butlast r"] by (cases r) auto
    then have node: "sandbox_view fs1 sb r = sandbox_view fs sb r" by (simp add: m(2) fill_dirs_def)
    show ?thesis
    proof (cases "sandbox_view fs sb r = Some FDir")
      case True
      have "put_text fs1 (sb @ r) f = None"
        using True node sandbox_link_free [OF m(1) r(2)] by (simp add: put_text_def realpath_plain sandbox_view_def)
      moreover have "sandbox_view fs1 sb = sandbox_view fs sb" using fill_existing [OF ok, of r] True m(2) by simp
      ultimately show ?thesis using True Some m(1,4) by (simp add: done_or_def refines_def)
    next
      case False
      have nd: "map_of fs1 (sb @ r) \<noteq> Some FDir" using False node by (simp add: sandbox_view_def)
      have w: "put_text fs1 (sb @ r) f = Some (dset (sb @ r) (f (sandbox_view fs sb r)) fs1)"
        using write_plain [OF m(1) r m(3) nd] node by (simp add: sandbox_view_def)
      have "sandbox_ok (dset (sb @ r) (f (sandbox_view fs sb r)) fs1) sb"
        using m(1,3) r nl nd by (intro refines_put) auto
      moreover have "map_of (dset (sb @ r) n fs1) q = map_of fs q" if "\<not> strict_prefix sb q" for q n
        using that below [OF r(1)] m(4) by auto
      ultimately show ?thesis using False Some free by (simp add: w done_or_def refines_def view_upd m(2))
    qed
  qed
qed

lemma operation_refines:
  assumes ok: "sandbox_ok fs sb" and sb: "sb \<noteq> []" and pre: "preflight_path fs px (po_path op) = None"
  shows "refines fs sb (apply_operation px sb op fs) (op_spec op (sandbox_view fs sb))"
proof -
  let ?r = "path_parts (po_path op)"
  have scope: "patch_scope_error (po_path op) (px_scope px) = None"
      "\<not> source_path_uses_symlink fs (px_source_root px) (po_path op)"
    using pre by (auto simp: preflight_path_def split: option.splits if_splits)
  then have safe: "\<not> unsafe_path (po_path op)" by (auto simp: patch_scope_error_def)
  show ?thesis
  proof (cases "?r = []")
    case True
    then show ?thesis using guard_plain(1) [OF ok safe True sb] scope ok
      by (simp add: apply_operation_def op_spec_def Let_def refines_same)
  next
    case False
    note g = guard_plain(2,3) [OF ok safe False]
    note dots = safe_parts [OF safe]
    let ?ends = "\<lambda>f. if \<not> way_free (sandbox_view fs sb) (butlast ?r) \<or> sandbox_view fs sb ?r = Some FDir
      then (sandbox_view fs sb, False)
      else ((fill_dirs (sandbox_view fs sb) (butlast ?r))(?r \<mapsto> f (sandbox_view fs sb ?r)), True)"
    consider "po_operation op = ''delete''" | "po_operation op = ''replace''" | "po_operation op = ''write''"
      | "po_operation op = ''append''" | "po_operation op \<notin> {''delete'', ''replace'', ''write'', ''append''}" by auto
    then show ?thesis
    proof cases
      case 1
      then show ?thesis using refines_delete [OF ok False dots] scope g False
        by (simp add: apply_operation_def op_spec_def Let_def)
    next
      case 2
      then show ?thesis using refines_replace [OF ok False dots, of op] scope g False
        by (simp add: apply_operation_def op_spec_def Let_def)
    next
      case 3
      have a: "apply_operation px sb op fs =
          (case mkdirs fs [] (butlast (sb @ ?r)) of None \<Rightarrow> Inr (fs, False, OS_ERROR)
           | Some fs1 \<Rightarrow> done_or fs1 (put_text fs1 (sb @ ?r) (\<lambda>_. FText (po_content op))) ''written'')"
        using 3 scope g by (simp add: apply_operation_def Let_def write_text_def split: option.split)
      have b: "op_spec op (sandbox_view fs sb) = Inr (?ends (\<lambda>_. FText (po_content op)))"
        using 3 False by (simp add: op_spec_def Let_def)
      show ?thesis unfolding a b by (rule refines_write [OF ok False dots]) simp
    next
      case 4
      have nl: "\<not> is_FLink (grow (po_content op) old)" for old by (simp add: grow_def split: option.split fnode.split)
      have a: "apply_operation px sb op fs =
          (case mkdirs fs [] (butlast (sb @ ?r)) of None \<Rightarrow> Inr (fs, False, OS_ERROR)
           | Some fs1 \<Rightarrow> done_or fs1 (put_text fs1 (sb @ ?r) (grow (po_content op))) ''appended'')"
        using 4 scope g by (simp add: apply_operation_def Let_def append_text_def grow_def [abs_def] split: option.split)
      have b: "op_spec op (sandbox_view fs sb) = Inr (?ends (grow (po_content op)))"
        using 4 False by (simp add: op_spec_def Let_def)
      show ?thesis unfolding a b by (rule refines_write [OF ok False dots nl])
    next
      case 5
      then show ?thesis using scope g False ok by (simp add: apply_operation_def op_spec_def Let_def refines_same)
    qed
  qed
qed

section \<open>A whole patch\<close>

fun op_specs :: "patch_op list \<Rightarrow> (fpath \<rightharpoonup> fnode) \<Rightarrow> pyexn + ((fpath \<rightharpoonup> fnode) \<times> string list \<times> string list)" where
  "op_specs [] v = Inr (v, [], [])"
| "op_specs (op # ops) v =
     sbind (op_spec op v) (\<lambda>(v1, ok).
     sbind (op_specs ops v1) (\<lambda>(v2, applied, failed).
       Inr (v2, if ok then po_path op # applied else applied, if ok then failed else po_path op # failed)))"

lemma links_same_outside:
  assumes "sandbox_ok fs sb" "sandbox_ok fs' sb" "\<And>q. \<not> strict_prefix sb q \<Longrightarrow> map_of fs' q = map_of fs q"
  shows "links_same fs fs'"
  unfolding links_same_def
proof (intro allI)
  fix q ab t
  show "map_of fs q = Some (FLink ab t) \<longleftrightarrow> map_of fs' q = Some (FLink ab t)"
  proof (cases "strict_prefix sb q")
    case True
    then have "prefix sb q" by (simp add: strict_prefix_def)
    then show ?thesis using assms(1,2) unfolding sandbox_ok_def by metis
  next
    case False
    then show ?thesis using assms(3) by simp
  qed
qed

lemma link_free_same: "links_same fs fs' \<Longrightarrow> link_free fs p \<Longrightarrow> link_free fs' p"
  by (auto simp: links_same_def link_free_def)

definition patch_refines ::
  "ftree \<Rightarrow> fpath \<Rightarrow> pyexn + (ftree \<times> string list \<times> string list \<times> string list) \<Rightarrow>
   pyexn + ((fpath \<rightharpoonup> fnode) \<times> string list \<times> string list) \<Rightarrow> bool" where
  "patch_refines fs sb res spec \<longleftrightarrow>
     (case spec of
        Inl e \<Rightarrow> res = Inl e
      | Inr (v, applied, failed) \<Rightarrow> \<exists>fs' diags. res = Inr (fs', applied, failed, diags) \<and> sandbox_view fs' sb = v \<and>
          sandbox_ok fs' sb \<and> (\<forall>q. \<not> strict_prefix sb q \<longrightarrow> map_of fs' q = map_of fs q))"

lemma operations_refine:
  assumes "sandbox_ok fs sb" "sb \<noteq> []" "link_free fs (px_source_root px)"
    "\<forall>op \<in> set ops. preflight_path fs px (po_path op) = None"
  shows "patch_refines fs sb (apply_operations px sb ops fs) (op_specs ops (sandbox_view fs sb))"
  using assms
proof (induction ops arbitrary: fs)
  case Nil
  then show ?case by (simp add: patch_refines_def)
next
  case (Cons op ops)
  have one: "refines fs sb (apply_operation px sb op fs) (op_spec op (sandbox_view fs sb))"
    using Cons.prems by (intro operation_refines) auto
  show ?case
  proof (cases "op_spec op (sandbox_view fs sb)")
    case (Inl e)
    then show ?thesis using one by (simp add: refines_def patch_refines_def)
  next
    case (Inr vo)
    then obtain v1 ok where vo: "vo = (v1, ok)" by force
    then obtain fs1 m where step: "apply_operation px sb op fs = Inr (fs1, ok, m)" "sandbox_view fs1 sb = v1"
        "sandbox_ok fs1 sb" "\<forall>q. \<not> strict_prefix sb q \<longrightarrow> map_of fs1 q = map_of fs q"
      using one Inr by (auto simp: refines_def)
    have same: "links_same fs fs1" using Cons.prems(1) step(3,4) by (intro links_same_outside) auto
    have "preflight_path fs1 px raw = preflight_path fs px raw" for raw
      using same Cons.prems(1,3) step(3) by (intro source_check_same) (simp_all add: sandbox_okD)
    then have ih: "patch_refines fs1 sb (apply_operations px sb ops fs1) (op_specs ops v1)"
      using Cons.IH [OF step(3) Cons.prems(2) link_free_same [OF same Cons.prems(3)]] Cons.prems(4) step(2) by simp
    show ?thesis
    proof (cases "op_specs ops v1")
      case (Inl e)
      then show ?thesis using ih Inr vo step(1) by (simp add: patch_refines_def)
    next
      fix vaf
      assume r: "op_specs ops v1 = Inr vaf"
      obtain v2 a f where "vaf = (v2, a, f)" by (cases vaf) auto
      then show ?thesis using ih r Inr vo step(1,4) by (auto simp: patch_refines_def)
    qed
  qed
qed

section \<open>The copy is a sandbox\<close>

lemma remove_tree_map: "map_of (remove_tree fs p) q = (if prefix p q then None else map_of fs q)"
  by (induction fs) (auto simp: remove_tree_def)

lemma tree_ok_remove_tree:
  assumes "tree_ok fs" "p \<noteq> []"
  shows "tree_ok (remove_tree fs p)"
proof (rule tree_ok_intro)
  show "distinct (map fst (remove_tree fs p))"
    using tree_ok_distinct [OF assms(1)] by (simp add: remove_tree_def distinct_map_filter)
  show "map_of (remove_tree fs p) [] = Some FDir" using assms tree_ok_root by (simp add: remove_tree_map)
  show "''..'' \<notin> set q" if "map_of (remove_tree fs p) q = Some n" for q n
    using that assms(1) by (auto simp: remove_tree_map split: if_splits dest: tree_ok_dots)
next
  fix q n
  assume "map_of (remove_tree fs p) q = Some n" "q \<noteq> []"
  then have "\<not> prefix p q" "map_of fs (butlast q) = Some FDir"
    using assms(1) by (auto simp: remove_tree_map split: if_splits intro: tree_ok_parent)
  moreover have "\<not> prefix p (butlast q)" using \<open>\<not> prefix p q\<close> prefix_order.trans prefixeq_butlast by blast
  ultimately show "map_of (remove_tree fs p) (butlast q) = Some FDir" by (simp add: remove_tree_map)
qed

lemma copied_closed: "copied fs px (p @ [c]) \<Longrightarrow> p \<noteq> px_source_root px \<Longrightarrow> copied fs px p"
  by (auto simp: copied_def strict_prefix_def list_all_iff prefix_snoc)

lemma copied_plain:
  assumes "link_free fs (px_source_root px)" "tree_ok fs" "copied fs px p" "map_of fs p = Some n"
  shows "\<not> is_FLink n"
proof -
  have "link_free fs p"
    if "copied fs px p" "map_of fs p \<noteq> None" for p
    using that
  proof (induction p rule: rev_induct)
    case Nil
    then show ?case by (simp add: copied_def)
  next
    case (snoc c p)
    have lf: "link_free fs p"
    proof (cases "p = px_source_root px")
      case True
      then show ?thesis using assms(1) by simp
    next
      case False
      moreover have "map_of fs p = Some FDir"
        using snoc.prems(2) tree_ok_parent [OF assms(2), of "p @ [c]"] by auto
      ultimately show ?thesis using snoc copied_closed by auto
    qed
    have "\<not> copy_ignored fs (px_source_root px) (p @ [c])"
      using snoc.prems(1) prefix_length_less [of "px_source_root px" "p @ [c]"]
      by (auto simp: copied_def list_all_iff dest: bspec [of _ _ "Suc (length p)"])
    then have "\<not> is_symlink fs (p @ [c])" by (auto simp: copy_ignored_def Let_def)
    then have "map_of fs (p @ [c]) \<noteq> Some (FLink ab t)" for ab t
      using lf by (auto simp: is_symlink_def entry_path_plain)
    moreover have "c \<noteq> ''..''" using snoc.prems(2) tree_ok_dots [OF assms(2), of "p @ [c]"] by auto
    ultimately show ?case using lf by (intro link_free_snoc) auto
  qed
  then have "link_free fs p" using assms(3,4) by auto
  then show ?thesis using assms(4) by (auto simp: link_free_def is_FLink_def)
qed

text \<open>The copied part of a tree, under its new name.\<close>

definition copies :: "ftree \<Rightarrow> patch_sandbox \<Rightarrow> fpath \<Rightarrow> ftree" where
  "copies fs px target =
     map (\<lambda>(p, n). (target @ drop (length (px_source_root px)) p, n)) (filter (\<lambda>(p, n). copied fs px p) fs)"

lemma option_ext: "(\<And>n. x = Some n \<longleftrightarrow> y = Some n) \<Longrightarrow> x = y"
  by (cases x; cases y) auto

lemma copied_below: "copied fs px p \<Longrightarrow> \<exists>r. r \<noteq> [] \<and> p = px_source_root px @ r"
  by (auto simp: copied_def strict_prefix_def prefix_def)

lemma copies_distinct:
  assumes "distinct (map fst fs)"
  shows "distinct (map fst (copies fs px target))"
proof -
  let ?f = "\<lambda>p. target @ drop (length (px_source_root px)) p"
  have "inj_on ?f {p. copied fs px p}" by (auto simp: inj_on_def dest!: copied_below)
  moreover have "distinct (map fst (filter (\<lambda>(p, n). copied fs px p) fs))" using assms by (rule distinct_map_filter)
  ultimately have "distinct (map ?f (map fst (filter (\<lambda>(p, n). copied fs px p) fs)))"
    unfolding distinct_map [of _ "map fst _"] by (auto intro: inj_on_subset)
  then show ?thesis by (simp add: copies_def comp_def case_prod_unfold)
qed

lemma copies_mem:
  "(q, n) \<in> set (copies fs px target) \<longleftrightarrow>
     strict_prefix target q \<and> copied fs px (px_source_root px @ drop (length target) q) \<and>
     (px_source_root px @ drop (length target) q, n) \<in> set fs" (is "?l \<longleftrightarrow> ?r")
proof
  let ?src = "px_source_root px"
  assume ?l
  then obtain p where p: "(p, n) \<in> set fs" "copied fs px p" "q = target @ drop (length ?src) p" by (auto simp: copies_def)
  then obtain r where "r \<noteq> []" "p = ?src @ r" using copied_below by blast
  then show ?r using p by (simp add: strict_prefix_def)
next
  let ?src = "px_source_root px"
  assume a: ?r
  then obtain r where "q = target @ r" by (auto simp: strict_prefix_def prefix_def)
  then show ?l using a unfolding copies_def by (auto intro!: image_eqI [of _ _ "(?src @ r, n)"])
qed

lemma copies_map:
  assumes d: "distinct (map fst fs)"
  shows "map_of (copies fs px target) q =
    (if strict_prefix target q \<and> copied fs px (px_source_root px @ drop (length target) q)
     then map_of fs (px_source_root px @ drop (length target) q) else None)"
  by (rule option_ext)
    (auto simp: map_of_eq_Some_iff [OF copies_distinct [OF d]] map_of_eq_Some_iff [OF d] copies_mem)

text \<open>The copy grafted onto a tree with an empty directory at the target.\<close>

lemma graft_map:
  assumes "distinct (map fst c)" "\<And>q. strict_prefix sb q \<Longrightarrow> map_of made q = None"
  shows "map_of (made @ copies c px sb) q =
    (if strict_prefix sb q
     then (let p = px_source_root px @ drop (length sb) q in if copied c px p then map_of c p else None) else map_of made q)"
  using assms by (auto simp: map_add_def copies_map Let_def split: option.split)

lemma graft_tree_ok:
  assumes tm: "tree_ok made" and tc: "tree_ok c" and dir: "map_of made sb = Some FDir"
    and empty: "\<And>q. strict_prefix sb q \<Longrightarrow> map_of made q = None"
  shows "tree_ok (made @ copies c px sb)"
proof (rule tree_ok_intro)
  have all: "map_of (made @ copies c px sb) q = (if strict_prefix sb q
      then (let p = px_source_root px @ drop (length sb) q in if copied c px p then map_of c p else None) else map_of made q)" for q
    by (rule graft_map [OF tree_ok_distinct [OF tc] empty])
  have "map_of made q = None" if "q \<in> set (map fst (copies c px sb))" for q
    using that empty by (auto simp: copies_mem)
  then have "set (map fst made) \<inter> set (map fst (copies c px sb)) = {}" by (auto simp: map_of_eq_None_iff image_iff)
  then show "distinct (map fst (made @ copies c px sb))"
    using tree_ok_distinct [OF tm] copies_distinct [OF tree_ok_distinct [OF tc]] by simp
  show "map_of (made @ copies c px sb) [] = Some FDir" unfolding all using tree_ok_root [OF tm] by simp
  fix q n
  assume q: "map_of (made @ copies c px sb) q = Some n"
  show "''..'' \<notin> set q"
  proof (cases "strict_prefix sb q")
    case True
    then obtain r where r: "q = sb @ r" by (auto simp: strict_prefix_def prefix_def)
    then have "map_of c (px_source_root px @ r) = Some n"
      using q [unfolded all] True by (simp add: Let_def split: if_splits)
    then have "''..'' \<notin> set r" using tree_ok_dots [OF tc] by (metis Un_iff set_append)
    then show ?thesis using tree_ok_dots [OF tm dir] r by simp
  next
    case False
    then show ?thesis using q tree_ok_dots [OF tm, of q n] unfolding all by simp
  qed
  assume ne: "q \<noteq> []"
  show "map_of (made @ copies c px sb) (butlast q) = Some FDir"
  proof (cases "strict_prefix sb q")
    case False
    then have "\<not> strict_prefix sb (butlast q)"
      by (meson prefix_order.dual_order.strict_trans1 prefix_order.less_le_trans prefixeq_butlast)
    then show ?thesis using False q ne tree_ok_parent [OF tm] unfolding all by simp
  next
    case True
    then obtain r where r: "q = sb @ r" "r \<noteq> []" by (auto simp: strict_prefix_def prefix_def)
    then have bq: "butlast q = sb @ butlast r" by (simp add: butlast_append)
    let ?p = "px_source_root px @ r"
    have p: "copied c px ?p" "map_of c ?p = Some n"
      using q True r unfolding all by (simp_all add: Let_def split: if_splits)
    have bp: "butlast ?p = px_source_root px @ butlast r" using r by (simp add: butlast_append)
    have cl: "butlast r \<noteq> [] \<Longrightarrow> copied c px (px_source_root px @ butlast r)"
      using copied_closed [of c px "px_source_root px @ butlast r" "last r"] p(1) r(2) by simp
    have "map_of c (px_source_root px @ butlast r) = Some FDir"
      using tree_ok_parent [OF tc p(2)] r(2) by (simp add: butlast_append)
    then show ?thesis unfolding bq all using cl dir by (cases "butlast r = []") (simp_all add: below Let_def)
  qed
qed

lemma target_plain:
  assumes "tree_ok fs" "link_free fs (px_sandbox_root px)" "candidate_target fs px cid = Inr target"
  shows "target = px_sandbox_root px @ [cid] \<and> link_free fs target \<and> \<not> prefix target (px_source_root px)"
proof -
  have t: "target = px_sandbox_root px @ [cid]" "cid \<noteq> ''..''" "\<not> is_symlink fs target"
    "\<not> prefix (realpath fs target) (px_source_root px)"
    using assms(3) by (auto simp: candidate_target_def Let_def split: if_splits)
  have "map_of fs target \<noteq> Some (FLink ab x)" for ab x
    using t(1,3) assms(2) by (auto simp: is_symlink_def entry_path_plain)
  then have lf: "link_free fs target" unfolding t(1) using assms(2) t(2) by (intro link_free_snoc) auto
  then show ?thesis using t by (simp add: realpath_plain)
qed

lemma prepared:
  assumes tree: "tree_ok fs" and src: "link_free fs (px_source_root px)" and base: "link_free fs (px_sandbox_root px)"
    and res: "prepare_sandbox fs px cid = Inr (fs0, sb)"
  shows "sb = px_sandbox_root px @ [cid]" "sandbox_ok fs0 sb"
    and "\<not> prefix sb q \<Longrightarrow> map_of fs0 q = (if map_of fs q = None \<and> prefix q sb then Some FDir else map_of fs q)"
    and "r \<noteq> [] \<Longrightarrow> map_of fs0 (sb @ r) =
           (let p = px_source_root px @ r
            in if copied (remove_tree fs sb) px p then map_of (remove_tree fs sb) p else None)"
proof -
  obtain made where ct: "candidate_target fs px cid = Inr sb" and mk: "mkdirs (remove_tree fs sb) [] sb = Some made"
    and fs0: "fs0 = made @ copies (remove_tree fs sb) px sb"
    using res by (auto simp: prepare_sandbox_def Let_def copies_def sbind_Inr_iff split: if_splits option.splits)
  let ?c = "remove_tree fs sb"
  show sb: "sb = px_sandbox_root px @ [cid]" using target_plain [OF tree base ct] by simp
  have lf: "link_free ?c ([] @ sb)" using target_plain [OF tree base ct] by (auto simp: link_free_def remove_tree_map)
  have tc: "tree_ok ?c" using tree sb by (intro tree_ok_remove_tree) auto
  have tm: "tree_ok made" and m: "map_of made = with_dirs ?c sb" and dir: "map_of made sb = Some FDir"
    using mkdirs_plain [OF lf tc tree_ok_root [OF tc] mk, unfolded append_Nil] by blast+
  have empty: "map_of made q = None" if "strict_prefix sb q" for q
    using m that by (auto simp: with_dirs_def remove_tree_map strict_prefix_def dest: prefix_order.antisym)
  have all: "map_of fs0 q = (if strict_prefix sb q
      then (let p = px_source_root px @ drop (length sb) q in if copied ?c px p then map_of ?c p else None) else map_of made q)" for q
    unfolding fs0 by (rule graft_map [OF tree_ok_distinct [OF tc] empty])
  show "map_of fs0 q = (if map_of fs q = None \<and> prefix q sb then Some FDir else map_of fs q)" if "\<not> prefix sb q" for q
    unfolding all m using that by (auto simp: strict_prefix_def with_dirs_def remove_tree_map)
  show inside: "map_of fs0 (sb @ r) = (let p = px_source_root px @ r in if copied ?c px p then map_of ?c p else None)"
    if "r \<noteq> []" for r
    using that unfolding all by (simp add: below Let_def)
  have lc: "link_free ?c (px_source_root px)" using src by (auto simp: link_free_def remove_tree_map)
  have nolink: "map_of fs0 q \<noteq> Some (FLink ab t)" if "prefix q sb \<or> prefix sb q" for q ab t
  proof (cases "strict_prefix sb q")
    case True
    then obtain r where r: "q = sb @ r" "r \<noteq> []" by (auto simp: strict_prefix_def prefix_def)
    then show ?thesis using copied_plain [OF lc tc, of "px_source_root px @ r"] by (auto simp: inside Let_def)
  next
    case False
    then have "prefix q sb" using that by (auto simp: strict_prefix_def)
    then show ?thesis using lf m False unfolding all by (auto simp: with_dirs_def link_free_def)
  qed
  have "tree_ok fs0" unfolding fs0 by (rule graft_tree_ok [OF tm tc dir empty])
  moreover have "map_of fs0 sb = Some FDir" unfolding all using dir by simp
  moreover have "''..'' \<notin> set sb" using lf by (simp add: link_free_def)
  ultimately show "sandbox_ok fs0 sb" unfolding sandbox_ok_def using nolink by blast
qed

section \<open>Theorems\<close>

text \<open>Refused or not, an operation changes nothing outside the sandbox and leaves it a sandbox.\<close>

lemma operation_confined:
  assumes ok: "sandbox_ok fs sb" "sb \<noteq> []" and res: "apply_operation px sb op fs = Inr (fs', done, m)"
  shows "sandbox_ok fs' sb \<and> (\<forall>q. \<not> strict_prefix sb q \<longrightarrow> map_of fs' q = map_of fs q)"
proof (cases "preflight_path fs px (po_path op)")
  case None
  then have "refines fs sb (Inr (fs', done, m)) (op_spec op (sandbox_view fs sb))"
    using operation_refines [OF ok] res by metis
  then show ?thesis by (auto simp: refines_def split: sum.splits)
next
  case (Some e)
  then have "fs' = fs" using res by (auto simp: apply_operation_def preflight_path_def Let_def split: option.splits if_splits)
  then show ?thesis using ok by simp
qed

lemma operations_confined:
  assumes "sandbox_ok fs sb" "sb \<noteq> []" "apply_operations px sb ops fs = Inr (fs', a, f, d)"
  shows "sandbox_ok fs' sb \<and> (\<forall>q. \<not> strict_prefix sb q \<longrightarrow> map_of fs' q = map_of fs q)"
  using assms
proof (induction ops arbitrary: fs a f d)
  case (Cons op ops)
  obtain fs1 k m a' f' d' where one: "apply_operation px sb op fs = Inr (fs1, k, m)"
    and rest: "apply_operations px sb ops fs1 = Inr (fs', a', f', d')"
    using Cons.prems(3) by (auto simp: sbind_Inr_iff)
  note c = operation_confined [OF Cons.prems(1,2) one]
  then show ?case using Cons.IH [OF _ Cons.prems(2) rest] by auto
qed simp

text \<open>The documented behaviour of the tool: it changes only files below its working directory.\<close>

definition tool_confined :: "patch_tool \<Rightarrow> bool" where
  "tool_confined tool \<longleftrightarrow>
     (\<forall>sb level txt0 fs q. \<not> strict_prefix sb q \<longrightarrow> map_of (fst (tool sb level txt0 fs)) q = map_of fs q)"

lemma diff_tree:
  "fst (apply_unified_patch tool px sb diff fs) = fs \<or>
   (\<exists>level txt0. fst (apply_unified_patch tool px sb diff fs) = fst (tool sb level txt0 fs))"
proof -
  obtain txt0 ns where r: "repair_diff diff = (txt0, ns)" by force
  obtain ok diags where pf: "preflight_diff txt0 = (ok, diags)" by force
  obtain fs' run where t: "tool sb (strip_level txt0) txt0 fs = (fs', run)" by force
  show ?thesis
  proof (cases "\<not> ok \<or> diff_paths (strip_level txt0) txt0 = [] \<or>
      List.map_filter (diff_path_error fs px sb) (diff_paths (strip_level txt0) txt0) \<noteq> []")
    case True
    then have "fst (apply_unified_patch tool px sb diff fs) = fs"
      unfolding apply_unified_patch_def r by (auto simp: Let_def pf split: list.splits)
    then show ?thesis by blast
  next
    case False
    then have "fst (apply_unified_patch tool px sb diff fs) = fst (tool sb (strip_level txt0) txt0 fs)"
      unfolding apply_unified_patch_def r by (cases run) (auto simp: Let_def pf t)
    then show ?thesis by blast
  qed
qed

lemma diff_confined:
  assumes "tool_confined tool" "\<not> strict_prefix sb q"
  shows "map_of (fst (apply_unified_patch tool px sb diff fs)) q = map_of fs q"
proof -
  have "map_of (fst (tool sb level txt0 fs)) q = map_of fs q" for level txt0
    using assms by (simp add: tool_confined_def)
  then show ?thesis using diff_tree [of tool px sb diff fs] by auto
qed

lemma candidate_result:
  assumes "apply_candidate sha h tool now px cid patch_set artifact fs = Inr (fs', res)"
  shows "fs' = fs \<or> (\<exists>fs0 sb fs1 a f d. prepare_sandbox fs px cid = Inr (fs0, sb) \<and>
           apply_operations px sb patch_set fs0 = Inr (fs1, a, f, d) \<and>
           (fs' = fs1 \<or> patch_set = [] \<and> generic_patch_text artifact \<noteq> [] \<and>
              fs' = fst (apply_unified_patch tool px sb (generic_patch_text artifact) fs1)))"
proof -
  obtain bad bad_files where pf: "preflight_candidate fs px patch_set artifact = (bad, bad_files)" by force
  show ?thesis
  proof (cases "bad = []")
    case False
    then show ?thesis using assms unfolding apply_candidate_def pf by (auto simp: sbind_Inr_iff)
  next
    case True
    then show ?thesis using assms unfolding apply_candidate_def pf
      by (auto simp: sbind_Inr_iff Let_def case_prod_unfold split: if_splits)
  qed
qed

lemma candidate_confined:
  assumes "tree_ok fs" "link_free fs (px_source_root px)" "link_free fs (px_sandbox_root px)"
    "patch_set \<noteq> [] \<or> generic_patch_text artifact = [] \<or> tool_confined tool"
    "apply_candidate sha h tool now px cid patch_set artifact fs = Inr (fs', res)"
    "\<not> prefix (px_sandbox_root px @ [cid]) q"
  shows "map_of fs' q = map_of fs q \<or> (map_of fs q = None \<and> prefix q (px_sandbox_root px) \<and> map_of fs' q = Some FDir)"
  using candidate_result [OF assms(5)]
proof (elim disjE exE conjE)
  fix fs0 sb fs1 a f d
  assume p0: "prepare_sandbox fs px cid = Inr (fs0, sb)" and ops: "apply_operations px sb patch_set fs0 = Inr (fs1, a, f, d)"
  note p = prepared [OF assms(1-3) p0]
  have out: "\<not> strict_prefix sb q" using assms(6) by (auto simp: p(1) strict_prefix_def)
  have "map_of fs1 q = map_of fs0 q"
    using operations_confined [OF p(2) _ ops] out by (auto simp: p(1))
  moreover have "map_of fs0 q = (if map_of fs q = None \<and> prefix q sb then Some FDir else map_of fs q)"
    using assms(6) by (intro p(3)) (simp add: p(1))
  moreover have "prefix q sb \<Longrightarrow> prefix q (px_sandbox_root px)" using assms(6) by (auto simp: p(1) prefix_snoc)
  ultimately have one: "map_of fs1 q = map_of fs q \<or>
      (map_of fs q = None \<and> prefix q (px_sandbox_root px) \<and> map_of fs1 q = Some FDir)" by auto
  { assume "fs' = fs1"
    then show ?thesis using one by simp }
  { assume "patch_set = []" "generic_patch_text artifact \<noteq> []"
      and f: "fs' = fst (apply_unified_patch tool px sb (generic_patch_text artifact) fs1)"
    then have "tool_confined tool" using assms(4) by simp
    then show ?thesis using one diff_confined [OF _ out] f by simp }
qed simp

lemma copy_clean:
  assumes "tree_ok fs" "link_free fs (px_source_root px)" "link_free fs (px_sandbox_root px)"
    "prepare_sandbox fs px cid = Inr (fs0, sb)" "r \<noteq> []" "map_of fs0 (sb @ r) = Some n"
  shows "map_of fs (px_source_root px @ r) = Some n \<and> \<not> is_FLink n \<and> set r \<inter> set IGNORE_DIRS = {} \<and>
     last r \<notin> set SANDBOX_SENSITIVE_NAMES \<and> lower (path_suffix (last r)) \<notin> set GENERATED_SUFFIXES \<and>
     (\<forall>pat \<in> set SANDBOX_SENSITIVE_PATTERNS. \<not> fnmatch pat (last r) \<and> \<not> fnmatch pat (as_posix r))"
proof -
  note p = prepared [OF assms(1-4)]
  let ?p = "px_source_root px @ r" and ?c = "remove_tree fs sb"
  have c: "copied ?c px ?p" "map_of ?c ?p = Some n"
    using p(4) [OF assms(5)] assms(6) by (auto simp: Let_def split: if_splits)
  have "n \<noteq> FLink ab t" for ab t
    using p(2) assms(6) by (metis prefixI sandbox_ok_def)
  then have nl: "\<not> is_FLink n" by (auto simp: is_FLink_def)
  have src: "map_of fs ?p = Some n" using c(2) by (simp add: remove_tree_map split: if_splits)
  have "Suc (length (px_source_root px)) \<le> length ?p" using assms(5) by (cases r) auto
  then have "\<not> copy_ignored ?c (px_source_root px) (take (length ?p) ?p)"
    using c(1) unfolding copied_def list_all_iff by auto
  then show ?thesis using assms(5) src nl by (auto simp: copy_ignored_def Let_def list_ex_iff)
qed

definition demo_tree :: ftree where
  "demo_tree =
     [([], FDir), ([''src''], FDir), ([''src'', ''a''], FText ''one''), ([''src'', ''.env''], FText ''key''),
      ([''src'', ''b''], FBytes ''x''), ([''src'', ''l''], FLink True [''etc'']), ([''etc''], FDir), ([''box''], FDir)]"

definition demo_px :: patch_sandbox where
  "demo_px = \<lparr> px_source_root = [''src''], px_sandbox_root = [''box''], px_scope = [] \<rparr>"

definition demo_op :: "string \<Rightarrow> string \<Rightarrow> patch_op" where
  "demo_op kind path = \<lparr> po_path = path, po_operation = kind, po_content = ''new'', po_old_text = ''one'',
     po_new_text = ''two'', po_metadata = [] \<rparr>"

lemma demo_tree_ok: "tree_ok demo_tree"
  by (rule tree_ok_intro) (auto simp: demo_tree_def split: if_splits)

lemma demo_link_free: "link_free demo_tree (px_source_root demo_px)" "link_free demo_tree (px_sandbox_root demo_px)"
  by (auto simp: link_free_def demo_tree_def demo_px_def prefix_Cons)

abbreviation demo_apply :: "patch_op list \<Rightarrow> pyexn + (ftree \<times> patch_result)" where
  "demo_apply ops \<equiv> apply_candidate (\<lambda>n. case n of FText s \<Rightarrow> s | _ \<Rightarrow> []) py_str (\<lambda>_ _ _ fs. (fs, ToolMissing)) []
     demo_px ''c'' ops PNone demo_tree"

text \<open>
  C14: A candidate changes nothing outside its own directory of the sandbox root, except that missing directories above it
  are made: whatever the paths, contents and kinds of its operations, whatever its diff declares, and whatever links the
  source tree has. For a diff this relies on the tool, which works below its directory.
\<close>

theorem sandbox_confined:
  assumes "tree_ok fs" "link_free fs (px_source_root px)" "link_free fs (px_sandbox_root px)"
    "patch_set \<noteq> [] \<or> generic_patch_text artifact = [] \<or> tool_confined tool"
    "apply_candidate sha h tool now px cid patch_set artifact fs = Inr (fs', res)"
    "\<not> prefix (px_sandbox_root px @ [cid]) q"
  shows "map_of fs' q = map_of fs q \<or> (map_of fs q = None \<and> prefix q (px_sandbox_root px) \<and> map_of fs' q = Some FDir)"
  using assms by (rule candidate_confined)

lemma demo_applied:
  "case demo_apply [demo_op ''write'' ''d/n'', demo_op ''replace'' ''a''] of
     Inr (fs', res) \<Rightarrow> pr_status res = ''applied'' \<and> map_of fs' [''box'', ''c'', ''a''] = Some (FText ''two'') \<and>
       map_of fs' [''box'', ''c'', ''.env''] = None \<and> map_of fs' [''box'', ''c'', ''l''] = None
   | Inl _ \<Rightarrow> False"
  "case demo_apply [demo_op ''delete'' ''d/../../src/a''] of Inr (_, res) \<Rightarrow> pr_status res = ''failed'' | Inl _ \<Rightarrow> False"
  by code_simp+

lemma demo_prepared:
  "case prepare_sandbox demo_tree demo_px ''c'' of
     Inr (fs0, sb) \<Rightarrow> sb = [''box'', ''c''] \<and> map_of fs0 [''box'', ''c'', ''a''] = Some (FText ''one'') \<and>
       map_of fs0 [''src''] = Some FDir \<and> preflight_path fs0 demo_px ''d/n'' = None
   | Inl _ \<Rightarrow> False"
  by code_simp

lemma demo_prepared_ex:
  "\<exists>fs0. prepare_sandbox demo_tree demo_px ''c'' = Inr (fs0, [''box'', ''c'']) \<and>
     map_of fs0 [''box'', ''c'', ''a''] = Some (FText ''one'') \<and> map_of fs0 [''src''] = Some FDir \<and>
     preflight_path fs0 demo_px ''d/n'' = None"
  using demo_prepared by (auto split: sum.splits)

theorem sandbox_confined_witness:
  "\<exists>fs' res. demo_apply [demo_op ''write'' ''d/n'', demo_op ''replace'' ''a''] = Inr (fs', res) \<and>
     map_of fs' [''src'', ''a''] = Some (FText ''one'')"
proof -
  obtain fs' res where r: "demo_apply [demo_op ''write'' ''d/n'', demo_op ''replace'' ''a''] = Inr (fs', res)"
    using demo_applied(1) by (auto split: sum.splits)
  have "\<not> prefix (px_sandbox_root demo_px @ [''c'']) [''src'', ''a'']" by (simp add: demo_px_def)
  then have "map_of fs' [''src'', ''a''] = Some (FText ''one'')"
    using sandbox_confined [OF demo_tree_ok demo_link_free _ r, of "[''src'', ''a'']"] by (auto simp: demo_tree_def)
  then show ?thesis using r by blast
qed

text \<open>
  C16: the copy a candidate works on holds the files and directories of the source, unchanged, and no link, no ignored or
  generated file, and no file whose name or relative path is one of the sensitive ones.
\<close>

theorem sandbox_copy_clean:
  assumes "tree_ok fs" "link_free fs (px_source_root px)" "link_free fs (px_sandbox_root px)"
    "prepare_sandbox fs px cid = Inr (fs0, sb)" "r \<noteq> []" "map_of fs0 (sb @ r) = Some n"
  shows "map_of fs (px_source_root px @ r) = Some n \<and> \<not> is_FLink n \<and> set r \<inter> set IGNORE_DIRS = {} \<and>
     last r \<notin> set SANDBOX_SENSITIVE_NAMES \<and> lower (path_suffix (last r)) \<notin> set GENERATED_SUFFIXES \<and>
     (\<forall>pat \<in> set SANDBOX_SENSITIVE_PATTERNS. \<not> fnmatch pat (last r) \<and> \<not> fnmatch pat (as_posix r))"
  using assms by (rule copy_clean)

theorem sandbox_copy_clean_witness:
  "\<exists>fs0 sb. prepare_sandbox demo_tree demo_px ''c'' = Inr (fs0, sb) \<and> map_of fs0 (sb @ [''a'']) = Some (FText ''one'') \<and>
     map_of demo_tree (px_source_root demo_px @ [''a'']) = Some (FText ''one'')"
proof -
  obtain fs0 sb where p: "prepare_sandbox demo_tree demo_px ''c'' = Inr (fs0, sb)"
    and a: "map_of fs0 (sb @ [''a'']) = Some (FText ''one'')"
    using demo_prepared_ex by auto
  show ?thesis using sandbox_copy_clean [OF demo_tree_ok demo_link_free p _ a] p a by blast
qed

text \<open>
  C15: the loop over the operations, with its path resolution, guards and file calls, refines the specification of the
  operations on a plain map of the sandbox: same tree, same applied and failed paths, same exception.
\<close>

theorem sandbox_refines:
  assumes "sandbox_ok fs sb" "sb \<noteq> []" "link_free fs (px_source_root px)"
    "\<forall>op \<in> set ops. preflight_path fs px (po_path op) = None"
  shows "patch_refines fs sb (apply_operations px sb ops fs) (op_specs ops (sandbox_view fs sb))"
  using assms by (rule operations_refine)

theorem sandbox_refines_witness:
  "\<exists>fs0 sb. prepare_sandbox demo_tree demo_px ''c'' = Inr (fs0, sb) \<and>
     patch_refines fs0 sb (apply_operations demo_px sb [demo_op ''write'' ''d/n''] fs0)
       (op_specs [demo_op ''write'' ''d/n''] (sandbox_view fs0 sb))"
proof -
  obtain fs0 where p: "prepare_sandbox demo_tree demo_px ''c'' = Inr (fs0, [''box'', ''c''])"
    and f: "preflight_path fs0 demo_px ''d/n'' = None" and d: "map_of fs0 [''src''] = Some FDir"
    using demo_prepared_ex by blast
  note ok = prepared(2) [OF demo_tree_ok demo_link_free p]
  have "map_of fs0 [] = Some FDir" by (rule tree_ok_root [OF sandbox_okD(1) [OF ok]])
  then have "link_free fs0 (px_source_root demo_px)" using d by (auto simp: link_free_def demo_px_def prefix_Cons)
  then have "patch_refines fs0 [''box'', ''c''] (apply_operations demo_px [''box'', ''c''] [demo_op ''write'' ''d/n''] fs0)
      (op_specs [demo_op ''write'' ''d/n''] (sandbox_view fs0 [''box'', ''c'']))"
    using f by (intro sandbox_refines [OF ok]) (auto simp: demo_op_def)
  then show ?thesis using p by blast
qed

text \<open>Replacing in a file that is not UTF-8 raises out of the application instead of failing the operation.\<close>

lemma undecodable_file_raises:
  assumes "sandbox_ok fs sb" "sb \<noteq> []" "preflight_path fs px (po_path op) = None" "po_operation op = ''replace''"
    "sandbox_view fs sb (path_parts (po_path op)) = Some (FBytes b)"
  shows "apply_operation px sb op fs = Inl (PyOtherError ''UnicodeDecodeError'')"
proof -
  have "path_parts (po_path op) \<noteq> []" using assms(1,5) by (auto simp: sandbox_view_def sandbox_ok_def)
  then show ?thesis using operation_refines [OF assms(1-3)] assms(4,5) by (simp add: refines_def op_spec_def)
qed

lemma undecodable_file_escapes: "demo_apply [demo_op ''replace'' ''b''] = Inl (PyOtherError ''UnicodeDecodeError'')"
  by code_simp

text \<open>A replacement also turns the line ends of the whole file into line feeds.\<close>

lemma replace_changes_line_ends:
  "op_spec (demo_op ''replace'' ''a'') [[''a''] \<mapsto> FText (''one'' @ [CHR 13, CHR 10] @ ''x'' @ [CHR 13, CHR 10])] =
     Inr ([[''a''] \<mapsto> FText (''two'' @ [CHR 10] @ ''x'' @ [CHR 10])], True)"
  by (simp add: op_spec_def demo_op_def path_parts_def str_replace_def)

text \<open>The guard asks whether the target exists, which a dangling link does not: it alone would let a write out.\<close>

lemma dangling_link_escapes:
  "apply_operation demo_px [''box''] (demo_op ''write'' ''x'')
     [([], FDir), ([''src''], FDir), ([''etc''], FDir), ([''box''], FDir), ([''box'', ''x''], FLink True [''etc'', ''x''])] =
   Inr ([([], FDir), ([''src''], FDir), ([''etc''], FDir), ([''box''], FDir), ([''box'', ''x''], FLink True [''etc'', ''x'']),
         ([''etc'', ''x''], FText ''new'')], True, ''written'')"
  by code_simp

section \<open>The guards of a unified diff\<close>

lemma map_filter_Nil: "List.map_filter f xs = [] \<longleftrightarrow> (\<forall>x \<in> set xs. f x = None)"
  by (induction xs) (auto simp: map_filter_simps split: option.splits)

text \<open>
  When a diff has been applied, the tool ran once, on the sandbox and the repaired text, and every file that the
  reader of the diff declares is in the scope, has no link of the source on its way and is a safe target in the sandbox.
\<close>

theorem diff_guarded:
  assumes "apply_unified_patch tool px sb diff fs = (fs', True, m, names)"
  shows "names = diff_paths (strip_level (fst (repair_diff diff))) (fst (repair_diff diff)) \<and> names \<noteq> [] \<and>
     fs' = fst (tool sb (strip_level (fst (repair_diff diff))) (fst (repair_diff diff)) fs) \<and>
     (\<forall>p \<in> set names. patch_scope_error p (px_scope px) = None \<and> \<not> source_path_uses_symlink fs (px_source_root px) p \<and>
        (\<exists>t. safe_patch_target fs sb p False = Target fs t))"
proof -
  obtain txt0 ns where r: "repair_diff diff = (txt0, ns)" by force
  obtain ok diags where pf: "preflight_diff txt0 = (ok, diags)" by force
  obtain fs1 run where t: "tool sb (strip_level txt0) txt0 fs = (fs1, run)" by force
  let ?names = "diff_paths (strip_level txt0) txt0"
  have g: "ok" "?names \<noteq> []" "List.map_filter (diff_path_error fs px sb) ?names = []" "fs' = fs1" "names = ?names"
    using assms unfolding apply_unified_patch_def r by (auto simp: Let_def pf t split: if_splits list.splits tool_run.splits)
  have "patch_scope_error p (px_scope px) = None \<and> \<not> source_path_uses_symlink fs (px_source_root px) p \<and>
      (\<exists>t. safe_patch_target fs sb p False = Target fs t)" if "p \<in> set ?names" for p
  proof -
    have "diff_path_error fs px sb p = None" using g(3) that by (simp add: map_filter_Nil)
    then show ?thesis
      by (auto simp: diff_path_error_def preflight_path_def safe_patch_target_def Let_def
               split: option.splits if_splits guard_result.splits)
  qed
  then show ?thesis using g t r by simp
qed

definition demo_patch_text :: string where
  "demo_patch_text = render_diff [demo_diff]"

definition demo_tool :: patch_tool where
  "demo_tool sb level t fs = (dset (sb @ [''d'']) FDir (dset (sb @ [''d'', ''x.c'']) (FText ''new'') fs), ToolExit 0 [])"

lemma demo_diff_applied:
  "case apply_unified_patch demo_tool demo_px [''box''] demo_patch_text demo_tree of
     (fs', ok, m, names) \<Rightarrow> ok \<and> names = [''d/x.c'']"
  by code_simp

theorem diff_guarded_witness:
  "\<exists>fs' m. apply_unified_patch demo_tool demo_px [''box''] demo_patch_text demo_tree = (fs', True, m, [''d/x.c'']) \<and>
     patch_scope_error ''d/x.c'' (px_scope demo_px) = None"
proof -
  obtain fs' m where a: "apply_unified_patch demo_tool demo_px [''box''] demo_patch_text demo_tree = (fs', True, m, [''d/x.c''])"
    using demo_diff_applied by (auto split: prod.splits)
  from diff_guarded [OF a] show ?thesis using a by auto
qed

text \<open>
  A header with a dot component is not declared at all: a diff that also names a file out of the scope in this way
  passes every guard, and the tool gets the whole text.
\<close>

definition dotted_text :: string where
  "dotted_text = concat (map (\<lambda>l. l @ [newline])
     [''--- docs/x'', ''+++ docs/x'', ''@@ -1 +1 @@'', ''-a'', ''+b'', ''--- ./src/a'', ''+++ ./src/a'', ''@@ -1 +1 @@'', ''-one'', ''+two''])"

lemma dotted_header_not_guarded:
  "diff_paths (strip_level dotted_text) dotted_text = [''docs/x'']" "preflight_diff dotted_text = (True, [])"
  "patch_scope_error ''./src/a'' [''docs/*''] \<noteq> None"
  "case apply_unified_patch (\<lambda>_ _ t fs. (fs, ToolExit (if t = dotted_text then 0 else 1) []))
      (demo_px\<lparr> px_scope := [''docs/*''] \<rparr>) [''box''] dotted_text demo_tree of (_, ok, _, names) \<Rightarrow> ok \<and> names = [''docs/x'']"
  by code_simp+

end
