(* ===== verification/PatchMerge.thy ===== *)
theory PatchMerge
  imports PatchSandbox
begin

text \<open>
  candidates/patch_merge.py: the merge of two patches with its conflicts, what a clean merge means for each operation,
  and that applying it has the effect of applying both patches. Two metadata objects are the same when they have
  the same keys with the same values.
\<close>

section \<open>The merge\<close>

record merge_conflict =
  mc_path :: string
  mc_reason :: string
  mc_left :: pydict
  mc_right :: pydict

definition merge_conflict_to_dict :: "merge_conflict \<Rightarrow> pydict" where
  "merge_conflict_to_dict c =
     [(''path'', PStr (mc_path c)), (''reason'', PStr (mc_reason c)), (''left_operation'', PDict (mc_left c)),
      (''right_operation'', PDict (mc_right c))]"

record merge_result =
  mr_patch_set :: "patch_op list"
  mr_conflicts :: "merge_conflict list"

definition merge_clean :: "merge_result \<Rightarrow> bool" where
  "merge_clean r \<longleftrightarrow> mr_conflicts r = []"

definition merge_result_to_dict :: "merge_result \<Rightarrow> pydict" where
  "merge_result_to_dict r =
     [(''patch_set'', PList (map (PDict \<circ> patch_op_to_dict) (mr_patch_set r))),
      (''conflicts'', PList (map (PDict \<circ> merge_conflict_to_dict) (mr_conflicts r))),
      (''clean'', PBool (merge_clean r))]"

definition same_dict :: "pydict \<Rightarrow> pydict \<Rightarrow> bool" where
  "same_dict d e \<longleftrightarrow> list_all (\<lambda>k. map_of d k = map_of e k) (map fst d @ map fst e)"

definition same_operation :: "patch_op \<Rightarrow> patch_op \<Rightarrow> bool" where
  "same_operation a b \<longleftrightarrow>
     po_path a = po_path b \<and> po_operation a = po_operation b \<and> po_content a = po_content b \<and>
     po_old_text a = po_old_text b \<and> po_new_text a = po_new_text b \<and> same_dict (po_metadata a) (po_metadata b)"

definition compatible :: "patch_op \<Rightarrow> patch_op \<Rightarrow> bool" where
  "compatible existing incoming \<longleftrightarrow>
     (if same_operation existing incoming then True
      else if po_operation existing = ''append'' \<and> po_operation incoming = ''append'' then True
      else if po_operation existing = ''delete'' \<or> po_operation incoming = ''delete'' then False
      else po_operation existing = ''replace'' \<and> po_operation incoming = ''replace'' \<and>
           po_old_text existing \<noteq> po_old_text incoming)"

definition conflict_of :: "patch_op \<Rightarrow> patch_op \<Rightarrow> merge_conflict" where
  "conflict_of existing op =
     \<lparr> mc_path = po_path op, mc_reason = ''same_path_incompatible_patch_operations'',
       mc_left = patch_op_to_dict existing, mc_right = patch_op_to_dict op \<rparr>"

text \<open>The loop; \<open>by_path\<close> keeps the first operation of every path.\<close>

fun merge_from :: "(string \<times> patch_op) list \<Rightarrow> patch_op list \<Rightarrow> patch_op list \<times> merge_conflict list" where
  "merge_from by_path [] = ([], [])"
| "merge_from by_path (op # ops) =
     (case map_of by_path (po_path op) of
        None \<Rightarrow> (case merge_from (dset (po_path op) op by_path) ops of (m, c) \<Rightarrow> (op # m, c))
      | Some existing \<Rightarrow>
          (case merge_from by_path ops of
             (m, c) \<Rightarrow>
               (if compatible existing op then
                  (if po_operation existing = ''append'' \<and> po_operation op = ''append'' then (op # m, c)
                   else if same_operation existing op then (m, c)
                   else (op # m, c))
                else (m, conflict_of existing op # c))))"

definition merge_patch_sets :: "patch_op list \<Rightarrow> patch_op list \<Rightarrow> merge_result" where
  "merge_patch_sets left right =
     (case merge_from [] (left @ right) of (m, c) \<Rightarrow> \<lparr> mr_patch_set = m, mr_conflicts = c \<rparr>)"

section \<open>What a clean merge means\<close>

text \<open>The first operation on the path of an operation, among those before it.\<close>

definition first_on_path :: "patch_op list \<Rightarrow> string \<Rightarrow> patch_op option" where
  "first_on_path ops p = find (\<lambda>op. po_path op = p) ops"

lemma same_dict_refl [simp]: "same_dict d d"
  by (simp add: same_dict_def list_all_iff)

lemma same_operation_refl [simp]: "same_operation a a"
  by (simp add: same_operation_def)

lemma first_on_path_snoc:
  "first_on_path (ops @ [op]) p =
     (case first_on_path ops p of Some f \<Rightarrow> Some f | None \<Rightarrow> if po_path op = p then Some op else None)"
  unfolding first_on_path_def by (induction ops) auto

text \<open>An operation that agrees with the first one on its path.\<close>

definition admitted :: "patch_op list \<Rightarrow> patch_op \<Rightarrow> bool" where
  "admitted before op = (case first_on_path before (po_path op) of None \<Rightarrow> True | Some f \<Rightarrow> compatible f op)"

text \<open>The table of the loop is the first operation of each path met so far.\<close>

lemma merge_from_conflicts:
  assumes "\<And>p. map_of by_path p = first_on_path done p"
  shows "snd (merge_from by_path ops) = [] \<longleftrightarrow> (\<forall>n < length ops. admitted (done @ take n ops) (ops ! n))"
  using assms
proof (induction ops arbitrary: by_path "done")
  case (Cons op ops)
  have split: "(\<forall>n < length (op # ops). admitted (done @ take n (op # ops)) ((op # ops) ! n)) \<longleftrightarrow>
      admitted done op \<and> (\<forall>n < length ops. admitted ((done @ [op]) @ take n ops) (ops ! n))"
    by (simp add: All_less_Suc2)
  show ?case
  proof (cases "map_of by_path (po_path op)")
    case None
    have "map_of (dset (po_path op) op by_path) p = first_on_path (done @ [op]) p" for p
      using Cons.prems None by (auto simp: first_on_path_snoc split: option.split)
    then show ?thesis unfolding split using Cons.IH [of "dset (po_path op) op by_path" "done @ [op]"] Cons.prems None
      by (simp add: case_prod_unfold admitted_def)
  next
    case (Some f)
    have "map_of by_path p = first_on_path (done @ [op]) p" for p
      using Cons.prems [of p] Cons.prems [of "po_path op"] Some by (auto simp: first_on_path_snoc split: option.split)
    then show ?thesis unfolding split using Cons.IH [of by_path "done @ [op]"] Cons.prems [of "po_path op"] Some
      by (simp add: case_prod_unfold admitted_def)
  qed
qed simp

text \<open>A view whose entries lie in directories.\<close>

definition view_ok :: "(fpath \<rightharpoonup> fnode) \<Rightarrow> bool" where
  "view_ok v \<longleftrightarrow> (\<forall>q p. v q \<noteq> None \<longrightarrow> strict_prefix p q \<longrightarrow> v p = Some FDir)"

lemma sandbox_view_ok:
  assumes "sandbox_ok fs sb"
  shows "view_ok (sandbox_view fs sb)"
  unfolding view_ok_def sandbox_view_def
  using tree_ok_prefix [OF sandbox_okD(1) [OF assms]] by (metis prefix_order.less_le same_prefix_prefix same_append_eq)

lemma view_ok_remove: "view_ok v \<Longrightarrow> v r \<noteq> Some FDir \<Longrightarrow> view_ok (v(r := None))"
  by (auto simp: view_ok_def)

lemma view_ok_replace: "view_ok v \<Longrightarrow> v r \<noteq> None \<Longrightarrow> v r \<noteq> Some FDir \<Longrightarrow> view_ok (v(r \<mapsto> n))"
  unfolding view_ok_def by (metis fun_upd_apply)

lemma strict_prefix_butlast: "strict_prefix p r \<longleftrightarrow> r \<noteq> [] \<and> prefix p (butlast r)"
proof (cases r rule: rev_cases)
  case (snoc r' c)
  then show ?thesis by (auto simp: strict_prefix_def prefix_snoc)
qed simp

lemma view_ok_write:
  assumes v: "view_ok v" and r: "r \<noteq> []" and free: "way_free v (butlast r)" and nd: "v r \<noteq> Some FDir"
  shows "view_ok ((fill_dirs v (butlast r))(r \<mapsto> n))"
  unfolding view_ok_def
proof (intro allI impI)
  fix q p
  assume q: "((fill_dirs v (butlast r))(r \<mapsto> n)) q \<noteq> None" and p: "strict_prefix p q"
  have on_way: "fill_dirs v (butlast r) p = Some FDir" if "prefix p (butlast r)" for p
    using free that by (auto simp: fill_dirs_def way_free_iff)
  show "((fill_dirs v (butlast r))(r \<mapsto> n)) p = Some FDir"
  proof (cases "prefix q r")
    case True
    then have "strict_prefix p r" using p by (meson prefix_order.less_le_trans)
    then have "prefix p (butlast r)" "p \<noteq> r" using strict_prefix_butlast [of p r] by auto
    then show ?thesis using on_way by simp
  next
    case False
    then have "v q \<noteq> None" using q by (auto simp: fill_dirs_def split: if_splits) (meson prefix_order.trans prefixeq_butlast)+
    then have "v p = Some FDir" using v p by (auto simp: view_ok_def)
    then show ?thesis using nd by (auto simp: fill_dirs_def)
  qed
qed

lemma op_spec_view_ok: "view_ok v \<Longrightarrow> op_spec op v = Inr (v', ok) \<Longrightarrow> view_ok v'"
  by (auto simp: op_spec_def Let_def split: if_splits option.splits fnode.splits
      intro: view_ok_remove view_ok_replace view_ok_write)

text \<open>A successful operation touches its own path and makes directories.\<close>

lemma op_spec_frame:
  assumes "op_spec op v = Inr (v', True)"
  shows "path_parts (po_path op) \<noteq> []"
    and "q \<noteq> path_parts (po_path op) \<Longrightarrow> v' q = v q \<or> (v q = None \<and> v' q = Some FDir)"
    and "po_operation op = ''write'' \<Longrightarrow> v' (path_parts (po_path op)) = Some (FText (po_content op))"
    and "po_operation op = ''delete'' \<Longrightarrow> v' (path_parts (po_path op)) = None"
    and "po_operation op \<in> {''write'', ''append'', ''replace'', ''delete''}"
  using assms by (auto simp: op_spec_def Let_def fill_dirs_def split: if_splits option.splits fnode.splits)

text \<open>What the first operation of a path has left there, whatever came after it on other paths.\<close>

definition settled :: "(fpath \<rightharpoonup> fnode) \<Rightarrow> patch_op \<Rightarrow> bool" where
  "settled v f \<longleftrightarrow>
     (po_operation f = ''write'' \<longrightarrow> v (path_parts (po_path f)) = Some (FText (po_content f))) \<and>
     (po_operation f = ''delete'' \<longrightarrow> v (path_parts (po_path f)) \<in> {None, Some FDir})"

lemma settled_frame:
  assumes "settled v f" "op_spec op v = Inr (v', True)" "path_parts (po_path f) \<noteq> path_parts (po_path op)"
  shows "settled v' f"
  using assms(1) op_spec_frame(2) [OF assms(2,3)] by (auto simp: settled_def)

lemma settled_again:
  assumes "settled v f" "view_ok v" "op_spec op v = Inr (v', True)" "same_operation f op"
    "po_operation op \<noteq> ''append''" "po_operation op \<noteq> ''replace''"
  shows "v' = v"
proof -
  let ?r = "path_parts (po_path op)"
  have eq: "po_operation f = po_operation op" "po_path f = po_path op" "po_content f = po_content op"
    using assms(4) by (auto simp: same_operation_def)
  have "po_operation op = ''write'' \<or> po_operation op = ''delete''"
    using op_spec_frame(5) [OF assms(3)] assms(5,6) by auto
  then show ?thesis
  proof
    assume w: "po_operation op = ''write''"
    then have c: "v ?r = Some (FText (po_content op))" using assms(1) eq by (simp add: settled_def)
    have "fill_dirs v (butlast ?r) q = v q" for q
    proof (cases "prefix q (butlast ?r)")
      case True
      then have "strict_prefix q ?r" using op_spec_frame(1) [OF assms(3)] by (simp add: strict_prefix_butlast)
      then have "v q = Some FDir" using assms(2) c unfolding view_ok_def by (metis option.distinct(1))
      then show ?thesis by (simp add: fill_dirs_def)
    qed (simp add: fill_dirs_def)
    then have "fill_dirs v (butlast ?r) = v" by (rule ext)
    then show ?thesis using assms(3) w c by (auto simp: op_spec_def Let_def split: if_splits)
  next
    assume d: "po_operation op = ''delete''"
    then have "v ?r \<in> {None, Some FDir}" using assms(1) eq by (simp add: settled_def)
    then show ?thesis using assms(3) d by (auto simp: op_spec_def Let_def split: if_splits)
  qed
qed

text \<open>Distinct texts that denote the same path would escape the merge, which compares texts.\<close>

definition plain_paths :: "string set \<Rightarrow> bool" where
  "plain_paths ps \<longleftrightarrow> inj_on path_parts ps"

lemma plain_paths_mono: "plain_paths qs \<Longrightarrow> ps \<subseteq> qs \<Longrightarrow> plain_paths ps"
  unfolding plain_paths_def by (rule inj_on_subset)

lemma merge_applies:
  assumes "\<And>p f. map_of by_path p = Some f \<Longrightarrow> po_path f = p \<and> settled v f"
    "plain_paths (fst ` set by_path \<union> po_path ` set ops)" "\<forall>op \<in> set ops. po_operation op \<noteq> ''replace''"
    "op_specs ops v = Inr (v', a, [])" "snd (merge_from by_path ops) = []" "view_ok v"
  shows "\<exists>a'. op_specs (fst (merge_from by_path ops)) v = Inr (v', a', [])"
  using assms
proof (induction ops arbitrary: by_path v a)
  case (Cons op ops)
  let ?p = "po_path op"
  obtain v1 a1 where one: "op_spec op v = Inr (v1, True)" and rest: "op_specs ops v1 = Inr (v', a1, [])"
    using Cons.prems(4) by (auto simp: sbind_Inr_iff split: if_splits)
  have ok1: "view_ok v1" using op_spec_view_ok [OF Cons.prems(6) one] .
  have frame: "settled v1 f" if "map_of by_path p = Some f" "p \<noteq> ?p" for p f
  proof -
    have f: "po_path f = p" "settled v f" using Cons.prems(1) [OF that(1)] by auto
    have "p \<in> fst ` set by_path" using that(1) map_of_SomeD by force
    then have "path_parts p = path_parts ?p \<Longrightarrow> p = ?p"
      by (intro inj_onD [OF Cons.prems(2) [unfolded plain_paths_def]]) simp_all
    then have "path_parts p \<noteq> path_parts ?p" using that(2) by blast
    then show ?thesis using settled_frame [OF f(2) one] f(1) by simp
  qed
  have noreplace: "\<forall>op \<in> set ops. po_operation op \<noteq> ''replace''" using Cons.prems(3) by simp
  show ?case
  proof (cases "map_of by_path ?p")
    case None
    let ?b = "dset ?p op by_path"
    have "po_path f = p \<and> settled v1 f" if "map_of ?b p = Some f" for p f
      using that frame Cons.prems(1) op_spec_frame(3,4) [OF one] by (auto simp: settled_def split: if_splits)
    moreover have "plain_paths (fst ` set ?b \<union> po_path ` set ops)"
    proof -
      have "fst ` set ?b = insert ?p (fst ` set by_path)" using dkeys_dset [of ?p op by_path] by (simp add: dkeys_def)
      then show ?thesis using Cons.prems(2) by (simp add: plain_paths_def)
    qed
    moreover have "snd (merge_from ?b ops) = []" using Cons.prems(5) None by (simp add: case_prod_unfold)
    ultimately obtain a' where "op_specs (fst (merge_from ?b ops)) v1 = Inr (v', a', [])"
      using Cons.IH [OF _ _ noreplace rest _ ok1] by blast
    then show ?thesis using None one by (simp add: case_prod_unfold)
  next
    case (Some f)
    have plain: "plain_paths (fst ` set by_path \<union> po_path ` set ops)"
      by (rule plain_paths_mono [OF Cons.prems(2)]) auto
    have comp: "compatible f op" and c: "snd (merge_from by_path ops) = []"
      using Cons.prems(5) Some by (auto simp: case_prod_unfold split: if_splits)
    show ?thesis
    proof (cases "po_operation f = ''append'' \<and> po_operation op = ''append''")
      case True
      have "po_path g = p \<and> settled v1 g" if "map_of by_path p = Some g" for p g
        using that frame [OF that] Cons.prems(1) [OF that] Some True by (cases "p = ?p") (auto simp: settled_def)
      then obtain a' where "op_specs (fst (merge_from by_path ops)) v1 = Inr (v', a', [])"
        using Cons.IH [OF _ plain noreplace rest c ok1] by blast
      then show ?thesis using Some one comp True by (simp add: case_prod_unfold)
    next
      case False
      then have same: "same_operation f op"
        using comp Cons.prems(3) by (auto simp: compatible_def split: if_splits)
      then have "po_operation op \<noteq> ''append''" using False by (auto simp: same_operation_def)
      then have "v1 = v"
        using settled_again [OF _ Cons.prems(6) one same] Cons.prems(1) [OF Some] Cons.prems(3) by auto
      then obtain a' where "op_specs (fst (merge_from by_path ops)) v = Inr (v', a', [])"
        using Cons.IH [OF Cons.prems(1) plain noreplace _ c Cons.prems(6)] rest by blast
      then show ?thesis using Some comp same False by (auto simp: case_prod_unfold)
    qed
  qed
qed simp

lemma merge_from_subset: "set (fst (merge_from by_path ops)) \<subseteq> set ops"
proof (induction ops arbitrary: by_path)
  case (Cons op ops)
  then show ?case by (auto simp: case_prod_unfold subset_iff split: option.splits if_splits)
qed simp

lemma merge_sound_fact:
  assumes "sandbox_ok fs sb" "sb \<noteq> []" "link_free fs (px_source_root px)"
    "\<forall>op \<in> set (left @ right). preflight_path fs px (po_path op) = None \<and> po_operation op \<noteq> ''replace''"
    "plain_paths (po_path ` set (left @ right))" "merge_clean (merge_patch_sets left right)"
    "apply_operations px sb (left @ right) fs = Inr (fs1, a, [], d)"
  shows "\<exists>fs2 a' d'. apply_operations px sb (mr_patch_set (merge_patch_sets left right)) fs = Inr (fs2, a', [], d') \<and>
     sandbox_view fs2 sb = sandbox_view fs1 sb"
proof -
  let ?ops = "left @ right"
  let ?m = "fst (merge_from [] ?ops)" and ?v = "sandbox_view fs sb"
  have m: "mr_patch_set (merge_patch_sets left right) = ?m" "snd (merge_from [] ?ops) = []"
    using assms(6) by (simp_all add: merge_patch_sets_def merge_clean_def case_prod_unfold)
  have "patch_refines fs sb (apply_operations px sb ?ops fs) (op_specs ?ops ?v)"
    using assms(4) by (intro operations_refine [OF assms(1-3)]) simp
  then have seq: "op_specs ?ops ?v = Inr (sandbox_view fs1 sb, a, [])"
    using assms(7) by (auto simp: patch_refines_def split: sum.splits)
  have "\<exists>a'. op_specs ?m ?v = Inr (sandbox_view fs1 sb, a', [])"
    using merge_applies [OF _ _ _ seq m(2) sandbox_view_ok [OF assms(1)]] assms(4,5) by simp
  then obtain a' where spec: "op_specs ?m ?v = Inr (sandbox_view fs1 sb, a', [])" by blast
  have "patch_refines fs sb (apply_operations px sb ?m fs) (op_specs ?m ?v)"
    using assms(4) merge_from_subset [of "[]" ?ops] by (intro operations_refine [OF assms(1-3)]) blast
  then show ?thesis using spec m(1) by (auto simp: patch_refines_def)
qed

text \<open>
  A merge is clean exactly when every operation agrees with the first one on its path: it is the same, both append,
  or both replace different texts.
\<close>

theorem merge_clean_iff:
  "merge_clean (merge_patch_sets left right) \<longleftrightarrow>
     (\<forall>n < length (left @ right). admitted (take n (left @ right)) ((left @ right) ! n))"
  using merge_from_conflicts [of "[]" "[]" "left @ right"]
  by (simp add: merge_patch_sets_def merge_clean_def case_prod_unfold first_on_path_def)


definition demo_box :: ftree where
  "demo_box = [([], FDir), ([''src''], FDir), ([''box''], FDir), ([''box'', ''a''], FText ''one'')]"

lemma demo_box_ok: "sandbox_ok demo_box [''box'']"
  unfolding sandbox_ok_def
proof (intro conjI)
  show "tree_ok demo_box" by (rule tree_ok_intro) (auto simp: demo_box_def split: if_splits)
qed (auto simp: demo_box_def)


text \<open>
  Conflicts the merge does not see: it compares only with the first operation of a path, and paths as texts.
\<close>

definition demo_replace :: "string \<Rightarrow> string \<Rightarrow> patch_op" where
  "demo_replace old new = \<lparr> po_path = ''a'', po_operation = ''replace'', po_content = [], po_old_text = old,
     po_new_text = new, po_metadata = [] \<rparr>"

lemma merge_misses_conflict:
  "merge_clean (merge_patch_sets [demo_replace ''o'' ''x'', demo_replace ''ne'' ''y''] [demo_replace ''ne'' ''z''])"
  "case apply_operations demo_px [''box'']
       (mr_patch_set (merge_patch_sets [demo_replace ''o'' ''x'', demo_replace ''ne'' ''y''] [demo_replace ''ne'' ''z''])) demo_box of
     Inr (_, _, failed, diags) \<Rightarrow> failed = [''a''] \<and> diags = [''old_text not found in a''] | Inl _ \<Rightarrow> False"
  by code_simp+

lemma merge_misses_alias: "merge_clean (merge_patch_sets [demo_op ''write'' ''a''] [demo_op ''delete'' ''./a''])"
  by code_simp

end
