(* ===== verification/QualityDiversity.thy ===== *)
theory QualityDiversity
  imports Evidence "HOL-Library.Multiset"
begin

text \<open>
  archives/quality_diversity.py: the qualities of a candidate, its bin, the entropy of a population, the Pareto
  frontier, the selection of survivors and the archive of elites. The behaviour descriptor and the descriptor cell
  of a candidate (nexus/search_kernel/descriptor_cells.py, which names a mechanism family through the whole search
  kernel) are the arguments \<open>descr\<close> and \<open>cell\<close>: what is proved holds for all of them. The entropy is a real number.
\<close>

section \<open>Scores and bins\<close>

definition axis_score :: "candidate \<Rightarrow> string \<Rightarrow> rat" where
  "axis_score c axis = (case map_of (cg_multihead_scores c) axis of Some q \<Rightarrow> bounded q | None \<Rightarrow> 0)"

definition FINAL_AXES :: "string list" where
  "FINAL_AXES = [''final_verification'', ''final_confidence'', ''objective_alignment'', ''answer_likelihood'',
     ''core_mechanism_strength'', ''verifiability'', ''tool_progress'', ''proof_progress'', ''evidence_progress'',
     ''robustness'']"

definition candidate_final_quality :: "candidate \<Rightarrow> rat" where
  "candidate_final_quality c =
     (if cg_multihead_scores c = [] then 0
      else sum_list (map (axis_score c) FINAL_AXES) / of_nat (max 1 (length FINAL_AXES)))"

definition candidate_quality :: "candidate \<Rightarrow> rat" where
  "candidate_quality c = candidate_final_quality c"

definition SEARCH_AXES :: "string list" where
  "SEARCH_AXES = [''frontier_score'', ''challenge_pass_rate'', ''challenge_resolution'', ''schema_cleanliness'',
     ''continuation_value'', ''novelty'', ''rarity'', ''repair_value'']"

definition candidate_search_quality :: "candidate \<Rightarrow> rat" where
  "candidate_search_quality c =
     (if cg_multihead_scores c = [] then candidate_final_quality c
      else sum_list (map (axis_score c) SEARCH_AXES) / of_nat (max 1 (length SEARCH_AXES)))"

text \<open>The words of a text, \<open>split()\<close>, and a part of a bin key.\<close>

fun words_from :: "string \<Rightarrow> string \<Rightarrow> string list" where
  "words_from acc [] = (if acc = [] then [] else [rev acc])"
| "words_from acc (c # s) =
     (if is_space c then (if acc = [] then words_from [] s else rev acc # words_from [] s) else words_from (c # acc) s)"

definition words :: "string \<Rightarrow> string list" where
  "words s = words_from [] s"

definition bin_token :: "string \<Rightarrow> string" where
  "bin_token s = str_or (join_with ''_'' (words (replace_char (CHR ''|'') (CHR '' '') (lower (strip s))))) ''general''"

definition candidate_bin_key :: "(candidate \<Rightarrow> string list) \<Rightarrow> candidate \<Rightarrow> string" where
  "candidate_bin_key descr c =
     (let d = descr c;
          primary = (if d \<noteq> [] then hd d else ''general'');
          shape = take 4 (tl d);
          evidence = (if cg_evidence_delta c \<noteq> [] \<or> cg_evidence_refs c \<noteq> [] \<or> cg_source_bindings c \<noteq> []
                      then ''evidence'' else ''proposal'');
          rare = (if cg_edge_knowledge_seeds c \<noteq> [] \<or>
                     (0 < axis_score c ''rarity'' \<and> axis_score c ''novelty'' \<le> axis_score c ''rarity'')
                  then ''rare'' else ''common'')
      in join_with ''|'' (map bin_token (filter (\<lambda>s. s \<noteq> []) ([primary] @ shape @ [evidence, rare]))))"

definition descriptor_cell_distribution :: "('c \<Rightarrow> string) \<Rightarrow> 'c list \<Rightarrow> (string \<times> nat) list" where
  "descriptor_cell_distribution bin cs =
     fold (\<lambda>c d. dset (bin c) ((case map_of d (bin c) of Some n \<Rightarrow> n | None \<Rightarrow> 0) + 1) d) cs []"

definition descriptor_population_entropy :: "('c \<Rightarrow> string) \<Rightarrow> 'c list \<Rightarrow> real" where
  "descriptor_population_entropy bin cs =
     (let counts = map snd (descriptor_cell_distribution bin cs); total = sum_list counts
      in if total = 0 then 0
         else fold (\<lambda>n e. let p = real n / real total in if p > 0 then e - p * log 2 p else e) counts 0)"

definition live_reproductive_candidates :: "candidate list \<Rightarrow> candidate list" where
  "live_reproductive_candidates cs =
     filter (\<lambda>c. normalize_fate (PStr (cg_current_fate c)) None \<in> set [''Active'', ''Elite'', ''Incubating'']) cs"

section \<open>The Pareto frontier\<close>

definition pareto_vector :: "int \<Rightarrow> candidate \<Rightarrow> rat list" where
  "pareto_vector max_axes c =
     (let axis_count = max 1 (min 3 (if max_axes = 0 then 3 else max_axes));
          solution = (axis_score c ''objective_alignment'' + axis_score c ''answer_likelihood'') / 2;
          evidence = max (axis_score c ''evidence_progress'') (max (axis_score c ''proof_progress'') (axis_score c ''tool_progress''));
          diversity = max (axis_score c ''novelty'') (max (axis_score c ''rarity'') (if cg_edge_knowledge_seeds c \<noteq> [] then 1 else 0))
      in take (nat axis_count) [evidence, solution, diversity])"

definition dominates :: "rat list \<Rightarrow> rat list \<Rightarrow> bool" where
  "dominates a b \<longleftrightarrow> list_all (\<lambda>(x, y). y \<le> x) (zip a b) \<and> list_ex (\<lambda>(x, y). y < x) (zip a b)"

text \<open>\<open>_pareto_vectors\<close>: one vector per identifier, of the last candidate that has it.\<close>

definition pareto_vectors :: "int \<Rightarrow> candidate list \<Rightarrow> (string \<times> rat list) list" where
  "pareto_vectors max_axes cs = fold (\<lambda>c d. dset (cg_id c) (pareto_vector max_axes c) d) cs []"

definition pareto_frontier_ids :: "int \<Rightarrow> candidate list \<Rightarrow> string list" where
  "pareto_frontier_ids max_axes cs =
     (let axes = pareto_vectors max_axes cs
      in map cg_id (filter (\<lambda>c.
           case map_of axes (cg_id c) of
             None \<Rightarrow> False
           | Some v \<Rightarrow> \<not> list_ex (\<lambda>other. cg_id other \<noteq> cg_id c \<and>
               (case map_of axes (cg_id other) of None \<Rightarrow> False | Some w \<Rightarrow> dominates w v)) cs) cs))"

section \<open>Survivors\<close>

record entropy_config =
  ec_cell_elite_reserve :: int
  ec_rare_reserve_per_cell :: int
  ec_entropy_gain_weight :: rat
  ec_frontier_weight :: rat
  ec_rarity_weight :: rat
  ec_search_quality_weight :: rat

definition positive_int :: "pyval \<Rightarrow> int \<Rightarrow> int" where
  "positive_int v dflt = max 1 (case py_int v of Inr i \<Rightarrow> i | Inl _ \<Rightarrow> dflt)"

definition nonnegative_int :: "pyval \<Rightarrow> int \<Rightarrow> int" where
  "nonnegative_int v dflt = max 0 (case py_int v of Inr i \<Rightarrow> i | Inl _ \<Rightarrow> dflt)"

definition config_float :: "pyval \<Rightarrow> rat \<Rightarrow> rat" where
  "config_float v dflt = (case py_float v of Inr q \<Rightarrow> q | Inl _ \<Rightarrow> dflt)"

definition entropy_config_from_dict :: "pyval \<Rightarrow> entropy_config" where
  "entropy_config_from_dict v =
     (let d = coerce_dict v
      in \<lparr> ec_cell_elite_reserve = positive_int (dget d ''cell_elite_reserve'') 1,
           ec_rare_reserve_per_cell = nonnegative_int (dget d ''rare_reserve_per_cell'') 1,
           ec_entropy_gain_weight = config_float (dget d ''entropy_gain_weight'') 1,
           ec_frontier_weight = config_float (dget d ''frontier_weight'') (35 / 100),
           ec_rarity_weight = config_float (dget d ''rarity_weight'') (25 / 100),
           ec_search_quality_weight = config_float (dget d ''search_quality_weight'') (25 / 100) \<rparr>)"

text \<open>\<open>sorted(xs, key=..., reverse=True)\<close> keeps the order of equal items.\<close>

definition sorted_desc :: "('a \<Rightarrow> 'k :: linorder) \<Rightarrow> 'a list \<Rightarrow> 'a list" where
  "sorted_desc key xs = rev (sort_key key (rev xs))"

definition elite_key :: "candidate \<Rightarrow> rat \<times> rat \<times> string" where
  "elite_key c = (candidate_quality c, candidate_search_quality c, cg_id c)"

definition rare_key :: "candidate \<Rightarrow> rat \<times> rat \<times> string" where
  "rare_key c = (axis_score c ''rarity'', candidate_search_quality c, cg_id c)"

definition ids :: "candidate list \<Rightarrow> string list" where
  "ids cs = map cg_id cs"

definition bin_members :: "(candidate \<Rightarrow> string) \<Rightarrow> candidate list \<Rightarrow> string \<Rightarrow> candidate list" where
  "bin_members bin cs key = filter (\<lambda>c. bin c = key) cs"

definition bin_keys :: "(candidate \<Rightarrow> string) \<Rightarrow> candidate list \<Rightarrow> string list" where
  "bin_keys bin cs = sort (dedupe (map bin cs))"

text \<open>The elites of every bin, the best first.\<close>

definition add_if_new :: "candidate \<Rightarrow> candidate list \<Rightarrow> candidate list" where
  "add_if_new c chosen = (if cg_id c \<in> set (ids chosen) then chosen else chosen @ [c])"

definition reserve_elites :: "(candidate \<Rightarrow> string) \<Rightarrow> entropy_config \<Rightarrow> candidate list \<Rightarrow> candidate list" where
  "reserve_elites bin cfg cs =
     fold (\<lambda>key chosen. fold add_if_new
             (take (nat (ec_cell_elite_reserve cfg)) (sorted_desc elite_key (bin_members bin cs key))) chosen)
       (bin_keys bin cs) []"

text \<open>Then rare candidates of every bin, while there is room.\<close>

definition reserve_rare :: "(candidate \<Rightarrow> string) \<Rightarrow> entropy_config \<Rightarrow> nat \<Rightarrow> candidate list \<Rightarrow> candidate list \<Rightarrow> candidate list" where
  "reserve_rare bin cfg target cs chosen =
     (if length chosen < target \<and> 0 < ec_rare_reserve_per_cell cfg then
        fold (\<lambda>key chosen.
          fold (\<lambda>c chosen. if target \<le> length chosen then chosen else chosen @ [c])
            (take (nat (ec_rare_reserve_per_cell cfg))
              (sorted_desc rare_key
                (filter (\<lambda>c. cg_id c \<notin> set (ids chosen) \<and> (cg_edge_knowledge_seeds c \<noteq> [] \<or> 0 < axis_score c ''rarity''))
                  (bin_members bin cs key)))) chosen)
          (bin_keys bin cs) chosen
      else chosen)"

definition survivor_score ::
  "(candidate \<Rightarrow> string) \<Rightarrow> entropy_config \<Rightarrow> string list \<Rightarrow> candidate list \<Rightarrow> candidate \<Rightarrow> real \<times> rat \<times> rat \<times> string" where
  "survivor_score bin cfg frontier current c =
     (let gain = descriptor_population_entropy bin (current @ [c]) - descriptor_population_entropy bin current;
          front = (if cg_id c \<in> set frontier then 1 else 0 :: rat);
          rarity = max (axis_score c ''rarity'') (if cg_edge_knowledge_seeds c \<noteq> [] then 1 else 0);
          search = candidate_search_quality c
      in (real_of_rat (ec_entropy_gain_weight cfg) * gain +
          real_of_rat (ec_frontier_weight cfg * front + ec_rarity_weight cfg * rarity + ec_search_quality_weight cfg * search),
          candidate_quality c, search, cg_id c))"

text \<open>The rest one by one, each the best for what is chosen already.\<close>

function fill_survivors ::
  "(candidate \<Rightarrow> string) \<Rightarrow> entropy_config \<Rightarrow> string list \<Rightarrow> nat \<Rightarrow> candidate list \<Rightarrow> candidate list \<Rightarrow> candidate list" where
  "fill_survivors bin cfg frontier target cs chosen =
     (if length chosen < target then
        (let remaining = filter (\<lambda>c. cg_id c \<notin> set (ids chosen)) cs
         in if remaining = [] then chosen
            else fill_survivors bin cfg frontier target cs
                   (chosen @ [first_max (survivor_score bin cfg frontier chosen) remaining]))
      else chosen)"
  by pat_completeness auto
termination
  by (relation "measure (\<lambda>(bin, cfg, frontier, target, cs, chosen). target - length chosen)") auto

declare fill_survivors.simps [simp del]

definition entropy_diversity_survivors ::
  "(candidate \<Rightarrow> string) \<Rightarrow> candidate list \<Rightarrow> int \<Rightarrow> entropy_config \<Rightarrow> candidate list \<times> candidate list" where
  "entropy_diversity_survivors bin cs target_k cfg =
     (if cs = [] then ([], [])
      else
        (let target = nat (max 1 (min (if target_k = 0 then 1 else target_k) (int (length cs))));
             frontier = pareto_frontier_ids 3 cs;
             chosen = fill_survivors bin cfg frontier target cs
                        (reserve_rare bin cfg target cs (reserve_elites bin cfg cs))
         in (chosen, filter (\<lambda>c. cg_id c \<notin> set (ids chosen)) cs)))"

text \<open>\<open>quality_diversity_survivors\<close> with a given configuration: the target from the sizes of the groups of bins.\<close>

definition group_key :: "string \<Rightarrow> string" where
  "group_key key = takeWhile (\<lambda>c. c \<noteq> CHR ''|'') key"

definition survivor_target :: "(candidate \<Rightarrow> string) \<Rightarrow> candidate list \<Rightarrow> int \<Rightarrow> int \<Rightarrow> int" where
  "survivor_target bin cs capacity reserve =
     (let groups = dedupe (map (\<lambda>c. group_key (bin c)) cs);
          cells = dedupe (map bin cs)
      in sum_list (map (\<lambda>g.
           max (int (length (filter (\<lambda>k. group_key k = g) cells)))
               (min (int (length (filter (\<lambda>c. group_key (bin c) = g) cs))) (capacity + reserve))) groups))"

definition quality_diversity_survivors ::
  "(candidate \<Rightarrow> string) \<Rightarrow> candidate list \<Rightarrow> int \<Rightarrow> int \<Rightarrow> entropy_config \<Rightarrow> candidate list \<times> candidate list" where
  "quality_diversity_survivors bin cs bin_capacity rare_reserve cfg =
     (let capacity = max 1 (if bin_capacity = 0 then 1 else bin_capacity);
          reserve = max 0 (if rare_reserve \<noteq> 0 then rare_reserve else ec_rare_reserve_per_cell cfg)
      in entropy_diversity_survivors bin cs (survivor_target bin cs capacity reserve) cfg)"

section \<open>Sorting and choosing\<close>

lemma set_sorted_desc [simp]: "set (sorted_desc key xs) = set xs"
  by (simp add: sorted_desc_def)

lemma length_sorted_desc [simp]: "length (sorted_desc key xs) = length xs"
  by (simp add: sorted_desc_def)

lemma mset_sorted_desc [simp]: "mset (sorted_desc key xs) = mset xs"
  by (simp add: sorted_desc_def)

lemma sorted_desc_sorted: "sorted_wrt (\<lambda>x y. key y \<le> key x) (sorted_desc key xs)"
  using sorted_sort_key [of key "rev xs"] by (simp add: sorted_desc_def sorted_wrt_rev sorted_map)

lemma sorted_desc_head:
  assumes "xs \<noteq> []" "x \<in> set xs"
  shows "hd (sorted_desc key xs) \<in> set xs \<and> key x \<le> key (hd (sorted_desc key xs))"
proof -
  have "sorted_desc key xs \<noteq> []" using assms(1) by (metis set_sorted_desc set_empty)
  then obtain y ys where y: "sorted_desc key xs = y # ys" by (cases "sorted_desc key xs") auto
  have "x \<in> set (y # ys)" "y \<in> set xs" using assms(2) by (metis set_sorted_desc y list.set_intros(1))+
  moreover have "sorted_wrt (\<lambda>x y. key y \<le> key x) (y # ys)" using sorted_desc_sorted [of key xs] unfolding y .
  ultimately show ?thesis by (auto simp: y)
qed

lemma distinct_ids_inj: "distinct (ids cs) \<Longrightarrow> c \<in> set cs \<Longrightarrow> d \<in> set cs \<Longrightarrow> cg_id c = cg_id d \<Longrightarrow> c = d"
  unfolding ids_def by (metis distinct_map inj_onD)

lemma distinct_ids_list: "distinct (ids cs) \<Longrightarrow> distinct cs"
  unfolding ids_def by (simp add: distinct_map)

lemma fold_add_if_new: "distinct (ids (chosen @ xs)) \<Longrightarrow> fold add_if_new xs chosen = chosen @ xs"
proof (induction xs arbitrary: chosen)
  case (Cons x xs)
  have "add_if_new x chosen = chosen @ [x]" using Cons.prems by (auto simp: add_if_new_def ids_def)
  then show ?case using Cons.IH [of "chosen @ [x]"] Cons.prems by simp
qed simp

text \<open>More candidates chosen, none twice, all of them from the population, at most up to a target.\<close>

definition chosen_more :: "candidate list \<Rightarrow> nat \<Rightarrow> candidate list \<Rightarrow> candidate list \<Rightarrow> bool" where
  "chosen_more cs target ch ch' \<longleftrightarrow>
     (\<exists>ys. ch' = ch @ ys) \<and> distinct (ids ch') \<and> set ch' \<subseteq> set cs \<and> length ch' \<le> max (length ch) target"

lemma chosen_more_refl: "distinct (ids ch) \<Longrightarrow> set ch \<subseteq> set cs \<Longrightarrow> chosen_more cs target ch ch"
  by (simp add: chosen_more_def)

lemma chosen_more_trans: "chosen_more cs t a b \<Longrightarrow> chosen_more cs t b c \<Longrightarrow> chosen_more cs t a c"
  by (auto simp: chosen_more_def)

lemma chosen_more_fold:
  assumes "\<And>x ch. x \<in> set xs \<Longrightarrow> distinct (ids ch) \<Longrightarrow> set ch \<subseteq> set cs \<Longrightarrow> chosen_more cs t ch (f x ch)"
    "distinct (ids ch)" "set ch \<subseteq> set cs"
  shows "chosen_more cs t ch (fold f xs ch)"
  using assms
proof (induction xs arbitrary: ch)
  case (Cons x xs)
  have one: "chosen_more cs t ch (f x ch)" using Cons.prems by simp
  then have "chosen_more cs t (f x ch) (fold f xs (f x ch))"
    using Cons.prems by (intro Cons.IH) (auto simp: chosen_more_def)
  then show ?case using chosen_more_trans [OF one] by simp
qed (simp add: chosen_more_refl)

section \<open>The elites\<close>

definition bin_elites :: "(candidate \<Rightarrow> string) \<Rightarrow> entropy_config \<Rightarrow> candidate list \<Rightarrow> string \<Rightarrow> candidate list" where
  "bin_elites bin cfg cs key = take (nat (ec_cell_elite_reserve cfg)) (sorted_desc elite_key (bin_members bin cs key))"

lemma bin_elites_in: "c \<in> set (bin_elites bin cfg cs key) \<Longrightarrow> c \<in> set cs \<and> bin c = key"
  by (auto simp: bin_elites_def bin_members_def dest: in_set_takeD)

lemma distinct_ids_perm: "mset xs = mset ys \<Longrightarrow> distinct (ids xs) \<longleftrightarrow> distinct (ids ys)"
  unfolding ids_def by (intro mset_eq_imp_distinct_iff arg_cong [of _ _ "image_mset cg_id"]) (simp add: mset_map)

lemma bin_elites_distinct:
  assumes "distinct (ids cs)"
  shows "distinct (ids (bin_elites bin cfg cs key))"
proof -
  have "distinct (ids (bin_members bin cs key))"
    using assms by (simp add: ids_def bin_members_def distinct_map_filter)
  then have "distinct (ids (sorted_desc elite_key (bin_members bin cs key)))"
    using distinct_ids_perm [OF mset_sorted_desc [of elite_key "bin_members bin cs key"]] by simp
  then show ?thesis by (simp add: bin_elites_def ids_def take_map [symmetric])
qed

lemma elites_concat:
  assumes d: "distinct (ids cs)" "distinct keys"
    "distinct (ids chosen)" "set chosen \<subseteq> set cs" "\<forall>c \<in> set chosen. bin c \<notin> set keys"
  shows "fold (\<lambda>key. fold add_if_new (bin_elites bin cfg cs key)) keys chosen =
      chosen @ concat (map (bin_elites bin cfg cs) keys) \<and>
    distinct (ids (chosen @ concat (map (bin_elites bin cfg cs) keys)))"
  using assms(2-5)
proof (induction keys arbitrary: chosen)
  case (Cons k ks)
  let ?e = "bin_elites bin cfg cs k"
  have "set (ids chosen) \<inter> set (ids ?e) = {}"
  proof (rule ccontr)
    assume "set (ids chosen) \<inter> set (ids ?e) \<noteq> {}"
    then obtain c e where c: "c \<in> set chosen" "e \<in> set ?e" "cg_id c = cg_id e" by (auto simp: ids_def)
    then have "c = e" using distinct_ids_inj [OF d(1)] Cons.prems(3) bin_elites_in by blast
    then show False using c Cons.prems(4) bin_elites_in [OF c(2)] by auto
  qed
  then have dist: "distinct (ids (chosen @ ?e))"
    using Cons.prems(2) bin_elites_distinct [OF d(1), of bin cfg k] by (simp add: ids_def)
  have "set (chosen @ ?e) \<subseteq> set cs" using Cons.prems(3) bin_elites_in by fastforce
  moreover have "\<forall>c \<in> set (chosen @ ?e). bin c \<notin> set ks" using Cons.prems(1,4) bin_elites_in by fastforce
  ultimately show ?case using Cons.IH [of "chosen @ ?e"] Cons.prems(1) dist fold_add_if_new [OF dist] by simp
qed simp

lemma distinct_sort_dedupe: "distinct (bin_keys bin cs)" "set (bin_keys bin cs) = bin ` set cs"
  by (simp_all add: bin_keys_def)

lemma reserve_elites_eq:
  assumes "distinct (ids cs)"
  shows "reserve_elites bin cfg cs = concat (map (bin_elites bin cfg cs) (bin_keys bin cs))"
    and "distinct (ids (reserve_elites bin cfg cs))"
    and "set (reserve_elites bin cfg cs) \<subseteq> set cs"
proof -
  note e = elites_concat [OF assms distinct_sort_dedupe(1), where chosen = "[]" and cfg = cfg]
  show eq: "reserve_elites bin cfg cs = concat (map (bin_elites bin cfg cs) (bin_keys bin cs))"
    using e by (simp add: reserve_elites_def bin_elites_def ids_def)
  show "distinct (ids (reserve_elites bin cfg cs))" unfolding eq using e by (simp add: ids_def)
  show "set (reserve_elites bin cfg cs) \<subseteq> set cs" unfolding eq using bin_elites_in by fastforce
qed

lemma elite_reserved:
  assumes "distinct (ids cs)" "1 \<le> ec_cell_elite_reserve cfg" "c \<in> set cs"
  shows "\<exists>s \<in> set (reserve_elites bin cfg cs). bin s = bin c \<and> elite_key c \<le> elite_key s"
proof -
  let ?m = "bin_members bin cs (bin c)"
  have c: "c \<in> set ?m" "?m \<noteq> []" using assms(3) by (auto simp: bin_members_def filter_empty_conv)
  note h = sorted_desc_head [OF c(2,1), of elite_key]
  have "bin_elites bin cfg cs (bin c) = hd (sorted_desc elite_key ?m) # take (nat (ec_cell_elite_reserve cfg) - 1) (tl (sorted_desc elite_key ?m))"
  proof (cases "sorted_desc elite_key ?m")
    case Nil
    then show ?thesis using c(2) by (metis set_sorted_desc set_empty)
  qed (use assms(2) in \<open>simp add: bin_elites_def take_Cons'\<close>)
  then have "hd (sorted_desc elite_key ?m) \<in> set (reserve_elites bin cfg cs)"
    using assms(3) by (auto simp: reserve_elites_eq(1) [OF assms(1)] distinct_sort_dedupe(2) intro!: bexI [of _ c])
  then show ?thesis using h by (auto simp: bin_members_def)
qed

section \<open>Rare candidates and the rest\<close>

lemma distinct_ids_append:
  "distinct (ids ch) \<Longrightarrow> distinct (ids xs) \<Longrightarrow> (\<And>x. x \<in> set xs \<Longrightarrow> cg_id x \<notin> set (ids ch)) \<Longrightarrow> distinct (ids (ch @ xs))"
  unfolding ids_def by (auto simp: image_iff) metis

lemma add_within:
  assumes "distinct (ids (ch @ xs))" "set (ch @ xs) \<subseteq> set cs"
  shows "chosen_more cs t ch (fold (\<lambda>c ch. if t \<le> length ch then ch else ch @ [c]) xs ch)"
  using assms
proof (induction xs arbitrary: ch)
  case (Cons x xs)
  show ?case
  proof (cases "t \<le> length ch")
    case True
    have "distinct (ids (ch @ xs))" "set (ch @ xs) \<subseteq> set cs" using Cons.prems by (auto simp: ids_def)
    then show ?thesis using Cons.IH [of ch] True by simp
  next
    case False
    have "chosen_more cs t ch (ch @ [x])" using Cons.prems False by (auto simp: chosen_more_def ids_def)
    moreover have "chosen_more cs t (ch @ [x]) (fold (\<lambda>c ch. if t \<le> length ch then ch else ch @ [c]) xs (ch @ [x]))"
      using Cons.prems by (intro Cons.IH) auto
    ultimately show ?thesis using False chosen_more_trans by auto
  qed
qed (simp add: chosen_more_refl)

lemma reserve_rare_more:
  assumes d: "distinct (ids cs)" and ch: "distinct (ids chosen)" "set chosen \<subseteq> set cs"
  shows "chosen_more cs target chosen (reserve_rare bin cfg target cs chosen)"
proof (cases "length chosen < target \<and> 0 < ec_rare_reserve_per_cell cfg")
  case True
  have step: "chosen_more cs target ch
      (fold (\<lambda>c ch. if target \<le> length ch then ch else ch @ [c])
        (take n (sorted_desc rare_key (filter (\<lambda>c. cg_id c \<notin> set (ids ch) \<and> P c) (bin_members bin cs key)))) ch)"
    if "distinct (ids ch)" "set ch \<subseteq> set cs" for n ch key P
  proof (rule add_within)
    let ?f = "filter (\<lambda>c. cg_id c \<notin> set (ids ch) \<and> P c) (bin_members bin cs key)"
    have "distinct (ids ?f)" using d by (simp add: ids_def bin_members_def distinct_map_filter)
    then have "distinct (ids (sorted_desc rare_key ?f))" using distinct_ids_perm [OF mset_sorted_desc [of rare_key ?f]] by simp
    then have "distinct (ids (take n (sorted_desc rare_key ?f)))" by (simp add: ids_def take_map [symmetric])
    moreover have "set (take n (sorted_desc rare_key ?f)) \<subseteq> set ?f" using set_take_subset by fastforce
    ultimately show "distinct (ids (ch @ take n (sorted_desc rare_key ?f)))" using that(1) by (intro distinct_ids_append) auto
    show "set (ch @ take n (sorted_desc rare_key ?f)) \<subseteq> set cs"
      using that(2) \<open>set (take n (sorted_desc rare_key ?f)) \<subseteq> set ?f\<close> by (auto simp: bin_members_def)
  qed
  show ?thesis unfolding reserve_rare_def if_P [OF True] by (rule chosen_more_fold [OF step ch])
next
  case False
  then show ?thesis unfolding reserve_rare_def if_not_P [OF False] by (intro chosen_more_refl ch)
qed

lemma remaining_nonempty:
  assumes "distinct (ids cs)" "distinct (ids chosen)" "set chosen \<subseteq> set cs" "length chosen < length cs"
  shows "filter (\<lambda>c. cg_id c \<notin> set (ids chosen)) cs \<noteq> []"
proof
  assume "filter (\<lambda>c. cg_id c \<notin> set (ids chosen)) cs = []"
  then have "set (ids cs) \<subseteq> set (ids chosen)" by (auto simp: filter_empty_conv ids_def)
  then have "card (set (ids cs)) \<le> card (set (ids chosen))" by (intro card_mono) auto
  then show False using assms(1,2,4) by (simp add: distinct_card) (simp add: ids_def)
qed

lemma fill_survivors_more:
  assumes "distinct (ids cs)" "distinct (ids chosen)" "set chosen \<subseteq> set cs" "target \<le> length cs"
  shows "chosen_more cs target chosen (fill_survivors bin cfg frontier target cs chosen) \<and>
     length (fill_survivors bin cfg frontier target cs chosen) = max (length chosen) target"
  using assms
proof (induction bin cfg frontier target cs chosen rule: fill_survivors.induct)
  case (1 bin cfg frontier target cs chosen)
  let ?rem = "filter (\<lambda>c. cg_id c \<notin> set (ids chosen)) cs"
  show ?case
  proof (cases "length chosen < target")
    case True
    then have rem: "?rem \<noteq> []" using "1.prems" by (intro remaining_nonempty) auto
    let ?best = "first_max (survivor_score bin cfg frontier chosen) ?rem"
    have best: "?best \<in> set ?rem" using first_max_spec [OF rem] by blast
    then have more: "chosen_more cs target chosen (chosen @ [?best])"
      using "1.prems" True by (auto simp: chosen_more_def ids_def)
    have eq: "fill_survivors bin cfg frontier target cs chosen = fill_survivors bin cfg frontier target cs (chosen @ [?best])"
      using True rem by (subst fill_survivors.simps) (simp add: Let_def)
    have "chosen_more cs target (chosen @ [?best]) (fill_survivors bin cfg frontier target cs (chosen @ [?best])) \<and>
        length (fill_survivors bin cfg frontier target cs (chosen @ [?best])) = max (length (chosen @ [?best])) target"
      using "1.IH" [OF True refl rem] "1.prems" more by (auto simp: chosen_more_def)
    then show ?thesis unfolding eq using chosen_more_trans [OF more] True by auto
  next
    case False
    then have "fill_survivors bin cfg frontier target cs chosen = chosen" by (subst fill_survivors.simps) simp
    then show ?thesis using "1.prems" False by (simp add: chosen_more_refl)
  qed
qed

lemma survivors_shape:
  assumes d: "distinct (ids cs)" and ne: "cs \<noteq> []"
  obtains rest where "fst (entropy_diversity_survivors bin cs k cfg) = reserve_elites bin cfg cs @ rest"
    "distinct (ids (fst (entropy_diversity_survivors bin cs k cfg)))"
    "set (fst (entropy_diversity_survivors bin cs k cfg)) \<subseteq> set cs"
    "length (fst (entropy_diversity_survivors bin cs k cfg)) =
       max (length (reserve_elites bin cfg cs)) (nat (max 1 (min (if k = 0 then 1 else k) (int (length cs)))))"
proof -
  let ?e = "reserve_elites bin cfg cs" and ?t = "nat (max 1 (min (if k = 0 then 1 else k) (int (length cs))))"
  let ?r = "reserve_rare bin cfg ?t cs ?e"
  let ?s = "fill_survivors bin cfg (pareto_frontier_ids 3 cs) ?t cs ?r"
  have t: "?t \<le> length cs" using ne by (cases cs) auto
  have a: "chosen_more cs ?t ?e ?r" by (rule reserve_rare_more [OF d reserve_elites_eq(2,3) [OF d]])
  then have r: "distinct (ids ?r)" "set ?r \<subseteq> set cs" by (auto simp: chosen_more_def)
  note b = fill_survivors_more [OF d r t, of bin cfg "pareto_frontier_ids 3 cs"]
  have "length ?r \<le> max (length ?e) ?t" "length ?e \<le> length ?r" using a unfolding chosen_more_def by auto
  then have len: "length ?s = max (length ?e) ?t" using b by linarith
  have more: "chosen_more cs ?t ?e ?s" using chosen_more_trans [OF a] b by blast
  have eq: "fst (entropy_diversity_survivors bin cs k cfg) = ?s"
    using ne by (simp add: entropy_diversity_survivors_def Let_def)
  obtain rest where "?s = ?e @ rest" using more unfolding chosen_more_def by blast
  moreover have "distinct (ids ?s)" "set ?s \<subseteq> set cs" using more unfolding chosen_more_def by blast+
  ultimately show ?thesis using len by (intro that) (simp_all only: eq)
qed

section \<open>Counting\<close>

lemma sum_groups: "finite S \<Longrightarrow> f ` set xs \<subseteq> S \<Longrightarrow> (\<Sum>g\<in>S. length (filter (\<lambda>x. f x = g) xs)) = length xs"
proof (induction xs)
  case (Cons x xs)
  have "(\<Sum>g\<in>S. length (filter (\<lambda>x. f x = g) (x # xs))) =
      (\<Sum>g\<in>S. (if f x = g then 1 else 0) + length (filter (\<lambda>x. f x = g) xs))"
    by (intro sum.cong) auto
  also have "\<dots> = 1 + length xs" using Cons by (simp add: sum.distrib)
  finally show ?case by simp
qed simp

lemma cells_le_members: "length (filter P (dedupe (map bin cs))) \<le> length (filter (P \<circ> bin) cs)"
proof -
  have "length (filter P (dedupe (map bin cs))) = card (set (filter P (dedupe (map bin cs))))"
    using distinct_card [of "filter P (dedupe (map bin cs))"] by simp
  also have "\<dots> = card (bin ` set (filter (P \<circ> bin) cs))" by (intro arg_cong [where f = card]) auto
  also have "\<dots> \<le> length (filter (P \<circ> bin) cs)"
    by (meson card_image_le card_length finite_set order_trans)
  finally show ?thesis .
qed

lemma survivor_target_bounds:
  fixes bin :: "candidate \<Rightarrow> string"
  shows "int (length (dedupe (map bin cs))) \<le> survivor_target bin cs c r" "survivor_target bin cs c r \<le> int (length cs)"
proof -
  let ?cells = "dedupe (map bin cs)" and ?f = "\<lambda>c. group_key (bin c)"
  let ?S = "set (dedupe (map ?f cs))"
  let ?n = "\<lambda>g. length (filter (\<lambda>k. group_key k = g) ?cells)" and ?m = "\<lambda>g. length (filter (\<lambda>c. ?f c = g) cs)"
  have eq: "survivor_target bin cs c r = (\<Sum>g\<in>?S. max (int (?n g)) (min (int (?m g)) (c + r)))"
    by (simp add: survivor_target_def Let_def sum_list_distinct_conv_sum_set)
  have "(\<Sum>g\<in>?S. ?n g) = length ?cells" by (intro sum_groups) auto
  then have "int (length ?cells) = (\<Sum>g\<in>?S. int (?n g))" by (simp flip: of_nat_sum)
  also have "\<dots> \<le> survivor_target bin cs c r" unfolding eq by (intro sum_mono) simp
  finally show "int (length ?cells) \<le> survivor_target bin cs c r" .
  have "?n g \<le> ?m g" for g using cells_le_members [of "\<lambda>k. group_key k = g" bin cs] by (simp add: comp_def)
  then have "survivor_target bin cs c r \<le> (\<Sum>g\<in>?S. int (?m g))" unfolding eq by (intro sum_mono) auto
  also have "\<dots> = int (length cs)"
  proof -
    have "(\<Sum>g\<in>?S. ?m g) = length cs" by (intro sum_groups) auto
    then show ?thesis by (simp flip: of_nat_sum)
  qed
  finally show "survivor_target bin cs c r \<le> int (length cs)" .
qed

lemma elites_count:
  assumes "distinct (ids cs)" "ec_cell_elite_reserve cfg = 1"
  shows "length (reserve_elites bin cfg cs) = length (dedupe (map bin cs))"
proof -
  have "length (bin_elites bin cfg cs k) = 1" if "k \<in> set (bin_keys bin cs)" for k
  proof -
    have "bin_members bin cs k \<noteq> []" using that by (auto simp: distinct_sort_dedupe bin_members_def filter_empty_conv)
    then show ?thesis using assms(2) by (cases "bin_members bin cs k") (auto simp: bin_elites_def)
  qed
  then have m: "map (\<lambda>k. length (bin_elites bin cfg cs k)) (bin_keys bin cs) = map (\<lambda>_. 1) (bin_keys bin cs)"
    by (intro map_cong) auto
  have "length (concat (map (bin_elites bin cfg cs) (bin_keys bin cs))) =
      sum_list (map (\<lambda>k. length (bin_elites bin cfg cs k)) (bin_keys bin cs))"
    by (simp add: length_concat comp_def)
  also have "\<dots> = length (bin_keys bin cs)" unfolding m by (simp add: sum_list_triv)
  finally have "length (concat (map (bin_elites bin cfg cs) (bin_keys bin cs))) = length (bin_keys bin cs)" .
  then show ?thesis by (simp add: reserve_elites_eq(1) [OF assms(1)] bin_keys_def)
qed

lemma survivor_count_fact:
  assumes d: "distinct (ids cs)" and ne: "cs \<noteq> []" and one: "ec_cell_elite_reserve cfg = 1"
  shows "int (length (fst (entropy_diversity_survivors bin cs (survivor_target bin cs c r) cfg))) = survivor_target bin cs c r"
proof -
  let ?t = "survivor_target bin cs c r" and ?cells = "dedupe (map bin cs)"
  have "set ?cells \<noteq> {}" using ne by simp
  then have "0 < length ?cells" by (cases ?cells) simp_all
  then have t: "1 \<le> ?t" "?t \<le> int (length cs)" "int (length ?cells) \<le> ?t"
    using survivor_target_bounds [where bin = bin and cs = cs and c = c and r = r] by linarith+
  have "length (fst (entropy_diversity_survivors bin cs ?t cfg)) = max (length ?cells) (nat ?t)"
    using survivors_shape [OF d ne, of bin ?t cfg] elites_count [OF d one, of bin] t by fastforce
  then show ?thesis using t by linarith
qed

lemma partition_ids:
  assumes d: "distinct (ids cs)" and ch: "distinct (ids ch)" "set ch \<subseteq> set cs"
  shows "mset ch + mset (filter (\<lambda>c. cg_id c \<notin> set (ids ch)) cs) = mset cs"
proof -
  have "cg_id c \<in> set (ids ch) \<longleftrightarrow> c \<in> set ch" if "c \<in> set cs" for c
    using distinct_ids_inj [OF d that] ch(2) by (auto simp: ids_def)
  then have f: "filter (\<lambda>c. cg_id c \<notin> set (ids ch)) cs = filter (\<lambda>c. c \<notin> set ch) cs" by (auto intro: filter_cong)
  have "set ch = set (filter (\<lambda>c. c \<in> set ch) cs)" using ch(2) by auto
  then have "mset ch = mset (filter (\<lambda>c. c \<in> set ch) cs)"
    using set_eq_iff_mset_eq_distinct [OF distinct_ids_list [OF ch(1)] distinct_filter [OF distinct_ids_list [OF d]]] by blast
  then show ?thesis unfolding f by (simp add: mset_filter multiset_partition [symmetric])
qed

lemma survivors_fact:
  assumes d: "distinct (ids cs)" and res: "entropy_diversity_survivors bin cs k cfg = (chosen, compacted)"
  shows "mset chosen + mset compacted = mset cs \<and> distinct (ids chosen) \<and>
    (1 \<le> ec_cell_elite_reserve cfg \<longrightarrow> (\<forall>c \<in> set cs. \<exists>s \<in> set chosen. bin s = bin c \<and> elite_key c \<le> elite_key s))"
proof (cases "cs = []")
  case True
  then show ?thesis using res by (simp add: entropy_diversity_survivors_def ids_def)
next
  case False
  have co: "compacted = filter (\<lambda>c. cg_id c \<notin> set (ids chosen)) cs"
    using res False by (auto simp: entropy_diversity_survivors_def Let_def)
  obtain rest where s: "chosen = reserve_elites bin cfg cs @ rest" "distinct (ids chosen)" "set chosen \<subseteq> set cs"
    using survivors_shape [OF d False, of bin k cfg] res by (metis fst_conv)
  have "\<exists>s \<in> set chosen. bin s = bin c \<and> elite_key c \<le> elite_key s"
    if "1 \<le> ec_cell_elite_reserve cfg" "c \<in> set cs" for c
    using elite_reserved [OF d that, of bin] unfolding s(1) by auto
  then show ?thesis using partition_ids [OF d s(2,3)] s(2) unfolding co by blast
qed

section \<open>Dominance\<close>

lemma dominates_irrefl: "\<not> dominates a a"
  by (auto simp: dominates_def list_ex_iff zip_same)

lemma dominates_trans:
  assumes "length a = length b" "length b = length c" "dominates a b" "dominates b c"
  shows "dominates a c"
proof -
  have le: "list_all2 (\<lambda>x y. y \<le> x) a b" "list_all2 (\<lambda>x y. y \<le> x) b c"
    using assms by (auto simp: dominates_def list_all2_iff list_all_iff)
  then have "list_all2 (\<lambda>x y. y \<le> x) a c" by (rule list_all2_trans [rotated]) auto
  moreover obtain i where "i < length a" "b ! i < a ! i"
    using assms(1,3) by (auto simp: dominates_def list_ex_iff set_zip)
  moreover have "c ! i \<le> b ! i" using le(2) \<open>i < length a\<close> assms(1) by (simp add: list_all2_conv_all_nth)
  ultimately show ?thesis
    using assms(1,2) by (force simp: dominates_def list_all2_iff list_all_iff list_ex_iff set_zip)
qed

lemma dominates_sum:
  assumes "length a = length b" "dominates a b"
  shows "sum_list b < sum_list a"
proof -
  have "list_all2 (\<lambda>x y. y \<le> x) a b" "\<exists>(x, y) \<in> set (zip a b). y < x"
    using assms by (auto simp: dominates_def list_all2_iff list_all_iff list_ex_iff)
  then show ?thesis
  proof (induction a b rule: list_all2_induct)
    case (Cons x xs y ys)
    have le: "sum_list ys \<le> sum_list xs" using Cons(2) by (induction xs ys rule: list_all2_induct) auto
    show ?case
    proof (cases "y < x")
      case True
      then show ?thesis using le by simp
    next
      case False
      then have "\<exists>(x, y) \<in> set (zip xs ys). y < x" using Cons.prems by auto
      then show ?thesis using Cons.IH Cons(1) by simp
    qed
  qed simp
qed

lemma pareto_vectors_map:
  assumes "distinct (ids cs)" "c \<in> set cs"
  shows "map_of (pareto_vectors n cs) (cg_id c) = Some (pareto_vector n c)"
proof -
  have gen: "map_of (fold (\<lambda>c d. dset (cg_id c) (pareto_vector n c) d) cs d) (cg_id c) = Some (pareto_vector n c)"
    if "distinct (ids cs)" "c \<in> set cs \<or> (cg_id c \<notin> set (ids cs) \<and> map_of d (cg_id c) = Some (pareto_vector n c))" for d
    using that
  proof (induction cs arbitrary: d)
    case (Cons x cs)
    have "map_of (fold (\<lambda>c d. dset (cg_id c) (pareto_vector n c) d) cs (dset (cg_id x) (pareto_vector n x) d)) (cg_id c) =
        Some (pareto_vector n c)"
      using Cons.prems by (intro Cons.IH) (auto simp: ids_def)
    then show ?case by simp
  qed auto
  show ?thesis unfolding pareto_vectors_def using assms by (intro gen) auto
qed

lemma pareto_vector_length: "length (pareto_vector n c) = nat (max 1 (min 3 (if n = 0 then 3 else n)))"
  by (simp add: pareto_vector_def Let_def)

lemma frontier_iff:
  assumes d: "distinct (ids cs)" and c: "c \<in> set cs"
  shows "cg_id c \<in> set (pareto_frontier_ids n cs) \<longleftrightarrow> \<not> (\<exists>z \<in> set cs. dominates (pareto_vector n z) (pareto_vector n c))"
proof -
  let ?P = "\<lambda>e. case map_of (pareto_vectors n cs) (cg_id e) of None \<Rightarrow> False
      | Some v \<Rightarrow> \<not> list_ex (\<lambda>z. cg_id z \<noteq> cg_id e \<and>
          (case map_of (pareto_vectors n cs) (cg_id z) of None \<Rightarrow> False | Some w \<Rightarrow> dominates w v)) cs"
  have P: "?P e \<longleftrightarrow> \<not> (\<exists>z \<in> set cs. cg_id z \<noteq> cg_id e \<and> dominates (pareto_vector n z) (pareto_vector n e))"
    if "e \<in> set cs" for e
    using that by (auto simp: list_ex_iff pareto_vectors_map [OF d])
  have "cg_id c \<in> set (pareto_frontier_ids n cs) \<longleftrightarrow> (\<exists>e \<in> set cs. cg_id e = cg_id c \<and> ?P e)"
    unfolding pareto_frontier_ids_def Let_def by (auto simp: image_iff)
  also have "\<dots> \<longleftrightarrow>
      (\<exists>e \<in> set cs. cg_id e = cg_id c \<and> \<not> (\<exists>z \<in> set cs. cg_id z \<noteq> cg_id e \<and> dominates (pareto_vector n z) (pareto_vector n e)))"
    by (intro bex_cong refl conj_cong P)
  also have "\<dots> \<longleftrightarrow> \<not> (\<exists>z \<in> set cs. cg_id z \<noteq> cg_id c \<and> dominates (pareto_vector n z) (pareto_vector n c))"
    using distinct_ids_inj [OF d _ c] c by metis
  also have "\<dots> \<longleftrightarrow> \<not> (\<exists>z \<in> set cs. dominates (pareto_vector n z) (pareto_vector n c))"
    using distinct_ids_inj [OF d _ c] dominates_irrefl by metis
  finally show ?thesis .
qed

lemma pareto_covers_fact:
  assumes d: "distinct (ids cs)" and c: "c \<in> set cs"
  shows "cg_id c \<in> set (pareto_frontier_ids n cs) \<or>
    (\<exists>z \<in> set cs. cg_id z \<in> set (pareto_frontier_ids n cs) \<and> dominates (pareto_vector n z) (pareto_vector n c))"
proof (cases "cg_id c \<in> set (pareto_frontier_ids n cs)")
  case False
  let ?v = "pareto_vector n" and ?D = "{z \<in> set cs. dominates (pareto_vector n z) (pareto_vector n c)}"
  have "?D \<noteq> {}" using False frontier_iff [OF d c] by auto
  then obtain m where m: "m \<in> ?D" "\<forall>z \<in> ?D. sum_list (?v z) \<le> sum_list (?v m)"
  proof -
    let ?f = "\<lambda>z. sum_list (?v z)"
    assume that: "\<And>m. m \<in> ?D \<Longrightarrow> \<forall>z \<in> ?D. ?f z \<le> ?f m \<Longrightarrow> thesis"
    have "Max (?f ` ?D) \<in> ?f ` ?D" using \<open>?D \<noteq> {}\<close> by (intro Max_in) auto
    then obtain m where m: "Max (?f ` ?D) = ?f m" "m \<in> ?D" by (rule imageE)
    have "?f z \<le> ?f m" if "z \<in> ?D" for z unfolding m(1) [symmetric] using that by (intro Max_ge) auto
    then show thesis by (intro that [OF m(2)]) (rule ballI)
  qed
  have "\<not> (\<exists>z \<in> set cs. dominates (?v z) (?v m))"
  proof
    assume "\<exists>z \<in> set cs. dominates (?v z) (?v m)"
    then obtain x where x: "x \<in> set cs" "dominates (?v x) (?v m)" by blast
    then have "x \<in> ?D" using m(1) dominates_trans [of "?v x" "?v m" "?v c"] by (simp add: pareto_vector_length)
    moreover have "sum_list (?v m) < sum_list (?v x)" using x(2) by (intro dominates_sum) (simp_all add: pareto_vector_length)
    ultimately show False using m(2) by (meson not_less)
  qed
  then show ?thesis using m(1) frontier_iff [OF d, of m n] by blast
qed simp

section \<open>The archive of elites\<close>

record elite_entry =
  el_candidate_id :: string
  el_quality :: rat
  el_search_quality :: rat
  el_final_quality :: rat
  el_bin_key :: string
  el_descriptor_cell :: string
  el_candidate :: pydict

record qd_archive =
  qa_elites_by_niche :: "(string \<times> elite_entry) list"
  qa_cell_elites :: "(string \<times> elite_entry) list"

definition niches_of :: "candidate \<Rightarrow> string list" where
  "niches_of c =
     (if cg_niche_memberships c \<noteq> [] then cg_niche_memberships c
      else if cg_novelty_descriptors c \<noteq> [] then cg_novelty_descriptors c
      else [str_or (cg_core_mechanism c) ''general''])"

definition elite_score :: "candidate \<Rightarrow> rat" where
  "elite_score c = max (candidate_final_quality c) (candidate_search_quality c)"

definition elite_entry_of :: "(candidate \<Rightarrow> string) \<Rightarrow> (candidate \<Rightarrow> string) \<Rightarrow> candidate \<Rightarrow> elite_entry" where
  "elite_entry_of bin cell c =
     \<lparr> el_candidate_id = cg_id c, el_quality = candidate_final_quality c, el_search_quality = candidate_search_quality c,
       el_final_quality = candidate_final_quality c, el_bin_key = bin c, el_descriptor_cell = cell c,
       el_candidate = candidate_to_dict c \<rparr>"

text \<open>The newcomer takes a place that is free or whose holder is not better.\<close>

definition take_place :: "elite_entry \<Rightarrow> rat \<Rightarrow> string \<Rightarrow> (string \<times> elite_entry) list \<Rightarrow> (string \<times> elite_entry) list" where
  "take_place entry score k d =
     (case map_of d k of
        None \<Rightarrow> dset k entry d
      | Some cur \<Rightarrow> if max (el_quality cur) (el_search_quality cur) \<le> score then dset k entry d else d)"

definition qd_update :: "(candidate \<Rightarrow> string) \<Rightarrow> (candidate \<Rightarrow> string) \<Rightarrow> candidate \<Rightarrow> qd_archive \<Rightarrow> qd_archive" where
  "qd_update bin cell c a =
     (let e = elite_entry_of bin cell c
      in \<lparr> qa_elites_by_niche = fold (take_place e (elite_score c)) (niches_of c) (qa_elites_by_niche a),
           qa_cell_elites = take_place e (elite_score c) (cell c) (qa_cell_elites a) \<rparr>)"

definition qd_run :: "(candidate \<Rightarrow> string) \<Rightarrow> (candidate \<Rightarrow> string) \<Rightarrow> candidate list \<Rightarrow> qd_archive" where
  "qd_run bin cell cs = fold (qd_update bin cell) cs \<lparr> qa_elites_by_niche = [], qa_cell_elites = [] \<rparr>"

text \<open>The holder of a place is one of the best of the candidates that belong there.\<close>

definition holds_best :: "(candidate \<Rightarrow> string) \<Rightarrow> (candidate \<Rightarrow> string) \<Rightarrow> candidate list \<Rightarrow> elite_entry option \<Rightarrow> bool" where
  "holds_best bin cell ms e \<longleftrightarrow>
     (case e of None \<Rightarrow> ms = []
      | Some e \<Rightarrow> \<exists>c \<in> set ms. e = elite_entry_of bin cell c \<and> (\<forall>m \<in> set ms. elite_score m \<le> elite_score c))"

lemma holder_score: "max (el_quality (elite_entry_of bin cell c)) (el_search_quality (elite_entry_of bin cell c)) = elite_score c"
  by (simp add: elite_entry_of_def elite_score_def)

lemma take_place_other: "k \<noteq> k' \<Longrightarrow> map_of (take_place e s k d) k' = map_of d k'"
  by (simp add: take_place_def split: option.split)

lemma take_place_best:
  assumes "holds_best bin cell ms (map_of d k)"
  shows "holds_best bin cell (ms @ [c]) (map_of (take_place (elite_entry_of bin cell c) (elite_score c) k d) k)"
proof (cases "map_of d k")
  case None
  then show ?thesis using assms by (simp add: holds_best_def take_place_def)
next
  case (Some e)
  then obtain h where h: "h \<in> set ms" "e = elite_entry_of bin cell h" "\<forall>m \<in> set ms. elite_score m \<le> elite_score h"
    using assms by (auto simp: holds_best_def)
  show ?thesis
  proof (cases "elite_score h \<le> elite_score c")
    case True
    then have "\<forall>m \<in> set ms. elite_score m \<le> elite_score c" using h(3) by auto
    then show ?thesis using Some True h(2) by (simp add: take_place_def holder_score holds_best_def)
  next
    case False
    then show ?thesis using Some h by (auto simp: take_place_def holder_score holds_best_def)
  qed
qed

text \<open>A candidate may name a niche twice; the second time it replaces itself.\<close>

lemma take_place_again:
  assumes "holds_best bin cell (ms @ [c]) (map_of d k)"
  shows "holds_best bin cell (ms @ [c]) (map_of (take_place (elite_entry_of bin cell c) (elite_score c) k d) k)"
proof -
  have "holds_best bin cell ((ms @ [c]) @ [c]) (map_of (take_place (elite_entry_of bin cell c) (elite_score c) k d) k)"
    by (rule take_place_best [OF assms])
  then show ?thesis by (auto simp: holds_best_def split: option.splits)
qed

lemma take_places:
  assumes "\<And>k. holds_best bin cell (if k \<in> done then ms k @ [c] else ms k) (map_of d k)"
  shows "holds_best bin cell (if k \<in> done \<union> set ks then ms k @ [c] else ms k)
     (map_of (fold (take_place (elite_entry_of bin cell c) (elite_score c)) ks d) k)"
  using assms
proof (induction ks arbitrary: d "done")
  case (Cons x ks)
  let ?d = "take_place (elite_entry_of bin cell c) (elite_score c) x d"
  have "holds_best bin cell (if k \<in> insert x done then ms k @ [c] else ms k) (map_of ?d k)" for k
  proof (cases "k = x")
    case True
    then show ?thesis using Cons.prems [of x] take_place_best take_place_again by (auto split: if_splits)
  next
    case False
    then show ?thesis using Cons.prems [of k] by (simp add: take_place_other)
  qed
  then show ?case using Cons.IH [of "insert x done" ?d] by simp
qed simp

lemma qd_run_best:
  "holds_best bin cell (filter (\<lambda>c. k \<in> set (niches_of c)) cs) (map_of (qa_elites_by_niche (qd_run bin cell cs)) k) \<and>
   holds_best bin cell (filter (\<lambda>c. cell c = k) cs) (map_of (qa_cell_elites (qd_run bin cell cs)) k)"
proof (induction cs arbitrary: k rule: rev_induct)
  case Nil
  then show ?case by (simp add: qd_run_def holds_best_def)
next
  case (snoc c cs)
  let ?a = "qd_run bin cell cs" and ?m = "\<lambda>k. filter (\<lambda>c. k \<in> set (niches_of c)) cs"
  have run: "qd_run bin cell (cs @ [c]) = qd_update bin cell c ?a" by (simp add: qd_run_def)
  have "holds_best bin cell (if k \<in> {} \<union> set (niches_of c) then ?m k @ [c] else ?m k)
      (map_of (fold (take_place (elite_entry_of bin cell c) (elite_score c)) (niches_of c) (qa_elites_by_niche ?a)) k)"
    using snoc by (intro take_places) simp
  moreover have "holds_best bin cell (filter (\<lambda>c. cell c = k) (cs @ [c]))
      (map_of (take_place (elite_entry_of bin cell c) (elite_score c) (cell c) (qa_cell_elites ?a)) k)"
    using snoc [of k] take_place_best [of bin cell _ "qa_cell_elites ?a" k c]
    by (cases "cell c = k") (simp_all add: take_place_other)
  ultimately show ?case by (cases "k \<in> set (niches_of c)") (simp_all add: run qd_update_def Let_def)
qed

section \<open>Theorems\<close>

text \<open>
  C20: selection loses nobody and no niche: every candidate is either a survivor or compacted, none is both, and every bin
  keeps a survivor at least as good as each of its members.
\<close>

theorem survivors_sound:
  assumes "distinct (ids cs)" "1 \<le> ec_cell_elite_reserve cfg"
    "quality_diversity_survivors bin cs capacity reserve cfg = (chosen, compacted)"
  shows "mset chosen + mset compacted = mset cs \<and> distinct (ids chosen) \<and>
     (\<forall>c \<in> set cs. \<exists>s \<in> set chosen. bin s = bin c \<and> elite_key c \<le> elite_key s)"
  using survivors_fact [OF assms(1)] assms(2,3) by (simp add: quality_diversity_survivors_def Let_def)

definition demo_entropy :: entropy_config where
  "demo_entropy = entropy_config_from_dict PNone"

definition demo_clones :: "candidate list" where
  "demo_clones = [sample_candidate ''a'' [], sample_candidate ''b'' [], sample_candidate ''c'' []]"

lemma demo_clones_distinct: "distinct (ids demo_clones)"
  by code_simp

theorem survivors_sound_witness:
  "\<exists>chosen compacted. quality_diversity_survivors (\<lambda>_. ''x'') demo_clones 1 1 demo_entropy = (chosen, compacted) \<and>
     length chosen + length compacted = 3 \<and> chosen \<noteq> []"
proof -
  obtain ch co where r: "quality_diversity_survivors (\<lambda>_. ''x'') demo_clones 1 1 demo_entropy = (ch, co)" by force
  have one: "1 \<le> ec_cell_elite_reserve demo_entropy" by code_simp
  note t = survivors_sound [OF demo_clones_distinct one r]
  have "length (demo_clones) = 3" by (simp add: demo_clones_def)
  then have "size (mset ch + mset co) = 3" using t by simp
  moreover have "ch \<noteq> []" using t by (auto simp: demo_clones_def)
  ultimately show ?thesis using r by auto
qed

text \<open>
  With one elite per bin the number of survivors is the target that the groups of bins give: for each group, the
  number of its bins or, if larger, its size capped at capacity and reserve.
\<close>

theorem survivors_count:
  assumes "distinct (ids cs)" "cs \<noteq> []" "ec_cell_elite_reserve cfg = 1" "1 \<le> capacity" "1 \<le> reserve"
  shows "int (length (fst (quality_diversity_survivors bin cs capacity reserve cfg))) =
     survivor_target bin cs capacity reserve"
  using survivor_count_fact [OF assms(1-3)] assms(4,5) by (simp add: quality_diversity_survivors_def Let_def)

theorem survivors_count_witness:
  "int (length (fst (quality_diversity_survivors (\<lambda>_. ''x'') demo_clones 1 1 demo_entropy))) = 2"
proof -
  have "demo_clones \<noteq> []" "ec_cell_elite_reserve demo_entropy = 1" by code_simp+
  then have "int (length (fst (quality_diversity_survivors (\<lambda>_. ''x'') demo_clones 1 1 demo_entropy))) =
      survivor_target (\<lambda>_. ''x'') demo_clones 1 1"
    by (intro survivors_count demo_clones_distinct) auto
  also have "\<dots> = 2" by code_simp
  finally show ?thesis .
qed

text \<open>Whatever is not on the Pareto frontier is dominated by something that is.\<close>

theorem pareto_covers:
  assumes "distinct (ids cs)" "c \<in> set cs"
  shows "cg_id c \<in> set (pareto_frontier_ids n cs) \<or>
    (\<exists>z \<in> set cs. cg_id z \<in> set (pareto_frontier_ids n cs) \<and> dominates (pareto_vector n z) (pareto_vector n c))"
  using assms by (rule pareto_covers_fact)

theorem pareto_covers_witness:
  "\<exists>z \<in> set demo_clones. cg_id z \<in> set (pareto_frontier_ids 3 demo_clones)"
  using pareto_covers [OF demo_clones_distinct, of "hd demo_clones" 3] by (auto simp: demo_clones_def)

text \<open>
  C21: every niche and every descriptor cell of the archive is held by one of the best of all candidates that were ever
  filed there, and by none only when there was none.
\<close>

theorem archive_keeps_best:
  "holds_best bin cell (filter (\<lambda>c. k \<in> set (niches_of c)) cs) (map_of (qa_elites_by_niche (qd_run bin cell cs)) k) \<and>
   holds_best bin cell (filter (\<lambda>c. cell c = k) cs) (map_of (qa_cell_elites (qd_run bin cell cs)) k)"
  by (rule qd_run_best)

end
