(* ===== verification/Crossover.thy ===== *)
theory Crossover
  imports PatchMerge QualityDiversity
begin

text \<open>
  The child of two candidates: candidates/crossover.py for plain candidates, with the choice of the partner by
  shared descriptor tokens, and \<open>project_patch_crossover\<close> of candidates/patch_merge.py for project candidates,
  which merges their patches. A project candidate is its genome with the fields that project_candidate.py adds. The
  identifier and the time of creation of a child are arguments; \<open>stable_hash\<close> hashes a JSON value. Of a genome, the
  artifact type and the verification result are the fields of the base record, since the subclass only changes their
  defaults. The sets of tokens are lists of distinct items.
\<close>

section \<open>Project candidates\<close>

record project_candidate =
  pc_base :: candidate
  pc_patch_set :: "patch_op list"
  pc_touched_files :: "string list"
  pc_touched_symbols :: "string list"
  pc_expected_effects :: "string list"
  pc_affected_tests :: "string list"
  pc_risk_notes :: "string list"
  pc_patch_application_result :: pydict
  pc_commands_run :: "pydict list"
  pc_mutation_operator :: string

definition project_init :: "project_candidate \<Rightarrow> project_candidate" where
  "project_init p =
     (let base = candidate_init (pc_base p)
      in p\<lparr> pc_base := base\<lparr> cg_artifact_type := str_or (cg_artifact_type base) ''project_patch'' \<rparr>,
            pc_touched_files := (if pc_touched_files p = [] then nonempty_strs (map po_path (pc_patch_set p))
                                 else nonempty_strs (pc_touched_files p)),
            pc_touched_symbols := nonempty_strs (pc_touched_symbols p),
            pc_expected_effects := nonempty_strs (pc_expected_effects p),
            pc_affected_tests := nonempty_strs (pc_affected_tests p),
            pc_risk_notes := nonempty_strs (pc_risk_notes p) \<rparr>)"

text \<open>\<open>to_dict\<close> and \<open>from_dict\<close>; the value of \<open>patch_set\<close> falls back to the one inside the artifact.\<close>

definition project_to_dict :: "project_candidate \<Rightarrow> pydict" where
  "project_to_dict p =
     candidate_to_dict (pc_base p) @
     [(''patch_set'', PList (map (PDict \<circ> patch_op_to_dict) (pc_patch_set p))),
      (''touched_files'', strs_val (pc_touched_files p)), (''touched_symbols'', strs_val (pc_touched_symbols p)),
      (''expected_effects'', strs_val (pc_expected_effects p)), (''affected_tests'', strs_val (pc_affected_tests p)),
      (''risk_notes'', strs_val (pc_risk_notes p)),
      (''patch_application_result'', PDict (pc_patch_application_result p)),
      (''commands_run'', dicts_val (pc_commands_run p)), (''mutation_operator'', PStr (pc_mutation_operator p))]"

definition loop_dicts :: "pyval \<Rightarrow> pyexn + pydict list" where
  "loop_dicts v =
     (case py_or v (PList []) of
        PList xs \<Rightarrow> Inr (dict_items (PList xs))
      | PStr _ \<Rightarrow> Inr []
      | PDict _ \<Rightarrow> Inr []
      | _ \<Rightarrow> Inl PyTypeError)"

definition patch_set_value :: "pydict \<Rightarrow> pyval" where
  "patch_set_value data =
     (let v = dget data ''patch_set''; w = dget (coerce_dict (dget data ''artifact'')) ''patch_set''
      in if \<not> truthy v \<and> is_PList w then w else v)"

definition project_from_dict :: "string \<Rightarrow> string \<Rightarrow> pydict \<Rightarrow> pyexn + project_candidate" where
  "project_from_dict new_id now data =
     sbind (candidate_from_dict new_id now data) (\<lambda>base0.
     sbind (loop_dicts (patch_set_value data)) (\<lambda>ops.
     sbind (dict_items_of data ''commands_run'') (\<lambda>commands.
       (let base = (if truthy (dget data ''artifact_type'') then base0 else base0\<lparr> cg_artifact_type := ''project_patch'' \<rparr>);
            pick = (\<lambda>a b. if a \<noteq> [] then a else b);
            verification = pick (coerce_dict (dget data ''preliminary_result''))
              (pick (coerce_dict (dget data ''verification_result'')) (cg_verification_result base))
        in Inr (project_init
             \<lparr> pc_base = base\<lparr> cg_verification_result := verification \<rparr>,
               pc_patch_set = map patch_op_from_dict ops,
               pc_touched_files = coerce_str_list (dget data ''touched_files''),
               pc_touched_symbols = coerce_str_list (dget data ''touched_symbols''),
               pc_expected_effects = coerce_str_list (py_or (dget data ''expected_effects'') (dget data ''expected_effect'')),
               pc_affected_tests = coerce_str_list (dget data ''affected_tests''),
               pc_risk_notes = coerce_str_list (dget data ''risk_notes''),
               pc_patch_application_result = coerce_dict (dget data ''patch_application_result''),
               pc_commands_run = commands,
               pc_mutation_operator = str_field (dget data ''mutation_operator'') [] \<rparr>)))))"

section \<open>The child of two candidates\<close>

definition delta_items :: "pydict \<Rightarrow> string \<Rightarrow> string list" where
  "delta_items d key =
     (case dget d key of
        PList xs \<Rightarrow> map py_str (filter truthy xs)
      | v \<Rightarrow> if truthy v then [py_str v] else [])"

definition verification_item :: "candidate \<Rightarrow> pydict" where
  "verification_item c =
     (if cg_verification_result c \<noteq> [] then [(''verification_result'', PDict (cg_verification_result c))] else []) @
     (if cg_verification_trace c \<noteq> [] then [(''verification_trace_count'', PInt (int (length (cg_verification_trace c))))] else []) @
     (if cg_tool_results c \<noteq> [] then [(''tool_result_count'', PInt (int (length (cg_tool_results c))))] else [])"

definition parent_verification_summary :: "candidate list \<Rightarrow> pydict" where
  "parent_verification_summary parents =
     fold (\<lambda>c d. if verification_item c \<noteq> [] then dset (cg_id c) (PDict (verification_item c)) d else d) parents []"

definition both :: "('a \<Rightarrow> string list) \<Rightarrow> 'a \<Rightarrow> 'a \<Rightarrow> string list \<Rightarrow> string list" where
  "both f a b extra = dedupe (f a @ f b @ extra)"

definition obligation_delta_of :: "candidate \<Rightarrow> candidate \<Rightarrow> string list \<Rightarrow> pydict" where
  "obligation_delta_of a b new_ids =
     map (\<lambda>(key, extra). (key, strs_val (both (\<lambda>c. delta_items (cg_obligation_delta c) key) a b extra)))
       [(''introduced'', new_ids), (''targeted'', []), (''decomposed'', []), (''discharged'', []), (''refuted'', [])]"

definition evidence_delta_of :: "candidate \<Rightarrow> candidate \<Rightarrow> pydict" where
  "evidence_delta_of a b =
     map (\<lambda>key. (key, strs_val (both (\<lambda>c. delta_items (cg_evidence_delta c) key) a b []))) [''added'', ''refuted'']"

text \<open>
  The fields in which both kinds of children agree: what differs are the artifact with its type, the claim, what the
  merge adds, the last descriptor and the metadata.
\<close>

definition child_of ::
  "string \<Rightarrow> string \<Rightarrow> candidate \<Rightarrow> candidate \<Rightarrow> pyval \<Rightarrow> string \<Rightarrow> string \<Rightarrow> string list \<Rightarrow> pydict list \<Rightarrow> string list \<Rightarrow> string \<Rightarrow>
   pydict \<Rightarrow> candidate" where
  "child_of new_id now a b artifact kind claim missing obligations new_ids descriptor metadata =
     candidate_init
       \<lparr> cg_id = new_id, cg_parent_ids = [cg_id a, cg_id b], cg_generation = max (cg_generation a) (cg_generation b) + 1,
         cg_lineage = both cg_lineage a b [], cg_artifact = artifact, cg_artifact_type = kind, cg_concise_claim = claim,
         cg_core_mechanism = join_with '' + '' (nonempty_strs [cg_core_mechanism a, cg_core_mechanism b]),
         cg_assumptions = both cg_assumptions a b [], cg_missing_parts = both cg_missing_parts a b missing,
         cg_uncertainty_notes = both cg_uncertainty_notes a b [],
         cg_edge_knowledge_seeds = both cg_edge_knowledge_seeds a b [],
         cg_inherited_genes = [extract_inheritable_gene_summary a, extract_inheritable_gene_summary b],
         cg_mutation_history = both cg_mutation_history a b [''CrossOver''],
         cg_tool_results = [], cg_verification_trace = [],
         cg_formal_artifacts = cg_formal_artifacts a @ cg_formal_artifacts b,
         cg_proof_obligations = cg_proof_obligations a @ cg_proof_obligations b @ obligations,
         cg_obligation_delta = obligation_delta_of a b new_ids,
         cg_evidence_refs = cg_evidence_refs a @ cg_evidence_refs b,
         cg_source_bindings = cg_source_bindings a @ cg_source_bindings b,
         cg_evidence_delta = evidence_delta_of a b, cg_verification_result = [],
         cg_novelty_descriptors = both cg_novelty_descriptors a b [descriptor],
         cg_niche_memberships = both cg_niche_memberships a b [], cg_failure_lessons = both cg_failure_lessons a b [],
         cg_current_fate = ''Active'', cg_multihead_scores = [],
         cg_contract_hash = str_or (cg_contract_hash a) (cg_contract_hash b), cg_created_at = now,
         cg_metadata = metadata \<rparr>"

definition plain_crossover :: "string \<Rightarrow> string \<Rightarrow> string \<Rightarrow> candidate \<Rightarrow> candidate \<Rightarrow> candidate" where
  "plain_crossover new_id now instruction a b =
     child_of new_id now a b
       (PStr (''Crossover of '' @ cg_id a @ '' and '' @ cg_id b @ '': '' @ py_str (cg_artifact a) @ [newline] @ ''---'' @
              [newline] @ py_str (cg_artifact b)))
       (if cg_artifact_type a = cg_artifact_type b then cg_artifact_type a else ''hybrid'')
       (''Hybrid of '' @ str_or (cg_concise_claim a) (cg_id a) @ '' + '' @ str_or (cg_concise_claim b) (cg_id b))
       [] [] [] ''crossover''
       [(''crossover_instruction'', PStr instruction),
        (''parent_verification_summary'', PDict (parent_verification_summary [a, b]))]"

definition conflict_id :: "(pyval \<Rightarrow> string) \<Rightarrow> merge_conflict \<Rightarrow> string" where
  "conflict_id stable_hash c = ''patch-conflict-'' @ take 16 (stable_hash (PDict (merge_conflict_to_dict c)))"

definition conflict_obligation :: "(pyval \<Rightarrow> string) \<Rightarrow> merge_conflict \<Rightarrow> pydict" where
  "conflict_obligation stable_hash c =
     [(''id'', PStr (conflict_id stable_hash c)), (''status'', PStr ''pending''),
      (''description'', PStr (''Resolve incompatible patch operations for '' @ mc_path c)),
      (''source'', PStr ''patch_merge''), (''conflict'', PDict (merge_conflict_to_dict c))]"

definition project_patch_crossover ::
  "(pyval \<Rightarrow> string) \<Rightarrow> string \<Rightarrow> string \<Rightarrow> string \<Rightarrow> project_candidate \<Rightarrow> project_candidate \<Rightarrow> project_candidate" where
  "project_patch_crossover stable_hash new_id now instruction p q =
     (let a = pc_base p; b = pc_base q;
          merge = merge_patch_sets (pc_patch_set p) (pc_patch_set q);
          conflicts = mr_conflicts merge
      in project_init
           \<lparr> pc_base = child_of new_id now a b
               (PDict [(''crossover'', strs_val [cg_id a, cg_id b]), (''merge'', PDict (merge_result_to_dict merge))])
               ''project_patch'' (''Project patch hybrid of '' @ cg_id a @ '' + '' @ cg_id b)
               (if conflicts \<noteq> [] then [''resolve_patch_merge_conflicts''] else [])
               (map (conflict_obligation stable_hash) conflicts) (map (conflict_id stable_hash) conflicts)
               ''project_patch_crossover''
               [(''crossover_instruction'', PStr instruction),
                (''patch_merge_conflicts'', PList (map (PDict \<circ> merge_conflict_to_dict) conflicts)),
                (''parent_verification_summary'', PDict (parent_verification_summary [a, b]))],
             pc_patch_set = mr_patch_set merge,
             pc_touched_files = both pc_touched_files p q (map po_path (mr_patch_set merge)),
             pc_touched_symbols = both pc_touched_symbols p q [],
             pc_expected_effects = both pc_expected_effects p q [''merge complementary patch genes''],
             pc_affected_tests = both pc_affected_tests p q [],
             pc_risk_notes = both pc_risk_notes p q [] @
               (if conflicts \<noteq> [] then [''patch_merge_conflicts_require_model_or_human_resolution''] else []),
             pc_patch_application_result = [], pc_commands_run = [], pc_mutation_operator = ''CrossOver'' \<rparr>)"

section \<open>The partner\<close>

record crossover_config =
  cc_min_shared :: int
  cc_global_donor_policy :: string

definition crossover_config_from_dict :: "pyval \<Rightarrow> crossover_config" where
  "crossover_config_from_dict v =
     (let d = coerce_dict v
      in \<lparr> cc_min_shared = positive_int (dget d ''min_shared_descriptor_tokens'') 1,
           cc_global_donor_policy = str_field (dget d ''global_donor_policy'') ''highest_search_quality'' \<rparr>)"

definition value_tokens :: "string \<Rightarrow> string list" where
  "value_tokens value =
     (let ws = words (map (\<lambda>c. if c \<in> set ''|:,'' then CHR '' '' else c) (lower (strip value)))
      in filter (\<lambda>t. t \<noteq> []) (join_with ''_'' ws # ws))"

definition descriptor_tokens :: "candidate \<Rightarrow> string list" where
  "descriptor_tokens c =
     dedupe (concat (map value_tokens
       ([cg_id c, cg_artifact_type c, cg_concise_claim c, cg_core_mechanism c] @ cg_novelty_descriptors c @
        cg_niche_memberships c @ cg_edge_knowledge_seeds c @
        map py_str (filter truthy (map (dget (cg_metadata c))
          [''descriptor_cell'', ''bin_key'', ''search_family'', ''family'', ''seed_type''])))))"

definition shared_tokens :: "string list \<Rightarrow> string list \<Rightarrow> string list" where
  "shared_tokens xs ys = filter (\<lambda>t. t \<in> set ys) (dedupe xs)"

definition jaccard_similarity :: "string list \<Rightarrow> string list \<Rightarrow> rat" where
  "jaccard_similarity xs ys =
     (let left = filter (\<lambda>t. strip t \<noteq> []) xs; right = filter (\<lambda>t. strip t \<noteq> []) ys; union = dedupe (left @ right)
      in if union = [] then 0 else of_nat (length (shared_tokens left right)) / of_nat (length union))"

definition local_key :: "crossover_config \<Rightarrow> candidate \<Rightarrow> candidate \<Rightarrow> rat \<times> rat \<times> rat \<times> string" where
  "local_key cfg pivot c =
     (let tokens = descriptor_tokens c; shared = shared_tokens (descriptor_tokens pivot) tokens
      in if int (length shared) < max 1 (if cc_min_shared cfg = 0 then 1 else cc_min_shared cfg) then (-1, -1, -1, cg_id c)
         else (jaccard_similarity (descriptor_tokens pivot) tokens, candidate_search_quality c,
               candidate_final_quality c, cg_id c))"

definition global_donor :: "candidate \<Rightarrow> candidate list \<Rightarrow> crossover_config \<Rightarrow> candidate option" where
  "global_donor pivot donors cfg =
     (let policy = lower (strip (cc_global_donor_policy cfg))
      in if donors = [] then None
         else if policy = ''highest_final_quality''
         then Some (first_max (\<lambda>c. (candidate_final_quality c, candidate_search_quality c, cg_id c)) donors)
         else if policy = ''lowest_similarity''
         then Some (first_max (\<lambda>c. (- jaccard_similarity (descriptor_tokens pivot) (descriptor_tokens c),
                                    candidate_search_quality c, cg_id c)) donors)
         else Some (first_max (\<lambda>c. (candidate_search_quality c, candidate_final_quality c, cg_id c)) donors))"

definition neighborhood_crossover_partner :: "candidate \<Rightarrow> candidate list \<Rightarrow> crossover_config \<Rightarrow> candidate option" where
  "neighborhood_crossover_partner pivot population cfg =
     (let donors = filter (\<lambda>c. cg_id c \<noteq> cg_id pivot) population;
          near = filter (\<lambda>c. 0 \<le> fst (local_key cfg pivot c)) donors
      in if donors = [] then None
         else if near \<noteq> [] then Some (first_max (local_key cfg pivot) near)
         else global_donor pivot donors cfg)"

section \<open>The conflicts of a merge\<close>

definition conflict_at :: "patch_op list \<Rightarrow> patch_op \<Rightarrow> merge_conflict \<Rightarrow> bool" where
  "conflict_at before op c \<longleftrightarrow> \<not> admitted before op \<and>
     (case first_on_path before (po_path op) of Some f \<Rightarrow> c = conflict_of f op | None \<Rightarrow> False)"

lemma merge_from_conflict_set:
  assumes "\<And>p. map_of by_path p = first_on_path done p"
  shows "c \<in> set (snd (merge_from by_path ops)) \<longleftrightarrow> (\<exists>n < length ops. conflict_at (done @ take n ops) (ops ! n) c)"
  using assms
proof (induction ops arbitrary: by_path "done")
  case (Cons op ops)
  have split: "(\<exists>n < length (op # ops). conflict_at (done @ take n (op # ops)) ((op # ops) ! n) c) \<longleftrightarrow>
      conflict_at done op c \<or> (\<exists>n < length ops. conflict_at ((done @ [op]) @ take n ops) (ops ! n) c)"
    by (simp add: Ex_less_Suc2)
  show ?case
  proof (cases "map_of by_path (po_path op)")
    case None
    have "map_of (dset (po_path op) op by_path) p = first_on_path (done @ [op]) p" for p
      using Cons.prems None by (auto simp: first_on_path_snoc split: option.split)
    then show ?thesis unfolding split using Cons.IH [of "dset (po_path op) op by_path" "done @ [op]"] Cons.prems None
      by (simp add: case_prod_unfold conflict_at_def)
  next
    case (Some f)
    have "map_of by_path p = first_on_path (done @ [op]) p" for p
      using Cons.prems [of p] Cons.prems [of "po_path op"] Some by (auto simp: first_on_path_snoc split: option.split)
    then show ?thesis unfolding split using Cons.IH [of by_path "done @ [op]"] Cons.prems [of "po_path op"] Some
      by (auto simp add: case_prod_unfold conflict_at_def admitted_def)
  qed
qed simp

lemma merge_conflict_set:
  "c \<in> set (mr_conflicts (merge_patch_sets left right)) \<longleftrightarrow>
     (\<exists>n < length (left @ right). conflict_at (take n (left @ right)) ((left @ right) ! n) c)"
  using merge_from_conflict_set [of "[]" "[]" c "left @ right"]
  by (simp add: merge_patch_sets_def case_prod_unfold first_on_path_def)

section \<open>The child\<close>

text \<open>A genome that carries no verdict of any evaluation.\<close>

definition no_verdict :: "candidate \<Rightarrow> bool" where
  "no_verdict c \<longleftrightarrow> cg_verification_result c = [] \<and> cg_verification_trace c = [] \<and> cg_tool_results c = [] \<and>
     cg_multihead_scores c = [] \<and> cg_current_fate c = ''Active''"

definition child_like :: "candidate \<Rightarrow> candidate \<Rightarrow> candidate \<Rightarrow> bool" where
  "child_like a b c \<longleftrightarrow> no_verdict c \<and> cg_generation a < cg_generation c \<and> cg_generation b < cg_generation c \<and>
     set (cg_parent_ids c) = {cg_id a, cg_id b} - {[]} \<and>
     set (cg_lineage c) = insert (cg_id c) (set (cg_lineage a) \<union> set (cg_lineage b) - {[]}) \<and>
     set (cg_proof_obligations a) \<union> set (cg_proof_obligations b) \<subseteq> set (cg_proof_obligations c)"

lemma set_both [simp]: "set (both f a b extra) = set (f a) \<union> set (f b) \<union> set extra"
  by (auto simp: both_def)

lemma set_nonempty_strs [simp]: "set (nonempty_strs ss) = set ss - {[]}"
  by (auto simp: nonempty_strs_def)

lemma both_Nil [simp]: "both f a b extra = [] \<longleftrightarrow> f a = [] \<and> f b = [] \<and> extra = []"
  by (metis Nil_is_append_conv both_def set_dedupe set_empty)

lemma child_of_ok: "candidate_ok (child_of new_id now a b artifact kind claim missing obligations new_ids descriptor metadata)"
  by (simp add: child_of_def candidate_init_ok)

lemma child_of_like:
  assumes "new_id \<noteq> []" "candidate_ok a"
  shows "child_like a b (child_of new_id now a b artifact kind claim missing obligations new_ids descriptor metadata)"
proof -
  have "normalize_fate (PStr ''Active'') None = ''Active''" by (rule normalize_fate_id) (simp add: ALL_FATES_def)
  moreover have "cg_lineage a \<noteq> []" using assms(2) by (auto simp: candidate_ok_def)
  ultimately show ?thesis
    using assms(1) by (auto simp: child_like_def no_verdict_def child_of_def candidate_init_def Let_def)
qed

lemma child_of_init:
  assumes "new_id \<noteq> []"
  shows "candidate_init (child_of new_id now a b artifact kind claim missing obligations new_ids descriptor metadata) =
     child_of new_id now a b artifact kind claim missing obligations new_ids descriptor metadata"
proof (rule candidate_init_id [OF child_of_ok])
  show "[] \<notin> set (cg_lineage (child_of new_id now a b artifact kind claim missing obligations new_ids descriptor metadata))"
    using assms by (auto simp: child_of_def candidate_init_def Let_def)
qed

definition project_child_base ::
  "(pyval \<Rightarrow> string) \<Rightarrow> string \<Rightarrow> string \<Rightarrow> string \<Rightarrow> project_candidate \<Rightarrow> project_candidate \<Rightarrow> candidate" where
  "project_child_base h new_id now instruction p q =
     (let conflicts = mr_conflicts (merge_patch_sets (pc_patch_set p) (pc_patch_set q)) in
      child_of new_id now (pc_base p) (pc_base q)
       (PDict [(''crossover'', strs_val [cg_id (pc_base p), cg_id (pc_base q)]),
               (''merge'', PDict (merge_result_to_dict (merge_patch_sets (pc_patch_set p) (pc_patch_set q))))])
       ''project_patch'' (''Project patch hybrid of '' @ cg_id (pc_base p) @ '' + '' @ cg_id (pc_base q))
       (if conflicts \<noteq> [] then [''resolve_patch_merge_conflicts''] else [])
       (map (conflict_obligation h) conflicts) (map (conflict_id h) conflicts) ''project_patch_crossover''
       [(''crossover_instruction'', PStr instruction),
        (''patch_merge_conflicts'', PList (map (PDict \<circ> merge_conflict_to_dict) conflicts)),
        (''parent_verification_summary'', PDict (parent_verification_summary [pc_base p, pc_base q]))])"

lemma project_child:
  assumes "new_id \<noteq> []"
  shows "pc_base (project_patch_crossover h new_id now instruction p q) = project_child_base h new_id now instruction p q"
proof -
  have "cg_artifact_type (project_child_base h new_id now instruction p q) = ''project_patch''"
    by (simp add: project_child_base_def child_of_def candidate_init_def Let_def)
  then have "(project_child_base h new_id now instruction p q)
      \<lparr> cg_artifact_type := str_or (cg_artifact_type (project_child_base h new_id now instruction p q)) ''project_patch'' \<rparr> =
    project_child_base h new_id now instruction p q"
    by (simp add: str_or_def)
  moreover have "candidate_init (project_child_base h new_id now instruction p q) = project_child_base h new_id now instruction p q"
    unfolding project_child_base_def Let_def by (rule child_of_init [OF assms])
  ultimately show ?thesis
    by (simp add: project_patch_crossover_def project_init_def Let_def project_child_base_def)
qed

lemma child_obligations:
  "cg_proof_obligations (project_child_base h new_id now instruction p q) =
     cg_proof_obligations (pc_base p) @ cg_proof_obligations (pc_base q) @
     map (conflict_obligation h) (mr_conflicts (merge_patch_sets (pc_patch_set p) (pc_patch_set q)))"
  by (simp add: project_child_base_def child_of_def candidate_init_def Let_def)

lemma delta_items_strs: "dget d key = strs_val ss \<Longrightarrow> delta_items d key = nonempty_strs ss"
  by (induction ss arbitrary: d) (simp_all add: delta_items_def strs_val_def nonempty_strs_def comp_def filter_map)

lemma child_introduced:
  assumes "c \<in> set (mr_conflicts (merge_patch_sets (pc_patch_set p) (pc_patch_set q)))"
  shows "conflict_id h c \<in> set (delta_items (cg_obligation_delta (project_child_base h new_id now instruction p q)) ''introduced'')"
proof -
  let ?ids = "map (conflict_id h) (mr_conflicts (merge_patch_sets (pc_patch_set p) (pc_patch_set q)))"
  have "cg_obligation_delta (project_child_base h new_id now instruction p q) = obligation_delta_of (pc_base p) (pc_base q) ?ids"
    by (simp add: project_child_base_def child_of_def candidate_init_def Let_def)
  then have "dget (cg_obligation_delta (project_child_base h new_id now instruction p q)) ''introduced'' =
      strs_val (both (\<lambda>c. delta_items (cg_obligation_delta c) ''introduced'') (pc_base p) (pc_base q) ?ids)"
    by (simp add: obligation_delta_of_def dget_def)
  from delta_items_strs [OF this] show ?thesis using assms by (simp add: conflict_id_def)
qed

section \<open>The choice of a partner\<close>

definition close_to :: "crossover_config \<Rightarrow> candidate \<Rightarrow> candidate \<Rightarrow> bool" where
  "close_to cfg pivot c \<longleftrightarrow>
     max 1 (cc_min_shared cfg) \<le> int (length (shared_tokens (descriptor_tokens pivot) (descriptor_tokens c)))"

definition similarity :: "candidate \<Rightarrow> candidate \<Rightarrow> rat" where
  "similarity c d = jaccard_similarity (descriptor_tokens c) (descriptor_tokens d)"

lemma jaccard_bounds: "0 \<le> jaccard_similarity xs ys" "jaccard_similarity xs ys \<le> 1"
proof -
  let ?l = "filter (\<lambda>t. strip t \<noteq> []) xs" and ?r = "filter (\<lambda>t. strip t \<noteq> []) ys"
  have "length (shared_tokens ?l ?r) = card (set ?l \<inter> set ?r)"
    unfolding shared_tokens_def by (subst distinct_card [symmetric]) (auto intro: arg_cong [where f = card])
  also have "\<dots> \<le> card (set (?l @ ?r))" by (rule card_mono) auto
  also have "\<dots> = length (dedupe (?l @ ?r))" by (metis distinct_card distinct_dedupe set_dedupe)
  finally have le: "length (shared_tokens ?l ?r) \<le> length (dedupe (?l @ ?r))" .
  show "0 \<le> jaccard_similarity xs ys" by (simp add: jaccard_similarity_def Let_def)
  show "jaccard_similarity xs ys \<le> 1"
    using le by (cases "dedupe (?l @ ?r) = []") (simp_all add: jaccard_similarity_def Let_def divide_le_eq_1)
qed

lemma local_key_near: "0 \<le> fst (local_key cfg pivot c) \<longleftrightarrow> close_to cfg pivot c"
proof -
  have "max 1 (if m = 0 then 1 else m) = max 1 m" for m :: int by simp
  then show ?thesis using jaccard_bounds(1) [of "descriptor_tokens pivot" "descriptor_tokens c"]
    unfolding local_key_def close_to_def Let_def by (simp add: not_less) (auto simp: max_def split: if_splits)
qed

lemma local_key_close: "close_to cfg pivot c \<Longrightarrow> fst (local_key cfg pivot c) = similarity pivot c"
  by (auto simp: local_key_def close_to_def similarity_def Let_def)

lemma fst_mono: "(k :: 'a :: linorder \<times> 'b :: linorder) \<le> l \<Longrightarrow> fst k \<le> fst l"
  by (auto simp: less_eq_prod_def)

lemma global_donor_spec:
  assumes "donors \<noteq> []"
  shows "\<exists>c. global_donor pivot donors cfg = Some c \<and> c \<in> set donors \<and>
     (lower (strip (cc_global_donor_policy cfg)) = ''lowest_similarity'' \<longrightarrow> (\<forall>d \<in> set donors. similarity pivot c \<le> similarity pivot d))"
proof -
  let ?low = "\<lambda>c. (- jaccard_similarity (descriptor_tokens pivot) (descriptor_tokens c), candidate_search_quality c, cg_id c)"
  have "similarity pivot (first_max ?low donors) \<le> similarity pivot d" if "d \<in> set donors" for d
    using first_max_spec [OF assms, of ?low] that fst_mono by (fastforce simp: similarity_def)
  then show ?thesis using assms first_max_spec [OF assms] by (auto simp: global_donor_def Let_def)
qed

definition partner_ok :: "crossover_config \<Rightarrow> candidate \<Rightarrow> candidate list \<Rightarrow> candidate \<Rightarrow> bool" where
  "partner_ok cfg pivot donors c \<longleftrightarrow> c \<in> set donors \<and>
     (if list_ex (close_to cfg pivot) donors
      then close_to cfg pivot c \<and> list_all (\<lambda>d. close_to cfg pivot d \<longrightarrow> similarity pivot d \<le> similarity pivot c) donors
      else lower (strip (cc_global_donor_policy cfg)) = ''lowest_similarity'' \<longrightarrow>
           list_all (\<lambda>d. similarity pivot c \<le> similarity pivot d) donors)"

lemma partner_fact:
  "case neighborhood_crossover_partner pivot population cfg of
     None \<Rightarrow> filter (\<lambda>c. cg_id c \<noteq> cg_id pivot) population = []
   | Some c \<Rightarrow> partner_ok cfg pivot (filter (\<lambda>c. cg_id c \<noteq> cg_id pivot) population) c"
proof -
  let ?donors = "filter (\<lambda>c. cg_id c \<noteq> cg_id pivot) population"
  let ?near = "filter (\<lambda>c. 0 \<le> fst (local_key cfg pivot c)) ?donors"
  consider "?donors = []" | "?donors \<noteq> []" "?near \<noteq> []" | "?donors \<noteq> []" "?near = []" by blast
  then show ?thesis
  proof cases
    case 1
    then show ?thesis by (simp add: neighborhood_crossover_partner_def Let_def)
  next
    case 2
    let ?c = "first_max (local_key cfg pivot) ?near"
    note best = first_max_spec [OF 2(2), of "local_key cfg pivot"]
    have c: "?c \<in> set ?donors" "close_to cfg pivot ?c" using best by (auto simp: local_key_near)
    have ex: "list_ex (close_to cfg pivot) ?donors" unfolding list_ex_iff using c by (intro bexI [of _ ?c])
    have "similarity pivot d \<le> similarity pivot ?c" if "d \<in> set ?donors" "close_to cfg pivot d" for d
    proof -
      have "local_key cfg pivot d \<le> local_key cfg pivot ?c" using best that by (simp add: local_key_near)
      from fst_mono [OF this] show ?thesis using that(2) c(2) by (simp add: local_key_close)
    qed
    then have "partner_ok cfg pivot ?donors ?c" unfolding partner_ok_def list_all_iff using c ex by simp
    then show ?thesis using 2 by (simp add: neighborhood_crossover_partner_def Let_def)
  next
    case 3
    then have "\<not> list_ex (close_to cfg pivot) ?donors" by (auto simp: list_ex_iff filter_empty_conv local_key_near)
    then show ?thesis using global_donor_spec [OF 3(1), of pivot cfg] 3
      by (auto simp: neighborhood_crossover_partner_def Let_def partner_ok_def list_all_iff)
  qed
qed

section \<open>The JSON form of a project candidate\<close>

definition project_ok :: "project_candidate \<Rightarrow> bool" where
  "project_ok p \<longleftrightarrow> candidate_ok (pc_base p) \<and> [] \<notin> set (cg_lineage (pc_base p)) \<and> cg_id (pc_base p) \<noteq> [] \<and>
     cg_artifact_type (pc_base p) \<noteq> [] \<and> cg_created_at (pc_base p) \<noteq> [] \<and>
     list_all (\<lambda>op. po_operation op \<noteq> []) (pc_patch_set p) \<and>
     (pc_patch_set p = [] \<longrightarrow> \<not> is_PList (dget (coerce_dict (cg_artifact (pc_base p))) ''patch_set'')) \<and>
     (pc_touched_files p = [] \<longrightarrow> nonempty_strs (map po_path (pc_patch_set p)) = []) \<and>
     (\<forall>l \<in> {pc_touched_files p, pc_touched_symbols p, pc_expected_effects p, pc_affected_tests p, pc_risk_notes p}. [] \<notin> set l)"

lemma patch_op_roundtrip: "po_operation op \<noteq> [] \<Longrightarrow> patch_op_from_dict (patch_op_to_dict op) = op"
  by (cases op) (simp add: patch_op_from_dict_def patch_op_to_dict_def dget_def coerce_dict_def)

lemma project_decode_base:
  assumes "project_ok p"
  shows "candidate_from_dict nid now (project_to_dict p) = Inr (pc_base p)"
proof -
  have "candidate_from_dict nid now (project_to_dict p) = candidate_from_dict nid now (candidate_to_dict (pc_base p))"
    unfolding candidate_from_dict_def project_to_dict_def candidate_to_dict_def dict_items_of_def dget_def dget_or_def
    by simp
  also have "\<dots> = Inr (pc_base p)"
    using assms by (intro candidate_dict_roundtrip) (simp_all add: project_ok_def)
  finally show ?thesis .
qed

lemma project_dget:
  "dget (project_to_dict p) ''patch_set'' = PList (map (PDict \<circ> patch_op_to_dict) (pc_patch_set p))"
  "dget (project_to_dict p) ''touched_files'' = strs_val (pc_touched_files p)"
  "dget (project_to_dict p) ''touched_symbols'' = strs_val (pc_touched_symbols p)"
  "dget (project_to_dict p) ''expected_effects'' = strs_val (pc_expected_effects p)"
  "dget (project_to_dict p) ''expected_effect'' = PNone"
  "dget (project_to_dict p) ''affected_tests'' = strs_val (pc_affected_tests p)"
  "dget (project_to_dict p) ''risk_notes'' = strs_val (pc_risk_notes p)"
  "dget (project_to_dict p) ''patch_application_result'' = PDict (pc_patch_application_result p)"
  "dget_or (project_to_dict p) ''commands_run'' (PList []) = dicts_val (pc_commands_run p)"
  "dget (project_to_dict p) ''mutation_operator'' = PStr (pc_mutation_operator p)"
  "dget (project_to_dict p) ''artifact'' = cg_artifact (pc_base p)"
  "dget (project_to_dict p) ''artifact_type'' = PStr (cg_artifact_type (pc_base p))"
  "dget (project_to_dict p) ''preliminary_result'' = PNone"
  "dget (project_to_dict p) ''verification_result'' = PDict (cg_verification_result (pc_base p))"
  by (simp_all add: project_to_dict_def candidate_to_dict_def dget_def dget_or_def)

lemma project_init_id:
  assumes "project_ok p"
  shows "project_init p = p"
proof -
  have b: "candidate_init (pc_base p) = pc_base p" using assms by (simp add: project_ok_def candidate_init_id)
  have l: "nonempty_strs (pc_touched_files p) = pc_touched_files p" "nonempty_strs (pc_touched_symbols p) = pc_touched_symbols p"
    "nonempty_strs (pc_expected_effects p) = pc_expected_effects p" "nonempty_strs (pc_affected_tests p) = pc_affected_tests p"
    "nonempty_strs (pc_risk_notes p) = pc_risk_notes p"
    using assms by (simp_all add: project_ok_def)
  have t: "str_or (cg_artifact_type (pc_base p)) ''project_patch'' = cg_artifact_type (pc_base p)"
    using assms by (simp add: project_ok_def str_or_def)
  have f: "(if pc_touched_files p = [] then nonempty_strs (map po_path (pc_patch_set p)) else pc_touched_files p) = pc_touched_files p"
    using assms by (simp add: project_ok_def)
  show ?thesis unfolding project_init_def b l t f Let_def by simp
qed

lemma project_dict_roundtrip_fact:
  assumes "project_ok p"
  shows "project_from_dict nid now (project_to_dict p) = Inr p"
proof -
  note d = project_dget [of p]
  have "loop_dicts (patch_set_value (project_to_dict p)) = Inr (map patch_op_to_dict (pc_patch_set p))"
  proof (cases "pc_patch_set p = []")
    case True
    then have "\<not> is_PList (dget (coerce_dict (cg_artifact (pc_base p))) ''patch_set'')" using assms by (simp add: project_ok_def)
    then show ?thesis using True by (simp add: patch_set_value_def d loop_dicts_def py_or_def dict_items_def)
  next
    case False
    then show ?thesis
      by (simp add: patch_set_value_def d loop_dicts_def py_or_def dict_items_def comp_def filter_map)
  qed
  moreover have "map patch_op_from_dict (map patch_op_to_dict (pc_patch_set p)) = pc_patch_set p"
    using assms by (simp add: project_ok_def list_all_iff patch_op_roundtrip map_idI)
  moreover have "dict_items_of (project_to_dict p) ''commands_run'' = Inr (pc_commands_run p)"
    by (rule dict_items_of_dicts) (rule d)
  moreover have e: "coerce_str_list (py_or (strs_val ss) PNone) = nonempty_strs ss" for ss
  proof (cases ss)
    case Nil
    then show ?thesis by (simp add: py_or_def strs_val_def coerce_str_list_def)
  next
    case (Cons x xs)
    then have "py_or (strs_val ss) PNone = strs_val ss" by (simp add: py_or_def strs_val_def)
    then show ?thesis by simp
  qed
  moreover have "nonempty_strs (pc_touched_files p) = pc_touched_files p" "nonempty_strs (pc_touched_symbols p) = pc_touched_symbols p"
    "nonempty_strs (pc_expected_effects p) = pc_expected_effects p" "nonempty_strs (pc_affected_tests p) = pc_affected_tests p"
    "nonempty_strs (pc_risk_notes p) = pc_risk_notes p"
    using assms by (simp_all add: project_ok_def)
  moreover have "cg_artifact_type (pc_base p) \<noteq> []" using assms by (simp add: project_ok_def)
  ultimately have "project_from_dict nid now (project_to_dict p) = Inr (project_init p)"
    unfolding project_from_dict_def project_decode_base [OF assms] by (simp add: d coerce_dict_def Let_def del: map_map) (cases p; simp)
  then show ?thesis by (simp add: project_init_id [OF assms])
qed

section \<open>Properties\<close>

text \<open>
  The child of two project candidates carries no verdict and no application result, comes after both parents and
  keeps their lineage and obligations; and every operation that conflicts with the first one on its path, in the order
  of the merge, is a pending obligation of the child, listed among the introduced ones.
\<close>

theorem crossover_child_sound:
  assumes "new_id \<noteq> []" "candidate_ok (pc_base p)"
    "first_on_path (take n (pc_patch_set p @ pc_patch_set q)) (po_path op) = Some f" "\<not> compatible f op"
    "n < length (pc_patch_set p @ pc_patch_set q)" "(pc_patch_set p @ pc_patch_set q) ! n = op"
  shows "let child = project_patch_crossover h new_id now instruction p q
     in child_like (pc_base p) (pc_base q) (pc_base child) \<and> pc_patch_application_result child = [] \<and>
        conflict_obligation h (conflict_of f op) \<in> set (cg_proof_obligations (pc_base child)) \<and>
        conflict_id h (conflict_of f op) \<in> set (delta_items (cg_obligation_delta (pc_base child)) ''introduced'')"
proof -
  have "conflict_at (take n (pc_patch_set p @ pc_patch_set q)) op (conflict_of f op)"
    using assms(3,4) by (simp add: conflict_at_def admitted_def)
  then have c: "conflict_of f op \<in> set (mr_conflicts (merge_patch_sets (pc_patch_set p) (pc_patch_set q)))"
    using assms(5,6) by (auto simp: merge_conflict_set)
  have "child_like (pc_base p) (pc_base q) (project_child_base h new_id now instruction p q)"
    unfolding project_child_base_def Let_def by (rule child_of_like [OF assms(1,2)])
  moreover have "pc_patch_application_result (project_patch_crossover h new_id now instruction p q) = []"
    by (simp add: project_patch_crossover_def project_init_def Let_def)
  ultimately show ?thesis using c child_introduced [OF c, of h]
    by (simp add: project_child [OF assms(1)] child_obligations Let_def)
qed

definition demo_parent :: "string \<Rightarrow> patch_op list \<Rightarrow> project_candidate" where
  "demo_parent cid ops = \<lparr> pc_base = sample_candidate cid [],
     pc_patch_set = ops, pc_touched_files = map po_path ops, pc_touched_symbols = [], pc_expected_effects = [],
     pc_affected_tests = [], pc_risk_notes = [], pc_patch_application_result = [], pc_commands_run = [],
     pc_mutation_operator = [] \<rparr>"

theorem crossover_child_sound_witness:
  "conflict_obligation py_str (conflict_of (demo_op ''write'' ''a'') (demo_op ''delete'' ''a'')) \<in>
     set (cg_proof_obligations (pc_base (project_patch_crossover py_str ''c'' ''t'' ''i''
       (demo_parent ''p'' [demo_op ''write'' ''a'']) (demo_parent ''q'' [demo_op ''delete'' ''a'']))))"
proof -
  let ?p = "demo_parent ''p'' [demo_op ''write'' ''a'']" and ?q = "demo_parent ''q'' [demo_op ''delete'' ''a'']"
  have ok: "candidate_ok (pc_base ?p)"
    by (simp add: candidate_ok_def demo_parent_def sample_candidate_def ALL_FATES_def)
  have "first_on_path (take 1 (pc_patch_set ?p @ pc_patch_set ?q)) (po_path (demo_op ''delete'' ''a'')) = Some (demo_op ''write'' ''a'')"
    "\<not> compatible (demo_op ''write'' ''a'') (demo_op ''delete'' ''a'')" by code_simp+
  from crossover_child_sound [OF _ ok this, of "''c''" py_str "''t''" "''i''"] show ?thesis
    by (simp add: demo_parent_def Let_def)
qed

text \<open>
  The partner of a candidate is another candidate of the population, and there is one whenever there is another. When
  some share enough descriptor tokens with it, the partner is one of these, and the most similar of them; otherwise the
  policy of the least similar donor picks a donor that no donor is less similar than.
\<close>

theorem crossover_partner_best:
  "case neighborhood_crossover_partner pivot population cfg of
     None \<Rightarrow> filter (\<lambda>c. cg_id c \<noteq> cg_id pivot) population = []
   | Some c \<Rightarrow> partner_ok cfg pivot (filter (\<lambda>c. cg_id c \<noteq> cg_id pivot) population) c"
  by (rule partner_fact)

text \<open>A well-formed project candidate is read back from its JSON form as it was.\<close>

theorem project_dict_roundtrip:
  assumes "project_ok p"
  shows "project_from_dict nid now (project_to_dict p) = Inr p"
  using assms by (rule project_dict_roundtrip_fact)

theorem project_dict_roundtrip_witness:
  "project_from_dict ''x'' ''y'' (project_to_dict (demo_parent ''p'' [demo_op ''write'' ''a''])) =
     Inr (demo_parent ''p'' [demo_op ''write'' ''a''])"
proof (rule project_dict_roundtrip)
  show "project_ok (demo_parent ''p'' [demo_op ''write'' ''a''])"
    by (simp add: project_ok_def candidate_ok_def demo_parent_def sample_candidate_def ALL_FATES_def demo_op_def)
qed

end
