(* ===== verification/SourceBinding.thy ===== *)
theory SourceBinding
  imports FileTree Genome
begin

text \<open>
  nexus/source_binding_resolver.py: the files, symbols and commands a candidate claims to be bound to, their
  resolution against the project on disk, and the admission route of the candidate that follows. The names that the
  text of a Python file defines at its top level (\<open>ast.parse\<close>) are the argument \<open>names\<close>, none for a text that does not
  parse; the directories tried for the project root after the explicit one are \<open>places\<close> (the working directory and
  the parents of the file of the resolver); the attribute \<open>patch_application_result\<close> of the candidate is
  \<open>patched\<close>; \<open>stable_hash\<close> hashes a JSON value.
\<close>

section \<open>Claims, resolutions and manifests\<close>

record binding_claim =
  bc_path :: string
  bc_symbol :: string
  bc_command :: string
  bc_kind :: string
  bc_source :: string

definition binding_claim_to_dict :: "binding_claim \<Rightarrow> pydict" where
  "binding_claim_to_dict c =
     [(''path'', PStr (bc_path c)), (''symbol'', PStr (bc_symbol c)), (''command'', PStr (bc_command c)),
      (''kind'', PStr (bc_kind c)), (''source'', PStr (bc_source c))]"

definition binding_claim_of_dict :: "pydict \<Rightarrow> binding_claim" where
  "binding_claim_of_dict d =
     \<lparr> bc_path = str_field (dget d ''path'') [], bc_symbol = str_field (dget d ''symbol'') [],
       bc_command = str_field (dget d ''command'') [], bc_kind = str_field (dget d ''kind'') [],
       bc_source = str_field (dget d ''source'') [] \<rparr>"

record binding_resolution =
  br_claim :: binding_claim
  br_status :: string
  br_diagnostics :: "string list"
  br_resolved_path :: string

definition binding_resolution_to_dict :: "binding_resolution \<Rightarrow> pydict" where
  "binding_resolution_to_dict r =
     [(''claim'', PDict (binding_claim_to_dict (br_claim r))), (''status'', PStr (br_status r)),
      (''diagnostics'', strs_val (br_diagnostics r)), (''resolved_path'', PStr (br_resolved_path r))]"

text \<open>\<open>[str(item) for item in data.get(key, []) if item]\<close>\<close>

definition str_items :: "pydict \<Rightarrow> string \<Rightarrow> pyexn + string list" where
  "str_items d key = sbind (iter_items (dget_or d key (PList []))) (\<lambda>xs. Inr (map py_str (filter truthy xs)))"

definition binding_resolution_of_dict :: "pydict \<Rightarrow> pyexn + binding_resolution" where
  "binding_resolution_of_dict d =
     sbind (str_items d ''diagnostics'') (\<lambda>diags.
       Inr \<lparr> br_claim = binding_claim_of_dict (coerce_dict (dget d ''claim'')),
             br_status = str_field (dget d ''status'') ''unresolved'', br_diagnostics = diags,
             br_resolved_path = str_field (dget d ''resolved_path'') [] \<rparr>)"

definition route_for_class :: "string \<Rightarrow> string" where
  "route_for_class cls =
     (case map_of [(''resolved'', ''normal''), (''negative_fixture_only'', ''negative_archive_only''),
                   (''unresolved'', ''repair_only''), (''invented'', ''repair_only''), (''unbindable'', ''repair_only''),
                   (''no_binding'', ''repair_only'')] cls of
        Some r \<Rightarrow> r | None \<Rightarrow> ''repair_only'')"

record binding_manifest =
  bm_candidate_id :: string
  bm_binding_class :: string
  bm_admission_route :: string
  bm_claims :: "binding_claim list"
  bm_resolutions :: "binding_resolution list"
  bm_diagnostics :: "string list"
  bm_manifest_hash :: string

definition binding_manifest_to_dict :: "binding_manifest \<Rightarrow> pydict" where
  "binding_manifest_to_dict m =
     [(''candidate_id'', PStr (bm_candidate_id m)), (''binding_class'', PStr (bm_binding_class m)),
      (''admission_route'', PStr (bm_admission_route m)),
      (''claims'', dicts_val (map binding_claim_to_dict (bm_claims m))),
      (''resolutions'', dicts_val (map binding_resolution_to_dict (bm_resolutions m))),
      (''diagnostics'', strs_val (bm_diagnostics m)), (''manifest_hash'', PStr (bm_manifest_hash m))]"

definition binding_manifest_of_dict :: "pyval \<Rightarrow> pyexn + binding_manifest" where
  "binding_manifest_of_dict v =
     (let raw = coerce_dict v; cls = str_field (dget raw ''binding_class'') ''no_binding''
      in sbind (dict_items_of raw ''claims'') (\<lambda>claims.
         sbind (dict_items_of raw ''resolutions'') (\<lambda>items.
         sbind (list_all_ok binding_resolution_of_dict items) (\<lambda>resolutions.
         sbind (str_items raw ''diagnostics'') (\<lambda>diags.
           Inr \<lparr> bm_candidate_id = str_field (dget raw ''candidate_id'') [], bm_binding_class = cls,
                 bm_admission_route = str_field (dget raw ''admission_route'') (route_for_class cls),
                 bm_claims = map binding_claim_of_dict claims, bm_resolutions = resolutions, bm_diagnostics = diags,
                 bm_manifest_hash = str_field (dget raw ''manifest_hash'') [] \<rparr>)))))"

definition with_hash :: "(pyval \<Rightarrow> string) \<Rightarrow> binding_manifest \<Rightarrow> binding_manifest" where
  "with_hash stable_hash m =
     m\<lparr> bm_manifest_hash :=
          ''source-binding-'' @ take 20 (stable_hash (PDict (ddel ''manifest_hash'' (binding_manifest_to_dict m)))) \<rparr>"

section \<open>The project on disk\<close>

definition is_project_root :: "ftree \<Rightarrow> fpath \<Rightarrow> bool" where
  "is_project_root fs r \<longleftrightarrow> exists_at fs (r @ [''pyproject.toml'']) \<and>
     node_at fs (r @ [''cognitive_evolve_runtime'']) = Some FDir"

definition resolved_project_root :: "ftree \<Rightarrow> fpath list \<Rightarrow> fpath option \<Rightarrow> fpath option" where
  "resolved_project_root fs places explicit =
     find (is_project_root fs) (map (realpath fs) ((case explicit of Some p \<Rightarrow> [p] | None \<Rightarrow> []) @ places))"

definition project_relative_path :: "ftree \<Rightarrow> fpath \<Rightarrow> string \<Rightarrow> string" where
  "project_relative_path fs base raw =
     (let text0 = replace_char (CHR 92) (CHR ''/'') (strip raw);
          text1 = (if starts_with ''a/'' text0 \<or> starts_with ''b/'' text0 then drop 2 text0 else text0);
          target = realpath fs (path_parts text1); base1 = realpath fs base
      in if text0 = [] \<or> text0 = ''/dev/null'' \<or> infix_of ''://'' text0 then []
         else if absolute_path text1 \<and> \<not> prefix base1 target then []
         else
           (let text2 = (if absolute_path text1 then as_posix (drop (length base1) target) else text1)
            in if ''..'' \<in> set (path_parts text2) then [] else as_posix (path_parts text2)))"

definition python_symbol_exists :: "(string \<Rightarrow> string list) \<Rightarrow> ftree \<Rightarrow> fpath \<Rightarrow> string \<Rightarrow> bool" where
  "python_symbol_exists names fs p symbol =
     (case node_at fs p of Some (FText s) \<Rightarrow> symbol \<in> set (names (universal_newlines s)) | _ \<Rightarrow> False)"

definition command_head :: "string \<Rightarrow> string" where
  "command_head command = takeWhile (\<lambda>c. c \<noteq> CHR '' '') (strip command)"

definition command_allowed :: "string \<Rightarrow> bool" where
  "command_allowed command \<longleftrightarrow>
     command_head command \<in> set [''python'', ''python3'', ''pytest'', ''ruff'', ''mypy'', ''npm'']"

definition applied_files_of :: "pyval \<Rightarrow> pyexn + string list" where
  "applied_files_of patched =
     (case patched of
        PDict d \<Rightarrow> sbind (str_items d ''applied_files'') (\<lambda>xs. Inr (map (replace_char (CHR 92) (CHR ''/'')) xs))
      | _ \<Rightarrow> Inr [])"

definition patch_materializes :: "pyval \<Rightarrow> pyval \<Rightarrow> string \<Rightarrow> string \<Rightarrow> pyexn + bool" where
  "patch_materializes patched artifact rel symbol =
     sbind (applied_files_of patched) (\<lambda>applied.
       (let path_ok = rel \<in> set applied;
            content = (case artifact of PDict d \<Rightarrow> join_with [newline] (map (py_str \<circ> snd) d) | v \<Rightarrow> str_field v [])
        in Inr (if rel \<noteq> [] \<and> \<not> infix_of rel content \<and> \<not> path_ok then False
                else if symbol \<noteq> [] \<and> \<not> infix_of symbol content then False
                else path_ok \<or> (rel \<noteq> [] \<and> infix_of rel content))))"

section \<open>Resolution\<close>

definition claims_from_candidate :: "candidate \<Rightarrow> binding_claim list" where
  "claims_from_candidate c =
     map (\<lambda>d. \<lparr> bc_path = str_field (py_or (py_or (dget d ''path'') (dget d ''file'')) (dget d ''source_path'')) [],
                bc_symbol = str_field (py_or (dget d ''symbol'') (dget d ''name'')) [],
                bc_command = str_field (dget d ''command'') [],
                bc_kind = str_field (py_or (py_or (py_or (dget d ''binding_mode'') (dget d ''kind'')) (dget d ''type''))
                            (dget d ''binding_type'')) ''source_file'',
                bc_source = ''source_bindings'' \<rparr>) (cg_source_bindings c) @
     (case dget (cg_metadata c) ''targeted_commands'' of
        PList xs \<Rightarrow> map (\<lambda>v. \<lparr> bc_path = [], bc_symbol = [], bc_command = py_str v, bc_kind = ''command'',
                               bc_source = ''metadata.targeted_commands'' \<rparr>) xs
      | _ \<Rightarrow> [])"

definition resolution :: "binding_claim \<Rightarrow> string \<Rightarrow> string list \<Rightarrow> string \<Rightarrow> pyexn + binding_resolution" where
  "resolution c status diags rel =
     Inr \<lparr> br_claim = c, br_status = status, br_diagnostics = diags, br_resolved_path = rel \<rparr>"

definition resolve_in_project ::
  "(string \<Rightarrow> string list) \<Rightarrow> ftree \<Rightarrow> fpath \<Rightarrow> pyval \<Rightarrow> pyval \<Rightarrow> binding_claim \<Rightarrow> string \<Rightarrow> pyexn + binding_resolution" where
  "resolve_in_project names fs base patched artifact c rel =
     (let kind = lower (bc_kind c); target = base @ path_parts rel;
          materialize = (kind \<in> set [''materialize'', ''artifact_file'', ''extend''] \<or> infix_of ''materialize'' kind)
      in if \<not> exists_at fs target then
           sbind (if materialize then patch_materializes patched artifact rel (bc_symbol c) else Inr False) (\<lambda>made.
             if made then resolution c ''resolved'' [] rel
             else resolution c (if materialize then ''unresolved'' else ''invented'') [''binding_path_missing''] rel)
         else if bc_symbol c \<noteq> [] \<and> target \<noteq> [] \<and> path_suffix (last target) = ''.py'' \<and>
                 \<not> python_symbol_exists names fs target (bc_symbol c) then
           sbind (if kind \<in> set [''extend'', ''materialize''] then patch_materializes patched artifact rel (bc_symbol c)
                  else Inr False) (\<lambda>made.
             if made then resolution c ''resolved'' [] rel
             else resolution c ''unresolved'' [''binding_symbol_missing''] rel)
         else resolution c ''resolved'' [] rel)"

definition resolve_claim ::
  "(string \<Rightarrow> string list) \<Rightarrow> ftree \<Rightarrow> fpath option \<Rightarrow> pyval \<Rightarrow> pyval \<Rightarrow> binding_claim \<Rightarrow> pyexn + binding_resolution" where
  "resolve_claim names fs project patched artifact c =
     (if lower (bc_kind c) \<in> set [''negative_fixture'', ''negative_fixture_only'', ''counterexample'']
      then resolution c ''negative_fixture_only'' [''negative_fixture_binding''] []
      else if bc_command c \<noteq> [] \<and> bc_path c = [] then
        (if command_allowed (bc_command c) then resolution c ''resolved'' [] []
         else resolution c ''unresolved'' [''command_not_allowlisted''] [])
      else if bc_path c = [] then resolution c ''no_binding'' [''binding_path_absent''] []
      else
        (case project of
           None \<Rightarrow> resolution c ''unresolved'' [''project_root_unavailable''] []
         | Some base \<Rightarrow>
             (let rel = project_relative_path fs base (bc_path c)
              in if rel = [] then resolution c ''invented'' [''binding_path_outside_project''] []
                 else resolve_in_project names fs base patched artifact c rel)))"

definition binding_class_of :: "string list \<Rightarrow> string" where
  "binding_class_of statuses =
     (if statuses \<noteq> [] \<and> list_all (\<lambda>s. s = ''resolved'') statuses then ''resolved''
      else if ''invented'' \<in> set statuses then ''invented''
      else if ''negative_fixture_only'' \<in> set statuses then ''negative_fixture_only''
      else if ''unresolved'' \<in> set statuses then ''unresolved''
      else if ''unbindable'' \<in> set statuses then ''unbindable''
      else ''no_binding'')"

definition resolve_candidate_source_bindings ::
  "(string \<Rightarrow> string list) \<Rightarrow> (pyval \<Rightarrow> string) \<Rightarrow> ftree \<Rightarrow> fpath list \<Rightarrow> fpath option \<Rightarrow> pyval \<Rightarrow> candidate \<Rightarrow>
   pyexn + binding_manifest" where
  "resolve_candidate_source_bindings names stable_hash fs places explicit patched c =
     (let project = resolved_project_root fs places explicit; claims = claims_from_candidate c
      in if claims = [] then
           Inr (with_hash stable_hash
             \<lparr> bm_candidate_id = cg_id c, bm_binding_class = ''no_binding'', bm_admission_route = ''repair_only'',
               bm_claims = [], bm_resolutions = [], bm_diagnostics = [''no_source_binding_claims''], bm_manifest_hash = [] \<rparr>)
         else
           sbind (list_all_ok (resolve_claim names fs project patched (cg_artifact c)) claims) (\<lambda>rs.
             (let cls = binding_class_of (map br_status rs)
              in Inr (with_hash stable_hash
                   \<lparr> bm_candidate_id = cg_id c, bm_binding_class = cls, bm_admission_route = route_for_class cls,
                     bm_claims = claims, bm_resolutions = rs, bm_diagnostics = dedupe (concat (map br_diagnostics rs)),
                     bm_manifest_hash = [] \<rparr>))))"

section \<open>The annotation of a candidate\<close>

definition annotate_with :: "binding_manifest \<Rightarrow> candidate \<Rightarrow> candidate" where
  "annotate_with m c =
     (let md1 = dset ''source_binding_manifest'' (PDict (binding_manifest_to_dict m)) (cg_metadata c);
          md2 = dset ''source_binding_class'' (PStr (bm_binding_class m)) md1;
          md3 = dset ''source_binding_admission_route'' (PStr (bm_admission_route m)) md2
      in c\<lparr> cg_metadata :=
             (if bm_binding_class m \<in> set [''invented'', ''unresolved'']
              then dset ''selection_deprioritized_until_new_delta'' (PBool True) md3 else md3) \<rparr>)"

definition annotate_candidate_source_bindings ::
  "(string \<Rightarrow> string list) \<Rightarrow> (pyval \<Rightarrow> string) \<Rightarrow> ftree \<Rightarrow> fpath list \<Rightarrow> fpath option \<Rightarrow> pyval \<Rightarrow> candidate \<Rightarrow>
   pyexn + candidate \<times> binding_manifest" where
  "annotate_candidate_source_bindings names stable_hash fs places explicit patched c =
     sbind (resolve_candidate_source_bindings names stable_hash fs places explicit patched c) (\<lambda>m.
       Inr (annotate_with m c, m))"

definition binding_manifest_in :: "candidate \<Rightarrow> pydict" where
  "binding_manifest_in c = coerce_dict (dget (cg_metadata c) ''source_binding_manifest'')"

definition candidate_source_binding_class :: "candidate \<Rightarrow> string" where
  "candidate_source_binding_class c =
     str_field (py_or (dget (binding_manifest_in c) ''binding_class'') (dget (cg_metadata c) ''source_binding_class'')) ''no_binding''"

definition candidate_admission_route :: "candidate \<Rightarrow> string" where
  "candidate_admission_route c =
     str_field (py_or (dget (binding_manifest_in c) ''admission_route'') (dget (cg_metadata c) ''source_binding_admission_route''))
       (route_for_class (candidate_source_binding_class c))"

definition final_candidate_source_bindings_allowed :: "candidate \<Rightarrow> bool" where
  "final_candidate_source_bindings_allowed c \<longleftrightarrow> candidate_source_binding_class c \<notin> set [''invented'', ''unresolved'']"

section \<open>When a claim is bound\<close>

text \<open>A resolved name is relative and does not climb.\<close>

lemma parts_posix: "path_parts (as_posix (path_parts s)) = path_parts s"
proof (cases "path_parts s = []")
  case True
  then show ?thesis by (simp add: as_posix_def) (simp add: path_parts_def)
next
  case False
  have "split_on (CHR ''/'') (join_with ''/'' (path_parts s)) = path_parts s"
    using False parts_no_slash by (intro split_join) (auto simp: list_all_iff)
  then show ?thesis using False parts_no_slash [of _ s]
    by (simp add: as_posix_def) (simp add: path_parts_def [of "join_with ''/'' (path_parts s)"] filter_id_conv)
qed

lemma relative_name_inside:
  assumes "project_relative_path fs base raw = rel" "rel \<noteq> []"
  shows "''..'' \<notin> set (path_parts rel)"
  using assms parts_posix by (auto simp: project_relative_path_def Let_def split: if_splits)

text \<open>
  A claim is bound when it is no negative fixture and names an allowed command, or a path inside the project that
  exists, with its symbol defined there when it is a Python file, or that the patch of the candidate makes.
\<close>

definition makes_file :: "pyval \<Rightarrow> pyval \<Rightarrow> string \<Rightarrow> binding_claim \<Rightarrow> bool" where
  "makes_file patched artifact rel c \<longleftrightarrow> patch_materializes patched artifact rel (bc_symbol c) = Inr True"

definition bound_in ::
  "(string \<Rightarrow> string list) \<Rightarrow> ftree \<Rightarrow> fpath \<Rightarrow> pyval \<Rightarrow> pyval \<Rightarrow> binding_claim \<Rightarrow> string \<Rightarrow> bool" where
  "bound_in names fs base patched artifact c rel \<longleftrightarrow> ''..'' \<notin> set (path_parts rel) \<and>
     (let target = base @ path_parts rel; kind = lower (bc_kind c)
      in if exists_at fs target
         then bc_symbol c = [] \<or> target = [] \<or> path_suffix (last target) \<noteq> ''.py'' \<or>
              python_symbol_exists names fs target (bc_symbol c) \<or>
              (kind \<in> {''extend'', ''materialize''} \<and> makes_file patched artifact rel c)
         else (kind \<in> {''artifact_file'', ''extend''} \<or> infix_of ''materialize'' kind) \<and> makes_file patched artifact rel c)"

definition bound_claim ::
  "(string \<Rightarrow> string list) \<Rightarrow> ftree \<Rightarrow> fpath option \<Rightarrow> pyval \<Rightarrow> pyval \<Rightarrow> binding_claim \<Rightarrow> bool" where
  "bound_claim names fs project patched artifact c \<longleftrightarrow>
     lower (bc_kind c) \<notin> {''negative_fixture'', ''negative_fixture_only'', ''counterexample''} \<and>
     (if bc_path c = [] then bc_command c \<noteq> [] \<and> command_allowed (bc_command c)
      else case project of
             None \<Rightarrow> False
           | Some base \<Rightarrow> (let rel = project_relative_path fs base (bc_path c)
                          in rel \<noteq> [] \<and> bound_in names fs base patched artifact c rel))"

lemma resolution_Inr [simp]:
  "resolution c status diags rel = Inr r \<longleftrightarrow>
     r = \<lparr> br_claim = c, br_status = status, br_diagnostics = diags, br_resolved_path = rel \<rparr>"
  by (auto simp: resolution_def)

lemma resolve_in_project_status:
  assumes "resolve_in_project names fs base patched artifact c rel = Inr r" "''..'' \<notin> set (path_parts rel)"
  shows "br_status r = ''resolved'' \<longleftrightarrow> bound_in names fs base patched artifact c rel"
proof -
  have kind: "lower (bc_kind c) \<in> set [''materialize'', ''artifact_file'', ''extend''] \<or> infix_of ''materialize'' (lower (bc_kind c)) \<longleftrightarrow>
      lower (bc_kind c) \<in> {''artifact_file'', ''extend''} \<or> infix_of ''materialize'' (lower (bc_kind c))"
    by auto
  show ?thesis
  proof (cases "exists_at fs (base @ path_parts rel)")
    case True
    then show ?thesis using assms unfolding resolve_in_project_def bound_in_def makes_file_def Let_def
      by (auto simp: sbind_Inr_iff split: if_splits)
  next
    case False
    then show ?thesis using assms unfolding resolve_in_project_def bound_in_def makes_file_def Let_def kind
      by (auto simp: sbind_Inr_iff split: if_splits)
  qed
qed

lemma resolve_claim_status:
  assumes "resolve_claim names fs project patched artifact c = Inr r"
  shows "br_status r = ''resolved'' \<longleftrightarrow> bound_claim names fs project patched artifact c"
proof -
  consider "lower (bc_kind c) \<in> set [''negative_fixture'', ''negative_fixture_only'', ''counterexample'']"
    | "lower (bc_kind c) \<notin> set [''negative_fixture'', ''negative_fixture_only'', ''counterexample'']" "bc_path c = []"
    | "lower (bc_kind c) \<notin> set [''negative_fixture'', ''negative_fixture_only'', ''counterexample'']" "bc_path c \<noteq> []"
    by blast
  then show ?thesis
  proof cases
    case 3
    show ?thesis
    proof (cases project)
      case None
      then show ?thesis using assms 3 by (auto simp: resolve_claim_def bound_claim_def)
    next
      case (Some base)
      let ?rel = "project_relative_path fs base (bc_path c)"
      show ?thesis
      proof (cases "?rel = []")
        case True
        then show ?thesis using assms 3 Some by (auto simp: resolve_claim_def bound_claim_def Let_def)
      next
        case False
        have "resolve_in_project names fs base patched artifact c ?rel = Inr r"
          using assms 3 Some False by (auto simp: resolve_claim_def Let_def split: if_splits)
        from resolve_in_project_status [OF this relative_name_inside [OF refl False]] show ?thesis
          using 3 Some False by (auto simp: bound_claim_def Let_def)
      qed
    qed
  qed (use assms in \<open>auto simp: resolve_claim_def bound_claim_def split: if_splits\<close>)
qed

section \<open>The route of a candidate\<close>

lemma binding_class_resolved: "binding_class_of sts = ''resolved'' \<longleftrightarrow> sts \<noteq> [] \<and> list_all (\<lambda>s. s = ''resolved'') sts"
  by (auto simp: binding_class_of_def)

lemma route_normal: "route_for_class cls = ''normal'' \<longleftrightarrow> cls = ''resolved''"
  by (auto simp: route_for_class_def)

lemma route_nonempty: "route_for_class cls \<noteq> []"
  by (auto simp: route_for_class_def)

lemma annotated_fields:
  "binding_manifest_in (annotate_with m c) = binding_manifest_to_dict m"
  "dget (cg_metadata (annotate_with m c)) ''source_binding_class'' = PStr (bm_binding_class m)"
  "cg_id (annotate_with m c) = cg_id c"
  by (simp_all add: binding_manifest_in_def annotate_with_def Let_def dget_dset coerce_dict_def)

lemma annotated_route: "bm_admission_route m \<noteq> [] \<Longrightarrow> candidate_admission_route (annotate_with m c) = bm_admission_route m"
  by (simp add: candidate_admission_route_def annotated_fields binding_manifest_to_dict_def dget_def py_or_def)

lemma annotated_class: "bm_binding_class m \<noteq> [] \<Longrightarrow> candidate_source_binding_class (annotate_with m c) = bm_binding_class m"
  by (simp add: candidate_source_binding_class_def annotated_fields binding_manifest_to_dict_def dget_def py_or_def)

lemma manifest_route:
  assumes "resolve_candidate_source_bindings names h fs places explicit patched c = Inr m"
  shows "bm_admission_route m \<noteq> [] \<and> (bm_admission_route m = ''normal'' \<longleftrightarrow> claims_from_candidate c \<noteq> [] \<and>
     list_all (bound_claim names fs (resolved_project_root fs places explicit) patched (cg_artifact c)) (claims_from_candidate c))"
proof (cases "claims_from_candidate c = []")
  case True
  then show ?thesis using assms by (auto simp: resolve_candidate_source_bindings_def Let_def with_hash_def)
next
  case False
  let ?f = "resolve_claim names fs (resolved_project_root fs places explicit) patched (cg_artifact c)"
  let ?ok = "bound_claim names fs (resolved_project_root fs places explicit) patched (cg_artifact c)"
  obtain rs where rs: "list_all_ok ?f (claims_from_candidate c) = Inr rs"
    and m: "bm_admission_route m = route_for_class (binding_class_of (map br_status rs))"
    using assms False by (auto simp: resolve_candidate_source_bindings_def Let_def with_hash_def sbind_Inr_iff)
  have r: "list_all2 (\<lambda>x y. ?f x = Inr y) (claims_from_candidate c) rs" using rs by (simp add: list_all_ok_Inr)
  then have "list_all (\<lambda>s. s = ''resolved'') (map br_status rs) \<longleftrightarrow> list_all ?ok (claims_from_candidate c)"
    by (induction rule: list_all2_induct) (auto simp: resolve_claim_status)
  moreover have "rs \<noteq> []" using r False by auto
  ultimately show ?thesis using m False by (simp add: route_nonempty route_normal binding_class_resolved)
qed

section \<open>What the resolver accepts or misses\<close>

text \<open>A project whose root is the repository of the runtime, with a link out of it.\<close>

definition demo_repo :: ftree where
  "demo_repo = [([], FDir), ([''p''], FDir), ([''p'', ''pyproject.toml''], FText []),
     ([''p'', ''cognitive_evolve_runtime''], FDir), ([''p'', ''m.py''], FText ''f''), ([''p'', ''a''], FDir),
     ([''p'', ''a'', ''x.py''], FText ''g''), ([''p'', ''l''], FLink True [''etc'']), ([''etc''], FDir),
     ([''etc'', ''hosts''], FText ''h''), ([''q''], FDir), ([''q'', ''pyproject.toml''], FText [])]"

definition demo_claim :: "string \<Rightarrow> string \<Rightarrow> binding_claim" where
  "demo_claim path symbol = \<lparr> bc_path = path, bc_symbol = symbol, bc_command = [], bc_kind = ''source_file'', bc_source = [] \<rparr>"

abbreviation demo_status :: "string \<Rightarrow> string \<Rightarrow> string option" where
  "demo_status path symbol \<equiv>
     (case resolve_claim (\<lambda>s. [s]) demo_repo (Some [''p'']) PNone PNone (demo_claim path symbol) of
        Inr r \<Rightarrow> Some (br_status r) | Inl _ \<Rightarrow> None)"

lemma root_is_bound: "demo_status ''.'' ''any_symbol'' = Some ''resolved''"
  by code_simp

lemma directory_named_like_a_diff_prefix: "demo_status ''a/x.py'' [] = Some ''invented''" "demo_status ''./a/x.py'' ''g'' = Some ''resolved''"
  by code_simp+

lemma link_out_of_project: "demo_status ''l/hosts'' [] = Some ''resolved''" "realpath demo_repo [''p'', ''l'', ''hosts''] = [''etc'', ''hosts'']"
  by code_simp+

lemma other_project_ignored: "resolved_project_root demo_repo [[''p'']] (Some [''q'']) = Some [''p'']"
  by code_simp

section \<open>Properties\<close>


definition demo_bound :: "string \<Rightarrow> candidate" where
  "demo_bound symbol = (sample_candidate ''c'' [])\<lparr> cg_source_bindings := [[(''path'', PStr ''m.py''), (''symbol'', PStr symbol)]] \<rparr>"

lemma demo_annotated:
  "case annotate_candidate_source_bindings (\<lambda>s. [s]) (\<lambda>_. ''h'') demo_repo [[''p'']] None PNone (demo_bound ''f'') of
     Inr (c', _) \<Rightarrow> candidate_admission_route c' = ''normal'' | Inl _ \<Rightarrow> False"
  by code_simp


end
