(* ===== verification/Spec2Isabelle.thy ===== *)
theory Spec2Isabelle
  imports Transitions Fates StepRunner ResumePlanner CircuitBreaker WriteBehind EventStore Z3Solve Regime Minimax
    LatentArchive StopDecision Executor ApiGuard Governor CallBudget Snapshot ClosureGate Crossover
    SourceBinding
begin

text \<open>
  A verification library for the CognitiveEvolve runtime (the Python package cognitive_evolve_runtime). The runtime
  evolves a population of candidate answers with calls to language models, verifies candidates, and keeps its runs durable.
  The development covers the parts whose correctness does not depend on what a model answers: the data
  every stage exchanges, the durable store and its recovery, the verification and grading of results, the rules that
  stop a run or declare an answer final, and the guards of shared resources.

  \<^bold>\<open>Conventions.\<close> Theory Prelude models the Python values the code passes around (decoded JSON and Any fields) and the
  part of the standard library that the code uses on them. A Python text is a list of characters, read as code points below
  256; an int is an int; a float is the rational it denotes, with exact arithmetic, and NaN and the infinities are not
  represented; a dict is an association list in insertion order; a raised exception is an Inl. Clocks, fresh
  identifiers, hashes (stable_hash, SHA-256), json.loads and the Z3 binding are arguments of the definitions that use
  them; what a property relies on of them is one of its hypotheses. A dataclass is a record, an enum a datatype, a method
  a function from the old state to the result and the new state. Code under a lock, and a file replaced atomically, is one step.

  \<^bold>\<open>Data of the search.\<close> ValidationResult (validation/result.py) decodes verdicts of validators. Genome (candidates/genome.py)
  is the candidate record, its invariant, its JSON form and the producer-safe view of payloads, which is shown to make
  no claim of success. Fates (candidates/fate_machine.py, nexus/fate_semantics.py) is the checked transition of a
  candidate's fate with its bounded history. LatentArchive (archives/latent_pareto.py) is the archive of representatives
  per intent: all its tables agree after any sequence of operations, and pruning and quotas remove exactly what they should.

  QualityDiversity (archives/quality_diversity.py, nexus/v23_theory_config.py) bins candidates, finds the Pareto frontier and
  selects the survivors of a population: the selection splits the population, keeps the elites of every bin and has the
  size the groups ask for; the archive of elites holds a best candidate in every place.

  \<^bold>\<open>Patches.\<close> Paths and FileTree are file names and a tree of files with links, with the calls of the Python library that the
  code uses. UnifiedDiff and PatchSandbox (tools/patch_sandbox.py, candidates/project_candidate.py) read and check diffs, copy a
  project into a sandbox, and apply the operations of a candidate under path guards; the operations refine a
  specification on a plain map from paths to contents, and a candidate changes nothing outside its directory. PatchMerge
  (candidates/patch_merge.py) merges two patches: it reports no conflict exactly when every operation agrees with the first
  one on its path, and applying a clean merge equals applying both patches. Crossover (candidates/crossover.py, patch_merge.py)
  makes the child of two candidates, without verdicts and with every conflict as an obligation, and picks a partner.
  SourceBinding (nexus/source_binding_resolver.py) resolves what a candidate claims to be bound to against the project; it is
  admitted on the normal route exactly when all its claims are bound.

  \<^bold>\<open>Durability.\<close> Transitions states the contract of a guarded state machine as a locale, interpreted by the fates
  and by the step states. StepState and CheckpointStore (durable/step_state.py, durable/checkpoint_store.py) are the
  status of a step and its files; StepRunner (durable/step_runner.py) runs a step once and for all; ResumePlanner
  (durable/resume_planner.py, durable/reaper.py) classifies and repairs the steps after a crash. CircuitBreaker
  (durable/provider_circuit_breaker.py) refines a specification on traces of calls. WriteBehind (durable/async_writer.py)
  is the queue between the search and the store as a state machine. EventStore (persistence/event_store.py) is the
  append-only log on bytes: watermarks, the audit against a watermark, replay, and the repair of a torn tail.
  Snapshot (persistence/transactional_snapshot.py) publishes several files by switching one pointer: a commit is the list of its
  operations on the file system, so that a crash is a prefix of it.

  \<^bold>\<open>Verification.\<close> VerificationTypes (verification/ladder.py, verification/types.py) is the ladder of strengths and the results
  with their JSON forms; Honesty (verification/honesty_core.py, strength.py, grading.py, replay_runner.py) measures a
  verifier from engine observations and grades results; Regime (verification/regime.py) compiles obligations into probes;
  Z3Dsl and Z3Solve (verification/z3_dsl.py) are the validator and the compiler of the constraint language over a back
  end given by its interface, the locale z3_backend, interpreted by an evaluator; the type soundness theorem composes the two.
  Minimax (verification/minimax_budget.py) splits the budget of adversarial probes. Evidence (core/scalars.py,
  evaluators/evidence.py, evaluators/evidence_authority.py) aggregates the evidence about a candidate by authority and
  artifact. StopDecision (nexus/stop_reasons.py, stop_decision.py, loop/adaptive_stop.py, loop/budget.py, budget_factory.py,
  model_errors.py, diagnosis.py) decides after each round whether the search stops, and why.

  \<^bold>\<open>Closure.\<close> EProcess (outcomes/anytime_valid.py) is the sequential test of a candidate against a baseline: over its
  logarithms it computes the exact e-value, and in any experiment without an effect it crosses its threshold with chance at
  most alpha. Calibration (outcomes/calibration.py) is the table of past predictions. Bundles states the contract of a
  bundle bound to its content by a hash as a locale, interpreted by Falsification (outcomes/falsification.py) and
  ReplayBundle (outcomes/closure_bundle.py), each with an audit shown equal to a declarative condition. ClosureGate composes
  the four into the full closure gate of outcomes/runtime_bridge.py, and their theorems into its guarantees.

  \<^bold>\<open>Shared resources.\<close> Executor (api/executor.py) is the bounded executor of jobs as a transition system. SlidingWindow
  states the contract of a time window kept as a queue, a locale interpreted by ApiGuard (api/security.py, api/guards.py),
  the rate limiter and body guard of the API, and twice by Governor (llm/governor.py), the request and token windows of
  the model calls. CallBudget (llm/budget.py, llm/session.py) is the reservation of dollar budget by concurrent calls.

  \<^bold>\<open>Fuel and bounds.\<close> Loops are structural recursion or come with a termination proof; the one loop that waits for
  the clock, in Governor, has fuel, and 1201 turns are shown to be enough. Reachable states are inductive relations over
  the operations; the counts and costs that only the proofs need are ghost arguments of those relations, not state.

  \<^bold>\<open>Not modelled.\<close> The prompts and the repair of model output, the adapters, the loop that orchestrates model calls and
  the mutation of candidates by a model: what they compute is decided by the model's answers. File locks, subprocesses,
  the web server, the command line and the input snapshots: operating-system and network effects. The patch
  tool that applies a unified diff and the parser of Python are parameters. Ranking and the numeric heuristics of the theory layer: floating-point scores without a contract. The remaining archives, the ledgers
  of outcomes and the caches of verification are not modelled yet.
\<close>

end
